(* ===== verification/Prelude.thy ===== *)
theory Prelude
  imports Complex_Main "HOL-Library.AList" "HOL-Library.Sublist" "HOL-Library.Char_ord"
    "HOL-Library.List_Lexorder" "HOL-Library.Multiset"
begin

text \<open>
  Shared vocabulary of the development: what the TypeScript sources use of the JavaScript
  language and its standard library.

  \<^item> Strings are \<open>char\<close> lists, one \<open>char\<close> per code unit in the range 0..255. The trimmed
    white space of \<open>String.prototype.trim\<close> is written out for that range.
  \<^item> Numbers whose finiteness the code tests are values of \<open>number\<close>: exact rationals, the two
    infinities and \<open>NaN\<close>. Rounding of doubles is not modelled; the operations the code applies
    to them are comparisons, \<open>Math.floor\<close>, \<open>Math.max\<close> and \<open>Math.min\<close>, which are exact, and
    sums and differences of millisecond time stamps, which are exact below 2 to the 53.
  \<^item> A \<open>Set\<close> is a list without repetitions in insertion order, a \<open>Map\<close> an association list in
    insertion order (\<open>AList.update\<close> replaces in place or appends at the end, as
    \<open>Map.prototype.set\<close> does).
  \<^item> A thrown error is the left summand of a sum.
\<close>

named_theorems js_simps \<open>unfolding rules for the JavaScript library operations\<close>
named_theorems machine_simps \<open>transition tables of the state machines\<close>

section \<open>Strings\<close>

definition js_ws :: "char \<Rightarrow> bool" where
  "js_ws c \<longleftrightarrow> (of_char c :: nat) \<in> {9, 10, 11, 12, 13, 32, 160}"

definition js_trim :: "string \<Rightarrow> string" where
  "js_trim s = rev (dropWhile js_ws (rev (dropWhile js_ws s)))"

text \<open>\<open>!value.trim()\<close>: the string is empty once trimmed.\<close>

definition blank :: "string \<Rightarrow> bool" where
  "blank s \<longleftrightarrow> js_trim s = []"

lemma dropWhile_idem [simp]: "dropWhile P (dropWhile P xs) = dropWhile P xs"
  by (induction xs) auto

lemma rev_dropWhile_keeps_hd:
  "xs \<noteq> [] \<Longrightarrow> \<not> P (hd xs) \<Longrightarrow>
     rev (dropWhile P (rev xs)) \<noteq> [] \<and> hd (rev (dropWhile P (rev xs))) = hd xs"
  by (cases xs) (auto simp: dropWhile_append)

lemma js_trim_Nil [simp]: "js_trim [] = []"
  by (simp add: js_trim_def)

lemma js_trim_idem [simp]: "js_trim (js_trim s) = js_trim s"
proof (cases "dropWhile js_ws s = []")
  case True
  then have "js_trim s = []" by (simp only: js_trim_def rev.simps dropWhile.simps)
  then show ?thesis by (simp only: js_trim_Nil)
next
  case False
  then have "\<not> js_ws (hd (dropWhile js_ws s))" by (rule hd_dropWhile)
  with False have "dropWhile js_ws (rev (dropWhile js_ws (rev (dropWhile js_ws s)))) =
      rev (dropWhile js_ws (rev (dropWhile js_ws s)))"
    using rev_dropWhile_keeps_hd [of "dropWhile js_ws s" js_ws] by (cases "rev (dropWhile js_ws (rev (dropWhile js_ws s)))") auto
  then show ?thesis by (simp add: js_trim_def)
qed

lemma blank_trim [simp]: "blank (js_trim s) = blank s"
  by (simp add: blank_def)

lemma blank_Nil [simp]: "blank []"
  by (simp add: blank_def js_trim_def)

lemma not_blank_trim [simp]: "\<not> blank s \<Longrightarrow> js_trim s \<noteq> []"
  by (simp add: blank_def)

lemma not_blank_not_Nil: "\<not> blank s \<Longrightarrow> s \<noteq> []"
  by auto

text \<open>\<open>a ?? b\<close>, for an \<open>a\<close> that may be absent.\<close>

definition nullish :: "'a option \<Rightarrow> 'a \<Rightarrow> 'a" where
  "nullish a b = (case a of None \<Rightarrow> b | Some x \<Rightarrow> x)"

lemma nullish_Some [simp]: "nullish (Some x) y = x"
  by (simp add: nullish_def)

lemma nullish_None [simp]: "nullish None y = y"
  by (simp add: nullish_def)

text \<open>\<open>toLowerCase\<close> on the modelled range of code units.\<close>

definition lower_char :: "char \<Rightarrow> char" where
  "lower_char c = (let n = of_char c :: nat in
     if 65 \<le> n \<and> n \<le> 90 \<or> 192 \<le> n \<and> n \<le> 222 \<and> n \<noteq> 215 then char_of (n + 32) else c)"

text \<open>\<open>/^sha256:[a-f0-9]{64}$/u\<close>.\<close>

definition HASH_PATTERN :: "string \<Rightarrow> bool" where
  "HASH_PATTERN s \<longleftrightarrow> take 7 s = ''sha256:'' \<and> length s = 71
     \<and> list_all (\<lambda>c. c \<in> set ''abcdef0123456789'') (drop 7 s)"

section \<open>Numbers\<close>

datatype number = Num rat | Infinity | NegInfinity | NaN

fun is_finite_number :: "number \<Rightarrow> bool" where
  "is_finite_number (Num _) = True"
| "is_finite_number _ = False"

definition is_integer_number :: "number \<Rightarrow> bool" where
  "is_integer_number n = (case n of Num q \<Rightarrow> of_int \<lfloor>q\<rfloor> = q | _ \<Rightarrow> False)"

definition max_safe_integer :: int where
  "max_safe_integer = 2 ^ 53 - 1"

definition is_safe_integer :: "number \<Rightarrow> bool" where
  "is_safe_integer n =
     (case n of Num q \<Rightarrow> of_int \<lfloor>q\<rfloor> = q \<and> \<bar>q\<bar> \<le> of_int max_safe_integer | _ \<Rightarrow> False)"

text \<open>The relational operators: every comparison with \<open>NaN\<close> is false.\<close>

fun num_lt :: "number \<Rightarrow> number \<Rightarrow> bool" where
  "num_lt (Num a) (Num b) = (a < b)"
| "num_lt NegInfinity (Num _) = True"
| "num_lt NegInfinity Infinity = True"
| "num_lt (Num _) Infinity = True"
| "num_lt _ _ = False"

definition num_le :: "number \<Rightarrow> number \<Rightarrow> bool" where
  "num_le a b \<longleftrightarrow> a \<noteq> NaN \<and> b \<noteq> NaN \<and> (a = b \<or> num_lt a b)"

text \<open>\<open>===\<close> on numbers: \<open>NaN\<close> differs from itself.\<close>

definition num_eq :: "number \<Rightarrow> number \<Rightarrow> bool" where
  "num_eq a b \<longleftrightarrow> a = b \<and> a \<noteq> NaN"

fun num_floor :: "number \<Rightarrow> number" where
  "num_floor (Num q) = Num (of_int \<lfloor>q\<rfloor>)"
| "num_floor n = n"

fun num_max :: "number \<Rightarrow> number \<Rightarrow> number" where
  "num_max NaN _ = NaN"
| "num_max _ NaN = NaN"
| "num_max a b = (if num_lt a b then b else a)"

fun num_min :: "number \<Rightarrow> number \<Rightarrow> number" where
  "num_min NaN _ = NaN"
| "num_min _ NaN = NaN"
| "num_min a b = (if num_lt b a then b else a)"

fun num_uminus :: "number \<Rightarrow> number" where
  "num_uminus (Num a) = Num (- a)"
| "num_uminus Infinity = NegInfinity"
| "num_uminus NegInfinity = Infinity"
| "num_uminus NaN = NaN"

fun num_plus :: "number \<Rightarrow> number \<Rightarrow> number" where
  "num_plus (Num a) (Num b) = Num (a + b)"
| "num_plus NaN _ = NaN"
| "num_plus _ NaN = NaN"
| "num_plus Infinity NegInfinity = NaN"
| "num_plus NegInfinity Infinity = NaN"
| "num_plus Infinity _ = Infinity"
| "num_plus _ Infinity = Infinity"
| "num_plus NegInfinity _ = NegInfinity"
| "num_plus _ NegInfinity = NegInfinity"

definition num_minus :: "number \<Rightarrow> number \<Rightarrow> number" where
  "num_minus a b = num_plus a (num_uminus b)"

lemma num_minus_Num [simp]: "num_minus (Num a) (Num b) = Num (a - b)"
  by (simp add: num_minus_def)

lemma num_lt_irrefl [simp]: "\<not> num_lt a a"
  by (cases a) auto

lemma num_lt_trans: "num_lt a b \<Longrightarrow> num_lt b c \<Longrightarrow> num_lt a c"
  by (cases a; cases b; cases c) auto

lemma num_le_refl [simp]: "num_le a a \<longleftrightarrow> a \<noteq> NaN"
  by (simp add: num_le_def)

lemma num_le_trans: "num_le a b \<Longrightarrow> num_le b c \<Longrightarrow> num_le a c"
  unfolding num_le_def using num_lt_trans by blast

lemma num_le_Num [simp]: "num_le (Num a) (Num b) \<longleftrightarrow> a \<le> b"
  by (auto simp: num_le_def)

lemma num_not_lt: "a \<noteq> NaN \<Longrightarrow> b \<noteq> NaN \<Longrightarrow> \<not> num_lt a b \<longleftrightarrow> num_le b a"
  by (cases a; cases b) (auto simp: num_le_def)

lemma num_lt_imp_le: "num_lt a b \<Longrightarrow> num_le a b"
  by (cases a; cases b) (auto simp: num_le_def)

lemma is_finite_numberE:
  assumes "is_finite_number n" obtains q where "n = Num q"
  using assms by (cases n) auto

section \<open>Sets and maps in insertion order\<close>

definition set_add :: "'a list \<Rightarrow> 'a \<Rightarrow> 'a list" where
  "set_add s x = (if x \<in> set s then s else s @ [x])"

text \<open>\<open>[...new Set(xs)]\<close>.\<close>

definition js_set :: "'a list \<Rightarrow> 'a list" where
  "js_set xs = foldl set_add [] xs"

lemma set_set_add [simp]: "set (set_add s x) = insert x (set s)"
  by (auto simp: set_add_def)

lemma distinct_set_add [simp]: "distinct (set_add s x) = distinct s"
  by (auto simp: set_add_def)

lemma set_foldl_set_add: "set (foldl set_add s xs) = set s \<union> set xs"
  by (induction xs arbitrary: s) auto

lemma distinct_foldl_set_add: "distinct s \<Longrightarrow> distinct (foldl set_add s xs)"
  by (induction xs arbitrary: s) auto

lemma set_js_set [simp]: "set (js_set xs) = set xs"
  by (simp add: js_set_def set_foldl_set_add)

lemma distinct_js_set [simp]: "distinct (js_set xs)"
  by (simp add: js_set_def distinct_foldl_set_add)

lemma length_js_set: "length (js_set xs) = card (set xs)"
  by (metis distinct_card distinct_js_set set_js_set)

text \<open>\<open>new Set(xs).size === xs.length\<close> is the test for repetitions.\<close>

lemma js_set_size_eq: "length (js_set xs) = length xs \<longleftrightarrow> distinct xs"
  by (metis card_distinct distinct_card length_js_set)

lemma foldl_set_add_distinct:
  "distinct (s @ xs) \<Longrightarrow> foldl set_add s xs = s @ xs"
  by (induction xs arbitrary: s) (auto simp: set_add_def)

lemma js_set_distinct: "distinct xs \<Longrightarrow> js_set xs = xs"
  by (simp add: js_set_def foldl_set_add_distinct)

lemma js_set_idem [simp]: "js_set (js_set xs) = js_set xs"
  by (simp add: js_set_distinct)

lemma js_set_Nil [simp]: "js_set [] = []"
  by (simp add: js_set_def)

lemma js_set_eq_Nil [simp]: "js_set xs = [] \<longleftrightarrow> xs = []"
  by (metis set_empty set_js_set)

text \<open>\<open>values.map(trim).filter(Boolean)\<close> as a set: the shared \<open>unique\<close> helpers.\<close>

definition uniqueNonEmpty :: "string list \<Rightarrow> string list" where
  "uniqueNonEmpty values = js_set (filter (\<lambda>v. v \<noteq> []) (map js_trim values))"

lemma set_uniqueNonEmpty: "set (uniqueNonEmpty vs) = {js_trim v | v. v \<in> set vs \<and> \<not> blank v}"
  by (auto simp: uniqueNonEmpty_def blank_def)

lemma distinct_uniqueNonEmpty [simp]: "distinct (uniqueNonEmpty vs)"
  by (simp add: uniqueNonEmpty_def)

lemma uniqueNonEmpty_idem [simp]: "uniqueNonEmpty (uniqueNonEmpty vs) = uniqueNonEmpty vs"
proof -
  let ?u = "uniqueNonEmpty vs"
  have t: "map js_trim ?u = ?u"
    by (rule map_idI) (auto simp: set_uniqueNonEmpty)
  have f: "filter (\<lambda>v. v \<noteq> []) ?u = ?u"
    by (rule filter_True) (auto simp: set_uniqueNonEmpty)
  show ?thesis
    by (subst uniqueNonEmpty_def) (simp only: t f js_set_distinct distinct_uniqueNonEmpty)
qed

text \<open>\<open>find\<close> and \<open>some\<close>/\<open>every\<close> use \<open>List.find\<close>, \<open>list_ex\<close> and \<open>list_all\<close>.\<close>

lemma find_SomeD: "List.find P xs = Some x \<Longrightarrow> x \<in> set xs \<and> P x"
  by (auto simp: find_Some_iff)

lemma find_NoneD: "List.find P xs = None \<Longrightarrow> x \<in> set xs \<Longrightarrow> \<not> P x"
  by (auto simp: find_None_iff)

lemma find_append: "List.find P (xs @ ys) = (case List.find P xs of None \<Rightarrow> List.find P ys | Some x \<Rightarrow> Some x)"
  by (induction xs) auto

lemma update_new: "map_of xs k = None \<Longrightarrow> AList.update k v xs = xs @ [(k, v)]"
  by (induction xs) (auto split: if_splits)

lemma blank_iff: "blank s \<longleftrightarrow> list_all js_ws s"
proof
  assume b: "blank s"
  show "list_all js_ws s"
  proof (rule ccontr)
    assume "\<not> list_all js_ws s"
    then have ne: "dropWhile js_ws s \<noteq> []" by (auto simp: dropWhile_eq_Nil_conv list_all_iff)
    then have "\<not> js_ws (hd (dropWhile js_ws s))" by (rule hd_dropWhile)
    from rev_dropWhile_keeps_hd [of _ js_ws, OF ne this] b show False by (simp add: blank_def js_trim_def)
  qed
next
  assume "list_all js_ws s"
  then have "dropWhile js_ws s = []" by (simp add: dropWhile_eq_Nil_conv list_all_iff)
  then have "js_trim s = rev (dropWhile js_ws (rev []))" unfolding js_trim_def by (rule arg_cong)
  then show "blank s" by (simp add: blank_def)
qed

section \<open>Stable sorting by a comparator\<close>

text \<open>
  \<open>xs.sort(cmp)\<close> is stable; for a consistent comparator insertion keeps the order of equals.
\<close>

primrec insort_by :: "('a \<Rightarrow> 'a \<Rightarrow> int) \<Rightarrow> 'a \<Rightarrow> 'a list \<Rightarrow> 'a list" where
  "insort_by cmp x [] = [x]"
| "insort_by cmp x (y # ys) = (if cmp x y \<le> 0 then x # y # ys else y # insort_by cmp x ys)"

definition sort_by :: "('a \<Rightarrow> 'a \<Rightarrow> int) \<Rightarrow> 'a list \<Rightarrow> 'a list" where
  "sort_by cmp xs = foldr (insort_by cmp) xs []"

lemma mset_insort_by [simp]: "mset (insort_by cmp x xs) = add_mset x (mset xs)"
  by (induction xs) auto

lemma mset_sort_by [simp]: "mset (sort_by cmp xs) = mset xs"
  unfolding sort_by_def by (induction xs) auto

lemma set_sort_by [simp]: "set (sort_by cmp xs) = set xs"
  by (metis mset_sort_by set_mset_mset)

lemma length_sort_by [simp]: "length (sort_by cmp xs) = length xs"
  by (metis mset_sort_by size_mset)

lemma distinct_sort_by [simp]: "distinct (sort_by cmp xs) = distinct xs"
  by (metis mset_sort_by mset_eq_imp_distinct_iff)

lemma sort_by_map_distinct [simp]: "distinct (map f (sort_by cmp xs)) = distinct (map f xs)"
  by (metis mset_sort_by mset_map mset_eq_imp_distinct_iff)

section \<open>Results\<close>

type_synonym ('e, 'a) result = "'e + 'a"

definition rbind :: "'e + 'a \<Rightarrow> ('a \<Rightarrow> 'e + 'b) \<Rightarrow> 'e + 'b" where
  "rbind r f = (case r of Inl e \<Rightarrow> Inl e | Inr a \<Rightarrow> f a)"

lemma rbind_simps [simp, js_simps]:
  "rbind (Inl e) f = Inl e"
  "rbind (Inr a) f = f a"
  by (simp_all add: rbind_def)

lemma rbind_Inr_iff: "rbind r f = Inr b \<longleftrightarrow> (\<exists>a. r = Inr a \<and> f a = Inr b)"
  by (cases r) auto

lemma rbind_InrE:
  assumes "rbind r f = Inr b" obtains a where "r = Inr a" "f a = Inr b"
  using assms by (auto simp: rbind_Inr_iff)

text \<open>\<open>xs.map(f)\<close> where \<open>f\<close> may throw: the first error ends it.\<close>

fun mapM :: "('a \<Rightarrow> 'e + 'b) \<Rightarrow> 'a list \<Rightarrow> 'e + 'b list" where
  "mapM f [] = Inr []"
| "mapM f (x # xs) = rbind (f x) (\<lambda>y. rbind (mapM f xs) (\<lambda>ys. Inr (y # ys)))"

lemma mapM_Inr_list_all2: "mapM f xs = Inr ys \<Longrightarrow> list_all2 (\<lambda>x y. f x = Inr y) xs ys"
  by (induction xs arbitrary: ys) (auto simp: rbind_Inr_iff)

lemma mapM_Inr_length: "mapM f xs = Inr ys \<Longrightarrow> length ys = length xs"
  by (drule mapM_Inr_list_all2) (simp add: list_all2_lengthD)

lemma mapM_Inr_map:
  assumes "mapM f xs = Inr ys" and "\<And>x y. x \<in> set xs \<Longrightarrow> f x = Inr y \<Longrightarrow> y = g x"
  shows "ys = map g xs"
  using assms by (induction xs arbitrary: ys) (fastforce simp: rbind_Inr_iff)+

lemma mapM_map:
  assumes "\<And>x. x \<in> set xs \<Longrightarrow> f x = Inr (g x)"
  shows "mapM f xs = Inr (map g xs)"
  using assms by (induction xs) auto

text \<open>\<open>const normalized = value.trim(); if (!normalized) throw ...; return normalized\<close>.\<close>

definition requireText :: "'e \<Rightarrow> string \<Rightarrow> 'e + string" where
  "requireText err value = (let normalized = js_trim value in
     if normalized = [] then Inl err else Inr normalized)"

lemma requireText_Inr_iff: "requireText e v = Inr t \<longleftrightarrow> \<not> blank v \<and> t = js_trim v"
  by (auto simp: requireText_def blank_def Let_def)

lemma requireText_blank: "blank v \<Longrightarrow> requireText e v = Inl e"
  by (simp add: requireText_def blank_def Let_def)

lemma requireText_ok: "\<not> blank v \<Longrightarrow> requireText e v = Inr (js_trim v)"
  by (simp add: requireText_Inr_iff)

end
