(* ===== verification/Machines.thy ===== *)
theory Machines
  imports Prelude
begin

text \<open>
  The contracts the state machines of the program share. A machine is a partial step function
  over states and events (\<open>None\<close>: the transition is refused); \<open>run_steps\<close> folds it over a
  sequence of events. The locales state, once, what each transition table promises (final
  states are never left, some event is accepted everywhere else, progress only through the
  named milestones, a measure that every step decreases, an invariant) and prove what follows
  for whole runs. Every component interprets them on its own transition function.
\<close>

primrec run_steps :: "('s \<Rightarrow> 'e \<Rightarrow> 's option) \<Rightarrow> 's \<Rightarrow> 'e list \<Rightarrow> 's option" where
  "run_steps step s [] = Some s"
| "run_steps step s (e # es) =
     (case step s e of None \<Rightarrow> None | Some t \<Rightarrow> run_steps step t es)"

lemma run_steps_append:
  "run_steps step s (es @ fs) =
     (case run_steps step s es of None \<Rightarrow> None | Some t \<Rightarrow> run_steps step t fs)"
  by (induction es arbitrary: s) (auto split: option.splits)

lemma run_steps_snocE:
  assumes "run_steps step s (es @ [e]) = Some u"
  obtains t where "run_steps step s es = Some t" "step t e = Some u"
  using assms by (auto simp: run_steps_append split: option.splits)

lemma run_steps_ConsE:
  assumes "run_steps step s (e # es) = Some u"
  obtains t where "step s e = Some t" "run_steps step t es = Some u"
  using assms by (auto split: option.splits)

section \<open>Final states are never left\<close>

locale final_state_machine =
  fixes step :: "'s \<Rightarrow> 'e \<Rightarrow> 's option"
    and terminal :: "'s \<Rightarrow> bool"
  assumes terminal_stuck: "terminal s \<Longrightarrow> step s e = None"
begin

lemma terminal_run: "terminal s \<Longrightarrow> run_steps step s es = Some t \<Longrightarrow> es = [] \<and> t = s"
  by (cases es) (auto simp: terminal_stuck)

text \<open>A run that enters a final state cannot be extended, so no final state is an intermediate one.\<close>

lemma terminal_only_last:
  assumes "run_steps step s (es @ fs) = Some u" and "run_steps step s es = Some t"
    and "terminal t"
  shows "fs = [] \<and> u = t"
  using assms terminal_run by (simp add: run_steps_append)

end

section \<open>Every other state accepts some event\<close>

locale live_machine = final_state_machine +
  assumes progress: "\<not> terminal s \<Longrightarrow> \<exists>e t. step s e = Some t"
begin

lemma stuck_iff_terminal: "(\<forall>e. step s e = None) \<longleftrightarrow> terminal s"
  using progress terminal_stuck by fastforce

end

section \<open>Milestones\<close>

text \<open>
  A step raises the level of the state by at most one, and only through the next milestone;
  any other step keeps or lowers it. Then a run from the initial state has passed, in order,
  every milestone up to the level of the state it reached.
\<close>

locale milestone_machine =
  fixes step :: "'s \<Rightarrow> 'e \<Rightarrow> 's option"
    and start :: 's
    and kind :: "'e \<Rightarrow> 'k"
    and level :: "'s \<Rightarrow> nat"
    and milestones :: "'k list"
  assumes start_level: "level start = 0"
    and step_level: "step s e = Some t \<Longrightarrow>
      level t \<le> level s
      \<or> level s < length milestones \<and> level t = Suc (level s) \<and> kind e = milestones ! level s"
begin

lemma run_milestones:
  "run_steps step start es = Some t \<Longrightarrow> subseq (take (level t) milestones) (map kind es)"
proof (induction es arbitrary: t rule: rev_induct)
  case Nil
  then have "t = start" by simp
  then show ?case by (simp add: start_level)
next
  case (snoc e es)
  from snoc.prems obtain s where s: "run_steps step start es = Some s" and st: "step s e = Some t"
    by (rule run_steps_snocE)
  from s have IH: "subseq (take (level s) milestones) (map kind es)" by (rule snoc.IH)
  from step_level [OF st] show ?case
  proof
    assume "level t \<le> level s"
    then have "take (level t) milestones = take (level t) (take (level s) milestones)"
      by simp
    then have "subseq (take (level t) milestones) (take (level s) milestones)"
      by (metis prefix_imp_subseq take_is_prefix)
    with IH show ?thesis
      by (auto intro: subseq_order.trans list_emb_append2 simp: subseq_rev_drop_many)
  next
    assume up: "level s < length milestones \<and> level t = Suc (level s) \<and> kind e = milestones ! level s"
    then have "take (level t) milestones = take (level s) milestones @ [kind e]"
      by (simp add: take_Suc_conv_app_nth)
    with IH show ?thesis by (simp add: list_emb_append_mono)
  qed
qed

lemma run_all_milestones:
  "run_steps step start es = Some t \<Longrightarrow> length milestones \<le> level t \<Longrightarrow>
     subseq milestones (map kind es)"
  using run_milestones [of es t] by simp

end

section \<open>Runs of bounded length\<close>

locale ranked_machine = final_state_machine +
  fixes rank :: "'s \<Rightarrow> nat"
  assumes step_rank: "step s e = Some t \<Longrightarrow> rank t < rank s"
begin

lemma run_rank: "run_steps step s es = Some t \<Longrightarrow> length es + rank t \<le> rank s"
proof (induction es arbitrary: s)
  case (Cons e es)
  from Cons.prems obtain u where u: "step s e = Some u" "run_steps step u es = Some t"
    by (rule run_steps_ConsE)
  from Cons.IH [OF u(2)] step_rank [OF u(1)] show ?case by simp
qed simp

lemma run_length_bound: "run_steps step s es = Some t \<Longrightarrow> length es \<le> rank s"
  using run_rank by fastforce

end

section \<open>Invariants along runs\<close>

locale invariant_machine =
  fixes step :: "'s \<Rightarrow> 'e \<Rightarrow> 's option"
    and inv :: "'s \<Rightarrow> bool"
  assumes step_inv: "inv s \<Longrightarrow> step s e = Some t \<Longrightarrow> inv t"
begin

lemma run_inv: "inv s \<Longrightarrow> run_steps step s es = Some t \<Longrightarrow> inv t"
  by (induction es arbitrary: s) (auto elim: run_steps_ConsE dest: step_inv split: option.splits)

end

text \<open>An invariant that only the steps on admitted events keep.\<close>

locale guarded_machine =
  fixes step :: "'s \<Rightarrow> 'e \<Rightarrow> 's option"
    and admitted :: "'e \<Rightarrow> bool"
    and inv :: "'s \<Rightarrow> bool"
  assumes admitted_step_inv: "inv s \<Longrightarrow> admitted e \<Longrightarrow> step s e = Some t \<Longrightarrow> inv t"
begin

lemma admitted_run_inv: "inv s \<Longrightarrow> \<forall>e \<in> set es. admitted e \<Longrightarrow> run_steps step s es = Some t \<Longrightarrow> inv t"
  by (induction es arbitrary: s) (auto elim: run_steps_ConsE dest: admitted_step_inv split: option.splits)

end

end
