(* ===== verification/Canonical_Json.thy ===== *)
theory Canonical_Json
  imports Prelude
begin

text \<open>
  The canonical serialisation that the receipts of the program hash: \<open>canonicalize\<close> of
  \<open>contracts/diagnosis-action-routing.ts\<close>, repeated word for word in
  \<open>contracts/llm-solution-plan-receipt.ts\<close>, and the \<open>JSON.stringify\<close> of the language. The values
  are those an \<open>unknown\<close> payload can have:

  \<^item> \<open>JObject\<close> is an object with its own enumerable properties in their order; an \<open>Error\<close>, a \<open>Map\<close> or
    a \<open>Set\<close> has none and is \<open>JObject []\<close>. \<open>JDate\<close> has none either, but \<open>JSON.stringify\<close> asks it for its
    ISO text (none, for an invalid date).
  \<^item> \<open>JNumber negative s e\<close> is the finite number s times ten to the e, with its sign: the shortest
    decimal that reads back as the double, which is what the language prints. So 0.1 is
    \<open>JNumber False 1 (- 1)\<close>, and minus zero is \<open>JNumber True 0 0\<close>.
  \<^item> \<open>JFunction\<close> is a function or a symbol, and \<open>JUndefined\<close> also stands for a hole of an array:
    \<open>JSON.stringify\<close> returns no string for them, which \<open>Array.prototype.join\<close> renders as the empty
    string and a template literal as \<open>undefined\<close>.

  Not values of the type are those the code throws on (a \<open>bigint\<close>, a cyclic object, a getter that throws)
  and objects with a \<open>toJSON\<close> of their own other than dates.

  The host functions \<open>localeCompare\<close> (locale data) and SHA-256 (\<open>node:crypto\<close>) are fields of
  \<open>host\<close> and arguments of every definition that uses them.
\<close>

record host =
  sha256 :: "string \<Rightarrow> string"
  localeCompare :: "string \<Rightarrow> string \<Rightarrow> int"

datatype json =
    JUndefined
  | JNull
  | JBool bool
  | JNumber bool nat int
  | JNaN
  | JInfinity bool
  | JString string
  | JFunction
  | JDate "string option"
  | JArray "json list"
  | JObject "(string \<times> json) list"

abbreviation JInt :: "nat \<Rightarrow> json" where
  "JInt n \<equiv> JNumber False n 0"

section \<open>Primitives\<close>

definition hex_digit :: "nat \<Rightarrow> char" where
  "hex_digit n = ''0123456789abcdef'' ! (n mod 16)"

definition ESCAPES :: "(nat \<times> char) list" where
  "ESCAPES = [(34, CHR 0x22), (92, CHR 0x5C), (8, CHR ''b''), (12, CHR ''f''), (10, CHR ''n''),
     (13, CHR ''r''), (9, CHR ''t'')]"

definition escape_char :: "char \<Rightarrow> string" where
  "escape_char c = (let n = (of_char c :: nat) in
     case map_of ESCAPES n of
       Some t \<Rightarrow> [CHR 0x5C, t]
     | None \<Rightarrow>
         if n < 32
         then [CHR 0x5C, CHR ''u'', CHR ''0'', CHR ''0'', hex_digit (n div 16), hex_digit n]
         else [c])"

definition quote :: "string \<Rightarrow> string" where
  "quote s = CHR 0x22 # concat (map escape_char s) @ [CHR 0x22]"

definition digit_char :: "nat \<Rightarrow> char" where
  "digit_char n = char_of (48 + n mod 10)"

fun show_nat :: "nat \<Rightarrow> string" where
  "show_nat n = (if n < 10 then [digit_char n] else show_nat (n div 10) @ [digit_char (n mod 10)])"

declare show_nat.simps [simp del]

text \<open>
  \<open>Number.prototype.toString\<close> of a finite number: the digits of s without trailing zeros, plainly when
  the decimal point falls near them, with an exponent otherwise.
\<close>

function strip_zeros :: "nat \<Rightarrow> int \<Rightarrow> nat \<times> int" where
  "strip_zeros s e = (if s = 0 then (0, 0) else if s mod 10 = 0 then strip_zeros (s div 10) (e + 1) else (s, e))"
  by pat_completeness auto

termination by (relation "measure fst") auto

declare strip_zeros.simps [simp del]

definition decimal_text :: "nat \<Rightarrow> int \<Rightarrow> string" where
  "decimal_text s e =
     (let ds = show_nat s; k = int (length ds); n = k + e in
      if s = 0 then ''0''
      else if k \<le> n \<and> n \<le> 21 then ds @ replicate (nat (n - k)) (CHR ''0'')
      else if 0 < n \<and> n \<le> 21 then take (nat n) ds @ ''.'' @ drop (nat n) ds
      else if - 6 < n \<and> n \<le> 0 then ''0.'' @ replicate (nat (- n)) (CHR ''0'') @ ds
      else take 1 ds @ (if k = 1 then '''' else ''.'' @ drop 1 ds)
        @ ''e'' @ (if n - 1 < 0 then ''-'' else ''+'') @ show_nat (nat \<bar>n - 1\<bar>))"

definition number_text :: "bool \<Rightarrow> nat \<Rightarrow> int \<Rightarrow> string" where
  "number_text negative s e =
     (case strip_zeros s e of (s', e') \<Rightarrow> (if negative \<and> s' \<noteq> 0 then ''-'' else '''') @ decimal_text s' e')"

section \<open>JSON.stringify and canonicalize\<close>

fun join :: "string \<Rightarrow> string list \<Rightarrow> string" where
  "join sep [] = []"
| "join sep [x] = x"
| "join sep (x # y # ys) = x @ sep @ join sep (y # ys)"

definition undefined_as :: "string \<Rightarrow> string option \<Rightarrow> string" where
  "undefined_as d r = (case r of None \<Rightarrow> d | Some s \<Rightarrow> s)"

lemma undefined_as_simps [simp]: "undefined_as d (Some s) = s" "undefined_as d None = d"
  by (simp_all add: undefined_as_def)

definition entry_cmp :: "host \<Rightarrow> string \<times> 'a \<Rightarrow> string \<times> 'a \<Rightarrow> int" where
  "entry_cmp H l r = localeCompare H (fst l) (fst r)"

fun stringify :: "json \<Rightarrow> string option" where
  "stringify JUndefined = None"
| "stringify JFunction = None"
| "stringify JNull = Some ''null''"
| "stringify (JBool b) = Some (if b then ''true'' else ''false'')"
| "stringify (JNumber negative s e) = Some (number_text negative s e)"
| "stringify JNaN = Some ''null''"
| "stringify (JInfinity negative) = Some ''null''"
| "stringify (JString s) = Some (quote s)"
| "stringify (JDate t) = Some (case t of None \<Rightarrow> ''null'' | Some d \<Rightarrow> quote d)"
| "stringify (JArray xs) =
     Some (''['' @ join '','' (map (\<lambda>x. undefined_as ''null'' (stringify x)) xs) @ '']'')"
| "stringify (JObject kvs) =
     Some (''{'' @ join '','' (concat (map (\<lambda>(k, v).
       case stringify v of None \<Rightarrow> [] | Some t \<Rightarrow> [quote k @ '':'' @ t]) kvs)) @ ''}'')"

fun canonicalize :: "host \<Rightarrow> json \<Rightarrow> string option" where
  "canonicalize H (JArray xs) =
     Some (''['' @ join '','' (map (\<lambda>x. undefined_as '''' (canonicalize H x)) xs) @ '']'')"
| "canonicalize H (JObject kvs) =
     Some (''{'' @ join '','' (map (\<lambda>(k, s). quote k @ '':'' @ s)
       (sort_by (entry_cmp H)
         (map (\<lambda>(k, v). (k, undefined_as ''undefined'' (canonicalize H v)))
           (filter (\<lambda>(k, v). v \<noteq> JUndefined) kvs)))) @ ''}'')"
| "canonicalize H (JDate t) = Some ''{}''"
| "canonicalize H v = stringify v"

text \<open>
  Sorting the entries before or after serialising their values is the same: the comparator reads
  the keys only. The definition serialises first, so that the recursion is on the entries.
\<close>

lemma insort_by_map:
  "(\<And>a b. cmp' (f a) (f b) = cmp a b) \<Longrightarrow>
     insort_by cmp' (f x) (map f xs) = map f (insort_by cmp x xs)"
  by (induction xs) auto

lemma sort_by_map:
  assumes "\<And>a b. cmp' (f a) (f b) = cmp a b"
  shows "sort_by cmp' (map f xs) = map f (sort_by cmp xs)"
  using assms unfolding sort_by_def by (induction xs) (auto simp: insort_by_map)

lemma canonicalize_object:
  "canonicalize H (JObject kvs) =
     Some (''{'' @ join '','' (map (\<lambda>(k, v). quote k @ '':'' @ undefined_as ''undefined'' (canonicalize H v))
       (sort_by (entry_cmp H) (filter (\<lambda>(k, v). v \<noteq> JUndefined) kvs))) @ ''}'')"
proof -
  let ?f = "\<lambda>(k, v). (k, undefined_as ''undefined'' (canonicalize H v))"
  have "sort_by (entry_cmp H) (map ?f ys) = map ?f (sort_by (entry_cmp H) ys)" for ys
    by (rule sort_by_map) (auto simp: entry_cmp_def)
  then show ?thesis by (simp add: comp_def case_prod_unfold)
qed

text \<open>\<open>createHash("sha256").update(`knowbee:${namespace}:${canonicalize(value)}`).digest("hex")\<close>\<close>

definition fingerprint :: "host \<Rightarrow> string \<Rightarrow> json \<Rightarrow> string" where
  "fingerprint H namespace v =
     sha256 H (''knowbee:'' @ namespace @ '':'' @ undefined_as ''undefined'' (canonicalize H v))"

section \<open>Unique decoding\<close>

text \<open>
  What the canonical text says of a value, and what it does not. It is the same for values that
  differ only in the order of object properties, in properties that are \<open>undefined\<close>, in \<open>null\<close>, \<open>NaN\<close>
  or an infinity, in 0 or minus zero, in \<open>undefined\<close>, a function or a symbol as the element of an array or
  as the whole value, in an empty array or one that holds just such an element, and in a date or an empty object.
  The normal form \<open>json_norm\<close> removes exactly these differences (and trailing zeros, so that a number
  has one form); in it a property that is a function is \<open>JUndefined\<close>. Its text \<open>flat\<close> is read back symbol by
  symbol: every piece is followed by a delimiter.
\<close>

fun json_norm :: "host \<Rightarrow> json \<Rightarrow> json" where
  "json_norm H (JArray xs) =
     (let ys = map (json_norm H) xs in JArray (if ys = [JUndefined] then [] else ys))"
| "json_norm H (JObject kvs) = JObject (sort_by (entry_cmp H)
     (map (\<lambda>(k, v). (k, json_norm H v)) (filter (\<lambda>(k, v). v \<noteq> JUndefined) kvs)))"
| "json_norm H (JNumber negative s e) =
     (case strip_zeros s e of (s', e') \<Rightarrow> JNumber (negative \<and> s' \<noteq> 0) s' e')"
| "json_norm H JNaN = JNull"
| "json_norm H (JInfinity negative) = JNull"
| "json_norm H JFunction = JUndefined"
| "json_norm H (JDate t) = JObject []"
| "json_norm H v = v"

fun flat :: "json \<Rightarrow> string" where
  "flat (JArray xs) = ''['' @ join '','' (map flat xs) @ '']''"
| "flat (JObject kvs) = ''{'' @ join '','' (map (\<lambda>(k, v).
     quote k @ '':'' @ (if v = JUndefined then ''undefined'' else flat v)) kvs) @ ''}''"
| "flat JUndefined = ''''"
| "flat JNull = ''null''"
| "flat (JBool b) = (if b then ''true'' else ''false'')"
| "flat (JNumber negative s e) = number_text negative s e"
| "flat JNaN = ''null''"
| "flat (JInfinity negative) = ''null''"
| "flat (JString s) = quote s"
| "flat JFunction = ''''"
| "flat (JDate t) = ''{}''"

lemma join_one [simp]: "join sep [[]] = join sep []"
  by simp

lemma strip_zeros_idem: "strip_zeros s e = (s', e') \<Longrightarrow> strip_zeros s' e' = (s', e')"
proof (induction s e rule: strip_zeros.induct)
  case (1 s e)
  show ?case
  proof (cases "s = 0 \<or> s mod 10 \<noteq> 0")
    case True
    with "1.prems" show ?thesis by (auto simp: strip_zeros.simps [of s e] strip_zeros.simps [of s' e'] split: if_splits)
  next
    case False
    with "1.prems" have "strip_zeros (s div 10) (e + 1) = (s', e')" by (simp add: strip_zeros.simps [of s e])
    with False "1.IH" show ?thesis by simp
  qed
qed

lemma number_text_norm: "strip_zeros s e = (s', e') \<Longrightarrow> number_text (n \<and> 0 < s') s' e' = number_text n s e"
  by (simp add: number_text_def strip_zeros_idem)

lemma json_norm_undefined: "json_norm H v = JUndefined \<longleftrightarrow> canonicalize H v = None"
  by (cases v) (auto simp: Let_def split: prod.splits)

lemma canonicalize_flat: "undefined_as '''' (canonicalize H v) = flat (json_norm H v)"
proof (induction H v rule: json_norm.induct)
  case (1 H xs)
  then have "map (\<lambda>x. undefined_as '''' (canonicalize H x)) xs = map flat (map (json_norm H) xs)"
    by simp
  moreover have "join '','' (map flat [JUndefined]) = join '','' (map flat [])" by (simp add: undefined_as_def)
  ultimately show ?case by (simp add: Let_def del: map_map)
next
  case (2 H kvs)
  let ?d = "filter (\<lambda>(k, v). v \<noteq> JUndefined) kvs"
  let ?t = "\<lambda>v. if v = JUndefined then ''undefined'' else flat v"
  have "sort_by (entry_cmp H) (map (\<lambda>(k, v). (k, json_norm H v)) ?d) =
      map (\<lambda>(k, v). (k, json_norm H v)) (sort_by (entry_cmp H) ?d)"
    by (rule sort_by_map) (auto simp: entry_cmp_def)
  moreover have "(case p of (k, v) \<Rightarrow> quote k @ '':'' @ undefined_as ''undefined'' (canonicalize H v)) =
      (case p of (k, v) \<Rightarrow> quote k @ '':'' @ ?t (json_norm H v))"
    if "p \<in> set (sort_by (entry_cmp H) ?d)" for p
  proof -
    obtain k v where p: "p = (k, v)" by (cases p)
    with that have "(k, v) \<in> set ?d" by simp
    with 2 [of "(k, v)" k v] p show ?thesis
      by (cases "canonicalize H v") (auto simp: json_norm_undefined undefined_as_def)
  qed
  then have "map (\<lambda>(k, v). quote k @ '':'' @ undefined_as ''undefined'' (canonicalize H v)) (sort_by (entry_cmp H) ?d)
      = map (\<lambda>(k, v). quote k @ '':'' @ ?t (json_norm H v)) (sort_by (entry_cmp H) ?d)"
    by (rule map_cong [OF refl])
  ultimately show ?case
    unfolding canonicalize_object json_norm.simps flat.simps
    by (simp only: undefined_as_simps map_map comp_def case_prod_unfold fst_conv snd_conv)
qed (auto simp: undefined_as_def number_text_norm split: prod.splits)

lemma canonicalize_norm:
  "canonicalize H v = (if json_norm H v = JUndefined then None else Some (flat (json_norm H v)))"
  using canonicalize_flat [of H v] json_norm_undefined [of H v]
  by (cases "canonicalize H v") simp_all

subsection \<open>Strings and numbers\<close>

lemma hex_digit_eq: "hex_digit a = hex_digit b \<longleftrightarrow> a mod 16 = b mod 16"
  unfolding hex_digit_def by (subst nth_eq_iff_index_eq) simp_all

lemma ESCAPES_inj: "map_of ESCAPES n = Some t \<Longrightarrow> map_of ESCAPES m = Some t \<Longrightarrow> n = m"
  by (auto simp: ESCAPES_def split: if_splits)

lemma ESCAPES_not_u: "map_of ESCAPES n \<noteq> Some (CHR ''u'')"
  by (auto simp: ESCAPES_def split: if_splits)

lemma ESCAPES_None: "map_of ESCAPES (of_char c) = None \<Longrightarrow> c \<noteq> CHR 0x5C \<and> c \<noteq> CHR 0x22"
  by (auto simp: ESCAPES_def)

lemma escape_char_unique:
  assumes "escape_char c @ x = escape_char d @ y"
  shows "c = d \<and> x = y"
proof -
  have nibbles: "n = m" if "n div 16 mod 16 = m div 16 mod 16" "n mod 16 = m mod 16" "n < 32" "m < 32"
    for n m :: nat
  proof -
    from that have "n div 16 = m div 16" by simp
    with that(2) show ?thesis by (metis div_mult_mod_eq)
  qed
  have chars: "c = d" if "(of_char c :: nat) = of_char d"
    using that by simp
  show ?thesis
  proof (cases "map_of ESCAPES (of_char c)"; cases "map_of ESCAPES (of_char d)")
    assume "map_of ESCAPES (of_char c) = None" "map_of ESCAPES (of_char d) = None"
    with assms ESCAPES_None [of c] ESCAPES_None [of d] show ?thesis
      unfolding escape_char_def Let_def
      by (auto simp only: hex_digit_eq append.simps list.inject option.case split: if_splits
          intro: chars nibbles)
  next
    fix t assume "map_of ESCAPES (of_char c) = Some t" "map_of ESCAPES (of_char d) = None"
    with assms ESCAPES_None [of d] ESCAPES_not_u [of "of_char c"] show ?thesis
      unfolding escape_char_def Let_def by (auto split: if_splits)
  next
    fix t assume "map_of ESCAPES (of_char c) = None" "map_of ESCAPES (of_char d) = Some t"
    with assms ESCAPES_None [of c] ESCAPES_not_u [of "of_char d"] show ?thesis
      unfolding escape_char_def Let_def by (auto split: if_splits)
  next
    fix t u assume "map_of ESCAPES (of_char c) = Some t" "map_of ESCAPES (of_char d) = Some u"
    with assms ESCAPES_inj [of "of_char c" t "of_char d"] show ?thesis
      unfolding escape_char_def Let_def by auto
  qed
qed

lemma escape_char_head: "escape_char c = h # t \<Longrightarrow> h \<noteq> CHR 0x22"
  using ESCAPES_None [of c] unfolding escape_char_def Let_def by (auto split: if_splits option.splits)

lemma escape_char_nonempty: "escape_char c \<noteq> []"
  unfolding escape_char_def Let_def by (auto split: option.splits)

lemma escape_not_quote: "escape_char c @ x \<noteq> CHR 0x22 # y"
  using escape_char_head [of c] escape_char_nonempty [of c] by (cases "escape_char c") auto

lemma escaped_unique:
  "concat (map escape_char s) @ CHR 0x22 # r = concat (map escape_char t) @ CHR 0x22 # r'
     \<Longrightarrow> s = t \<and> r = r'"
proof (induction s arbitrary: t)
  case Nil
  then show ?case by (cases t) (auto simp: escape_not_quote dest: sym)
next
  case (Cons c s)
  show ?case
  proof (cases t)
    case Nil
    with Cons.prems show ?thesis by (simp add: escape_not_quote)
  next
    case (Cons d u)
    with Cons.prems have "escape_char c @ (concat (map escape_char s) @ CHR 0x22 # r) =
        escape_char d @ (concat (map escape_char u) @ CHR 0x22 # r')" by simp
    from escape_char_unique [OF this] Cons.IH [of u] Cons show ?thesis by simp
  qed
qed

lemma quote_unique: "quote s @ r = quote t @ r' \<Longrightarrow> s = t \<and> r = r'"
  by (rule escaped_unique) (simp add: quote_def)

definition is_digit :: "char \<Rightarrow> bool" where
  "is_digit c \<longleftrightarrow> (of_char c :: nat) \<in> {48..57}"

definition digit_value :: "char \<Rightarrow> nat" where
  "digit_value c = of_char c - 48"

lemma of_char_digit: "(of_char (digit_char n) :: nat) = 48 + n mod 10"
proof -
  have "48 + n mod 10 < (256 :: nat)" by (simp add: less_trans [OF mod_less_divisor])
  then show ?thesis by (simp add: digit_char_def)
qed

lemma digit_value_char: "n < 10 \<Longrightarrow> digit_value (digit_char n) = n"
  by (simp add: digit_value_def of_char_digit)

lemma is_digit_char: "is_digit (digit_char n)"
  using mod_less_divisor [of 10 n] by (simp add: is_digit_def of_char_digit)

lemma show_nat_digits: "list_all is_digit (show_nat n)"
proof (induction n rule: show_nat.induct)
  case (1 n)
  then show ?case by (simp add: show_nat.simps [of n] is_digit_char)
qed

lemma show_nat_nonempty: "show_nat n \<noteq> []"
  by (subst show_nat.simps) simp

lemma show_nat_value: "foldl (\<lambda>a c. 10 * a + digit_value c) 0 (show_nat n) = n"
proof (induction n rule: show_nat.induct)
  case (1 n)
  then show ?case by (simp add: show_nat.simps [of n] digit_value_char)
qed

lemma show_nat_inj: "show_nat n = show_nat m \<Longrightarrow> n = m"
  by (metis show_nat_value)

definition delimited :: "string \<Rightarrow> bool" where
  "delimited r \<longleftrightarrow> r = [] \<or> hd r \<in> set '',]}''"

lemma delimited_no_digit: "delimited r \<Longrightarrow> takeWhile is_digit r = []"
  by (cases r) (auto simp: delimited_def is_digit_def)

lemma show_nat_unique:
  assumes "show_nat n @ r = show_nat m @ r'" and "delimited r" and "delimited r'"
  shows "n = m \<and> r = r'"
proof -
  have "takeWhile is_digit (show_nat k @ q) = show_nat k" if "delimited q" for k q
    using show_nat_digits [of k] delimited_no_digit [OF that]
    by (simp add: list_all_iff takeWhile_append2)
  with assms have "show_nat n = show_nat m" by metis
  with assms(1) show ?thesis using show_nat_inj by simp
qed

text \<open>
  A number is read back from its text: sign, digits before and after the point, exponent.
\<close>

definition digits_value :: "string \<Rightarrow> nat" where
  "digits_value ds = foldl (\<lambda>a c. 10 * a + digit_value c) 0 ds"

fun read_fraction :: "string \<Rightarrow> string \<times> string" where
  "read_fraction (c # u) = (if c = CHR ''.'' then (takeWhile is_digit u, dropWhile is_digit u) else ([], c # u))"
| "read_fraction [] = ([], [])"

fun read_exponent :: "string \<Rightarrow> int" where
  "read_exponent (e # sign # u) = (if sign = CHR ''-'' then - int (digits_value u) else int (digits_value u))"
| "read_exponent _ = 0"

definition read_decimal :: "string \<Rightarrow> nat \<times> int" where
  "read_decimal t = (case read_fraction (dropWhile is_digit t) of (fp, r) \<Rightarrow>
     strip_zeros (digits_value (takeWhile is_digit t @ fp)) (read_exponent r - int (length fp)))"

definition read_number :: "string \<Rightarrow> bool \<times> nat \<times> int" where
  "read_number t = (if take 1 t = ''-'' then (True, read_decimal (drop 1 t)) else (False, read_decimal t))"

lemma digits_value_append: "digits_value (xs @ ys) = digits_value xs * 10 ^ length ys + digits_value ys"
proof (induction ys rule: rev_induct)
  case (snoc y ys)
  then show ?case by (simp add: digits_value_def algebra_simps flip: append_assoc)
qed (simp add: digits_value_def)

lemma digits_value_zeros: "digits_value (replicate n (CHR ''0'')) = 0"
  by (induction n) (simp_all add: digits_value_def digit_value_def)

lemma digits_value_show [simp]: "digits_value (show_nat n) = n"
  by (simp add: digits_value_def show_nat_value)

lemma digits_value_Nil [simp]: "digits_value [] = 0"
  by (simp add: digits_value_def)

lemma digits_zero [simp]: "is_digit (CHR ''0'')" and digits_not [simp]: "\<not> is_digit (CHR ''.'')"
  "\<not> is_digit (CHR ''e'')" "\<not> is_digit (CHR ''-'')" "\<not> is_digit (CHR ''+'')"
  by (simp_all add: is_digit_def)

lemma digits_take [simp]:
  assumes "list_all is_digit xs"
  shows "takeWhile is_digit (xs @ r) = xs @ takeWhile is_digit r" "dropWhile is_digit (xs @ r) = dropWhile is_digit r"
    "takeWhile is_digit xs = xs" "dropWhile is_digit xs = []"
  using assms by (induction xs) auto

lemma digits_sub: "list_all is_digit xs \<Longrightarrow> list_all is_digit (take n xs) \<and> list_all is_digit (drop n xs)"
  by (auto simp: list_all_iff dest: in_set_takeD in_set_dropD)

lemma digits_replicate: "list_all is_digit (replicate n (CHR ''0''))"
  by (auto simp: list_all_iff)

lemma strip_zeros_shift: "s \<noteq> 0 \<Longrightarrow> strip_zeros (s * 10 ^ m) e = strip_zeros s (e + int m)"
proof (induction m arbitrary: e)
  case (Suc m)
  have "strip_zeros (s * 10 ^ Suc m) e = strip_zeros (s * 10 ^ m) (e + 1)"
    using Suc.prems by (subst strip_zeros.simps) (simp add: mult.assoc [symmetric] mult.commute)
  with Suc show ?case by (simp add: algebra_simps)
qed simp

lemma show_nat_shape: "ds = show_nat s \<Longrightarrow> list_all is_digit ds \<and> ds \<noteq> [] \<and> digits_value ds = s"
  by (simp add: show_nat_digits show_nat_nonempty)

lemma read_decimal_text:
  assumes "strip_zeros s e = (s, e)"
  shows "read_decimal (decimal_text s e) = (s, e)"
proof (cases "s = 0")
  case True
  with assms show ?thesis
    by (simp add: strip_zeros.simps [of 0] decimal_text_def read_decimal_def digits_value_def digit_value_def)
next
  case False
  define ds where "ds = show_nat s"
  define k where "k = int (length ds)"
  define n where "n = k + e"
  note shape = show_nat_shape [OF ds_def]
  have shown: "decimal_text s e =
      (if k \<le> n \<and> n \<le> 21 then ds @ replicate (nat (n - k)) (CHR ''0'')
      else if 0 < n \<and> n \<le> 21 then take (nat n) ds @ ''.'' @ drop (nat n) ds
      else if - 6 < n \<and> n \<le> 0 then ''0.'' @ replicate (nat (- n)) (CHR ''0'') @ ds
      else take 1 ds @ (if k = 1 then '''' else ''.'' @ drop 1 ds)
        @ ''e'' @ (if n - 1 < 0 then ''-'' else ''+'') @ show_nat (nat \<bar>n - 1\<bar>))"
    using False by (simp add: decimal_text_def ds_def k_def n_def Let_def)
  consider (plain) "k \<le> n" "n \<le> 21" | (point) "\<not> (k \<le> n \<and> n \<le> 21)" "0 < n" "n \<le> 21"
    | (small) "\<not> (k \<le> n \<and> n \<le> 21)" "- 6 < n" "n \<le> 0"
    | (expo) "\<not> (k \<le> n \<and> n \<le> 21)" "\<not> (0 < n \<and> n \<le> 21)" "\<not> (- 6 < n \<and> n \<le> 0)" by blast
  then show ?thesis
  proof cases
    case plain
    then have "read_decimal (decimal_text s e) = strip_zeros (s * 10 ^ nat (n - k)) 0"
      using shape digits_replicate by (simp add: shown read_decimal_def digits_value_append digits_value_zeros)
    then show ?thesis using plain assms False by (simp add: strip_zeros_shift n_def k_def)
  next
    case point
    then have "read_decimal (decimal_text s e) = strip_zeros s (- int (length (drop (nat n) ds)))"
      using shape digits_sub [of ds "nat n"] by (simp add: shown read_decimal_def)
    then show ?thesis using point assms by (simp add: n_def k_def)
  next
    case small
    let ?z = "replicate (nat (- n)) (CHR ''0'')"
    have "list_all is_digit (?z @ ds)" using shape digits_replicate by simp
    then have "read_decimal (decimal_text s e) = strip_zeros (digits_value (''0'' @ ?z @ ds)) (- int (length (?z @ ds)))"
      using small by (simp add: shown read_decimal_def)
    also have "digits_value (''0'' @ ?z @ ds) = s"
      using shape by (simp only: digits_value_append digits_value_zeros) (simp add: digits_value_def digit_value_def)
    finally show ?thesis using small assms by (simp add: n_def k_def)
  next
    case expo
    let ?x = "''e'' @ (if n - 1 < 0 then ''-'' else ''+'') @ show_nat (nat \<bar>n - 1\<bar>)"
    have x: "read_exponent ?x = n - 1" "takeWhile is_digit ?x = []" "dropWhile is_digit ?x = ?x" by auto
    have "read_fraction ((if k = 1 then '''' else ''.'' @ drop 1 ds) @ ?x) = (drop 1 ds, ?x)"
      using shape digits_sub [of ds 1] by (cases "k = 1") (auto simp: k_def)
    moreover have "decimal_text s e = take 1 ds @ (if k = 1 then '''' else ''.'' @ drop 1 ds) @ ?x"
      using expo by (simp only: shown if_False simp_thms)
    ultimately have "read_decimal (decimal_text s e) =
        strip_zeros (digits_value (take 1 ds @ drop 1 ds)) (n - 1 - int (length (drop 1 ds)))"
      using shape digits_sub [of ds 1] x by (cases "k = 1") (simp_all add: read_decimal_def)
    also have "n - 1 - int (length (drop 1 ds)) = e"
      using shape by (cases ds) (auto simp: n_def k_def)
    finally show ?thesis using shape assms by simp
  qed
qed

definition number_char :: "char \<Rightarrow> bool" where
  "number_char c \<longleftrightarrow> is_digit c \<or> c \<in> set ''-+.e''"

lemma number_chars_digits: "list_all is_digit xs \<Longrightarrow> list_all number_char xs"
  by (auto simp: list_all_iff number_char_def)

lemma number_char_marks [simp]: "number_char (CHR ''.'')" "number_char (CHR ''e'')" "number_char (CHR ''-'')"
  "number_char (CHR ''+'')" "number_char (CHR ''0'')"
  by (simp_all add: number_char_def)

lemma decimal_text_shape:
  "list_all number_char (decimal_text s e) \<and> decimal_text s e \<noteq> [] \<and> is_digit (hd (decimal_text s e))"
proof -
  define ds where "ds = show_nat s"
  note shape = show_nat_shape [OF ds_def]
  then have ds: "list_all number_char ds" "list_all number_char (take n ds)" "list_all number_char (drop n ds)"
    "list_all number_char (show_nat m)" "list_all number_char (replicate n (CHR ''0''))" for n m
    using digits_sub show_nat_digits digits_replicate by (auto intro: number_chars_digits)
  have hd: "is_digit (hd ds)" "0 < n \<Longrightarrow> take n ds \<noteq> [] \<and> hd (take n ds) = hd ds" for n
    using shape by (cases ds; cases n; simp)+
  show ?thesis
    using ds shape hd(1) hd(2) [of "nat (int (length ds) + e)"] hd(2) [of 1]
    unfolding decimal_text_def Let_def ds_def [symmetric] by (simp add: hd_append)
qed

lemma number_text_shape:
  "list_all number_char (number_text n s e) \<and> number_text n s e \<noteq> []
   \<and> (hd (number_text n s e) = CHR ''-'' \<or> is_digit (hd (number_text n s e)))"
  by (simp add: number_text_def decimal_text_shape hd_append split: prod.split)

text \<open>The text of a number is read back as the number, with one sign for zero.\<close>

lemma read_number_text:
  assumes "strip_zeros s e = (s', e')"
  shows "read_number (number_text n s e) = (n \<and> s' \<noteq> 0, s', e')"
proof -
  have "read_decimal (decimal_text s' e') = (s', e')"
    using read_decimal_text [OF strip_zeros_idem [OF assms]] .
  moreover have "take 1 (decimal_text s' e') \<noteq> ''-''"
    using decimal_text_shape [of s' e'] by (cases "decimal_text s' e'") auto
  ultimately show ?thesis by (simp add: number_text_def assms read_number_def)
qed

lemma number_text_unique:
  assumes "number_text n s e @ r = number_text m t f @ r'" and "delimited r" and "delimited r'"
    and "strip_zeros s e = (s, e)" "strip_zeros t f = (t, f)" "n \<longrightarrow> s \<noteq> 0" "m \<longrightarrow> t \<noteq> 0"
  shows "n = m \<and> s = t \<and> e = f \<and> r = r'"
proof -
  have "takeWhile number_char q = []" if "delimited q" for q
    using that by (cases q) (auto simp: delimited_def number_char_def is_digit_def)
  then have "takeWhile number_char (number_text n s e @ q) = number_text n s e" if "delimited q" for n s e q
    using that number_text_shape [of n s e] by (simp add: list_all_iff takeWhile_append2)
  with assms(1-3) have texts: "number_text n s e = number_text m t f" by metis
  have "(n \<and> s \<noteq> 0, s, e) = (m \<and> t \<noteq> 0, t, f)"
    using read_number_text [OF assms(4), of n] read_number_text [OF assms(5), of m] unfolding texts by (rule trans [OF sym])
  with assms(1,6,7) texts show ?thesis by auto
qed

subsection \<open>Values\<close>

text \<open>The values in normal form.\<close>

fun normal :: "json \<Rightarrow> bool" where
  "normal (JArray xs) = (xs \<noteq> [JUndefined] \<and> list_all normal xs)"
| "normal (JObject kvs) = list_all (\<lambda>(k, v). normal v) kvs"
| "normal (JNumber negative s e) = (strip_zeros s e = (s, e) \<and> (negative \<longrightarrow> s \<noteq> 0))"
| "normal JNaN = False"
| "normal (JInfinity negative) = False"
| "normal JFunction = False"
| "normal (JDate t) = False"
| "normal v = True"

lemma normal_json_norm: "normal (json_norm H v)"
proof (induction H v rule: json_norm.induct)
  case (2 H kvs)
  then show ?case by (fastforce simp: list_all_iff)
qed (auto simp: list_all_iff Let_def strip_zeros_idem split: prod.splits)

fun head_class :: "json \<Rightarrow> char \<Rightarrow> bool" where
  "head_class JNull c = (c = CHR ''n'')"
| "head_class (JBool b) c = (c = (if b then CHR ''t'' else CHR ''f''))"
| "head_class (JNumber _ _ _) c = (c = CHR ''-'' \<or> is_digit c)"
| "head_class (JString _) c = (c = CHR 0x22)"
| "head_class (JArray _) c = (c = CHR ''['')"
| "head_class (JObject _) c = (c = CHR ''{'')"
| "head_class _ c = False"

lemma flat_head:
  assumes "normal v" and "v \<noteq> JUndefined"
  shows "flat v \<noteq> [] \<and> head_class v (hd (flat v))"
  using assms number_text_shape by (cases v) (auto simp: quote_def)

text \<open>The first symbol tells the kinds of values apart.\<close>

lemma head_class_kind:
  "head_class w (CHR ''['') \<Longrightarrow> \<exists>ys. w = JArray ys"
  "head_class w (CHR ''{'') \<Longrightarrow> \<exists>kvs. w = JObject kvs"
  "head_class w (CHR 0x22) \<Longrightarrow> \<exists>t. w = JString t"
  "head_class w (CHR ''n'') \<Longrightarrow> w = JNull"
  "head_class w (CHR ''t'') \<Longrightarrow> w = JBool True"
  "head_class w (CHR ''f'') \<Longrightarrow> w = JBool False"
  "head_class w c \<Longrightarrow> head_class (JNumber n s e) c \<Longrightarrow> \<exists>m t f. w = JNumber m t f"
  by (cases w; auto simp: is_digit_def split: if_splits)+

lemma join_Cons: "join sep (x # xs) = x @ concat (map (\<lambda>y. sep @ y) xs)"
proof (induction xs arbitrary: x)
  case (Cons y ys)
  then show ?case by simp
qed simp

lemma tail_unique:
  assumes "\<And>x y r r'. x \<in> set xs \<Longrightarrow> y \<in> set ys \<Longrightarrow> delimited r \<Longrightarrow> delimited r' \<Longrightarrow>
      g x @ r = g y @ r' \<Longrightarrow> x = y \<and> r = r'"
    and "c \<in> set '']}''"
    and "concat (map (\<lambda>y. '','' @ g y) xs) @ c # r = concat (map (\<lambda>y. '','' @ g y) ys) @ c # r'"
  shows "xs = ys \<and> r = r'"
  using assms
proof (induction xs arbitrary: ys)
  case Nil
  then show ?case by (cases ys) auto
next
  case (Cons x xs)
  note c = Cons.prems(2)
  show ?case
  proof (cases ys)
    case Nil
    with Cons.prems(2,3) show ?thesis by auto
  next
    case ys: (Cons y zs)
    let ?tl = "\<lambda>zs r. concat (map (\<lambda>y. '','' @ g y) zs) @ c # r"
    have del: "delimited (?tl zs r)" for zs r
      using c by (cases zs) (auto simp: delimited_def)
    from Cons.prems(3) ys have "g x @ ?tl xs r = g y @ ?tl zs r'" by simp
    with Cons.prems(1) [of x y, OF _ _ del del] ys have eq: "x = y \<and> ?tl xs r = ?tl zs r'" by simp
    have "xs = zs \<and> r = r'"
    proof (rule Cons.IH [OF _ c])
      show "?tl xs r = ?tl zs r'" using eq by blast
      show "u = v \<and> q = q'" if "u \<in> set xs" "v \<in> set zs" "delimited q" "delimited q'" "g u @ q = g v @ q'"
        for u v q q' using Cons.prems(1) [of u v q q'] that ys by simp
    qed
    with eq ys show ?thesis by simp
  qed
qed

lemma join_unique:
  assumes U: "\<And>x y r r'. x \<in> set xs \<Longrightarrow> y \<in> set ys \<Longrightarrow> delimited r \<Longrightarrow> delimited r' \<Longrightarrow>
      g x @ r = g y @ r' \<Longrightarrow> x = y \<and> r = r'"
    and N: "\<And>x. x \<in> set xs \<union> set ys \<Longrightarrow> g x = [] \<or> hd (g x) \<noteq> c"
    and E: "map g xs \<noteq> [[]]" "map g ys \<noteq> [[]]"
    and c: "c \<in> set '']}''"
    and eq: "join '','' (map g xs) @ c # r = join '','' (map g ys) @ c # r'"
  shows "xs = ys \<and> r = r'"
proof (cases "xs = [] \<or> ys = []")
  case True
  have "join '','' (map g zs) @ c # q \<noteq> c # q'" if "zs \<noteq> []" "map g zs \<noteq> [[]]" "set zs \<subseteq> set xs \<union> set ys" for zs q q'
  proof -
    from that obtain z zt where zs: "zs = z # zt" by (cases zs) auto
    with that N [of z] c show ?thesis by (cases "g z"; cases zt) (auto simp: join_Cons)
  qed
  from this [of xs r r'] this [of ys r' r] True E eq show ?thesis
    by (cases "xs = []"; cases "ys = []") (auto dest: sym)
next
  case False
  then obtain x xt y yt where xs: "xs = x # xt" and ys: "ys = y # yt" by (auto simp: neq_Nil_conv)
  let ?tl = "\<lambda>zs r. concat (map (\<lambda>y. '','' @ g y) zs) @ c # r"
  have del: "delimited (?tl zs r)" for zs r
    using c by (cases zs) (auto simp: delimited_def)
  have "g x @ ?tl xt r = g y @ ?tl yt r'"
    using eq by (simp add: xs ys join_Cons comp_def)
  with U [of x y, OF _ _ del del] have heads: "x = y \<and> ?tl xt r = ?tl yt r'"
    by (simp add: xs ys)
  have "xt = yt \<and> r = r'"
  proof (rule tail_unique [OF _ c])
    show "?tl xt r = ?tl yt r'" using heads by blast
    show "u = v \<and> q = q'" if "u \<in> set xt" "v \<in> set yt" "delimited q" "delimited q'" "g u @ q = g v @ q'"
      for u v q q' using U [of u v q q'] that xs ys by simp
  qed
  with heads show ?thesis by (simp add: xs ys)
qed

lemma flat_unique:
  assumes "normal v" and "normal w" and "delimited r" and "delimited r'"
    and "flat v @ r = flat w @ r'"
  shows "v = w \<and> r = r'"
  using assms
proof (induction v arbitrary: w r r' rule: flat.induct)
  case (1 xs)
  have "w \<noteq> JUndefined" using "1.prems"(4,5) by (auto simp: delimited_def)
  with "1.prems" flat_head [of w] obtain ys where w: "w = JArray ys"
    by (cases "flat w") (auto dest: head_class_kind)
  have empty: "flat x = [] \<longleftrightarrow> x = JUndefined" if "normal x" for x
    using flat_head [OF that] by auto
  have "xs = ys \<and> r = r'"
  proof (rule join_unique [where g = flat and c = "CHR '']''"])
    show "x = y \<and> q = q'" if "x \<in> set xs" "y \<in> set ys" "delimited q" "delimited q'" "flat x @ q = flat y @ q'"
      for x y q q'
      using "1.IH" [of x y q q'] that "1.prems"(1,2) w by (auto simp: list_all_iff)
    show "flat x = [] \<or> hd (flat x) \<noteq> CHR '']''" if "x \<in> set xs \<union> set ys" for x
    proof -
      have "normal x" using that "1.prems"(1,2) w by (auto simp: list_all_iff)
      with flat_head [of x] show ?thesis by (cases x) (auto simp: is_digit_def split: if_splits)
    qed
    show "map flat xs \<noteq> [[]]" "map flat ys \<noteq> [[]]"
      using "1.prems"(1,2) w empty by (auto simp: map_eq_Cons_conv)
  qed (use "1.prems"(5) w in simp_all)
  with w show ?case by simp
next
  case (2 kvs)
  let ?p = "\<lambda>v. if v = JUndefined then ''undefined'' else flat v"
  let ?g = "\<lambda>(k, v). quote k @ '':'' @ ?p v"
  have "w \<noteq> JUndefined" using "2.prems"(4,5) by (auto simp: delimited_def)
  with "2.prems" flat_head [of w] obtain ys where w: "w = JObject ys"
    by (cases "flat w") (auto dest: head_class_kind)
  have "kvs = ys \<and> r = r'"
  proof (rule join_unique [where g = ?g and c = "CHR ''}''"])
    fix p p' q q'
    assume mem: "p \<in> set kvs" "p' \<in> set ys" and q: "delimited q" "delimited q'"
      and eq: "?g p @ q = ?g p' @ q'"
    obtain k u k' u' where p: "p = (k, u)" "p' = (k', u')" by (cases p; cases p')
    from eq have "quote k @ '':'' @ ?p u @ q = quote k' @ '':'' @ ?p u' @ q'" by (simp add: p)
    from quote_unique [OF this] have k: "k = k'" and texts: "?p u @ q = ?p u' @ q'" by simp_all
    have normals: "normal u" "normal u'" using mem "2.prems"(1,2) w p by (auto simp: list_all_iff)
    have no: "flat x @ y \<noteq> ''undefined'' @ z" if "normal x" "x \<noteq> JUndefined" for x y z
      using flat_head [OF that] by (cases x; cases "flat x") (auto simp: is_digit_def)
    have "u = JUndefined \<longleftrightarrow> u' = JUndefined"
      using texts no [OF normals(1), of q q'] no [OF normals(2), of q' q] by (auto split: if_splits)
    with texts k "2.IH" [of "(k, u)" k u u' q q'] mem q normals p show "p = p' \<and> q = q'"
      by (auto split: if_splits)
  qed (use "2.prems"(5) w in \<open>auto simp: quote_def\<close>)
  with w show ?case by simp
next
  case 3
  show ?case
  proof (rule ccontr)
    assume neg: "\<not> ?case"
    with "3.prems" have w: "w \<noteq> JUndefined" by auto
    from flat_head [OF "3.prems"(2) this] "3.prems"(3,5) have "head_class w (hd r)" "hd r \<in> set '',]}''"
      by (cases r; auto simp: delimited_def)+
    then show False by (cases w) (auto simp: is_digit_def split: if_splits)
  qed
next
  case 4
  then have "w \<noteq> JUndefined" by (auto simp: delimited_def)
  with "4.prems" flat_head [of w] have "w = JNull"
    by (cases "flat w") (auto dest: head_class_kind)
  with "4.prems" show ?case by simp
next
  case (5 b)
  then have "w \<noteq> JUndefined" by (cases b) (auto simp: delimited_def)
  with "5.prems" flat_head [of w] have "w = JBool b"
    by (cases "flat w"; cases b) (auto dest: head_class_kind)
  with "5.prems" show ?case by simp
next
  case (6 n s e)
  have "w \<noteq> JUndefined" using "6.prems"(3-5) flat_head [OF "6.prems"(1)]
    by (cases "flat (JNumber n s e)") (auto simp: delimited_def is_digit_def)
  with "6.prems" flat_head [of "JNumber n s e"] flat_head [of w]
  obtain m t f where "w = JNumber m t f"
    using head_class_kind(7) [of w "hd (flat w)" n s e] hd_append2 [of "flat w" r']
      hd_append2 [of "flat (JNumber n s e)" r] by force
  with "6.prems" number_text_unique [of n s e r m t f r'] show ?case by simp
next
  case (9 s)
  have "w \<noteq> JUndefined" using "9.prems"(4,5) by (auto simp: delimited_def quote_def)
  with "9.prems" flat_head [of w] obtain t where "w = JString t"
    by (cases "flat w") (auto simp: quote_def dest: head_class_kind)
  with "9.prems" quote_unique [of s r t r'] show ?case by simp
qed simp_all

lemma canonicalize_injective:
  assumes "canonicalize H v = canonicalize H w"
  shows "json_norm H v = json_norm H w"
  using assms flat_unique [of "json_norm H v" "json_norm H w" "''''" "''''"]
  by (simp add: canonicalize_norm normal_json_norm delimited_def split: if_splits)

text \<open>The same of the text that a template literal writes, \<open>undefined\<close> for a value that has none.\<close>

lemma undefined_text_unique:
  assumes "undefined_as ''undefined'' (canonicalize H v) = undefined_as ''undefined'' (canonicalize H w)"
  shows "json_norm H v = json_norm H w"
proof -
  have "flat (json_norm H u) \<noteq> ''undefined''" if "json_norm H u \<noteq> JUndefined" for u
    using flat_head [OF normal_json_norm that] by (cases "json_norm H u") (auto simp: is_digit_def)
  from this [of v] this [of w] have "canonicalize H v = canonicalize H w"
    using assms by (auto simp: canonicalize_norm split: if_splits)
  then show ?thesis by (rule canonicalize_injective)
qed

text \<open>Some texts, and the differences that the text does not show.\<close>

lemma number_text_samples:
  "number_text False 1 (- 1) = ''0.1''" "number_text True 120 (- 2) = ''-1.2''" "number_text False 15 (- 8) = ''1.5e-7''"
  "number_text False 12 20 = ''1.2e+21''" "number_text False 1 3 = ''1000''" "number_text True 0 0 = ''0''"
  by code_simp+

lemma canonicalize_samples:
  "canonicalize H (JArray [JUndefined]) = canonicalize H (JArray [])"
  "canonicalize H (JArray [JFunction, JNull]) = Some ''[,null]''"
  "canonicalize H JNaN = canonicalize H JNull"
  "canonicalize H (JNumber True 0 0) = canonicalize H (JInt 0)"
  "canonicalize H (JDate t) = canonicalize H (JObject [])"
  "canonicalize H (JObject [(''a'', JFunction)]) = Some (''{'' @ quote ''a'' @ '':undefined}'')"
  by (simp_all add: canonicalize_norm normal_json_norm strip_zeros.simps [of 0] sort_by_def)

section \<open>Order of object properties\<close>

text \<open>What the code relies on of \<open>localeCompare\<close>: a total order on the property names.\<close>

definition total_comparison :: "(string \<Rightarrow> string \<Rightarrow> int) \<Rightarrow> bool" where
  "total_comparison lc \<longleftrightarrow> (\<forall>a b. lc a b \<le> 0 \<or> lc b a \<le> 0)
     \<and> (\<forall>a b. lc a b \<le> 0 \<longrightarrow> lc b a \<le> 0 \<longrightarrow> a = b)
     \<and> (\<forall>a b c. lc a b \<le> 0 \<longrightarrow> lc b c \<le> 0 \<longrightarrow> lc a c \<le> 0)"

text \<open>Comparison by code units, the instance the witnesses use.\<close>

definition codeUnitCompare :: "string \<Rightarrow> string \<Rightarrow> int" where
  "codeUnitCompare a b = (if a = b then 0 else if a < b then - 1 else 1)"

definition plain_host :: host where
  "plain_host = \<lparr>sha256 = (\<lambda>s. s), localeCompare = codeUnitCompare\<rparr>"

lemma total_codeUnitCompare: "total_comparison codeUnitCompare"
  unfolding total_comparison_def codeUnitCompare_def by auto

lemma sorted_insort_by:
  assumes "\<And>a b. cmp a b \<le> 0 \<or> cmp b a \<le> 0"
    and "\<And>a b c. cmp a b \<le> 0 \<Longrightarrow> cmp b c \<le> 0 \<Longrightarrow> cmp a c \<le> 0"
    and "sorted_wrt (\<lambda>a b. cmp a b \<le> 0) xs"
  shows "sorted_wrt (\<lambda>a b. cmp a b \<le> 0) (insort_by cmp x xs)"
  using assms(3)
proof (induction xs)
  case (Cons y ys)
  have set: "set (insort_by cmp x ys) = insert x (set ys)"
    by (metis mset_insort_by set_mset_add_mset_insert set_mset_mset)
  show ?case
  proof (cases "cmp x y \<le> 0")
    case True
    with Cons.prems assms(2) show ?thesis by auto
  next
    case False
    with assms(1) have "cmp y x \<le> 0" by blast
    with False Cons set show ?thesis by auto
  qed
qed simp

lemma sorted_sort_by:
  assumes "\<And>a b. cmp a b \<le> 0 \<or> cmp b a \<le> 0"
    and "\<And>a b c. cmp a b \<le> 0 \<Longrightarrow> cmp b c \<le> 0 \<Longrightarrow> cmp a c \<le> 0"
  shows "sorted_wrt (\<lambda>a b. cmp a b \<le> 0) (sort_by cmp xs)"
  unfolding sort_by_def by (induction xs) (auto intro: sorted_insort_by [OF assms])

lemma sorted_wrt_unique:
  assumes "sorted_wrt R xs" and "sorted_wrt R ys" and "mset xs = mset ys"
    and "\<And>a b. a \<in> set xs \<Longrightarrow> b \<in> set xs \<Longrightarrow> R a b \<Longrightarrow> R b a \<Longrightarrow> a = b"
  shows "xs = ys"
  using assms
proof (induction xs arbitrary: ys)
  case (Cons x xs)
  then obtain y zs where ys: "ys = y # zs" by (cases ys) auto
  have sets: "set (x # xs) = set ys" using Cons.prems(3) by (metis set_mset_mset)
  have "x = y"
  proof (rule ccontr)
    assume "x \<noteq> y"
    with sets ys have "x \<in> set zs" "y \<in> set xs" by auto
    with Cons.prems(1,2) ys have "R x y" "R y x" by auto
    with Cons.prems(4) [of x y] \<open>y \<in> set xs\<close> \<open>x \<noteq> y\<close> show False by simp
  qed
  moreover have "xs = zs"
    by (rule Cons.IH) (use Cons.prems ys \<open>x = y\<close> in auto)
  ultimately show ?case by (simp add: ys)
qed simp

lemma sort_by_perm:
  assumes "mset xs = mset ys" and "distinct (map fst xs)"
    and "total_comparison (localeCompare H)"
  shows "sort_by (entry_cmp H) xs = sort_by (entry_cmp H) ys"
proof (rule sorted_wrt_unique)
  let ?R = "\<lambda>a b. entry_cmp H a b \<le> 0"
  show "sorted_wrt ?R (sort_by (entry_cmp H) xs)" "sorted_wrt ?R (sort_by (entry_cmp H) ys)"
    using assms(3) unfolding total_comparison_def
    by (intro sorted_sort_by; unfold entry_cmp_def; blast)+
  show "mset (sort_by (entry_cmp H) xs) = mset (sort_by (entry_cmp H) ys)"
    using assms(1) by simp
  show "a = b" if "a \<in> set (sort_by (entry_cmp H) xs)" "b \<in> set (sort_by (entry_cmp H) xs)"
    "entry_cmp H a b \<le> 0" "entry_cmp H b a \<le> 0" for a b
  proof -
    have "fst a = fst b" using that(3,4) assms(3) by (auto simp: total_comparison_def entry_cmp_def)
    with that(1,2) assms(2) show ?thesis
      by (metis distinct_map inj_onD set_sort_by)
  qed
qed

section \<open>Properties\<close>

text \<open>C26. The canonical text identifies the payload: two values have the same canonical serialisation exactly
  when they have the same normal form, that is, when they differ only in the order of object properties,
  in \<open>undefined\<close> properties, in null, \<open>NaN\<close> or an infinity, in 0 or minus zero, in a function or \<open>undefined\<close> as an
  array element or the whole value, in an array that is empty or holds just such an element, and in a date or an empty object.\<close>

theorem canonicalize_identifies_payloads:
  "canonicalize H v = canonicalize H w \<longleftrightarrow> json_norm H v = json_norm H w"
  using canonicalize_injective by (auto simp: canonicalize_norm)

text \<open>The canonical text of an object, and so every fingerprint and receipt built on it, does
  not depend on the order in which its properties were written.\<close>

theorem canonicalize_key_order:
  assumes "mset kvs = mset kvs'" and "distinct (map fst kvs)"
    and "total_comparison (localeCompare H)"
  shows "canonicalize H (JObject kvs) = canonicalize H (JObject kvs')
    \<and> fingerprint H ns (JObject kvs) = fingerprint H ns (JObject kvs')"
proof -
  have "mset (filter (\<lambda>(k, v). v \<noteq> JUndefined) kvs) = mset (filter (\<lambda>(k, v). v \<noteq> JUndefined) kvs')"
    using assms(1) by simp
  moreover have "distinct (map fst (filter (\<lambda>(k, v). v \<noteq> JUndefined) kvs))"
    using assms(2) by (simp add: distinct_map_filter)
  ultimately have "sort_by (entry_cmp H) (filter (\<lambda>(k, v). v \<noteq> JUndefined) kvs)
      = sort_by (entry_cmp H) (filter (\<lambda>(k, v). v \<noteq> JUndefined) kvs')"
    by (rule sort_by_perm [OF _ _ assms(3)])
  then have "canonicalize H (JObject kvs) = canonicalize H (JObject kvs')"
    unfolding canonicalize_object by simp
  then show ?thesis by (simp only: fingerprint_def simp_thms)
qed

theorem canonicalize_key_order_witness:
  "canonicalize plain_host (JObject [(''b'', JNull), (''a'', JBool True)])
     = canonicalize plain_host (JObject [(''a'', JBool True), (''b'', JNull)])"
proof (rule canonicalize_key_order [THEN conjunct1])
  show "total_comparison (localeCompare plain_host)"
    by (simp add: plain_host_def total_codeUnitCompare)
qed auto

end
