(* ===== verification/Diagnosis_Routing.thy ===== *)
theory Diagnosis_Routing
  imports Machines Canonical_Json
begin

text \<open>
  \<open>contracts/diagnosis-action-routing.ts\<close> and the diagnosis records of
  \<open>contracts/work-record.ts\<close>: the receipt that binds a language-model diagnosis to the payload
  it diagnosed, the authorisation of the route the diagnosis recommends, and the state machine
  of a diagnosed request. Thrown errors are the left summand, with the message of the source.
\<close>

section \<open>Records of the contracts\<close>

datatype RecommendedAction =
    direct_answer | ask_clarification | plan_action | delegate | use_tool | use_yeonjang
  | retry | redelegate | partial_report | final_report | stop_blocked

datatype ResultSufficiency = sufficient | partial | insufficient | unknown_sufficiency

record LlmRequestDiagnosisRecord =
  rq_diagnosis_summary :: string
  rq_intent :: string
  rq_goal :: string
  rq_constraints :: "string list"
  rq_missing_information :: "string list"
  rq_risk :: string
  rq_confidence :: string
  rq_recommended_action :: RecommendedAction
  rq_reason :: string

record LlmResultDiagnosisRecord =
  rs_diagnosis_summary :: string
  rs_sufficiency :: ResultSufficiency
  rs_missing_information :: "string list"
  rs_conflicts :: "string list"
  rs_risk :: string
  rs_risks :: "string list"
  rs_confidence :: string
  rs_recommended_action :: RecommendedAction
  rs_reason :: string

datatype Diagnosis =
    RequestDiagnosis LlmRequestDiagnosisRecord
  | ResultDiagnosis LlmResultDiagnosisRecord

datatype DiagnosisSubjectKind =
    user_request | tool_result | sub_agent_result | yeonjang_result | error_subject | validation_result

datatype DiagnosisRequestedFlow = standard | prompt_improvement_flow

datatype DiagnosisRouteKind =
    direct_answer_route | clarification_route | planning_route | delegation_route | tool_route
  | yeonjang_route | prompt_improvement_route | retry_route | redelegation_route
  | partial_report_route | final_report_route | blocked_route

datatype DiagnosisTarget = request_diagnosis | result_diagnosis

record LlmDiagnosisReceipt =
  schemaVersion :: nat
  receiptId :: string
  target :: DiagnosisTarget
  subjectKind :: DiagnosisSubjectKind
  subjectFingerprint :: string
  diagnosisFingerprint :: string
  recommendedAction :: RecommendedAction

record DiagnosisActionRouteDecision =
  rd_receiptId :: string
  rd_target :: DiagnosisTarget
  rd_subjectKind :: DiagnosisSubjectKind
  rd_recommendedAction :: RecommendedAction
  rd_routeKind :: DiagnosisRouteKind

section \<open>Names as the source spells them\<close>

fun action_name :: "RecommendedAction \<Rightarrow> string" where
  "action_name direct_answer = ''direct_answer''"
| "action_name ask_clarification = ''ask_clarification''"
| "action_name plan_action = ''plan''"
| "action_name delegate = ''delegate''"
| "action_name use_tool = ''use_tool''"
| "action_name use_yeonjang = ''use_yeonjang''"
| "action_name retry = ''retry''"
| "action_name redelegate = ''redelegate''"
| "action_name partial_report = ''partial_report''"
| "action_name final_report = ''final_report''"
| "action_name stop_blocked = ''stop_blocked''"

fun sufficiency_name :: "ResultSufficiency \<Rightarrow> string" where
  "sufficiency_name sufficient = ''sufficient''"
| "sufficiency_name partial = ''partial''"
| "sufficiency_name insufficient = ''insufficient''"
| "sufficiency_name unknown_sufficiency = ''unknown''"

fun target_name :: "DiagnosisTarget \<Rightarrow> string" where
  "target_name request_diagnosis = ''request_diagnosis''"
| "target_name result_diagnosis = ''result_diagnosis''"

fun subject_name :: "DiagnosisSubjectKind \<Rightarrow> string" where
  "subject_name user_request = ''user_request''"
| "subject_name tool_result = ''tool_result''"
| "subject_name sub_agent_result = ''sub_agent_result''"
| "subject_name yeonjang_result = ''yeonjang_result''"
| "subject_name error_subject = ''error''"
| "subject_name validation_result = ''validation_result''"

fun ROUTE_BY_ACTION :: "RecommendedAction \<Rightarrow> DiagnosisRouteKind" where
  "ROUTE_BY_ACTION direct_answer = direct_answer_route"
| "ROUTE_BY_ACTION ask_clarification = clarification_route"
| "ROUTE_BY_ACTION plan_action = planning_route"
| "ROUTE_BY_ACTION delegate = delegation_route"
| "ROUTE_BY_ACTION use_tool = tool_route"
| "ROUTE_BY_ACTION use_yeonjang = yeonjang_route"
| "ROUTE_BY_ACTION retry = retry_route"
| "ROUTE_BY_ACTION redelegate = redelegation_route"
| "ROUTE_BY_ACTION partial_report = partial_report_route"
| "ROUTE_BY_ACTION final_report = final_report_route"
| "ROUTE_BY_ACTION stop_blocked = blocked_route"

section \<open>The diagnosis as the hashed JSON value\<close>

definition json_strings :: "string list \<Rightarrow> json" where
  "json_strings xs = JArray (map JString xs)"

fun diagnosis_json :: "Diagnosis \<Rightarrow> json" where
  "diagnosis_json (RequestDiagnosis d) = JObject
     [(''diagnosis_summary'', JString (rq_diagnosis_summary d)),
      (''intent'', JString (rq_intent d)),
      (''goal'', JString (rq_goal d)),
      (''constraints'', json_strings (rq_constraints d)),
      (''missing_information'', json_strings (rq_missing_information d)),
      (''risk'', JString (rq_risk d)),
      (''confidence'', JString (rq_confidence d)),
      (''recommended_action'', JString (action_name (rq_recommended_action d))),
      (''reason'', JString (rq_reason d))]"
| "diagnosis_json (ResultDiagnosis d) = JObject
     [(''diagnosis_summary'', JString (rs_diagnosis_summary d)),
      (''sufficiency'', JString (sufficiency_name (rs_sufficiency d))),
      (''missing_information'', json_strings (rs_missing_information d)),
      (''conflicts'', json_strings (rs_conflicts d)),
      (''risk'', JString (rs_risk d)),
      (''risks'', json_strings (rs_risks d)),
      (''confidence'', JString (rs_confidence d)),
      (''recommended_action'', JString (action_name (rs_recommended_action d))),
      (''reason'', JString (rs_reason d))]"

fun recommended_action :: "Diagnosis \<Rightarrow> RecommendedAction" where
  "recommended_action (RequestDiagnosis d) = rq_recommended_action d"
| "recommended_action (ResultDiagnosis d) = rs_recommended_action d"

fun isRequestDiagnosis :: "Diagnosis \<Rightarrow> bool" where
  "isRequestDiagnosis (RequestDiagnosis _) = True"
| "isRequestDiagnosis (ResultDiagnosis _) = False"

section \<open>Receipts\<close>

definition subject_namespace :: "DiagnosisTarget \<Rightarrow> DiagnosisSubjectKind \<Rightarrow> string" where
  "subject_namespace t k = ''diagnosis-subject:'' @ target_name t @ '':'' @ subject_name k"

definition record_namespace :: "DiagnosisTarget \<Rightarrow> string" where
  "record_namespace t = ''diagnosis-record:'' @ target_name t"

definition createLlmDiagnosisReceipt ::
  "host \<Rightarrow> string \<Rightarrow> DiagnosisTarget \<Rightarrow> DiagnosisSubjectKind \<Rightarrow> json \<Rightarrow> Diagnosis
     \<Rightarrow> string + LlmDiagnosisReceipt" where
  "createLlmDiagnosisReceipt H rid tgt kind subjectPayload diagnosis =
     rbind (requireText ''Diagnosis receipt ID is required.'' rid) (\<lambda>rid'.
       Inr \<lparr>schemaVersion = 1, receiptId = rid', target = tgt, subjectKind = kind,
         subjectFingerprint = fingerprint H (subject_namespace tgt kind) subjectPayload,
         diagnosisFingerprint = fingerprint H (record_namespace tgt) (diagnosis_json diagnosis),
         recommendedAction = recommended_action diagnosis\<rparr>)"

fun assertDiagnosisActionConsistency :: "Diagnosis \<Rightarrow> string + unit" where
  "assertDiagnosisActionConsistency (RequestDiagnosis d) =
     (let action = rq_recommended_action d;
          nonCommittal = (action = ask_clarification \<or> action = stop_blocked)
      in if rq_missing_information d \<noteq> [] \<and> \<not> nonCommittal
         then Inl ''Diagnosis with missing information must select clarification or blocked reporting.''
         else Inr ())"
| "assertDiagnosisActionConsistency (ResultDiagnosis d) =
     (let action = rs_recommended_action d
      in if rs_sufficiency d \<noteq> sufficient \<and> action = final_report
         then Inl (sufficiency_name (rs_sufficiency d) @ '' result cannot select final_report.'')
         else if rs_sufficiency d = sufficient \<and> (action = retry \<or> action = redelegate)
         then Inl (''Sufficient result cannot select '' @ action_name action @ ''.'')
         else if rs_missing_information d \<noteq> [] \<and> action = final_report
         then Inl ''Result with missing information cannot select final_report.''
         else Inr ())"

definition authorizeDiagnosisActionRoute ::
  "host \<Rightarrow> LlmDiagnosisReceipt option \<Rightarrow> json \<Rightarrow> Diagnosis \<Rightarrow> DiagnosisRequestedFlow option
     \<Rightarrow> string + DiagnosisActionRouteDecision" where
  "authorizeDiagnosisActionRoute H receipt_opt subjectPayload diagnosis flow =
     (case receipt_opt of
        None \<Rightarrow> Inl ''LLM diagnosis receipt is required before route selection.''
      | Some receipt \<Rightarrow>
          let expectedTarget = (if isRequestDiagnosis diagnosis then request_diagnosis else result_diagnosis)
          in if target receipt \<noteq> expectedTarget
             then Inl ''Diagnosis receipt target does not match diagnosis kind.''
             else if subjectFingerprint receipt \<noteq>
               fingerprint H (subject_namespace (target receipt) (subjectKind receipt)) subjectPayload
             then Inl ''Diagnosis receipt subject fingerprint does not match the routed payload.''
             else if diagnosisFingerprint receipt \<noteq>
               fingerprint H (record_namespace (target receipt)) (diagnosis_json diagnosis)
             then Inl ''Diagnosis receipt diagnosis fingerprint does not match the routed diagnosis.''
             else if recommendedAction receipt \<noteq> recommended_action diagnosis
             then Inl ''Diagnosis receipt action does not match the routed diagnosis.''
             else rbind (assertDiagnosisActionConsistency diagnosis) (\<lambda>_.
               let requestedFlow = (case flow of None \<Rightarrow> standard | Some f \<Rightarrow> f)
               in if requestedFlow = prompt_improvement_flow \<and> recommended_action diagnosis \<noteq> plan_action
                  then Inl ''Prompt-improvement flow requires the canonical plan action.''
                  else Inr \<lparr>rd_receiptId = receiptId receipt, rd_target = target receipt,
                    rd_subjectKind = subjectKind receipt,
                    rd_recommendedAction = recommendedAction receipt,
                    rd_routeKind = (if requestedFlow = prompt_improvement_flow
                      then prompt_improvement_route
                      else ROUTE_BY_ACTION (recommendedAction receipt))\<rparr>))"

section \<open>The routing state machine\<close>

datatype DiagnosisRoutingState =
    DR_received | DR_diagnosis_pending | DR_diagnosed | DR_route_selected | DR_executing
  | DR_result_diagnosis_pending | DR_result_diagnosed | DR_next_action_selected
  | DR_completed | DR_awaiting_user | DR_blocked

datatype DiagnosisRoutingEvent =
    diagnosis_requested | request_diagnosed | route_selected | execution_started
  | execution_result_received | result_diagnosed | next_action_selected | execution_completed
  | clarification_selected | blocked_selected

fun TRANSITIONS :: "DiagnosisRoutingState \<Rightarrow> DiagnosisRoutingEvent \<rightharpoonup> DiagnosisRoutingState" where
  "TRANSITIONS DR_received = map_of
     [(diagnosis_requested, DR_diagnosis_pending)]"
| "TRANSITIONS DR_diagnosis_pending = map_of
     [(request_diagnosed, DR_diagnosed),
      (blocked_selected, DR_blocked)]"
| "TRANSITIONS DR_diagnosed = map_of
     [(route_selected, DR_route_selected),
      (clarification_selected, DR_awaiting_user),
      (blocked_selected, DR_blocked)]"
| "TRANSITIONS DR_route_selected = map_of
     [(execution_started, DR_executing)]"
| "TRANSITIONS DR_executing = map_of
     [(execution_result_received, DR_result_diagnosis_pending),
      (blocked_selected, DR_blocked)]"
| "TRANSITIONS DR_result_diagnosis_pending = map_of
     [(result_diagnosed, DR_result_diagnosed),
      (blocked_selected, DR_blocked)]"
| "TRANSITIONS DR_result_diagnosed = map_of
     [(next_action_selected, DR_next_action_selected),
      (clarification_selected, DR_awaiting_user),
      (blocked_selected, DR_blocked)]"
| "TRANSITIONS DR_next_action_selected = map_of
     [(execution_started, DR_executing),
      (execution_completed, DR_completed),
      (clarification_selected, DR_awaiting_user),
      (blocked_selected, DR_blocked)]"
| "TRANSITIONS DR_completed = Map.empty"
| "TRANSITIONS DR_awaiting_user = Map.empty"
| "TRANSITIONS DR_blocked = Map.empty"

fun routing_state_name :: "DiagnosisRoutingState \<Rightarrow> string" where
  "routing_state_name DR_received = ''received''"
| "routing_state_name DR_diagnosis_pending = ''diagnosis_pending''"
| "routing_state_name DR_diagnosed = ''diagnosed''"
| "routing_state_name DR_route_selected = ''route_selected''"
| "routing_state_name DR_executing = ''executing''"
| "routing_state_name DR_result_diagnosis_pending = ''result_diagnosis_pending''"
| "routing_state_name DR_result_diagnosed = ''result_diagnosed''"
| "routing_state_name DR_next_action_selected = ''next_action_selected''"
| "routing_state_name DR_completed = ''completed''"
| "routing_state_name DR_awaiting_user = ''awaiting_user''"
| "routing_state_name DR_blocked = ''blocked''"

fun routing_event_name :: "DiagnosisRoutingEvent \<Rightarrow> string" where
  "routing_event_name diagnosis_requested = ''diagnosis_requested''"
| "routing_event_name request_diagnosed = ''request_diagnosed''"
| "routing_event_name route_selected = ''route_selected''"
| "routing_event_name execution_started = ''execution_started''"
| "routing_event_name execution_result_received = ''execution_result_received''"
| "routing_event_name result_diagnosed = ''result_diagnosed''"
| "routing_event_name next_action_selected = ''next_action_selected''"
| "routing_event_name execution_completed = ''execution_completed''"
| "routing_event_name clarification_selected = ''clarification_selected''"
| "routing_event_name blocked_selected = ''blocked_selected''"

definition routing_terminal :: "DiagnosisRoutingState \<Rightarrow> bool" where
  "routing_terminal s \<longleftrightarrow> s = DR_completed \<or> s = DR_awaiting_user \<or> s = DR_blocked"

definition transitionDiagnosisRouting ::
  "DiagnosisRoutingState \<Rightarrow> DiagnosisRoutingEvent \<Rightarrow> string + DiagnosisRoutingState" where
  "transitionDiagnosisRouting state event =
     (if routing_terminal state
      then Inl (''Diagnosis routing state '' @ routing_state_name state @ '' is terminal.'')
      else case TRANSITIONS state event of
        None \<Rightarrow> Inl (''Invalid diagnosis routing transition: '' @ routing_state_name state @ '' + ''
                   @ routing_event_name event @ ''.'')
      | Some next \<Rightarrow> Inr next)"

section \<open>Lemmas\<close>

text \<open>The machine: a transition that throws is refused.\<close>

definition routing_step :: "DiagnosisRoutingState \<Rightarrow> DiagnosisRoutingEvent \<Rightarrow> DiagnosisRoutingState option" where
  "routing_step s e = (case transitionDiagnosisRouting s e of Inl _ \<Rightarrow> None | Inr t \<Rightarrow> Some t)"

lemma routing_step_eq [machine_simps]: "routing_step s e = TRANSITIONS s e"
  by (cases s; cases e)
    (simp_all add: routing_step_def transitionDiagnosisRouting_def routing_terminal_def)

fun routing_level :: "DiagnosisRoutingState \<Rightarrow> nat" where
  "routing_level DR_received = 0"
| "routing_level DR_diagnosis_pending = 1"
| "routing_level DR_diagnosed = 2"
| "routing_level DR_route_selected = 3"
| "routing_level DR_executing = 4"
| "routing_level DR_result_diagnosis_pending = 5"
| "routing_level DR_result_diagnosed = 6"
| "routing_level DR_next_action_selected = 7"
| "routing_level DR_completed = 8"
| "routing_level DR_awaiting_user = 0"
| "routing_level DR_blocked = 0"

definition completion_milestones :: "DiagnosisRoutingEvent list" where
  "completion_milestones =
     [diagnosis_requested, request_diagnosed, route_selected, execution_started,
      execution_result_received, result_diagnosed, next_action_selected, execution_completed]"

interpretation routing: live_machine routing_step routing_terminal
proof unfold_locales
  show "routing_terminal s \<Longrightarrow> routing_step s e = None" for s e
    by (auto simp: routing_terminal_def routing_step_def transitionDiagnosisRouting_def)
  show "\<not> routing_terminal s \<Longrightarrow> \<exists>e t. routing_step s e = Some t" for s
    by (cases s) (auto simp: machine_simps routing_terminal_def)
qed

interpretation routing_path:
  milestone_machine routing_step DR_received id routing_level completion_milestones
proof unfold_locales
  show "routing_level DR_received = 0" by simp
  show "routing_level t \<le> routing_level s
      \<or> routing_level s < length completion_milestones \<and> routing_level t = Suc (routing_level s)
        \<and> id e = completion_milestones ! routing_level s"
    if "routing_step s e = Some t" for s e t
    using that by (cases s; cases e) (auto simp: machine_simps completion_milestones_def)
qed

lemma authorize_InrD:
  assumes "authorizeDiagnosisActionRoute H r p d f = Inr route"
  obtains receipt where "r = Some receipt"
    and "target receipt = (if isRequestDiagnosis d then request_diagnosis else result_diagnosis)"
    and "subjectFingerprint receipt = fingerprint H (subject_namespace (target receipt) (subjectKind receipt)) p"
    and "diagnosisFingerprint receipt = fingerprint H (record_namespace (target receipt)) (diagnosis_json d)"
    and "recommendedAction receipt = recommended_action d"
    and "assertDiagnosisActionConsistency d = Inr ()"
    and "f = Some prompt_improvement_flow \<Longrightarrow> recommended_action d = plan_action"
    and "rd_receiptId route = receiptId receipt" "rd_recommendedAction route = recommended_action d"
    and "rd_routeKind route = (if f = Some prompt_improvement_flow then prompt_improvement_route
           else ROUTE_BY_ACTION (recommended_action d))"
  using assms
  by (cases r; cases f)
    (auto simp: authorizeDiagnosisActionRoute_def Let_def rbind_Inr_iff split: if_splits)

subsection \<open>The hashed diagnosis determines the diagnosis\<close>

lemma map_JString_norm [simp]: "json_norm H (json_strings xs) = json_strings xs"
  by (simp add: json_strings_def Let_def comp_def map_eq_Cons_conv)

lemma json_strings_inj [simp]: "json_strings xs = json_strings ys \<longleftrightarrow> xs = ys"
  by (simp add: json_strings_def inj_map_eq_map inj_def)

lemma json_strings_defined [simp]: "json_strings xs \<noteq> JUndefined"
  by (simp add: json_strings_def)

lemma action_name_inj [simp]: "action_name a = action_name b \<longleftrightarrow> a = b"
  by (cases a; cases b) simp_all

lemma sufficiency_name_inj [simp]: "sufficiency_name a = sufficiency_name b \<longleftrightarrow> a = b"
  by (cases a; cases b) simp_all

lemma json_norm_object_lookup:
  assumes "json_norm H (JObject kvs) = json_norm H (JObject kvs')"
    and "distinct (map fst kvs)" and "distinct (map fst kvs')"
    and "list_all (\<lambda>(k, v). v \<noteq> JUndefined) kvs" and "list_all (\<lambda>(k, v). v \<noteq> JUndefined) kvs'"
  shows "map_option (json_norm H) (map_of kvs k) = map_option (json_norm H) (map_of kvs' k)"
proof -
  let ?n = "\<lambda>(k, v). (k, json_norm H v)"
  have "filter (\<lambda>(k, v). v \<noteq> JUndefined) kvs = kvs" "filter (\<lambda>(k, v). v \<noteq> JUndefined) kvs' = kvs'"
    using assms(4,5) by (simp_all add: list_all_iff filter_id_conv)
  with assms(1) have "sort_by (entry_cmp H) (map ?n kvs) = sort_by (entry_cmp H) (map ?n kvs')"
    by (simp only: json_norm.simps json.inject)
  then have "set (map ?n kvs) = set (map ?n kvs')" by (metis set_sort_by)
  moreover have "map fst (map ?n zs) = map fst zs" for zs :: "(string \<times> json) list"
    by (simp add: case_prod_unfold)
  ultimately have "map_of (map ?n kvs) = map_of (map ?n kvs')"
    using assms(2,3) by (subst map_of_inject_set) (simp_all only:)
  then show ?thesis by (simp add: map_of_map fun_eq_iff)
qed

lemma diagnosis_json_inj:
  assumes "isRequestDiagnosis d = isRequestDiagnosis d'"
    and "json_norm H (diagnosis_json d) = json_norm H (diagnosis_json d')"
  shows "d = d'"
proof (cases d)
  case (RequestDiagnosis r)
  with assms(1) obtain r' where d': "d' = RequestDiagnosis r'" by (cases d') auto
  note look = json_norm_object_lookup [OF assms(2) [unfolded RequestDiagnosis d' diagnosis_json.simps]]
  have "rq_diagnosis_summary r = rq_diagnosis_summary r'"
    using look [of "''diagnosis_summary''"] by simp
  moreover have "rq_intent r = rq_intent r'"
    using look [of "''intent''"] by simp
  moreover have "rq_goal r = rq_goal r'"
    using look [of "''goal''"] by simp
  moreover have "rq_constraints r = rq_constraints r'"
    using look [of "''constraints''"] by simp
  moreover have "rq_missing_information r = rq_missing_information r'"
    using look [of "''missing_information''"] by simp
  moreover have "rq_risk r = rq_risk r'"
    using look [of "''risk''"] by simp
  moreover have "rq_confidence r = rq_confidence r'"
    using look [of "''confidence''"] by simp
  moreover have "rq_recommended_action r = rq_recommended_action r'"
    using look [of "''recommended_action''"] by simp
  moreover have "rq_reason r = rq_reason r'"
    using look [of "''reason''"] by simp
  ultimately have "r = r'"
    by (intro LlmRequestDiagnosisRecord.equality) simp_all
  with RequestDiagnosis d' show ?thesis by simp
next
  case (ResultDiagnosis r)
  with assms(1) obtain r' where d': "d' = ResultDiagnosis r'" by (cases d') auto
  note look = json_norm_object_lookup [OF assms(2) [unfolded ResultDiagnosis d' diagnosis_json.simps]]
  have "rs_diagnosis_summary r = rs_diagnosis_summary r'"
    using look [of "''diagnosis_summary''"] by simp
  moreover have "rs_sufficiency r = rs_sufficiency r'"
    using look [of "''sufficiency''"] by simp
  moreover have "rs_missing_information r = rs_missing_information r'"
    using look [of "''missing_information''"] by simp
  moreover have "rs_conflicts r = rs_conflicts r'"
    using look [of "''conflicts''"] by simp
  moreover have "rs_risk r = rs_risk r'"
    using look [of "''risk''"] by simp
  moreover have "rs_risks r = rs_risks r'"
    using look [of "''risks''"] by simp
  moreover have "rs_confidence r = rs_confidence r'"
    using look [of "''confidence''"] by simp
  moreover have "rs_recommended_action r = rs_recommended_action r'"
    using look [of "''recommended_action''"] by simp
  moreover have "rs_reason r = rs_reason r'"
    using look [of "''reason''"] by simp
  ultimately have "r = r'"
    by (intro LlmResultDiagnosisRecord.equality) simp_all
  with ResultDiagnosis d' show ?thesis by simp
qed

text \<open>The text a fingerprint is taken of, and two texts that the hash does not tell apart.\<close>

definition fingerprint_text :: "host \<Rightarrow> string \<Rightarrow> json \<Rightarrow> string" where
  "fingerprint_text H namespace v = ''knowbee:'' @ namespace @ '':'' @ undefined_as ''undefined'' (canonicalize H v)"

definition collide :: "host \<Rightarrow> string \<Rightarrow> string \<Rightarrow> bool" where
  "collide H x y \<longleftrightarrow> x \<noteq> y \<and> sha256 H x = sha256 H y"

lemma fingerprint_binds:
  assumes "fingerprint H ns v = fingerprint H ns w"
  shows "json_norm H v = json_norm H w \<or> collide H (fingerprint_text H ns v) (fingerprint_text H ns w)"
proof -
  have "json_norm H v = json_norm H w" if "fingerprint_text H ns v = fingerprint_text H ns w"
    using that undefined_text_unique [of H v w] by (simp add: fingerprint_text_def)
  with assms show ?thesis by (auto simp: fingerprint_def fingerprint_text_def collide_def)
qed

section \<open>Sample records of the witnesses\<close>

definition sample_payload :: json where
  "sample_payload = JObject [(''a'', JInt 1), (''b'', JNull)]"

definition reordered_payload :: json where
  "reordered_payload = JObject [(''b'', JNull), (''a'', JInt 1)]"

definition sample_result :: LlmResultDiagnosisRecord where
  "sample_result = \<lparr>rs_diagnosis_summary = ''s'', rs_sufficiency = sufficient,
     rs_missing_information = [], rs_conflicts = [], rs_risk = ''low'', rs_risks = [],
     rs_confidence = ''high'', rs_recommended_action = final_report, rs_reason = ''r''\<rparr>"

definition sample_receipt :: LlmDiagnosisReceipt where
  "sample_receipt = \<lparr>schemaVersion = 1, receiptId = ''r1'', target = result_diagnosis,
     subjectKind = tool_result,
     subjectFingerprint = fingerprint plain_host (subject_namespace result_diagnosis tool_result) sample_payload,
     diagnosisFingerprint = fingerprint plain_host (record_namespace result_diagnosis)
       (diagnosis_json (ResultDiagnosis sample_result)),
     recommendedAction = final_report\<rparr>"

section \<open>Properties\<close>

text \<open>No shortcut to completion: every accepted sequence of routing events that takes a
  received request to \<open>completed\<close> contains, in this order, the request diagnosis, the route
  selection, the start of the execution, its result, the diagnosis of that result, the choice of
  the next action and the completion.\<close>

theorem completion_requires_diagnosed_result:
  assumes "run_steps routing_step DR_received es = Some DR_completed"
  shows "subseq [diagnosis_requested, request_diagnosed, route_selected, execution_started,
      execution_result_received, result_diagnosed, next_action_selected, execution_completed] es"
  using routing_path.run_all_milestones [OF assms] by (simp add: completion_milestones_def)

theorem completion_requires_diagnosed_result_witness:
  "subseq [diagnosis_requested, request_diagnosed, route_selected, execution_started,
      execution_result_received, result_diagnosed, next_action_selected, execution_completed]
     [diagnosis_requested, request_diagnosed, route_selected, execution_started,
      execution_result_received, result_diagnosed, next_action_selected, execution_started,
      execution_result_received, result_diagnosed, next_action_selected, execution_completed]"
  by (rule completion_requires_diagnosed_result) (simp add: machine_simps)

text \<open>A routing state accepts no event exactly when it is \<open>completed\<close>, \<open>awaiting_user\<close> or
  \<open>blocked\<close>: the table has no dead end and no way out of a final state.\<close>

theorem routing_stuck_iff_final:
  "(\<forall>e. \<exists>msg. transitionDiagnosisRouting s e = Inl msg)
     \<longleftrightarrow> s \<in> {DR_completed, DR_awaiting_user, DR_blocked}"
proof -
  have "(\<forall>e. \<exists>msg. transitionDiagnosisRouting s e = Inl msg) \<longleftrightarrow> (\<forall>e. routing_step s e = None)"
    by (simp add: routing_step_def split: sum.splits) (metis sum.exhaust sum.distinct(1))
  then show ?thesis using routing.stuck_iff_terminal by (auto simp: routing_terminal_def)
qed

text \<open>A receipt authorises the route of the diagnosis it was created for: whenever the
  diagnosis is consistent and the receipt's target is its kind, the authorisation succeeds and
  names the route of the recommended action.\<close>

theorem diagnosis_receipt_roundtrip:
  assumes "createLlmDiagnosisReceipt H rid tgt kind p d = Inr receipt"
    and "tgt = (if isRequestDiagnosis d then request_diagnosis else result_diagnosis)"
    and "assertDiagnosisActionConsistency d = Inr ()"
  shows "authorizeDiagnosisActionRoute H (Some receipt) p d None =
    Inr \<lparr>rd_receiptId = js_trim rid, rd_target = tgt, rd_subjectKind = kind,
         rd_recommendedAction = recommended_action d,
         rd_routeKind = ROUTE_BY_ACTION (recommended_action d)\<rparr>"
  using assms
  by (cases "isRequestDiagnosis d") (auto simp: createLlmDiagnosisReceipt_def
      authorizeDiagnosisActionRoute_def rbind_Inr_iff requireText_Inr_iff Let_def)

lemma sample_receipt_created:
  "createLlmDiagnosisReceipt plain_host ''r1'' result_diagnosis tool_result sample_payload
     (ResultDiagnosis sample_result) = Inr sample_receipt"
  by (simp add: createLlmDiagnosisReceipt_def sample_receipt_def requireText_def js_trim_def js_ws_def
      sample_result_def Let_def)

lemma sample_consistent: "assertDiagnosisActionConsistency (ResultDiagnosis sample_result) = Inr ()"
  by (simp add: sample_result_def)

lemma sample_authorized:
  "authorizeDiagnosisActionRoute plain_host (Some sample_receipt) sample_payload (ResultDiagnosis sample_result) None =
     Inr \<lparr>rd_receiptId = ''r1'', rd_target = result_diagnosis, rd_subjectKind = tool_result,
          rd_recommendedAction = final_report, rd_routeKind = final_report_route\<rparr>"
  by (simp add: authorizeDiagnosisActionRoute_def sample_receipt_def Let_def sample_result_def)

lemma reordered_authorized:
  "authorizeDiagnosisActionRoute plain_host (Some sample_receipt) reordered_payload (ResultDiagnosis sample_result) None =
     Inr \<lparr>rd_receiptId = ''r1'', rd_target = result_diagnosis, rd_subjectKind = tool_result,
          rd_recommendedAction = final_report, rd_routeKind = final_report_route\<rparr>"
proof -
  have "canonicalize plain_host reordered_payload = canonicalize plain_host sample_payload"
    by (simp add: reordered_payload_def sample_payload_def sort_by_def entry_cmp_def
        plain_host_def codeUnitCompare_def)
  then show ?thesis using sample_authorized
    by (simp add: authorizeDiagnosisActionRoute_def fingerprint_def Let_def split: if_splits)
qed

theorem diagnosis_receipt_roundtrip_witness:
  "authorizeDiagnosisActionRoute plain_host (Some sample_receipt) sample_payload (ResultDiagnosis sample_result) None =
     Inr \<lparr>rd_receiptId = js_trim ''r1'', rd_target = result_diagnosis, rd_subjectKind = tool_result,
          rd_recommendedAction = recommended_action (ResultDiagnosis sample_result),
          rd_routeKind = ROUTE_BY_ACTION (recommended_action (ResultDiagnosis sample_result))\<rparr>"
  by (rule diagnosis_receipt_roundtrip [OF sample_receipt_created _ sample_consistent]) simp

text \<open>C22. A receipt cannot be replayed: it authorises no diagnosis other than the one it was created for, and
  no payload whose normal form is not that of its payload, unless the hash does not tell apart the
  two texts of the payloads, or the two of the diagnoses. Payloads of one normal form, which a receipt does not tell
  apart, differ only in the order of properties, in \<open>undefined\<close> properties, in null, \<open>NaN\<close> or an infinity, in 0
  or minus zero, in a function or \<open>undefined\<close> as an array element or the whole value, in an array that is empty or
  holds just such an element, and in a date or an empty object.\<close>

theorem diagnosis_receipt_binds:
  assumes "createLlmDiagnosisReceipt H rid tgt kind p d = Inr receipt"
    and "tgt = (if isRequestDiagnosis d then request_diagnosis else result_diagnosis)"
    and "authorizeDiagnosisActionRoute H (Some receipt) p' d' flow = Inr route"
  shows "d' = d \<and> json_norm H p' = json_norm H p
    \<or> collide H (fingerprint_text H (subject_namespace tgt kind) p') (fingerprint_text H (subject_namespace tgt kind) p)
    \<or> collide H (fingerprint_text H (record_namespace tgt) (diagnosis_json d')) (fingerprint_text H (record_namespace tgt) (diagnosis_json d))"
proof -
  from assms(1) have receipt: "target receipt = tgt" "subjectKind receipt = kind"
    "subjectFingerprint receipt = fingerprint H (subject_namespace tgt kind) p"
    "diagnosisFingerprint receipt = fingerprint H (record_namespace tgt) (diagnosis_json d)"
    by (auto simp: createLlmDiagnosisReceipt_def rbind_Inr_iff)
  from assms(3) have auth: "isRequestDiagnosis d' = isRequestDiagnosis d"
    "fingerprint H (subject_namespace tgt kind) p' = fingerprint H (subject_namespace tgt kind) p"
    "fingerprint H (record_namespace tgt) (diagnosis_json d') = fingerprint H (record_namespace tgt) (diagnosis_json d)"
    using receipt assms(2) by (auto elim!: authorize_InrD split: if_splits)
  show ?thesis
    using fingerprint_binds [OF auth(2)] diagnosis_json_inj [OF auth(1)]
      fingerprint_binds [OF auth(3)]
    by blast
qed

theorem diagnosis_receipt_binds_witness:
  "ResultDiagnosis sample_result = ResultDiagnosis sample_result
     \<and> json_norm plain_host reordered_payload = json_norm plain_host sample_payload"
  using diagnosis_receipt_binds [OF sample_receipt_created _ reordered_authorized]
  by (simp add: collide_def plain_host_def)

text \<open>A final report is never routed for a result that is not sufficient or that still misses
  information, and a sufficient result is never retried or redelegated.\<close>

theorem final_report_needs_sufficient_result:
  assumes "authorizeDiagnosisActionRoute H receipt p (ResultDiagnosis d) flow = Inr route"
  shows "(rd_routeKind route = final_report_route \<longrightarrow>
            rs_sufficiency d = sufficient \<and> rs_missing_information d = [])
    \<and> (rd_routeKind route \<in> {retry_route, redelegation_route} \<longrightarrow> rs_sufficiency d \<noteq> sufficient)"
  using assms
  by (cases "rs_recommended_action d") (auto elim!: authorize_InrD simp: Let_def split: if_splits)

theorem final_report_needs_sufficient_result_witness:
  "rs_sufficiency sample_result = sufficient \<and> rs_missing_information sample_result = []"
  using final_report_needs_sufficient_result [OF sample_authorized] by simp

end
