(* ===== verification/Structured_Work.thy ===== *)
theory Structured_Work
  imports Diagnosis_Routing
begin

text \<open>
  \<open>contracts/llm-solution-plan-receipt.ts\<close> and \<open>contracts/structured-work-lifecycle.ts\<close>: the
  receipt of a solution plan, the decision that admits a plan for a diagnosed request, and the
  projection of the executed steps to the lifecycle of the work.
\<close>

section \<open>Solution plan receipts\<close>

datatype WorkStepActionType =
    act_direct_answer | act_plan | act_delegate | act_use_tool | act_use_yeonjang
  | act_ask_clarification | act_validate | act_report

datatype WorkStepStatus =
    st_pending | st_running | st_completed | st_blocked | st_failed | st_skipped

fun action_type_name :: "WorkStepActionType \<Rightarrow> string" where
  "action_type_name act_direct_answer = ''direct_answer''"
| "action_type_name act_plan = ''plan''"
| "action_type_name act_delegate = ''delegate''"
| "action_type_name act_use_tool = ''use_tool''"
| "action_type_name act_use_yeonjang = ''use_yeonjang''"
| "action_type_name act_ask_clarification = ''ask_clarification''"
| "action_type_name act_validate = ''validate''"
| "action_type_name act_report = ''report''"

fun step_status_name :: "WorkStepStatus \<Rightarrow> string" where
  "step_status_name st_pending = ''pending''"
| "step_status_name st_running = ''running''"
| "step_status_name st_completed = ''completed''"
| "step_status_name st_blocked = ''blocked''"
| "step_status_name st_failed = ''failed''"
| "step_status_name st_skipped = ''skipped''"

record WorkStepPlanItem =
  step_id :: string
  owner_agent_name :: string
  action_type :: WorkStepActionType
  input_refs :: "string list"
  expected_output :: string
  completion_criteria :: string
  step_status :: WorkStepStatus

record LlmSolutionPlanPayload =
  ownerAgentName :: string
  plan_steps :: "WorkStepPlanItem list"

record LlmSolutionPlanReceipt =
  sp_schemaVersion :: nat
  sp_receiptId :: string
  sp_workId :: string
  sp_runId :: string
  sp_requestDiagnosisReceiptId :: string
  sp_planFingerprint :: string
  sp_issuedAt :: number

datatype LlmSolutionPlanReceiptValidationReason =
    solution_plan_receipt_missing | solution_plan_receipt_invalid | solution_plan_scope_mismatch
  | solution_plan_diagnosis_mismatch | solution_plan_order_invalid
  | solution_plan_fingerprint_mismatch

fun plan_reason_name :: "LlmSolutionPlanReceiptValidationReason \<Rightarrow> string" where
  "plan_reason_name solution_plan_receipt_missing = ''solution_plan_receipt_missing''"
| "plan_reason_name solution_plan_receipt_invalid = ''solution_plan_receipt_invalid''"
| "plan_reason_name solution_plan_scope_mismatch = ''solution_plan_scope_mismatch''"
| "plan_reason_name solution_plan_diagnosis_mismatch = ''solution_plan_diagnosis_mismatch''"
| "plan_reason_name solution_plan_order_invalid = ''solution_plan_order_invalid''"
| "plan_reason_name solution_plan_fingerprint_mismatch = ''solution_plan_fingerprint_mismatch''"

definition requiredText :: "string \<Rightarrow> string \<Rightarrow> string + string" where
  "requiredText value field = requireText (field @ '' is required.'') value"

definition timestamp :: "number \<Rightarrow> string \<Rightarrow> string + number" where
  "timestamp value field =
     (if \<not> is_safe_integer value \<or> num_lt value (Num 0)
      then Inl (field @ '' must be a non-negative safe integer.'') else Inr value)"

definition step_json :: "WorkStepPlanItem \<Rightarrow> json" where
  "step_json s = JObject
     [(''step_id'', JString (step_id s)),
      (''owner_agent_name'', JString (owner_agent_name s)),
      (''action_type'', JString (action_type_name (action_type s))),
      (''input_refs'', json_strings (input_refs s)),
      (''expected_output'', JString (expected_output s)),
      (''completion_criteria'', JString (completion_criteria s)),
      (''status'', JString (step_status_name (step_status s)))]"

definition plan_json :: "LlmSolutionPlanPayload \<Rightarrow> json" where
  "plan_json p = JObject
     [(''ownerAgentName'', JString (ownerAgentName p)),
      (''steps'', JArray (map step_json (plan_steps p)))]"

definition validatePlan :: "LlmSolutionPlanPayload \<Rightarrow> string + LlmSolutionPlanPayload" where
  "validatePlan p =
     rbind (requiredText (ownerAgentName p) ''Plan owner agent name'') (\<lambda>owner.
     if plan_steps p = [] then Inl ''Solution plan requires at least one step.''
     else rbind (mapM (\<lambda>s. requiredText (step_id s) ''Plan step ID'') (plan_steps p)) (\<lambda>stepIds.
     if length (js_set stepIds) \<noteq> length stepIds then Inl ''Solution plan step IDs must be unique.''
     else rbind (mapM (\<lambda>s.
         rbind (requiredText (owner_agent_name s) ''Plan step owner'') (\<lambda>_.
         rbind (requiredText (expected_output s) ''Plan step expected output'') (\<lambda>_.
         rbind (requiredText (completion_criteria s) ''Plan step completion criteria'') (\<lambda>_. Inr ()))))
       (plan_steps p)) (\<lambda>_.
     Inr \<lparr>ownerAgentName = owner, plan_steps = plan_steps p\<rparr>)))"

definition planFingerprint :: "host \<Rightarrow> LlmSolutionPlanPayload \<Rightarrow> string + string" where
  "planFingerprint H p = rbind (validatePlan p) (\<lambda>q.
     Inr (''sha256:'' @ fingerprint H ''llm-solution-plan'' (plan_json q)))"

definition createLlmSolutionPlanReceipt ::
  "host \<Rightarrow> string \<Rightarrow> string \<Rightarrow> string \<Rightarrow> string \<Rightarrow> number \<Rightarrow> number \<Rightarrow> LlmSolutionPlanPayload
     \<Rightarrow> string + LlmSolutionPlanReceipt" where
  "createLlmSolutionPlanReceipt H rid wid runid diagnosisReceiptId diagnosisIssuedAt issued p =
     rbind (timestamp diagnosisIssuedAt ''Request diagnosis issued time'') (\<lambda>dAt.
     rbind (timestamp issued ''Solution plan issued time'') (\<lambda>iAt.
     if num_le iAt dAt then Inl ''Solution plan must be issued after request diagnosis.''
     else rbind (requiredText rid ''Solution plan receipt ID'') (\<lambda>rid'.
     rbind (requiredText wid ''Solution plan work ID'') (\<lambda>wid'.
     rbind (requiredText runid ''Solution plan run ID'') (\<lambda>runid'.
     rbind (requiredText diagnosisReceiptId ''Request diagnosis receipt ID'') (\<lambda>did'.
     rbind (planFingerprint H p) (\<lambda>fp.
     Inr \<lparr>sp_schemaVersion = 1, sp_receiptId = rid', sp_workId = wid', sp_runId = runid',
       sp_requestDiagnosisReceiptId = did', sp_planFingerprint = fp, sp_issuedAt = iAt\<rparr>)))))))"

text \<open>The validation itself throws when the plan it recomputes the fingerprint of is invalid.\<close>

definition validateLlmSolutionPlanReceipt ::
  "host \<Rightarrow> LlmSolutionPlanReceipt option \<Rightarrow> string \<Rightarrow> string \<Rightarrow> string \<Rightarrow> number
     \<Rightarrow> LlmSolutionPlanPayload \<Rightarrow> string + LlmSolutionPlanReceiptValidationReason option" where
  "validateLlmSolutionPlanReceipt H receipt_opt wid runid diagnosisReceiptId diagnosisIssuedAt p =
     (case receipt_opt of
        None \<Rightarrow> Inr (Some solution_plan_receipt_missing)
      | Some r \<Rightarrow>
          if sp_schemaVersion r \<noteq> 1 \<or> blank (sp_receiptId r) \<or> \<not> HASH_PATTERN (sp_planFingerprint r)
             \<or> \<not> is_safe_integer (sp_issuedAt r) \<or> num_lt (sp_issuedAt r) (Num 0)
          then Inr (Some solution_plan_receipt_invalid)
          else if sp_workId r \<noteq> wid \<or> sp_runId r \<noteq> runid
          then Inr (Some solution_plan_scope_mismatch)
          else if sp_requestDiagnosisReceiptId r \<noteq> diagnosisReceiptId
          then Inr (Some solution_plan_diagnosis_mismatch)
          else if num_le (sp_issuedAt r) diagnosisIssuedAt
          then Inr (Some solution_plan_order_invalid)
          else rbind (planFingerprint H p) (\<lambda>fp.
            if sp_planFingerprint r \<noteq> fp then Inr (Some solution_plan_fingerprint_mismatch)
            else Inr None))"

section \<open>Planning a structured work\<close>

record StructuredWorkComplexitySignals =
  toolCount :: number
  subAgentCount :: number
  usesYeonjang :: bool
  requiresApproval :: bool
  changesFiles :: bool
  longRunning :: bool

datatype StructuredWorkClassification = simple_work | complex_work

record StructuredWorkPlanDecision =
  pl_workId :: string
  pl_runId :: string
  pl_ownerAgentName :: string
  pl_classification :: StructuredWorkClassification
  pl_requestReceiptId :: string
  pl_solutionPlanReceiptId :: string
  pl_requestIntent :: string
  pl_missingInformation :: "string list"
  pl_clarificationRequired :: bool
  pl_requestAction :: RecommendedAction
  pl_steps :: "WorkStepPlanItem list"
  pl_lifecycleStates :: "DiagnosisRoutingState list"

definition requireUniqueText :: "string list \<Rightarrow> string \<Rightarrow> string + string list" where
  "requireUniqueText vs field =
     rbind (mapM (\<lambda>v. requiredText v field) vs) (\<lambda>normalized.
     if length (js_set normalized) \<noteq> length normalized
     then Inl (field @ '' values must be unique.'') else Inr normalized)"

definition assertCount :: "number \<Rightarrow> string \<Rightarrow> string + unit" where
  "assertCount value field =
     (if \<not> is_integer_number value \<or> num_lt value (Num 0)
      then Inl (field @ '' must be a non-negative integer.'') else Inr ())"

definition classify :: "StructuredWorkComplexitySignals \<Rightarrow> string + StructuredWorkClassification" where
  "classify c =
     rbind (assertCount (toolCount c) ''toolCount'') (\<lambda>_.
     rbind (assertCount (subAgentCount c) ''subAgentCount'') (\<lambda>_.
     Inr (if num_lt (Num 1) (toolCount c) \<or> num_lt (Num 0) (subAgentCount c) \<or> usesYeonjang c
            \<or> requiresApproval c \<or> changesFiles c \<or> longRunning c
          then complex_work else simple_work)))"

fun validate_step_list :: "string list \<Rightarrow> WorkStepPlanItem list \<Rightarrow> string + WorkStepPlanItem list" where
  "validate_step_list ids [] = Inr []"
| "validate_step_list ids (s # ss) =
     rbind (requiredText (step_id s) ''Step ID'') (\<lambda>stepId.
     if stepId \<in> set ids then Inl ''Step IDs must be unique.''
     else rbind (requiredText (owner_agent_name s) ''Step owner'') (\<lambda>owner.
     rbind (requiredText (expected_output s) ''Step expected output'') (\<lambda>expectedOutput.
     rbind (requiredText (completion_criteria s) ''Step completion criteria'') (\<lambda>criteria.
     rbind (requireUniqueText (input_refs s) ''Step input references'') (\<lambda>inputRefs.
     if inputRefs = [] then Inl ''Step input references require at least one value.''
     else if step_status s \<noteq> st_pending then Inl ''A new lifecycle plan requires pending steps.''
     else rbind (validate_step_list (set_add ids stepId) ss) (\<lambda>rest.
       Inr (s\<lparr>step_id := stepId, owner_agent_name := owner, input_refs := inputRefs,
              expected_output := expectedOutput, completion_criteria := criteria\<rparr> # rest)))))))"

definition validateSteps ::
  "WorkStepPlanItem list \<Rightarrow> StructuredWorkClassification \<Rightarrow> string + WorkStepPlanItem list" where
  "validateSteps steps c =
     (if c = simple_work \<and> length steps \<noteq> 1
      then Inl ''Simple work requires exactly one execution step.''
      else if c = complex_work \<and> length steps < 2
      then Inl ''Complex work requires at least two explicit steps.''
      else validate_step_list [] steps)"

text \<open>\<open>states.push(transitionDiagnosisRouting(states.at(-1), event))\<close>\<close>

definition push_transition ::
  "DiagnosisRoutingState list \<Rightarrow> DiagnosisRoutingEvent \<Rightarrow> string + DiagnosisRoutingState list" where
  "push_transition states event =
     (if states = []
      then Inl (''Invalid diagnosis routing transition: undefined + '' @ routing_event_name event @ ''.'')
      else rbind (transitionDiagnosisRouting (last states) event) (\<lambda>s. Inr (states @ [s])))"

fun push_transitions ::
  "DiagnosisRoutingState list \<Rightarrow> DiagnosisRoutingEvent list \<Rightarrow> string + DiagnosisRoutingState list" where
  "push_transitions states [] = Inr states"
| "push_transitions states (e # es) =
     rbind (push_transition states e) (\<lambda>states'. push_transitions states' es)"

definition requestPlanningStates :: "string + DiagnosisRoutingState list" where
  "requestPlanningStates =
     push_transitions [DR_received] [diagnosis_requested, request_diagnosed, route_selected]"

record PlanInput =
  in_workId :: string
  in_runId :: "string option"
  in_ownerAgentName :: string
  in_subjectPayload :: json
  in_diagnosis :: LlmRequestDiagnosisRecord
  in_receipt :: "LlmDiagnosisReceipt option"
  in_requestDiagnosisIssuedAt :: "number option"
  in_solutionPlanReceipt :: "LlmSolutionPlanReceipt option"
  in_complexity :: StructuredWorkComplexitySignals
  in_proposedSteps :: "WorkStepPlanItem list"

definition planStructuredWorkLifecycle :: "host \<Rightarrow> PlanInput \<Rightarrow> string + StructuredWorkPlanDecision" where
  "planStructuredWorkLifecycle H i =
     rbind (requiredText (in_workId i) ''Work ID'') (\<lambda>workId.
     rbind (requiredText (case in_runId i of None \<Rightarrow> [] | Some r \<Rightarrow> r) ''Run ID'') (\<lambda>runId.
     rbind (requiredText (in_ownerAgentName i) ''Owner agent name'') (\<lambda>owner.
     rbind (authorizeDiagnosisActionRoute H (in_receipt i) (in_subjectPayload i)
              (RequestDiagnosis (in_diagnosis i)) None) (\<lambda>route.
     rbind (classify (in_complexity i)) (\<lambda>classification.
     rbind (validateLlmSolutionPlanReceipt H (in_solutionPlanReceipt i) workId runId
              (rd_receiptId route)
              (case in_requestDiagnosisIssuedAt i of None \<Rightarrow> Num (- 1) | Some t \<Rightarrow> t)
              \<lparr>ownerAgentName = owner, plan_steps = in_proposedSteps i\<rparr>) (\<lambda>planValidation.
     case planValidation of
       Some reason \<Rightarrow>
         Inl (map (\<lambda>c. if c = CHR ''_'' then CHR '' '' else c) (plan_reason_name reason))
     | None \<Rightarrow>
       (case in_solutionPlanReceipt i of
          None \<Rightarrow> Inl ''solution plan receipt missing''
        | Some planReceipt \<Rightarrow>
          rbind (requiredText (rq_intent (in_diagnosis i)) ''Request diagnosis intent'') (\<lambda>intent.
          rbind (requireUniqueText (rq_missing_information (in_diagnosis i))
                   ''Request missing information'') (\<lambda>missing.
          let clarification = (rd_recommendedAction route = ask_clarification)
          in if clarification \<and> missing = []
             then Inl ''A clarification route requires diagnosed missing information.''
             else rbind (validateSteps (in_proposedSteps i) classification) (\<lambda>steps.
             rbind requestPlanningStates (\<lambda>states.
             Inr \<lparr>pl_workId = workId, pl_runId = runId, pl_ownerAgentName = owner,
               pl_classification = classification, pl_requestReceiptId = rd_receiptId route,
               pl_solutionPlanReceiptId = sp_receiptId planReceipt, pl_requestIntent = intent,
               pl_missingInformation = missing, pl_clarificationRequired = clarification,
               pl_requestAction = rd_recommendedAction route, pl_steps = steps,
               pl_lifecycleStates = states\<rparr>)))))))))))"

section \<open>Projecting the executed steps\<close>

record StructuredWorkLifecycleStepResult =
  res_stepId :: string
  res_outputRef :: string
  res_evidenceRefs :: "string list"

datatype StructuredWorkLifecyclePhase =
    phase_input | phase_decision | phase_execution | phase_validation | phase_output

record StructuredWorkLifecycleTraceEvent =
  tr_workId :: string
  tr_phase :: StructuredWorkLifecyclePhase
  tr_reasonCode :: string
  tr_stepIds :: "string list"
  tr_referenceIds :: "string list"

datatype LifecycleStatus = lc_running | lc_completed | lc_awaiting_user | lc_blocked

fun lifecycle_status_name :: "LifecycleStatus \<Rightarrow> string" where
  "lifecycle_status_name lc_running = ''running''"
| "lifecycle_status_name lc_completed = ''completed''"
| "lifecycle_status_name lc_awaiting_user = ''awaiting_user''"
| "lifecycle_status_name lc_blocked = ''blocked''"

record StructuredWorkLifecycleProjection =
  pj_workId :: string
  pj_status :: LifecycleStatus
  pj_resultReceiptId :: string
  pj_lifecycleStates :: "DiagnosisRoutingState list"
  pj_trace :: "StructuredWorkLifecycleTraceEvent list"
  pj_outputRefs :: "string list"
  pj_evidenceRefs :: "string list"

record StepReferences =
  ref_stepIds :: "string list"
  ref_outputRefs :: "string list"
  ref_evidenceRefs :: "string list"

fun collect_results ::
  "string list \<Rightarrow> StepReferences \<Rightarrow> StructuredWorkLifecycleStepResult list \<Rightarrow> string + StepReferences" where
  "collect_results plannedIds acc [] = Inr acc"
| "collect_results plannedIds acc (r # rs) =
     rbind (requiredText (res_stepId r) ''Result step ID'') (\<lambda>stepId.
     if stepId \<notin> set plannedIds
     then Inl (''Result references unknown planned step '' @ stepId @ ''.'')
     else if stepId \<in> set (ref_stepIds acc)
     then Inl ''Each planned step can have only one lifecycle result.''
     else rbind (requiredText (res_outputRef r) ''Result output reference'') (\<lambda>out.
     rbind (requireUniqueText (res_evidenceRefs r) ''Result evidence references'') (\<lambda>evidence.
     if evidence = [] then Inl ''Each step result requires evidence.''
     else collect_results plannedIds
       \<lparr>ref_stepIds = set_add (ref_stepIds acc) stepId,
        ref_outputRefs = ref_outputRefs acc @ [out],
        ref_evidenceRefs = ref_evidenceRefs acc @ evidence\<rparr> rs)))"

definition validateStepResults ::
  "StructuredWorkPlanDecision \<Rightarrow> StructuredWorkLifecycleStepResult list \<Rightarrow> string + StepReferences" where
  "validateStepResults p results =
     (if length results \<noteq> length (pl_steps p)
      then Inl ''Lifecycle projection requires a result for every planned step.''
      else rbind (collect_results (js_set (map step_id (pl_steps p)))
             \<lparr>ref_stepIds = [], ref_outputRefs = [], ref_evidenceRefs = []\<rparr> results) (\<lambda>acc.
      rbind (requireUniqueText (ref_outputRefs acc) ''Result output references'') (\<lambda>outs.
      rbind (requireUniqueText (ref_evidenceRefs acc) ''Result evidence references'') (\<lambda>evs.
      Inr \<lparr>ref_stepIds = ref_stepIds acc, ref_outputRefs = outs, ref_evidenceRefs = evs\<rparr>))))"

definition finalLifecycleState ::
  "DiagnosisRoutingState list \<Rightarrow> RecommendedAction
     \<Rightarrow> string + DiagnosisRoutingState list \<times> LifecycleStatus" where
  "finalLifecycleState states action =
     (if action = stop_blocked
      then rbind (push_transition states blocked_selected) (\<lambda>ss. Inr (ss, lc_blocked))
      else if action = ask_clarification
      then rbind (push_transition states clarification_selected) (\<lambda>ss. Inr (ss, lc_awaiting_user))
      else if action = final_report \<or> action = partial_report
      then rbind (push_transition states execution_completed) (\<lambda>ss. Inr (ss, lc_completed))
      else rbind (push_transition states execution_started) (\<lambda>ss. Inr (ss, lc_running)))"

definition trace_event ::
  "string \<Rightarrow> StructuredWorkLifecyclePhase \<Rightarrow> string \<Rightarrow> string list \<Rightarrow> string list
     \<Rightarrow> StructuredWorkLifecycleTraceEvent" where
  "trace_event w ph rc ids refs =
     \<lparr>tr_workId = w, tr_phase = ph, tr_reasonCode = rc, tr_stepIds = ids, tr_referenceIds = refs\<rparr>"

definition lifecycle_trace ::
  "StructuredWorkPlanDecision \<Rightarrow> StepReferences \<Rightarrow> DiagnosisActionRouteDecision \<Rightarrow> LifecycleStatus
     \<Rightarrow> StructuredWorkLifecycleTraceEvent list" where
  "lifecycle_trace p refs route status =
     (let w = pl_workId p; planned = map step_id (pl_steps p) in
      if pl_classification p = simple_work then
        [trace_event w phase_input ''request_diagnosis_received'' [] [pl_requestReceiptId p],
         trace_event w phase_decision ''solution_plan_received'' planned [pl_solutionPlanReceiptId p],
         trace_event w phase_decision
           (''simple_route_'' @ action_name (pl_requestAction p) @ ''_step_validated'')
           planned [pl_requestReceiptId p],
         trace_event w phase_execution ''step_results_received'' (ref_stepIds refs) (ref_outputRefs refs),
         trace_event w phase_validation ''result_diagnosis_received'' (ref_stepIds refs)
           (rd_receiptId route # ref_evidenceRefs refs),
         trace_event w phase_output
           (''simple_output_'' @ action_name (rd_recommendedAction route) @ ''_''
              @ lifecycle_status_name status)
           [] (rd_receiptId route # ref_outputRefs refs)]
      else
        [trace_event w phase_input ''request_diagnosis_received'' [] [pl_requestReceiptId p],
         trace_event w phase_decision ''solution_plan_received'' planned [pl_solutionPlanReceiptId p],
         trace_event w phase_decision ''work_classified_complex'' [] [],
         trace_event w phase_decision ''step_plan_validated'' planned [],
         trace_event w phase_execution ''step_results_received'' (ref_stepIds refs) (ref_outputRefs refs),
         trace_event w phase_validation ''result_diagnosis_received'' (ref_stepIds refs)
           (rd_receiptId route # ref_evidenceRefs refs),
         trace_event w phase_decision (''next_action_'' @ action_name (rd_recommendedAction route))
           [] [rd_receiptId route],
         trace_event w phase_output (''lifecycle_'' @ lifecycle_status_name status) [] (ref_outputRefs refs)])"

definition projectStructuredWorkLifecycle ::
  "host \<Rightarrow> StructuredWorkPlanDecision \<Rightarrow> StructuredWorkLifecycleStepResult list \<Rightarrow> json
     \<Rightarrow> LlmResultDiagnosisRecord \<Rightarrow> LlmDiagnosisReceipt option
     \<Rightarrow> string + StructuredWorkLifecycleProjection" where
  "projectStructuredWorkLifecycle H p results resultPayload resultDiagnosis resultReceipt =
     rbind (validateStepResults p results) (\<lambda>refs.
     rbind (authorizeDiagnosisActionRoute H resultReceipt resultPayload
              (ResultDiagnosis resultDiagnosis) None) (\<lambda>route.
     rbind (push_transitions (pl_lifecycleStates p)
              [execution_started, execution_result_received, result_diagnosed, next_action_selected]) (\<lambda>states.
     rbind (finalLifecycleState states (rs_recommended_action resultDiagnosis)) (\<lambda>(states', status).
     Inr \<lparr>pj_workId = pl_workId p, pj_status = status, pj_resultReceiptId = rd_receiptId route,
       pj_lifecycleStates = states', pj_trace = lifecycle_trace p refs route status,
       pj_outputRefs = ref_outputRefs refs, pj_evidenceRefs = ref_evidenceRefs refs\<rparr>))))"

section \<open>Lemmas\<close>

lemma requiredText_Inr_iff [simp]: "requiredText v f = Inr t \<longleftrightarrow> \<not> blank v \<and> t = js_trim v"
  by (simp add: requiredText_def requireText_Inr_iff)

lemma mapM_requiredText:
  "mapM (\<lambda>v. requiredText (g v) f) vs = Inr ts \<Longrightarrow>
     ts = map (\<lambda>v. js_trim (g v)) vs \<and> list_all (\<lambda>v. \<not> blank (g v)) vs"
  by (induction vs arbitrary: ts) (auto simp: rbind_Inr_iff)

lemma requireUniqueText_InrD:
  assumes "requireUniqueText vs f = Inr ts"
  shows "ts = map js_trim vs \<and> list_all (\<lambda>v. \<not> blank v) vs \<and> distinct ts"
  using assms mapM_requiredText [where g = "\<lambda>v. v" and vs = vs and f = f]
  by (auto simp: requireUniqueText_def rbind_Inr_iff js_set_size_eq split: if_splits)

lemma requestPlanningStates_eq:
  "requestPlanningStates = Inr [DR_received, DR_diagnosis_pending, DR_diagnosed, DR_route_selected]"
  by (simp add: requestPlanningStates_def push_transition_def transitionDiagnosisRouting_def
      routing_terminal_def)

text \<open>A plan that is admitted has unique trimmed step ids, and every step is pending.\<close>

lemma validate_step_list_InrD:
  assumes "validate_step_list ids steps = Inr out"
  shows "map step_id out = map (js_trim \<circ> step_id) steps
    \<and> distinct (map step_id out) \<and> set (map step_id out) \<inter> set ids = {}
    \<and> list_all (\<lambda>s. step_status s = st_pending \<and> input_refs s \<noteq> []
         \<and> distinct (input_refs s) \<and> \<not> blank (step_id s)) out"
  using assms
proof (induction steps arbitrary: ids out)
  case (Cons s ss)
  from Cons.prems obtain refs rest where
    refs: "requireUniqueText (input_refs s) ''Step input references'' = Inr refs" "refs \<noteq> []"
    and fresh: "js_trim (step_id s) \<notin> set ids" "\<not> blank (step_id s)" "step_status s = st_pending"
    and rest: "validate_step_list (set_add ids (js_trim (step_id s))) ss = Inr rest"
    and out: "out = s\<lparr>step_id := js_trim (step_id s), owner_agent_name := js_trim (owner_agent_name s),
        input_refs := refs, expected_output := js_trim (expected_output s),
        completion_criteria := js_trim (completion_criteria s)\<rparr> # rest"
    by (auto simp: rbind_Inr_iff split: if_splits)
  from Cons.IH [OF rest, unfolded set_set_add] have ids: "map step_id rest = map (js_trim \<circ> step_id) ss"
    and dist: "distinct (map step_id rest)"
    and new: "set (map step_id rest) \<inter> insert (js_trim (step_id s)) (set ids) = {}"
    and ok: "list_all (\<lambda>s. step_status s = st_pending \<and> input_refs s \<noteq> []
         \<and> distinct (input_refs s) \<and> \<not> blank (step_id s)) rest"
    by blast+
  have out_ids: "map step_id out = js_trim (step_id s) # map step_id rest" by (simp add: out)
  from dist new fresh(1) have "distinct (map step_id out)" "set (map step_id out) \<inter> set ids = {}"
    by (auto simp only: out_ids distinct.simps list.set)
  moreover have "distinct refs" using requireUniqueText_InrD [OF refs(1)] by blast
  ultimately show ?case using ids out_ids ok refs(2) fresh by (simp add: out)
qed simp

text \<open>The steps of the plan are those proposed, in their order, with their texts trimmed.\<close>

definition trimmed_step :: "WorkStepPlanItem \<Rightarrow> WorkStepPlanItem" where
  "trimmed_step s = s\<lparr>step_id := js_trim (step_id s), owner_agent_name := js_trim (owner_agent_name s),
     input_refs := map js_trim (input_refs s), expected_output := js_trim (expected_output s),
     completion_criteria := js_trim (completion_criteria s)\<rparr>"

lemma validate_step_list_trimmed:
  "validate_step_list ids steps = Inr out \<Longrightarrow> out = map trimmed_step steps
     \<and> list_all (\<lambda>s. \<not> blank (owner_agent_name s) \<and> \<not> blank (expected_output s)
         \<and> \<not> blank (completion_criteria s)) steps"
proof (induction steps arbitrary: ids out)
  case (Cons s ss)
  from Cons.prems obtain refs rest where
    "requireUniqueText (input_refs s) ''Step input references'' = Inr refs"
    and rest: "validate_step_list (set_add ids (js_trim (step_id s))) ss = Inr rest"
    and "out = s\<lparr>step_id := js_trim (step_id s), owner_agent_name := js_trim (owner_agent_name s),
        input_refs := refs, expected_output := js_trim (expected_output s),
        completion_criteria := js_trim (completion_criteria s)\<rparr> # rest"
    and "\<not> blank (owner_agent_name s)" "\<not> blank (expected_output s)" "\<not> blank (completion_criteria s)"
    by (auto simp: rbind_Inr_iff split: if_splits)
  with Cons.IH [OF rest] show ?case
    using requireUniqueText_InrD by (simp add: trimmed_step_def)
qed simp

lemma validateSteps_InrD:
  assumes "validateSteps steps c = Inr out"
  shows "validate_step_list [] steps = Inr out \<and> (c = simple_work \<longrightarrow> length steps = 1)
    \<and> (c = complex_work \<longrightarrow> 2 \<le> length steps)"
  using assms by (auto simp: validateSteps_def split: if_splits)

text \<open>The step results are collected in a bijection with the planned steps.\<close>

lemma collect_results_InrD:
  assumes "collect_results planned acc rs = Inr out" and "distinct (ref_stepIds acc)"
  shows "ref_stepIds out = ref_stepIds acc @ map (js_trim \<circ> res_stepId) rs
    \<and> distinct (ref_stepIds out) \<and> set (map (js_trim \<circ> res_stepId) rs) \<subseteq> set planned
    \<and> list_all (\<lambda>r. res_evidenceRefs r \<noteq> [] \<and> \<not> blank (res_outputRef r)) rs"
  using assms
proof (induction rs arbitrary: acc)
  case (Cons r rs)
  let ?id = "js_trim (res_stepId r)"
  from Cons.prems(1) obtain out_ref ev where
    ev: "requireUniqueText (res_evidenceRefs r) ''Result evidence references'' = Inr ev" "ev \<noteq> []"
    and ids: "?id \<in> set planned" "?id \<notin> set (ref_stepIds acc)" "\<not> blank (res_outputRef r)"
    and rest: "collect_results planned \<lparr>ref_stepIds = set_add (ref_stepIds acc) ?id,
        ref_outputRefs = ref_outputRefs acc @ [out_ref],
        ref_evidenceRefs = ref_evidenceRefs acc @ ev\<rparr> rs = Inr out"
    by (auto simp: rbind_Inr_iff split: if_splits)
  from requireUniqueText_InrD [OF ev(1)] ev(2) have "res_evidenceRefs r \<noteq> []" by auto
  moreover have "distinct (set_add (ref_stepIds acc) ?id)" using Cons.prems(2) by simp
  with Cons.IH [OF rest, unfolded StepReferences.select_convs] have
    "ref_stepIds out = set_add (ref_stepIds acc) ?id @ map (js_trim \<circ> res_stepId) rs"
    "distinct (ref_stepIds out)" "set (map (js_trim \<circ> res_stepId) rs) \<subseteq> set planned"
    "list_all (\<lambda>r. res_evidenceRefs r \<noteq> [] \<and> \<not> blank (res_outputRef r)) rs"
    by blast+
  ultimately show ?case using ids by (simp add: set_add_def)
qed simp

lemma validateStepResults_InrD:
  assumes "validateStepResults p results = Inr refs"
  shows "distinct (map (js_trim \<circ> res_stepId) results)
    \<and> set (map (js_trim \<circ> res_stepId) results) \<subseteq> set (map step_id (pl_steps p))
    \<and> length results = length (pl_steps p)
    \<and> list_all (\<lambda>r. res_evidenceRefs r \<noteq> []) results"
proof -
  from assms obtain acc where "length results = length (pl_steps p)"
    and acc: "collect_results (js_set (map step_id (pl_steps p)))
      \<lparr>ref_stepIds = [], ref_outputRefs = [], ref_evidenceRefs = []\<rparr> results = Inr acc"
    by (auto simp: validateStepResults_def rbind_Inr_iff split: if_splits)
  with collect_results_InrD [OF acc] show ?thesis
    by (auto simp: list_all_iff)
qed

subsection \<open>Admitted plans\<close>

lemma validateReceipt_NoneD:
  assumes "validateLlmSolutionPlanReceipt H ro wid runid did dAt p = Inr None"
  obtains r where "ro = Some r" "sp_workId r = wid" "sp_runId r = runid"
    "sp_requestDiagnosisReceiptId r = did" "\<not> num_le (sp_issuedAt r) dAt"
    "is_safe_integer (sp_issuedAt r)" "num_le (Num 0) (sp_issuedAt r)" "planFingerprint H p = Inr (sp_planFingerprint r)"
proof -
  have "num_le (Num 0) n" if "is_safe_integer n" "\<not> num_lt n (Num 0)" for n
    using that by (cases n) (auto simp: is_safe_integer_def is_integer_number_def num_le_def)
  with that assms show ?thesis
    by (auto simp: validateLlmSolutionPlanReceipt_def rbind_Inr_iff split: option.splits if_splits)
qed

lemma planStructuredWorkLifecycle_InrD:
  assumes "planStructuredWorkLifecycle H i = Inr p"
  obtains route classification r where
    "authorizeDiagnosisActionRoute H (in_receipt i) (in_subjectPayload i)
       (RequestDiagnosis (in_diagnosis i)) None = Inr route"
    "classify (in_complexity i) = Inr classification"
    "validateLlmSolutionPlanReceipt H (in_solutionPlanReceipt i) (pl_workId p) (pl_runId p)
       (rd_receiptId route)
       (case in_requestDiagnosisIssuedAt i of None \<Rightarrow> Num (- 1) | Some t \<Rightarrow> t)
       \<lparr>ownerAgentName = pl_ownerAgentName p, plan_steps = in_proposedSteps i\<rparr> = Inr None"
    "in_solutionPlanReceipt i = Some r"
    "validateSteps (in_proposedSteps i) classification = Inr (pl_steps p)"
    "pl_classification p = classification" "pl_requestReceiptId p = rd_receiptId route"
    "pl_solutionPlanReceiptId p = sp_receiptId r"
    "pl_workId p = js_trim (in_workId i)" "pl_ownerAgentName p = js_trim (in_ownerAgentName i)"
    "pl_requestAction p = rd_recommendedAction route"
    "pl_lifecycleStates p = [DR_received, DR_diagnosis_pending, DR_diagnosed, DR_route_selected]"
  using assms
  by (auto simp: planStructuredWorkLifecycle_def rbind_Inr_iff requestPlanningStates_eq Let_def
      split: option.splits if_splits)

subsection \<open>Projections\<close>

lemma push_execution_states:
  "push_transitions [DR_received, DR_diagnosis_pending, DR_diagnosed, DR_route_selected]
     [execution_started, execution_result_received, result_diagnosed, next_action_selected] =
   Inr [DR_received, DR_diagnosis_pending, DR_diagnosed, DR_route_selected, DR_executing,
        DR_result_diagnosis_pending, DR_result_diagnosed, DR_next_action_selected]"
  by (simp add: push_transition_def transitionDiagnosisRouting_def routing_terminal_def)

definition final_status :: "RecommendedAction \<Rightarrow> DiagnosisRoutingState \<times> LifecycleStatus" where
  "final_status a = (case a of stop_blocked \<Rightarrow> (DR_blocked, lc_blocked)
     | ask_clarification \<Rightarrow> (DR_awaiting_user, lc_awaiting_user)
     | final_report \<Rightarrow> (DR_completed, lc_completed)
     | partial_report \<Rightarrow> (DR_completed, lc_completed)
     | _ \<Rightarrow> (DR_executing, lc_running))"

lemma finalLifecycleState_eq:
  assumes "states \<noteq> []" and "last states = DR_next_action_selected"
  shows "finalLifecycleState states a = Inr (states @ [fst (final_status a)], snd (final_status a))"
  using assms
  by (cases a) (simp_all add: finalLifecycleState_def push_transition_def
      transitionDiagnosisRouting_def routing_terminal_def final_status_def)

lemma projectStructuredWorkLifecycle_InrD:
  assumes "projectStructuredWorkLifecycle H p results rp d receipt = Inr pj"
    and "pl_lifecycleStates p = [DR_received, DR_diagnosis_pending, DR_diagnosed, DR_route_selected]"
  obtains refs route where
    "validateStepResults p results = Inr refs"
    "authorizeDiagnosisActionRoute H receipt rp (ResultDiagnosis d) None = Inr route"
    "pj_lifecycleStates pj = [DR_received, DR_diagnosis_pending, DR_diagnosed, DR_route_selected,
       DR_executing, DR_result_diagnosis_pending, DR_result_diagnosed, DR_next_action_selected,
       fst (final_status (rs_recommended_action d))]"
    "pj_status pj = snd (final_status (rs_recommended_action d))"
  using assms
  by (auto simp: projectStructuredWorkLifecycle_def rbind_Inr_iff push_execution_states
      finalLifecycleState_eq simp del: push_transitions.simps)

lemma bijective_results:
  assumes "validateStepResults p results = Inr refs" and "distinct (map step_id (pl_steps p))"
  shows "mset (map (js_trim \<circ> res_stepId) results) = mset (map step_id (pl_steps p))"
proof -
  let ?rs = "map (js_trim \<circ> res_stepId) results" and ?ps = "map step_id (pl_steps p)"
  from validateStepResults_InrD [OF assms(1)]
  have d: "distinct ?rs" "set ?rs \<subseteq> set ?ps" "length ?rs = length ?ps" by auto
  have "card (set ?rs) = card (set ?ps)"
    using d(1,3) assms(2) by (metis distinct_card)
  with d(2) have "set ?rs = set ?ps" by (intro card_subset_eq) simp_all
  with d(1) assms(2) show ?thesis by (metis set_eq_iff_mset_eq_distinct)
qed

section \<open>Properties\<close>

text \<open>C4. An admitted plan rests on a solution-plan receipt of this work, run and request diagnosis, which carries the
  fingerprint of the owner and the proposed steps; the steps of the plan are exactly those, in their order, with their
  texts trimmed. When the time of the diagnosis is given, the receipt was not issued at or before it (when none is
  given the order is not checked; the time of issue is never negative). The steps are pending, have unique non-blank
  ids and input references, and there is one for simple work and at least two for complex work.\<close>

theorem admitted_plan_is_receipted:
  assumes "planStructuredWorkLifecycle H i = Inr p"
  shows "(\<exists>r. in_solutionPlanReceipt i = Some r \<and> sp_receiptId r = pl_solutionPlanReceiptId p
        \<and> sp_workId r = pl_workId p \<and> sp_runId r = pl_runId p
        \<and> sp_requestDiagnosisReceiptId r = pl_requestReceiptId p
        \<and> (\<forall>t. in_requestDiagnosisIssuedAt i = Some t \<longrightarrow> \<not> num_le (sp_issuedAt r) t)
        \<and> num_le (Num 0) (sp_issuedAt r)
        \<and> sp_planFingerprint r = ''sha256:'' @ fingerprint H ''llm-solution-plan''
            (plan_json \<lparr>ownerAgentName = pl_ownerAgentName p, plan_steps = in_proposedSteps i\<rparr>))
    \<and> pl_steps p = map trimmed_step (in_proposedSteps i)
    \<and> distinct (map step_id (pl_steps p))
    \<and> list_all (\<lambda>s. step_status s = st_pending \<and> \<not> blank (step_id s) \<and> input_refs s \<noteq> []) (pl_steps p)
    \<and> (if pl_classification p = simple_work then length (pl_steps p) = 1 else 2 \<le> length (pl_steps p))"
proof -
  obtain c r and route :: DiagnosisActionRouteDecision where
    v: "validateLlmSolutionPlanReceipt H (in_solutionPlanReceipt i) (pl_workId p) (pl_runId p)
       (rd_receiptId route) (case in_requestDiagnosisIssuedAt i of None \<Rightarrow> Num (- 1) | Some t \<Rightarrow> t)
       \<lparr>ownerAgentName = pl_ownerAgentName p, plan_steps = in_proposedSteps i\<rparr> = Inr None"
    and r: "in_solutionPlanReceipt i = Some r"
    and steps: "validateSteps (in_proposedSteps i) c = Inr (pl_steps p)"
    and p: "pl_classification p = c" "pl_requestReceiptId p = rd_receiptId route"
      "pl_solutionPlanReceiptId p = sp_receiptId r"
    and owner: "pl_ownerAgentName p = js_trim (in_ownerAgentName i)"
    by (rule planStructuredWorkLifecycle_InrD [OF assms]) blast
  note listed = validateSteps_InrD [OF steps, THEN conjunct1]
  note ok = validate_step_list_InrD [OF listed]
  have same: "pl_steps p = map trimmed_step (in_proposedSteps i)"
    using validate_step_list_trimmed [OF listed] by blast
  have "(if c = simple_work then length (pl_steps p) = 1 else 2 \<le> length (pl_steps p))"
    using validateSteps_InrD [OF steps] by (cases c) (auto simp: same)
  moreover obtain r' where r': "in_solutionPlanReceipt i = Some r'" "sp_workId r' = pl_workId p"
    "sp_runId r' = pl_runId p" "sp_requestDiagnosisReceiptId r' = rd_receiptId route"
    "\<not> num_le (sp_issuedAt r') (case in_requestDiagnosisIssuedAt i of None \<Rightarrow> Num (- 1) | Some t \<Rightarrow> t)"
    "is_safe_integer (sp_issuedAt r')"
    and "num_le (Num 0) (sp_issuedAt r')"
    and fp: "planFingerprint H \<lparr>ownerAgentName = pl_ownerAgentName p, plan_steps = in_proposedSteps i\<rparr> = Inr (sp_planFingerprint r')"
    by (rule validateReceipt_NoneD [OF v]) blast
  moreover have "sp_planFingerprint r' = ''sha256:'' @ fingerprint H ''llm-solution-plan''
      (plan_json \<lparr>ownerAgentName = pl_ownerAgentName p, plan_steps = in_proposedSteps i\<rparr>)"
    using fp owner by (auto simp: planFingerprint_def validatePlan_def rbind_Inr_iff split: if_splits)
  moreover have "distinct (map step_id (pl_steps p))" using ok by blast
  moreover have "list_all (\<lambda>s. step_status s = st_pending \<and> \<not> blank (step_id s) \<and> input_refs s \<noteq> []) (pl_steps p)"
    using ok by (auto simp: list_all_iff)
  ultimately show ?thesis using r p same by auto
qed

text \<open>C21. The projected lifecycle is the run of the routing machine from \<open>received\<close> through the
  diagnosed result to the state the result diagnosis recommends; every planned step has exactly
  one result, each with evidence; the work is reported \<open>completed\<close> exactly for a final or partial
  report, and a final report only for a sufficient result that misses nothing.\<close>

theorem lifecycle_projection_complete:
  assumes "planStructuredWorkLifecycle H i = Inr p"
    and "projectStructuredWorkLifecycle H p results payload d receipt = Inr pj"
  shows "(\<exists>es. run_steps routing_step DR_received es = Some (last (pj_lifecycleStates pj))
        \<and> Suc (length es) = length (pj_lifecycleStates pj)
        \<and> (\<forall>k \<le> length es. run_steps routing_step DR_received (take k es) = Some (pj_lifecycleStates pj ! k)))
    \<and> mset (map (js_trim \<circ> res_stepId) results) = mset (map step_id (pl_steps p))
    \<and> list_all (\<lambda>r. res_evidenceRefs r \<noteq> []) results
    \<and> (pj_status pj = lc_completed \<longleftrightarrow> rs_recommended_action d \<in> {final_report, partial_report})
    \<and> (rs_recommended_action d = final_report \<longrightarrow>
         rs_sufficiency d = sufficient \<and> rs_missing_information d = [])"
proof -
  obtain c where
    states: "pl_lifecycleStates p = [DR_received, DR_diagnosis_pending, DR_diagnosed, DR_route_selected]"
    and steps: "validateSteps (in_proposedSteps i) c = Inr (pl_steps p)"
    by (rule planStructuredWorkLifecycle_InrD [OF assms(1)]) blast
  from projectStructuredWorkLifecycle_InrD [OF assms(2) states] obtain refs route where
    refs: "validateStepResults p results = Inr refs"
    and route: "authorizeDiagnosisActionRoute H receipt payload (ResultDiagnosis d) None = Inr route"
    and pj: "pj_lifecycleStates pj = [DR_received, DR_diagnosis_pending, DR_diagnosed, DR_route_selected,
       DR_executing, DR_result_diagnosis_pending, DR_result_diagnosed, DR_next_action_selected,
       fst (final_status (rs_recommended_action d))]"
      "pj_status pj = snd (final_status (rs_recommended_action d))" .
  let ?es = "\<lambda>e. [diagnosis_requested, request_diagnosed, route_selected, execution_started,
    execution_result_received, result_diagnosed, next_action_selected, e]"
  obtain e where e: "TRANSITIONS DR_next_action_selected e = Some (fst (final_status (rs_recommended_action d)))"
    by (cases "rs_recommended_action d") (force simp: final_status_def)+
  have runs: "\<forall>k \<le> length (?es e). run_steps routing_step DR_received (take k (?es e)) = Some (pj_lifecycleStates pj ! k)"
    by (simp add: pj(1) machine_simps e le_Suc_eq all_conj_distrib numeral_eq_Suc
        del: TRANSITIONS.simps(8))
  have "run_steps routing_step DR_received (?es e) = Some (last (pj_lifecycleStates pj))"
    by (simp add: pj(1) machine_simps e del: TRANSITIONS.simps(8))
  moreover have "Suc (length (?es e)) = length (pj_lifecycleStates pj)" by (simp add: pj(1))
  moreover have "mset (map (js_trim \<circ> res_stepId) results) = mset (map step_id (pl_steps p))"
    using bijective_results [OF refs]
      validate_step_list_InrD [OF validateSteps_InrD [OF steps, THEN conjunct1]] by blast
  moreover have "list_all (\<lambda>r. res_evidenceRefs r \<noteq> []) results"
    using validateStepResults_InrD [OF refs] by blast
  moreover have "pj_status pj = lc_completed \<longleftrightarrow> rs_recommended_action d \<in> {final_report, partial_report}"
    by (cases "rs_recommended_action d") (simp_all add: pj(2) final_status_def)
  moreover have "rs_recommended_action d = final_report \<longrightarrow>
      rs_sufficiency d = sufficient \<and> rs_missing_information d = []"
    using route by (auto elim!: authorize_InrD simp: Let_def split: if_splits)
  ultimately show ?thesis using runs by blast
qed

section \<open>Sample records of the witnesses\<close>

definition zero_digest :: string where
  "zero_digest = replicate 64 (CHR ''0'')"

definition zero_host :: host where
  "zero_host = \<lparr>sha256 = (\<lambda>_. zero_digest), localeCompare = codeUnitCompare\<rparr>"

definition sample_step :: WorkStepPlanItem where
  "sample_step = \<lparr>step_id = ''s1'', owner_agent_name = ''o'', action_type = act_use_tool,
     input_refs = [''in''], expected_output = ''out'', completion_criteria = ''done'',
     step_status = st_pending\<rparr>"

definition sample_request :: LlmRequestDiagnosisRecord where
  "sample_request = \<lparr>rq_diagnosis_summary = ''s'', rq_intent = ''i'', rq_goal = ''g'',
     rq_constraints = [], rq_missing_information = [], rq_risk = ''low'', rq_confidence = ''high'',
     rq_recommended_action = use_tool, rq_reason = ''r''\<rparr>"

definition sample_plan_input :: PlanInput where
  "sample_plan_input = \<lparr>in_workId = ''w'', in_runId = Some ''r'', in_ownerAgentName = ''o'',
     in_subjectPayload = JNull, in_diagnosis = sample_request,
     in_receipt = Some \<lparr>schemaVersion = 1, receiptId = ''d1'', target = request_diagnosis,
       subjectKind = user_request, subjectFingerprint = zero_digest,
       diagnosisFingerprint = zero_digest, recommendedAction = use_tool\<rparr>,
     in_requestDiagnosisIssuedAt = Some (Num 1),
     in_solutionPlanReceipt = Some \<lparr>sp_schemaVersion = 1, sp_receiptId = ''p1'', sp_workId = ''w'',
       sp_runId = ''r'', sp_requestDiagnosisReceiptId = ''d1'',
       sp_planFingerprint = ''sha256:'' @ zero_digest, sp_issuedAt = Num 2\<rparr>,
     in_complexity = \<lparr>toolCount = Num 1, subAgentCount = Num 0, usesYeonjang = False,
       requiresApproval = False, changesFiles = False, longRunning = False\<rparr>,
     in_proposedSteps = [sample_step]\<rparr>"

definition sample_plan :: StructuredWorkPlanDecision where
  "sample_plan = \<lparr>pl_workId = ''w'', pl_runId = ''r'', pl_ownerAgentName = ''o'',
     pl_classification = simple_work, pl_requestReceiptId = ''d1'', pl_solutionPlanReceiptId = ''p1'',
     pl_requestIntent = ''i'', pl_missingInformation = [], pl_clarificationRequired = False,
     pl_requestAction = use_tool, pl_steps = [sample_step],
     pl_lifecycleStates = [DR_received, DR_diagnosis_pending, DR_diagnosed, DR_route_selected]\<rparr>"

definition sample_step_result :: StructuredWorkLifecycleStepResult where
  "sample_step_result = \<lparr>res_stepId = ''s1'', res_outputRef = ''o1'', res_evidenceRefs = [''e1'']\<rparr>"

definition zero_result_receipt :: LlmDiagnosisReceipt where
  "zero_result_receipt = \<lparr>schemaVersion = 1, receiptId = ''d2'', target = result_diagnosis,
     subjectKind = tool_result, subjectFingerprint = zero_digest,
     diagnosisFingerprint = zero_digest, recommendedAction = final_report\<rparr>"

lemma zero_fingerprint [simp]: "fingerprint zero_host ns v = zero_digest"
  by (simp add: fingerprint_def zero_host_def)

lemmas text_eval = requiredText_def requireText_def js_trim_def js_ws_def blank_def Let_def

lemma sample_plan_fingerprint:
  "planFingerprint zero_host \<lparr>ownerAgentName = ''o'', plan_steps = [sample_step]\<rparr>
     = Inr (''sha256:'' @ zero_digest)"
  by (simp add: planFingerprint_def validatePlan_def sample_step_def text_eval js_set_distinct)

lemma zero_hash: "HASH_PATTERN (''sha256:'' @ zero_digest)"
  by (simp add: HASH_PATTERN_def zero_digest_def list_all_iff del: replicate.simps)

lemma sample_plan_validated:
  "validateLlmSolutionPlanReceipt zero_host (in_solutionPlanReceipt sample_plan_input) ''w'' ''r'' ''d1''
     (Num 1) \<lparr>ownerAgentName = ''o'', plan_steps = [sample_step]\<rparr> = Inr None"
  using sample_plan_fingerprint zero_hash
  by (simp add: validateLlmSolutionPlanReceipt_def sample_plan_input_def is_safe_integer_def
      max_safe_integer_def text_eval del: append.simps)

lemma sample_plan_admitted: "planStructuredWorkLifecycle zero_host sample_plan_input = Inr sample_plan"
proof -
  have "authorizeDiagnosisActionRoute zero_host (in_receipt sample_plan_input) JNull
      (RequestDiagnosis sample_request) None = Inr \<lparr>rd_receiptId = ''d1'', rd_target = request_diagnosis,
        rd_subjectKind = user_request, rd_recommendedAction = use_tool, rd_routeKind = tool_route\<rparr>"
    by (simp add: authorizeDiagnosisActionRoute_def sample_plan_input_def sample_request_def Let_def)
  moreover have "classify (in_complexity sample_plan_input) = Inr simple_work"
    by (simp add: classify_def assertCount_def is_integer_number_def sample_plan_input_def)
  moreover have "validateSteps [sample_step] simple_work = Inr [sample_step]"
    by (simp add: validateSteps_def requireUniqueText_def sample_step_def text_eval js_set_distinct)
  moreover note sample_plan_validated
  ultimately show ?thesis
    by (simp add: planStructuredWorkLifecycle_def sample_plan_input_def requestPlanningStates_eq
        sample_plan_def sample_request_def requireUniqueText_def text_eval)
qed

definition sample_projection :: StructuredWorkLifecycleProjection where
  "sample_projection = \<lparr>pj_workId = ''w'', pj_status = lc_completed, pj_resultReceiptId = ''d2'',
     pj_lifecycleStates = [DR_received, DR_diagnosis_pending, DR_diagnosed, DR_route_selected,
       DR_executing, DR_result_diagnosis_pending, DR_result_diagnosed, DR_next_action_selected,
       DR_completed],
     pj_trace = lifecycle_trace sample_plan
       \<lparr>ref_stepIds = [''s1''], ref_outputRefs = [''o1''], ref_evidenceRefs = [''e1'']\<rparr>
       \<lparr>rd_receiptId = ''d2'', rd_target = result_diagnosis, rd_subjectKind = tool_result,
         rd_recommendedAction = final_report, rd_routeKind = final_report_route\<rparr> lc_completed,
     pj_outputRefs = [''o1''], pj_evidenceRefs = [''e1'']\<rparr>"

lemma sample_results_valid:
  "validateStepResults sample_plan [sample_step_result] =
     Inr \<lparr>ref_stepIds = [''s1''], ref_outputRefs = [''o1''], ref_evidenceRefs = [''e1'']\<rparr>"
  by (simp add: validateStepResults_def sample_plan_def sample_step_result_def sample_step_def
      js_set_distinct set_add_def requireUniqueText_def text_eval)

lemma sample_result_route:
  "authorizeDiagnosisActionRoute zero_host (Some zero_result_receipt) JNull
      (ResultDiagnosis sample_result) None = Inr \<lparr>rd_receiptId = ''d2'', rd_target = result_diagnosis,
        rd_subjectKind = tool_result, rd_recommendedAction = final_report, rd_routeKind = final_report_route\<rparr>"
  by (simp add: authorizeDiagnosisActionRoute_def zero_result_receipt_def sample_result_def Let_def)

lemma sample_plan_projected:
  "projectStructuredWorkLifecycle zero_host sample_plan [sample_step_result] JNull sample_result
     (Some zero_result_receipt) = Inr sample_projection"
proof -
  have "pl_lifecycleStates sample_plan = [DR_received, DR_diagnosis_pending, DR_diagnosed, DR_route_selected]"
    "rs_recommended_action sample_result = final_report" "pl_workId sample_plan = ''w''"
    by (simp_all add: sample_plan_def sample_result_def)
  then show ?thesis
    by (simp add: projectStructuredWorkLifecycle_def sample_results_valid sample_result_route
        push_execution_states finalLifecycleState_eq final_status_def sample_projection_def
        del: push_transitions.simps)
qed

theorem admitted_plan_is_receipted_witness:
  "planStructuredWorkLifecycle zero_host sample_plan_input = Inr sample_plan
    \<and> pl_steps sample_plan = map trimmed_step (in_proposedSteps sample_plan_input)
    \<and> distinct (map step_id (pl_steps sample_plan))"
  using admitted_plan_is_receipted [OF sample_plan_admitted] sample_plan_admitted by blast

theorem lifecycle_projection_complete_witness:
  "projectStructuredWorkLifecycle zero_host sample_plan [sample_step_result] JNull sample_result
     (Some zero_result_receipt) = Inr sample_projection
    \<and> mset (map (js_trim \<circ> res_stepId) [sample_step_result]) = mset (map step_id (pl_steps sample_plan))"
  using lifecycle_projection_complete [OF sample_plan_admitted sample_plan_projected] sample_plan_projected
  by blast

end
