(* ===== verification/Solution_Paths.thy ===== *)
theory Solution_Paths
  imports Diagnosis_Routing
begin

text \<open>
  \<open>contracts/solution-path-exhaustion.ts\<close>: a failure may be reported to the user only after
  every solution path was reviewed. The reviews of the authorised assessment extend the plain
  reviews, as in the source, so the record of the former extends the record of the latter and
  the plain assessment is defined on both.
\<close>

section \<open>Records\<close>

datatype SolutionPath =
    path_direct_answer | path_plan | path_tool | path_sub_agent | path_yeonjang
  | path_ask_clarification | path_partial_completion | path_workaround_guidance

definition REQUIRED_SOLUTION_PATHS :: "SolutionPath list" where
  "REQUIRED_SOLUTION_PATHS =
     [path_direct_answer, path_plan, path_tool, path_sub_agent, path_yeonjang,
      path_ask_clarification, path_partial_completion, path_workaround_guidance]"

fun path_name :: "SolutionPath \<Rightarrow> string" where
  "path_name path_direct_answer = ''direct_answer''"
| "path_name path_plan = ''plan''"
| "path_name path_tool = ''tool''"
| "path_name path_sub_agent = ''sub_agent''"
| "path_name path_yeonjang = ''yeonjang''"
| "path_name path_ask_clarification = ''ask_clarification''"
| "path_name path_partial_completion = ''partial_completion''"
| "path_name path_workaround_guidance = ''workaround_guidance''"

datatype SolutionPathDisposition =
    disp_available | disp_attempted | disp_reviewed_unavailable | disp_completed_partial
  | disp_guidance_ready

record SolutionPathReview =
  rv_path :: SolutionPath
  rv_disposition :: SolutionPathDisposition
  rv_reasonCode :: string
  rv_resultRefs :: "string list option"
  rv_guidance :: "string option"

record AuthorizedSolutionPathReview = SolutionPathReview +
  rv_applicable :: bool
  rv_evidenceRefs :: "string list"
  rv_attemptSignature :: "string option"

record SolutionPathExhaustionAssessment =
  as_complete :: bool
  as_canFinalizeFailure :: bool
  as_reviewedPaths :: "SolutionPath list"
  as_missingPaths :: "SolutionPath list"
  as_partialResultRefs :: "string list"
  as_workaroundGuidance :: "string list"

datatype ExhaustionNextAction = next_partial_report | next_stop_blocked

record AuthorizedSolutionPathExhaustionAssessment = SolutionPathExhaustionAssessment +
  as_receiptId :: string
  as_nextAction :: ExhaustionNextAction
  as_reviews :: "AuthorizedSolutionPathReview list"

record TerminalFailurePayload =
  tf_conciseReason :: string
  tf_attemptedPaths :: "SolutionPath list"
  tf_partialResultRefs :: "string list"
  tf_unresolvedScope :: "string list"
  tf_workaroundGuidance :: "string list"
  tf_userActions :: "string list"
  tf_diagnosisReceiptId :: string

record PartialCompletionPayload =
  pc_partialResultRefs :: "string list"
  pc_unresolvedScope :: "string list"
  pc_nextActions :: "string list"
  pc_diagnosisReceiptId :: string

section \<open>Assessment\<close>

definition hasNonEmptyValues :: "string list option \<Rightarrow> bool" where
  "hasNonEmptyValues values =
     (case values of None \<Rightarrow> False | Some vs \<Rightarrow> list_ex (\<lambda>v. js_trim v \<noteq> []) vs)"

text \<open>\<open>!value?.trim()\<close>.\<close>

definition missing_text :: "string option \<Rightarrow> bool" where
  "missing_text value = (case value of None \<Rightarrow> True | Some v \<Rightarrow> blank v)"

fun collect_reviews ::
  "(SolutionPath \<times> 'a SolutionPathReview_scheme) list \<Rightarrow> 'a SolutionPathReview_scheme list
     \<Rightarrow> string + (SolutionPath \<times> 'a SolutionPathReview_scheme) list" where
  "collect_reviews byPath [] = Inr byPath"
| "collect_reviews byPath (review # rest) =
     (if rv_path review \<in> set (map fst byPath)
      then Inl (''duplicate solution path review: '' @ path_name (rv_path review))
      else if blank (rv_reasonCode review)
      then Inl (''solution path review requires reasonCode: '' @ path_name (rv_path review))
      else if rv_disposition review = disp_completed_partial \<and> \<not> hasNonEmptyValues (rv_resultRefs review)
      then Inl ''completed_partial solution path review requires resultRefs''
      else if rv_disposition review = disp_guidance_ready \<and> missing_text (rv_guidance review)
      then Inl ''guidance_ready solution path review requires guidance''
      else collect_reviews (AList.update (rv_path review) review byPath) rest)"

definition partial_refs :: "'a SolutionPathReview_scheme \<Rightarrow> string list" where
  "partial_refs review =
     (if rv_disposition review = disp_completed_partial
      then case rv_resultRefs review of None \<Rightarrow> [] | Some refs \<Rightarrow> refs else [])"

definition review_guidance :: "'a SolutionPathReview_scheme \<Rightarrow> string list" where
  "review_guidance review =
     (if rv_disposition review = disp_guidance_ready
      then [case rv_guidance review of None \<Rightarrow> [] | Some g \<Rightarrow> g] else [])"

definition assessSolutionPathExhaustion ::
  "'a SolutionPathReview_scheme list \<Rightarrow> string + SolutionPathExhaustionAssessment" where
  "assessSolutionPathExhaustion reviews =
     rbind (collect_reviews [] reviews) (\<lambda>byPath.
       let reviewedPaths = filter (\<lambda>p. p \<in> set (map fst byPath)) REQUIRED_SOLUTION_PATHS;
           missingPaths = filter (\<lambda>p. p \<notin> set (map fst byPath)) REQUIRED_SOLUTION_PATHS;
           partialResultRefs = uniqueNonEmpty (concat (map partial_refs reviews));
           workaroundGuidance = uniqueNonEmpty (concat (map review_guidance reviews));
           complete = (missingPaths = []);
           hasAvailablePath = list_ex (\<lambda>r. rv_disposition r = disp_available) reviews
       in Inr \<lparr>as_complete = complete, as_canFinalizeFailure = (complete \<and> \<not> hasAvailablePath),
            as_reviewedPaths = reviewedPaths, as_missingPaths = missingPaths,
            as_partialResultRefs = partialResultRefs, as_workaroundGuidance = workaroundGuidance\<rparr>)"

fun check_authorized_reviews ::
  "string list \<Rightarrow> AuthorizedSolutionPathReview list \<Rightarrow> string + string list" where
  "check_authorized_reviews signatures [] = Inr signatures"
| "check_authorized_reviews signatures (review # rest) =
     (if \<not> hasNonEmptyValues (Some (rv_evidenceRefs review))
      then Inl (''Solution path review requires evidence: '' @ path_name (rv_path review) @ ''.'')
      else if \<not> rv_applicable review \<and> rv_disposition review \<noteq> disp_reviewed_unavailable
      then Inl (''Non-applicable solution path must be reviewed_unavailable: ''
                @ path_name (rv_path review) @ ''.'')
      else if rv_applicable review \<and> rv_disposition review = disp_reviewed_unavailable
           \<and> blank (rv_reasonCode review)
      then Inl (''Unavailable applicable solution path requires a reason: ''
                @ path_name (rv_path review) @ ''.'')
      else if rv_disposition review = disp_attempted
      then (if missing_text (rv_attemptSignature review)
            then Inl (''Attempted solution path requires attemptSignature: ''
                      @ path_name (rv_path review) @ ''.'')
            else let signature = js_trim (the (rv_attemptSignature review))
                 in if signature \<in> set signatures
                    then Inl (''Duplicate unchanged attempt: '' @ signature @ ''.'')
                    else check_authorized_reviews (set_add signatures signature) rest)
      else check_authorized_reviews signatures rest)"

text \<open>\<open>value ? { key: value.trim() } : {}\<close> spread over the review.\<close>

definition trim_if_set :: "string option \<Rightarrow> string option" where
  "trim_if_set value = (case value of None \<Rightarrow> None
     | Some v \<Rightarrow> if v \<noteq> [] then Some (js_trim v) else Some v)"

definition normalize_review :: "AuthorizedSolutionPathReview \<Rightarrow> AuthorizedSolutionPathReview" where
  "normalize_review review = review
     \<lparr>rv_evidenceRefs := uniqueNonEmpty (rv_evidenceRefs review),
      rv_resultRefs := map_option uniqueNonEmpty (rv_resultRefs review),
      rv_guidance := trim_if_set (rv_guidance review),
      rv_attemptSignature := trim_if_set (rv_attemptSignature review)\<rparr>"

definition assessAuthorizedSolutionPathExhaustion ::
  "host \<Rightarrow> LlmDiagnosisReceipt option \<Rightarrow> json \<Rightarrow> LlmResultDiagnosisRecord
     \<Rightarrow> AuthorizedSolutionPathReview list
     \<Rightarrow> string + AuthorizedSolutionPathExhaustionAssessment" where
  "assessAuthorizedSolutionPathExhaustion H receipt subjectPayload diagnosis reviews =
     rbind (authorizeDiagnosisActionRoute H receipt subjectPayload (ResultDiagnosis diagnosis) None) (\<lambda>route.
     if rd_routeKind route \<noteq> partial_report_route \<and> rd_routeKind route \<noteq> blocked_route
     then Inl ''Solution-path exhaustion requires partial_report or stop_blocked diagnosis action.''
     else rbind (check_authorized_reviews [] reviews) (\<lambda>_.
     rbind (assessSolutionPathExhaustion reviews) (\<lambda>base.
     if \<not> as_complete base
     then Inl (''Unreviewed solution paths: '' @ join '', '' (map path_name (as_missingPaths base)) @ ''.'')
     else Inr \<lparr>as_complete = as_complete base,
       as_canFinalizeFailure = (as_canFinalizeFailure base \<and> rd_routeKind route = blocked_route),
       as_reviewedPaths = as_reviewedPaths base, as_missingPaths = as_missingPaths base,
       as_partialResultRefs = as_partialResultRefs base,
       as_workaroundGuidance = as_workaroundGuidance base,
       as_receiptId = rd_receiptId route,
       as_nextAction = (if rd_routeKind route = blocked_route then next_stop_blocked else next_partial_report),
       as_reviews = map normalize_review reviews\<rparr>)))"

section \<open>Payloads\<close>

definition assertAssessmentPartialResultsPreserved ::
  "AuthorizedSolutionPathExhaustionAssessment \<Rightarrow> string + unit" where
  "assertAssessmentPartialResultsPreserved assessment =
     (let expected = uniqueNonEmpty (concat (map partial_refs (as_reviews assessment)));
          actual = uniqueNonEmpty (as_partialResultRefs assessment)
      in if length expected \<noteq> length actual
            \<or> list_ex (\<lambda>(value, i). value \<noteq> actual ! i) (zip expected [0..<length expected])
         then Inl ''Assessment must preserve every partial result reference.''
         else Inr ())"

definition buildTerminalFailurePayload ::
  "AuthorizedSolutionPathExhaustionAssessment \<Rightarrow> string \<Rightarrow> string list \<Rightarrow> string list
     \<Rightarrow> string + TerminalFailurePayload" where
  "buildTerminalFailurePayload assessment reason scope actions =
     (if \<not> as_canFinalizeFailure assessment \<or> as_nextAction assessment \<noteq> next_stop_blocked
      then Inl ''Terminal failure payload requires an exhausted stop_blocked assessment.''
      else let conciseReason = js_trim reason in
      if conciseReason = [] then Inl ''Terminal failure payload requires a concise reason.''
      else let unresolvedScope = uniqueNonEmpty scope in
      if unresolvedScope = [] then Inl ''Terminal failure payload requires unresolved scope.''
      else let userActions = uniqueNonEmpty actions in
      if userActions = [] then Inl ''Terminal failure payload requires at least one user action.''
      else rbind (assertAssessmentPartialResultsPreserved assessment) (\<lambda>_.
        Inr \<lparr>tf_conciseReason = conciseReason,
          tf_attemptedPaths = map rv_path
            (filter (\<lambda>r. rv_disposition r = disp_attempted) (as_reviews assessment)),
          tf_partialResultRefs = as_partialResultRefs assessment,
          tf_unresolvedScope = unresolvedScope,
          tf_workaroundGuidance = as_workaroundGuidance assessment,
          tf_userActions = userActions,
          tf_diagnosisReceiptId = as_receiptId assessment\<rparr>))"

definition buildPartialCompletionPayload ::
  "AuthorizedSolutionPathExhaustionAssessment \<Rightarrow> string list \<Rightarrow> string list
     \<Rightarrow> string + PartialCompletionPayload" where
  "buildPartialCompletionPayload assessment scope actions =
     (if as_nextAction assessment \<noteq> next_partial_report
      then Inl ''Partial completion payload requires a partial_report assessment.''
      else rbind (assertAssessmentPartialResultsPreserved assessment) (\<lambda>_.
        if as_partialResultRefs assessment = []
        then Inl ''Partial completion payload requires partial result references.''
        else let unresolvedScope = uniqueNonEmpty scope in
        if unresolvedScope = [] then Inl ''Partial completion payload requires unresolved scope.''
        else let nextActions = uniqueNonEmpty actions in
        if nextActions = [] then Inl ''Partial completion payload requires next actions.''
        else Inr \<lparr>pc_partialResultRefs = as_partialResultRefs assessment,
          pc_unresolvedScope = unresolvedScope, pc_nextActions = nextActions,
          pc_diagnosisReceiptId = as_receiptId assessment\<rparr>))"

section \<open>Lemmas\<close>

lemma set_REQUIRED: "set REQUIRED_SOLUTION_PATHS = UNIV"
  by (auto simp: REQUIRED_SOLUTION_PATHS_def) (metis SolutionPath.exhaust)

lemma hasNonEmptyValues_iff: "hasNonEmptyValues (Some vs) \<longleftrightarrow> uniqueNonEmpty vs \<noteq> []"
  by (auto simp: hasNonEmptyValues_def list_ex_iff uniqueNonEmpty_def filter_empty_conv)

lemma uniqueNonEmpty_eq_Nil_iff: "uniqueNonEmpty vs = [] \<longleftrightarrow> list_all blank vs"
  by (auto simp: uniqueNonEmpty_def filter_empty_conv list_all_iff blank_def)

subsection \<open>Sets of concatenated sets\<close>

lemma foldl_set_add_js_set: "foldl set_add s (js_set xs) = foldl set_add s xs"
proof (induction xs rule: rev_induct)
  case (snoc x xs)
  have "js_set (xs @ [x]) = set_add (js_set xs) x" by (simp add: js_set_def)
  moreover have "x \<in> set xs \<Longrightarrow> set_add (foldl set_add s xs) x = foldl set_add s xs"
    by (simp add: set_add_def [of _ x] set_foldl_set_add)
  ultimately show ?case
    using snoc by (cases "x \<in> set xs") (simp_all add: set_add_def [of "js_set xs"])
qed simp

lemma foldl_set_add_concat_js_set:
  "foldl set_add s (concat (map (js_set \<circ> f) xs)) = foldl set_add s (concat (map f xs))"
  by (induction xs arbitrary: s) (simp_all add: foldl_set_add_js_set)

text \<open>Normalising the parts first does not change the normalised whole.\<close>

lemma uniqueNonEmpty_concat:
  "uniqueNonEmpty (concat (map (uniqueNonEmpty \<circ> f) xs)) = uniqueNonEmpty (concat (map f xs))"
proof -
  let ?u = "uniqueNonEmpty \<circ> f"
  have norm: "filter (\<lambda>v. v \<noteq> []) (map js_trim (concat (map ?u xs))) = concat (map ?u xs)"
  proof -
    have *: "\<forall>v \<in> set (concat (map ?u xs)). js_trim v = v \<and> v \<noteq> []"
      by (auto simp: set_uniqueNonEmpty)
    then have "map js_trim (concat (map ?u xs)) = concat (map ?u xs)" by (intro map_idI) blast
    moreover have "filter (\<lambda>v. v \<noteq> []) (concat (map ?u xs)) = concat (map ?u xs)"
      using * by (intro filter_True) blast
    ultimately show ?thesis by simp
  qed
  have "concat (map ?u xs) = concat (map (js_set \<circ> (\<lambda>x. filter (\<lambda>v. v \<noteq> []) (map js_trim (f x)))) xs)"
    by (simp add: uniqueNonEmpty_def comp_def)
  then have "uniqueNonEmpty (concat (map ?u xs))
      = foldl set_add [] (concat (map (\<lambda>x. filter (\<lambda>v. v \<noteq> []) (map js_trim (f x))) xs))"
    using foldl_set_add_concat_js_set unfolding uniqueNonEmpty_def norm [unfolded uniqueNonEmpty_def]
    by (metis js_set_def)
  then show ?thesis
    by (simp add: uniqueNonEmpty_def js_set_def map_concat filter_concat comp_def)
qed

subsection \<open>What an assessment establishes\<close>

lemma collect_reviews_InrD:
  assumes "collect_reviews byPath reviews = Inr out" and "distinct (map fst byPath)"
  shows "map fst out = map fst byPath @ map rv_path reviews \<and> distinct (map fst out)
    \<and> (\<forall>r \<in> set reviews. \<not> blank (rv_reasonCode r))"
  using assms
proof (induction byPath reviews rule: collect_reviews.induct)
  case (2 byPath review rest)
  from 2(2) have new: "rv_path review \<notin> fst ` set byPath" and r: "\<not> blank (rv_reasonCode review)"
    and rest: "collect_reviews (AList.update (rv_path review) review byPath) rest = Inr out"
    by (auto split: if_splits)
  have keys: "map fst (AList.update (rv_path review) review byPath) = map fst byPath @ [rv_path review]"
    using new by (simp add: update_keys)
  from 2(2) have "map fst out = map fst (AList.update (rv_path review) review byPath) @ map rv_path rest
      \<and> distinct (map fst out) \<and> (\<forall>r \<in> set rest. \<not> blank (rv_reasonCode r))"
    using new 2(3) by (intro 2(1)) (auto simp: keys split: if_splits)
  with keys r show ?case by (auto simp del: distinct_map distinct_append simp flip: append_assoc)
qed simp

lemma assess_InrD:
  assumes "assessSolutionPathExhaustion reviews = Inr a"
  shows "distinct (map rv_path reviews)
    \<and> (as_complete a \<longleftrightarrow> set (map rv_path reviews) = UNIV)
    \<and> (as_canFinalizeFailure a \<longleftrightarrow>
         as_complete a \<and> (\<forall>r \<in> set reviews. rv_disposition r \<noteq> disp_available))
    \<and> as_partialResultRefs a = uniqueNonEmpty (concat (map partial_refs reviews))"
proof -
  from assms obtain byPath where by_path: "collect_reviews [] reviews = Inr byPath"
    by (auto simp: assessSolutionPathExhaustion_def rbind_Inr_iff)
  have keys: "map fst byPath = map rv_path reviews \<and> distinct (map rv_path reviews)"
    using collect_reviews_InrD [OF by_path] by auto
  have "as_complete a \<longleftrightarrow> (\<forall>p. p \<in> set (map fst byPath))"
    using assms by_path set_REQUIRED
    by (auto simp: assessSolutionPathExhaustion_def Let_def filter_empty_conv simp del: set_map)
  then have "as_complete a \<longleftrightarrow> set (map rv_path reviews) = UNIV" using keys by auto
  with keys assms by_path show ?thesis
    by (auto simp: assessSolutionPathExhaustion_def Let_def list_ex_iff)
qed

lemma check_authorized_InrD:
  assumes "check_authorized_reviews sigs reviews = Inr out" and "distinct sigs"
  shows "(\<forall>r \<in> set reviews. \<not> list_all blank (rv_evidenceRefs r))
    \<and> out = sigs @ map (js_trim \<circ> the \<circ> rv_attemptSignature)
        (filter (\<lambda>r. rv_disposition r = disp_attempted) reviews)
    \<and> distinct out"
  using assms
proof (induction sigs reviews rule: check_authorized_reviews.induct)
  case (2 sigs r rest)
  have ev: "\<not> list_all blank (rv_evidenceRefs r)"
    using 2(3) by (auto simp: hasNonEmptyValues_iff uniqueNonEmpty_eq_Nil_iff split: if_splits)
  show ?case
  proof (cases "rv_disposition r = disp_attempted")
    case True
    let ?s = "js_trim (the (rv_attemptSignature r))"
    from 2(3) True have "?s \<notin> set sigs" "check_authorized_reviews (set_add sigs ?s) rest = Inr out"
      by (auto simp: Let_def split: if_splits)
    moreover from this 2(4) have "distinct (sigs @ [?s])" by simp
    ultimately show ?thesis using 2 True ev
      by (auto simp: Let_def set_add_def split: if_splits simp del: distinct.simps distinct_append distinct_map)
  next
    case False
    with 2 ev show ?thesis
      by (auto split: if_splits simp del: distinct_append distinct_map)
  qed
qed simp

lemma assessAuthorized_InrD:
  assumes "assessAuthorizedSolutionPathExhaustion H receipt p d reviews = Inr a"
  shows "distinct (map rv_path reviews) \<and> set (map rv_path reviews) = UNIV
    \<and> (\<forall>r \<in> set reviews. \<not> list_all blank (rv_evidenceRefs r))
    \<and> distinct (map (js_trim \<circ> the \<circ> rv_attemptSignature)
        (filter (\<lambda>r. rv_disposition r = disp_attempted) reviews))
    \<and> rs_recommended_action d \<in> {partial_report, stop_blocked}
    \<and> (as_nextAction a = next_stop_blocked \<longleftrightarrow> rs_recommended_action d = stop_blocked)
    \<and> (as_canFinalizeFailure a \<longleftrightarrow> rs_recommended_action d = stop_blocked
         \<and> (\<forall>r \<in> set reviews. rv_disposition r \<noteq> disp_available))
    \<and> as_partialResultRefs a = uniqueNonEmpty (concat (map partial_refs reviews))
    \<and> as_reviews a = map normalize_review reviews"
proof -
  from assms obtain sigs and route :: DiagnosisActionRouteDecision
    and base :: SolutionPathExhaustionAssessment where
    route: "authorizeDiagnosisActionRoute H receipt p (ResultDiagnosis d) None = Inr route"
    and kind: "rd_routeKind route = partial_report_route \<or> rd_routeKind route = blocked_route"
    and sigs: "check_authorized_reviews [] reviews = Inr sigs"
    and base: "assessSolutionPathExhaustion reviews = Inr base" "as_complete base"
    and a: "as_canFinalizeFailure a = (as_canFinalizeFailure base \<and> rd_routeKind route = blocked_route)"
      "as_nextAction a = (if rd_routeKind route = blocked_route then next_stop_blocked else next_partial_report)"
      "as_partialResultRefs a = as_partialResultRefs base" "as_reviews a = map normalize_review reviews"
    by (auto simp: assessAuthorizedSolutionPathExhaustion_def rbind_Inr_iff split: if_splits)
  have rk: "rd_routeKind route = ROUTE_BY_ACTION (rs_recommended_action d)"
    by (rule authorize_InrD [OF route]) simp
  then have act: "rs_recommended_action d \<in> {partial_report, stop_blocked}"
    "rd_routeKind route = blocked_route \<longleftrightarrow> rs_recommended_action d = stop_blocked"
    using kind by (cases "rs_recommended_action d"; simp)+
  show ?thesis
    using check_authorized_InrD [OF sigs] assess_InrD [OF base(1)] base(2) act
    by (auto simp: a)
qed

lemma uniqueNonEmpty_Nil [simp]: "uniqueNonEmpty [] = []"
  by (simp add: uniqueNonEmpty_def)

lemma partial_refs_normalized: "partial_refs (normalize_review r) = uniqueNonEmpty (partial_refs r)"
  by (cases "rv_resultRefs r") (simp_all add: partial_refs_def normalize_review_def)

text \<open>The check of the payload builders never fails on an assessment the code itself made.\<close>

lemma assessment_preserved:
  assumes "assessAuthorizedSolutionPathExhaustion H receipt p d reviews = Inr a"
  shows "assertAssessmentPartialResultsPreserved a = Inr ()"
proof -
  note A = assessAuthorized_InrD [OF assms]
  have "uniqueNonEmpty (concat (map partial_refs (as_reviews a)))
      = uniqueNonEmpty (concat (map (uniqueNonEmpty \<circ> partial_refs) reviews))"
    using A by (simp add: comp_def partial_refs_normalized)
  also have "\<dots> = uniqueNonEmpty (as_partialResultRefs a)"
    using A by (simp add: uniqueNonEmpty_concat)
  finally show ?thesis
    by (auto simp: assertAssessmentPartialResultsPreserved_def Let_def list_ex_iff in_set_zip)
qed

section \<open>Sample records of the witnesses\<close>

definition blocked_result :: LlmResultDiagnosisRecord where
  "blocked_result = sample_result\<lparr>rs_sufficiency := insufficient, rs_recommended_action := stop_blocked\<rparr>"

definition blocked_receipt :: LlmDiagnosisReceipt where
  "blocked_receipt = \<lparr>schemaVersion = 1, receiptId = ''r2'', target = result_diagnosis,
     subjectKind = tool_result,
     subjectFingerprint = fingerprint plain_host (subject_namespace result_diagnosis tool_result) sample_payload,
     diagnosisFingerprint = fingerprint plain_host (record_namespace result_diagnosis)
       (diagnosis_json (ResultDiagnosis blocked_result)),
     recommendedAction = stop_blocked\<rparr>"

definition unavailable_review :: "SolutionPath \<Rightarrow> AuthorizedSolutionPathReview" where
  "unavailable_review p = \<lparr>rv_path = p, rv_disposition = disp_reviewed_unavailable, rv_reasonCode = ''no'',
     rv_resultRefs = None, rv_guidance = None, rv_applicable = False, rv_evidenceRefs = [''e''],
     rv_attemptSignature = None\<rparr>"

definition partial_review :: AuthorizedSolutionPathReview where
  "partial_review = \<lparr>rv_path = path_partial_completion, rv_disposition = disp_completed_partial,
     rv_reasonCode = ''half'', rv_resultRefs = Some [''p1'', '' p1 '', ''p2''], rv_guidance = None,
     rv_applicable = True, rv_evidenceRefs = [''e''], rv_attemptSignature = None\<rparr>"

definition sample_reviews :: "AuthorizedSolutionPathReview list" where
  "sample_reviews = map unavailable_review
     [path_direct_answer, path_plan, path_tool, path_sub_agent, path_yeonjang,
      path_ask_clarification, path_workaround_guidance] @ [partial_review]"

definition sample_assessment :: AuthorizedSolutionPathExhaustionAssessment where
  "sample_assessment = \<lparr>as_complete = True, as_canFinalizeFailure = True,
     as_reviewedPaths = REQUIRED_SOLUTION_PATHS, as_missingPaths = [],
     as_partialResultRefs = [''p1'', ''p2''], as_workaroundGuidance = [],
     as_receiptId = ''r2'', as_nextAction = next_stop_blocked,
     as_reviews = map normalize_review sample_reviews\<rparr>"

lemma sample_assessed:
  "assessAuthorizedSolutionPathExhaustion plain_host (Some blocked_receipt) sample_payload blocked_result
     sample_reviews = Inr sample_assessment"
proof -
  have route: "authorizeDiagnosisActionRoute plain_host (Some blocked_receipt) sample_payload
      (ResultDiagnosis blocked_result) None = Inr \<lparr>rd_receiptId = ''r2'', rd_target = result_diagnosis,
        rd_subjectKind = tool_result, rd_recommendedAction = stop_blocked, rd_routeKind = blocked_route\<rparr>"
    by (simp add: authorizeDiagnosisActionRoute_def blocked_receipt_def Let_def blocked_result_def
        sample_result_def)
  have checked: "check_authorized_reviews [] sample_reviews = Inr []"
    by (simp add: sample_reviews_def unavailable_review_def partial_review_def hasNonEmptyValues_def
        blank_def js_trim_def js_ws_def)
  have trims: "js_trim ''p1'' = ''p1''" "js_trim '' p1 '' = ''p1''" "js_trim ''p2'' = ''p2''"
    "\<not> blank ''no''" "\<not> blank ''half''"
    by (simp_all add: blank_def js_trim_def js_ws_def)
  have "collect_reviews [] sample_reviews = Inr (map (\<lambda>r. (rv_path r, r)) sample_reviews)"
    by (simp add: sample_reviews_def unavailable_review_def partial_review_def hasNonEmptyValues_def trims)
  moreover have "concat (map partial_refs sample_reviews) = [''p1'', '' p1 '', ''p2'']"
    "uniqueNonEmpty (concat (map review_guidance sample_reviews)) = []"
    by (simp_all add: sample_reviews_def partial_refs_def review_guidance_def unavailable_review_def
        partial_review_def)
  moreover have "uniqueNonEmpty [''p1'', '' p1 '', ''p2''] = [''p1'', ''p2'']"
    by (simp add: uniqueNonEmpty_def trims js_set_def set_add_def)
  moreover have "filter (\<lambda>p. p \<in> set (map fst (map (\<lambda>r. (rv_path r, r)) sample_reviews))) REQUIRED_SOLUTION_PATHS
      = REQUIRED_SOLUTION_PATHS"
    "filter (\<lambda>p. p \<notin> set (map fst (map (\<lambda>r. (rv_path r, r)) sample_reviews))) REQUIRED_SOLUTION_PATHS = []"
    by (simp_all add: sample_reviews_def REQUIRED_SOLUTION_PATHS_def unavailable_review_def partial_review_def)
  moreover have "\<not> list_ex (\<lambda>r. rv_disposition r = disp_available) sample_reviews"
    by (simp add: sample_reviews_def unavailable_review_def partial_review_def)
  ultimately have "assessSolutionPathExhaustion sample_reviews = Inr \<lparr>as_complete = True,
      as_canFinalizeFailure = True, as_reviewedPaths = REQUIRED_SOLUTION_PATHS, as_missingPaths = [],
      as_partialResultRefs = [''p1'', ''p2''], as_workaroundGuidance = []\<rparr>"
    by (simp add: assessSolutionPathExhaustion_def Let_def del: set_map map_map)
  with route checked show ?thesis
    by (simp add: assessAuthorizedSolutionPathExhaustion_def sample_assessment_def)
qed

section \<open>Properties\<close>

text \<open>A terminal failure is reported exactly when everything was tried: for an authorised
  assessment the payload is built if and only if the diagnosis recommends \<open>stop_blocked\<close>, no
  reviewed path is still available, and a reason, an unresolved scope and a user action are
  given. In particular the code's own consistency check of partial results never rejects.\<close>

theorem terminal_failure_iff_exhausted:
  assumes "assessAuthorizedSolutionPathExhaustion H receipt p d reviews = Inr a"
  shows "(\<exists>payload. buildTerminalFailurePayload a reason scope actions = Inr payload)
    \<longleftrightarrow> rs_recommended_action d = stop_blocked
      \<and> set (map rv_path reviews) = UNIV
      \<and> (\<forall>r \<in> set reviews. rv_disposition r \<noteq> disp_available)
      \<and> \<not> blank reason \<and> \<not> list_all blank scope \<and> \<not> list_all blank actions"
  using assessAuthorized_InrD [OF assms] assessment_preserved [OF assms]
  by (auto simp: buildTerminalFailurePayload_def Let_def uniqueNonEmpty_eq_Nil_iff blank_def [of reason])

theorem terminal_failure_iff_exhausted_witness:
  "\<exists>payload. buildTerminalFailurePayload sample_assessment ''why'' [''scope''] [''act''] = Inr payload"
proof -
  have "rs_recommended_action blocked_result = stop_blocked" by (simp add: blocked_result_def)
  moreover have "set (map rv_path sample_reviews) = UNIV"
    using set_REQUIRED
    by (auto simp: sample_reviews_def unavailable_review_def partial_review_def REQUIRED_SOLUTION_PATHS_def)
  moreover have "\<forall>r \<in> set sample_reviews. rv_disposition r \<noteq> disp_available"
    by (simp add: sample_reviews_def unavailable_review_def partial_review_def)
  moreover have "\<not> blank ''why''" "\<not> list_all blank [''scope'']" "\<not> list_all blank [''act'']"
    by (simp_all add: blank_def js_trim_def js_ws_def)
  ultimately show ?thesis
    unfolding terminal_failure_iff_exhausted [OF sample_assessed] by blast
qed

text \<open>No partial result is lost on the way to the user: the references reported by a terminal
  failure or a partial completion are exactly the trimmed non-empty references of all reviews
  that completed partially, without repetition, and every attempted path was attempted with a
  signature of its own.\<close>

theorem reported_partial_results_complete:
  assumes "assessAuthorizedSolutionPathExhaustion H receipt p d reviews = Inr a"
  shows "(\<forall>payload. buildTerminalFailurePayload a reason scope actions = Inr payload \<longrightarrow>
            distinct (tf_partialResultRefs payload)
          \<and> set (tf_partialResultRefs payload) =
              {js_trim v | r v. r \<in> set reviews \<and> v \<in> set (partial_refs r) \<and> \<not> blank v})
    \<and> (\<forall>payload. buildPartialCompletionPayload a scope actions = Inr payload \<longrightarrow>
            pc_partialResultRefs payload \<noteq> [] \<and> distinct (pc_partialResultRefs payload)
          \<and> set (pc_partialResultRefs payload) =
              {js_trim v | r v. r \<in> set reviews \<and> v \<in> set (partial_refs r) \<and> \<not> blank v})
    \<and> distinct (map (js_trim \<circ> the \<circ> rv_attemptSignature)
        (filter (\<lambda>r. rv_disposition r = disp_attempted) reviews))"
proof -
  have refs: "distinct (as_partialResultRefs a) \<and> set (as_partialResultRefs a) =
      {js_trim v | r v. r \<in> set reviews \<and> v \<in> set (partial_refs r) \<and> \<not> blank v}"
    using assessAuthorized_InrD [OF assms] by (auto simp: set_uniqueNonEmpty)
  moreover have "tf_partialResultRefs payload = as_partialResultRefs a"
    if "buildTerminalFailurePayload a reason scope actions = Inr payload" for payload
    using that by (auto simp: buildTerminalFailurePayload_def Let_def rbind_Inr_iff split: if_splits)
  moreover have "pc_partialResultRefs payload = as_partialResultRefs a \<and> as_partialResultRefs a \<noteq> []"
    if "buildPartialCompletionPayload a scope actions = Inr payload" for payload
    using that by (auto simp: buildPartialCompletionPayload_def Let_def rbind_Inr_iff split: if_splits)
  moreover note assessAuthorized_InrD [OF assms]
  ultimately show ?thesis by simp
qed

lemma sample_failure_reported:
  "\<exists>payload. buildTerminalFailurePayload sample_assessment ''why'' [''scope''] [''act''] = Inr payload"
proof -
  have "case buildTerminalFailurePayload sample_assessment ''why'' [''scope''] [''act''] of Inr _ \<Rightarrow> True | Inl _ \<Rightarrow> False"
    by code_simp
  then show ?thesis by (auto split: sum.splits)
qed

theorem reported_partial_results_complete_witness:
  "\<exists>payload. buildTerminalFailurePayload sample_assessment ''why'' [''scope''] [''act''] = Inr payload
     \<and> distinct (tf_partialResultRefs payload)"
  using reported_partial_results_complete [OF sample_assessed] sample_failure_reported by blast

end
