(* ===== verification/Gateway_Startup.thy ===== *)
theory Gateway_Startup
  imports Machines
begin

text \<open>
  \<open>contracts/gateway-startup-state.ts\<close>: the start of the gateway process as a state machine on
  immutable snapshots, and the projection of a snapshot and the state of the process to what a
  caller observes.
\<close>

section \<open>States, events and snapshots\<close>

datatype GatewayStartupState =
    GW_created | GW_loading_runtime | GW_initializing_core | GW_activating_channels
  | GW_binding_http | GW_loading_plugins | GW_ready | GW_failed | GW_cancelled

datatype ProgressGatewayStartupEvent =
    load_runtime | runtime_loaded | core_initialized | channels_activated | http_bound | plugins_loaded

datatype GatewayStartupEvent =
    Progress ProgressGatewayStartupEvent (event_time: number)
  | Fail (event_time: number) (event_reason: string)
  | Cancel (event_time: number) (event_reason: string)

record GatewayStartupSnapshot =
  gw_startupId :: string
  gw_pid :: number
  gw_state :: GatewayStartupState
  gw_startedAt :: number
  gw_changedAt :: number
  gw_reasonCode :: "string option"

datatype CreateRejection = startup_id_required | pid_invalid | create_timestamp_invalid

datatype GatewayStartupTransitionRejectionReason =
    gw_transition_not_allowed | gw_terminal_state_exit_forbidden | gw_timestamp_invalid
  | gw_reason_code_required

fun NEXT_STATE_BY_EVENT :: "GatewayStartupState \<Rightarrow> ProgressGatewayStartupEvent \<rightharpoonup> GatewayStartupState" where
  "NEXT_STATE_BY_EVENT GW_created = map_of [(load_runtime, GW_loading_runtime)]"
| "NEXT_STATE_BY_EVENT GW_loading_runtime = map_of [(runtime_loaded, GW_initializing_core)]"
| "NEXT_STATE_BY_EVENT GW_initializing_core = map_of [(core_initialized, GW_activating_channels)]"
| "NEXT_STATE_BY_EVENT GW_activating_channels = map_of [(channels_activated, GW_binding_http)]"
| "NEXT_STATE_BY_EVENT GW_binding_http = map_of [(http_bound, GW_loading_plugins)]"
| "NEXT_STATE_BY_EVENT GW_loading_plugins = map_of [(plugins_loaded, GW_ready)]"
| "NEXT_STATE_BY_EVENT GW_ready = Map.empty"
| "NEXT_STATE_BY_EVENT GW_failed = Map.empty"
| "NEXT_STATE_BY_EVENT GW_cancelled = Map.empty"

definition GW_TERMINAL_STATES :: "GatewayStartupState list" where
  "GW_TERMINAL_STATES = [GW_ready, GW_failed, GW_cancelled]"

section \<open>Operations\<close>

definition elapsed :: "GatewayStartupSnapshot \<Rightarrow> number \<Rightarrow> number" where
  "elapsed snapshot observedAt = num_max (Num 0) (num_minus observedAt (gw_startedAt snapshot))"

definition createGatewayStartup ::
  "string \<Rightarrow> number \<Rightarrow> number \<Rightarrow> CreateRejection + GatewayStartupSnapshot" where
  "createGatewayStartup startupId pid startedAt =
     (if blank startupId then Inl startup_id_required
      else if \<not> is_safe_integer pid \<or> num_le pid (Num 0) then Inl pid_invalid
      else if \<not> is_finite_number startedAt \<or> num_lt startedAt (Num 0) then Inl create_timestamp_invalid
      else Inr \<lparr>gw_startupId = startupId, gw_pid = pid, gw_state = GW_created,
             gw_startedAt = startedAt, gw_changedAt = startedAt, gw_reasonCode = None\<rparr>)"

definition transitionGatewayStartup ::
  "GatewayStartupSnapshot \<Rightarrow> GatewayStartupEvent
     \<Rightarrow> GatewayStartupTransitionRejectionReason + GatewayStartupSnapshot" where
  "transitionGatewayStartup snapshot event =
     (if \<not> is_finite_number (event_time event) \<or> num_lt (event_time event) (gw_changedAt snapshot)
      then Inl gw_timestamp_invalid
      else if gw_state snapshot \<in> set GW_TERMINAL_STATES
      then Inl gw_terminal_state_exit_forbidden
      else case event of
        Fail t reason \<Rightarrow>
          if blank reason then Inl gw_reason_code_required
          else Inr (snapshot\<lparr>gw_state := GW_failed, gw_changedAt := t, gw_reasonCode := Some reason\<rparr>)
      | Cancel t reason \<Rightarrow>
          if blank reason then Inl gw_reason_code_required
          else Inr (snapshot\<lparr>gw_state := GW_cancelled, gw_changedAt := t, gw_reasonCode := Some reason\<rparr>)
      | Progress e t \<Rightarrow>
          (case NEXT_STATE_BY_EVENT (gw_state snapshot) e of
             None \<Rightarrow> Inl gw_transition_not_allowed
           | Some nextState \<Rightarrow>
               Inr (snapshot\<lparr>gw_state := nextState, gw_changedAt := t, gw_reasonCode := None\<rparr>)))"

datatype ProcessState = proc_running | proc_exited

datatype StartupPerformance = within_budget | budget_exceeded

datatype GatewayStartupObservation =
    Obs_still_starting number StartupPerformance
  | Obs_ready number
  | Obs_failed number string
  | Obs_cancelled number string

definition observeGatewayStartup ::
  "GatewayStartupSnapshot \<Rightarrow> ProcessState \<Rightarrow> number \<Rightarrow> number \<Rightarrow> GatewayStartupObservation" where
  "observeGatewayStartup snapshot processState observedAt performanceBudgetMs =
     (let elapsedMs = elapsed snapshot observedAt in
      if gw_state snapshot = GW_failed
      then Obs_failed elapsedMs (case gw_reasonCode snapshot of None \<Rightarrow> ''startup_failed'' | Some r \<Rightarrow> r)
      else if gw_state snapshot = GW_cancelled
      then Obs_cancelled elapsedMs (case gw_reasonCode snapshot of None \<Rightarrow> ''startup_cancelled'' | Some r \<Rightarrow> r)
      else if processState = proc_exited then Obs_failed elapsedMs ''process_exited''
      else if gw_state snapshot = GW_ready then Obs_ready elapsedMs
      else Obs_still_starting elapsedMs
        (if num_lt performanceBudgetMs elapsedMs then budget_exceeded else within_budget))"

section \<open>The machine\<close>

definition gateway_step :: "GatewayStartupSnapshot \<Rightarrow> GatewayStartupEvent \<Rightarrow> GatewayStartupSnapshot option" where
  "gateway_step s e = (case transitionGatewayStartup s e of Inl _ \<Rightarrow> None | Inr t \<Rightarrow> Some t)"

fun progress_kind :: "GatewayStartupEvent \<Rightarrow> ProgressGatewayStartupEvent option" where
  "progress_kind (Progress e _) = Some e"
| "progress_kind _ = None"

fun gateway_rank :: "GatewayStartupState \<Rightarrow> nat" where
  "gateway_rank GW_created = 6"
| "gateway_rank GW_loading_runtime = 5"
| "gateway_rank GW_initializing_core = 4"
| "gateway_rank GW_activating_channels = 3"
| "gateway_rank GW_binding_http = 2"
| "gateway_rank GW_loading_plugins = 1"
| "gateway_rank _ = 0"

fun gateway_level :: "GatewayStartupState \<Rightarrow> nat" where
  "gateway_level GW_failed = 0"
| "gateway_level GW_cancelled = 0"
| "gateway_level s = 6 - gateway_rank s"

definition startup_phases :: "ProgressGatewayStartupEvent list" where
  "startup_phases = [load_runtime, runtime_loaded, core_initialized, channels_activated, http_bound, plugins_loaded]"

definition gateway_terminal :: "GatewayStartupSnapshot \<Rightarrow> bool" where
  "gateway_terminal s \<longleftrightarrow> gw_state s \<in> set GW_TERMINAL_STATES"

text \<open>What holds of every snapshot that \<open>createGatewayStartup\<close> and the transitions make.\<close>

definition snapshot_ok :: "string \<Rightarrow> number \<Rightarrow> number \<Rightarrow> GatewayStartupSnapshot \<Rightarrow> bool" where
  "snapshot_ok sid pid start s \<longleftrightarrow>
     gw_startupId s = sid \<and> gw_pid s = pid \<and> gw_startedAt s = start
     \<and> is_finite_number (gw_changedAt s) \<and> num_le start (gw_changedAt s)
     \<and> (case gw_reasonCode s of
          None \<Rightarrow> gw_state s \<notin> {GW_failed, GW_cancelled}
        | Some r \<Rightarrow> gw_state s \<in> {GW_failed, GW_cancelled} \<and> \<not> blank r)"

lemma gateway_step_cases:
  assumes "gateway_step s e = Some t"
  shows "is_finite_number (event_time e) \<and> \<not> num_lt (event_time e) (gw_changedAt s)
    \<and> gw_state s \<notin> set GW_TERMINAL_STATES
    \<and> (case e of
         Progress k x \<Rightarrow> (\<exists>n. NEXT_STATE_BY_EVENT (gw_state s) k = Some n
           \<and> t = s\<lparr>gw_state := n, gw_changedAt := x, gw_reasonCode := None\<rparr>)
       | Fail x r \<Rightarrow> \<not> blank r \<and> t = s\<lparr>gw_state := GW_failed, gw_changedAt := x, gw_reasonCode := Some r\<rparr>
       | Cancel x r \<Rightarrow> \<not> blank r \<and> t = s\<lparr>gw_state := GW_cancelled, gw_changedAt := x, gw_reasonCode := Some r\<rparr>)"
  using assms
  by (cases e) (auto simp: gateway_step_def transitionGatewayStartup_def split: if_splits option.splits sum.splits)

lemma next_state_not_failed: "NEXT_STATE_BY_EVENT s k = Some n \<Longrightarrow> n \<notin> {GW_failed, GW_cancelled}"
  by (cases s) (auto split: if_splits)

lemma next_state_rank: "NEXT_STATE_BY_EVENT s k = Some n \<Longrightarrow>
    gateway_rank s = Suc (gateway_rank n) \<and> k = startup_phases ! gateway_level s
    \<and> gateway_level n = Suc (gateway_level s) \<and> gateway_level s < 6"
  by (cases s) (auto simp: startup_phases_def split: if_splits)

lemma snapshot_ok_step: "snapshot_ok i p st s \<Longrightarrow> gateway_step s e = Some t \<Longrightarrow> snapshot_ok i p st t"
proof -
  assume ok: "snapshot_ok i p st s" and step: "gateway_step s e = Some t"
  note st = gateway_step_cases [OF step]
  then obtain x c where "event_time e = Num x" "gw_changedAt s = Num c"
    using ok by (auto simp: snapshot_ok_def elim!: is_finite_numberE)
  with st ok have "num_le st (event_time e)"
    by (auto simp: snapshot_ok_def intro: num_le_trans)
  with st ok next_state_not_failed show ?thesis
    by (cases e) (auto simp: snapshot_ok_def split: option.splits)
qed

interpretation gateway: final_state_machine gateway_step gateway_terminal
  by unfold_locales
    (simp add: gateway_terminal_def gateway_step_def transitionGatewayStartup_def)

interpretation gateway_progress: ranked_machine gateway_step gateway_terminal "gateway_rank \<circ> gw_state"
proof unfold_locales
  show "(gateway_rank \<circ> gw_state) t < (gateway_rank \<circ> gw_state) s" if "gateway_step s e = Some t" for s e t
  proof -
    note st = gateway_step_cases [OF that]
    then have "gateway_rank (gw_state s) > 0"
      by (cases "gw_state s") (auto simp: GW_TERMINAL_STATES_def)
    with st next_state_rank show ?thesis by (cases e) fastforce+
  qed
qed

interpretation gateway_inv: invariant_machine gateway_step "snapshot_ok i p st" for i p st
  by unfold_locales (rule snapshot_ok_step)

lemma gateway_level_step:
  assumes "gateway_step s e = Some t"
  shows "gateway_level (gw_state t) \<le> gateway_level (gw_state s)
    \<or> gateway_level (gw_state s) < length (map Some startup_phases)
      \<and> gateway_level (gw_state t) = Suc (gateway_level (gw_state s))
      \<and> progress_kind e = map Some startup_phases ! gateway_level (gw_state s)"
proof (cases e)
  case (Progress k x)
  with gateway_step_cases [OF assms] obtain n where
    n: "NEXT_STATE_BY_EVENT (gw_state s) k = Some n" "gw_state t = n" by auto
  have "length startup_phases = 6" by (simp add: startup_phases_def)
  with next_state_rank [OF n(1)] show ?thesis by (simp add: Progress n(2))
qed (use gateway_step_cases [OF assms] in auto)

definition fresh_snapshot :: "string \<Rightarrow> number \<Rightarrow> number \<Rightarrow> GatewayStartupSnapshot" where
  "fresh_snapshot sid pid start = \<lparr>gw_startupId = sid, gw_pid = pid, gw_state = GW_created,
     gw_startedAt = start, gw_changedAt = start, gw_reasonCode = None\<rparr>"

interpretation gateway_path: milestone_machine gateway_step "fresh_snapshot i p t" progress_kind
  "gateway_level \<circ> gw_state" "map Some startup_phases" for i p t
  by unfold_locales (simp_all add: fresh_snapshot_def gateway_level_step del: length_map)

lemma createGatewayStartup_InrD:
  assumes "createGatewayStartup sid pid start = Inr s"
  shows "s = fresh_snapshot sid pid start \<and> snapshot_ok sid pid start s"
  using assms
  by (auto simp: createGatewayStartup_def fresh_snapshot_def snapshot_ok_def elim!: is_finite_numberE
      split: if_splits)

section \<open>Properties\<close>

text \<open>C27. The gateway becomes ready through all of its phases and nothing else: the accepted events
  of a run from a created start to \<open>ready\<close> are exactly the six phases, each once and in order.\<close>

theorem gateway_ready_exact_phases:
  assumes "createGatewayStartup sid pid start = Inr s"
    and "run_steps gateway_step s es = Some t" and "gw_state t = GW_ready"
  shows "map progress_kind es = map Some
    [load_runtime, runtime_loaded, core_initialized, channels_activated, http_bound, plugins_loaded]"
proof -
  have s: "s = fresh_snapshot sid pid start" using createGatewayStartup_InrD [OF assms(1)] by blast
  have "subseq (map Some startup_phases) (map progress_kind es)"
    using gateway_path.run_all_milestones [OF assms(2) [unfolded s]] assms(3)
    by (simp add: startup_phases_def)
  moreover have "length es \<le> length startup_phases"
    using gateway_progress.run_length_bound [OF assms(2)]
    by (simp add: s fresh_snapshot_def startup_phases_def)
  ultimately have "map progress_kind es = map Some startup_phases"
    by (metis length_map list_emb_length le_antisym subseq_same_length)
  then show ?thesis by (simp add: startup_phases_def)
qed

theorem gateway_ready_exact_phases_witness:
  "map progress_kind [Progress load_runtime (Num 1), Progress runtime_loaded (Num 1),
      Progress core_initialized (Num 2), Progress channels_activated (Num 3),
      Progress http_bound (Num 4), Progress plugins_loaded (Num 5)] = map Some
    [load_runtime, runtime_loaded, core_initialized, channels_activated, http_bound, plugins_loaded]"
proof (rule gateway_ready_exact_phases)
  show "createGatewayStartup ''g'' (Num 7) (Num 0) = Inr (fresh_snapshot ''g'' (Num 7) (Num 0))"
    by (simp add: createGatewayStartup_def fresh_snapshot_def is_safe_integer_def max_safe_integer_def
        blank_def js_trim_def js_ws_def)
  show "run_steps gateway_step (fresh_snapshot ''g'' (Num 7) (Num 0))
      [Progress load_runtime (Num 1), Progress runtime_loaded (Num 1),
      Progress core_initialized (Num 2), Progress channels_activated (Num 3),
      Progress http_bound (Num 4), Progress plugins_loaded (Num 5)] =
    Some ((fresh_snapshot ''g'' (Num 7) (Num 0))\<lparr>gw_state := GW_ready, gw_changedAt := Num 5\<rparr>)"
    by (simp add: gateway_step_def transitionGatewayStartup_def fresh_snapshot_def GW_TERMINAL_STATES_def)
qed simp

text \<open>Along every accepted run the identity of the start is kept, time does not run backwards,
  a failed or cancelled start has the non-blank reason it was given, no other state has one, and
  the observation reports that reason: the default reasons are never shown.\<close>

theorem gateway_observation_truthful:
  assumes "createGatewayStartup sid pid start = Inr s" and "run_steps gateway_step s es = Some t"
  shows "gw_startupId t = sid \<and> gw_pid t = pid \<and> gw_startedAt t = start
    \<and> num_le start (gw_changedAt t)
    \<and> (gw_state t \<in> {GW_failed, GW_cancelled} \<longleftrightarrow> (\<exists>r. gw_reasonCode t = Some r \<and> \<not> blank r))
    \<and> (gw_state t = GW_failed \<longrightarrow>
         observeGatewayStartup t proc now budget = Obs_failed (elapsed t now) (the (gw_reasonCode t)))
    \<and> (gw_state t = GW_cancelled \<longrightarrow>
         observeGatewayStartup t proc now budget = Obs_cancelled (elapsed t now) (the (gw_reasonCode t)))
    \<and> (observeGatewayStartup t proc now budget = Obs_ready (elapsed t now)
         \<longleftrightarrow> gw_state t = GW_ready \<and> proc = proc_running)"
proof -
  have "snapshot_ok sid pid start t"
    using gateway_inv.run_inv [OF _ assms(2)] createGatewayStartup_InrD [OF assms(1)] by blast
  then show ?thesis
    by (cases "gw_reasonCode t"; cases proc)
      (auto simp: snapshot_ok_def observeGatewayStartup_def Let_def)
qed

theorem gateway_observation_truthful_witness:
  "observeGatewayStartup ((fresh_snapshot ''g'' (Num 7) (Num 0))\<lparr>gw_state := GW_failed, gw_changedAt := Num 5,
       gw_reasonCode := Some ''boom''\<rparr>) proc_running (Num 9) (Num 1) = Obs_failed (Num 9) ''boom''"
proof -
  have "createGatewayStartup ''g'' (Num 7) (Num 0) = Inr (fresh_snapshot ''g'' (Num 7) (Num 0))"
    by (simp add: createGatewayStartup_def fresh_snapshot_def is_safe_integer_def max_safe_integer_def
        blank_def js_trim_def js_ws_def)
  moreover have "run_steps gateway_step (fresh_snapshot ''g'' (Num 7) (Num 0)) [Fail (Num 5) ''boom''] =
      Some ((fresh_snapshot ''g'' (Num 7) (Num 0))\<lparr>gw_state := GW_failed, gw_changedAt := Num 5,
        gw_reasonCode := Some ''boom''\<rparr>)"
    by (simp add: gateway_step_def transitionGatewayStartup_def fresh_snapshot_def GW_TERMINAL_STATES_def
        blank_def js_trim_def js_ws_def)
  ultimately show ?thesis
    using gateway_observation_truthful [of "''g''" "Num 7" "Num 0" _ "[Fail (Num 5) ''boom'']" _ proc_running "Num 9" "Num 1"]
    by (fastforce simp: elapsed_def fresh_snapshot_def)
qed

end
