(* ===== verification/Recursive_Improvement.thy ===== *)
theory Recursive_Improvement
  imports Machines
begin

text \<open>
  \<open>contracts/recursive-improvement-state-machine.ts\<close>: the authorisation of every transition of a
  self-improvement run (a change of the program's own prompts and sources), with the evidence
  each transition must carry.
\<close>

section \<open>States, events and evidence\<close>

datatype RecursiveImprovementState =
    RI_idle | RI_intake | RI_source_discovery | RI_baseline_capture | RI_proposal_drafting
  | RI_harness_meta_review | RI_invariant_review | RI_diff_generation | RI_approval_wait
  | RI_apply_change | RI_test_execution | RI_activation_pending | RI_activated | RI_reporting
  | RI_completed | RI_blocked | RI_rolled_back

datatype RecursiveImprovementEvent =
    start_requested | inputs_validated | source_found | source_missing | baseline_recorded
  | proposal_ready | harness_change_requested | harness_guardrails_passed | harness_guardrails_failed
  | invariant_passed | invariant_failed | diff_ready | approval_granted | approval_denied
  | change_applied | tests_passed | tests_failed | activation_confirmed | rollback_requested
  | rollback_completed | max_retry_reached | cancel_requested

definition CANONICAL_RECURSIVE_IMPROVEMENT_STATES :: "RecursiveImprovementState list" where
  "CANONICAL_RECURSIVE_IMPROVEMENT_STATES =
     [RI_idle, RI_intake, RI_source_discovery, RI_baseline_capture, RI_proposal_drafting,
      RI_harness_meta_review, RI_invariant_review, RI_diff_generation, RI_approval_wait,
      RI_apply_change, RI_test_execution, RI_activation_pending, RI_activated, RI_reporting,
      RI_completed, RI_blocked, RI_rolled_back]"

definition CANONICAL_RECURSIVE_IMPROVEMENT_EVENTS :: "RecursiveImprovementEvent list" where
  "CANONICAL_RECURSIVE_IMPROVEMENT_EVENTS =
     [start_requested, inputs_validated, source_found, source_missing, baseline_recorded,
      proposal_ready, harness_change_requested, harness_guardrails_passed, harness_guardrails_failed,
      invariant_passed, invariant_failed, diff_ready, approval_granted, approval_denied,
      change_applied, tests_passed, tests_failed, activation_confirmed, rollback_requested,
      rollback_completed, max_retry_reached, cancel_requested]"

datatype RecursiveImprovementBlockedReason =
    required_input_missing | source_missing_reason | approval_missing | test_evidence_missing
  | invariant_evidence_missing | required_evidence_missing | user_limit_reached
  | safety_boundary_reached | safe_changed_strategies_exhausted | user_cancelled

text \<open>A rule is a triple of \<open>from\<close>, \<open>event\<close> (\<open>null\<close> is \<open>None\<close>) and \<open>to\<close>.\<close>

type_synonym RecursiveImprovementTransitionRule =
  "RecursiveImprovementState \<times> RecursiveImprovementEvent option \<times> RecursiveImprovementState"

definition CANONICAL_RECURSIVE_IMPROVEMENT_TRANSITIONS :: "RecursiveImprovementTransitionRule list" where
  "CANONICAL_RECURSIVE_IMPROVEMENT_TRANSITIONS =
     [(RI_idle, Some start_requested, RI_intake),
      (RI_intake, Some inputs_validated, RI_source_discovery),
      (RI_intake, Some cancel_requested, RI_blocked),
      (RI_source_discovery, Some source_found, RI_baseline_capture),
      (RI_source_discovery, Some source_missing, RI_blocked),
      (RI_baseline_capture, Some baseline_recorded, RI_proposal_drafting),
      (RI_proposal_drafting, Some proposal_ready, RI_invariant_review),
      (RI_proposal_drafting, Some harness_change_requested, RI_harness_meta_review),
      (RI_harness_meta_review, Some harness_guardrails_passed, RI_invariant_review),
      (RI_harness_meta_review, Some harness_guardrails_failed, RI_blocked),
      (RI_invariant_review, Some invariant_passed, RI_diff_generation),
      (RI_invariant_review, Some invariant_failed, RI_blocked),
      (RI_diff_generation, Some diff_ready, RI_approval_wait),
      (RI_approval_wait, Some approval_granted, RI_apply_change),
      (RI_approval_wait, Some approval_denied, RI_blocked),
      (RI_apply_change, Some change_applied, RI_test_execution),
      (RI_test_execution, Some tests_passed, RI_activation_pending),
      (RI_test_execution, Some tests_failed, RI_proposal_drafting),
      (RI_apply_change, Some rollback_completed, RI_rolled_back),
      (RI_test_execution, Some rollback_completed, RI_rolled_back),
      (RI_activation_pending, Some rollback_completed, RI_rolled_back),
      (RI_activated, Some rollback_completed, RI_rolled_back),
      (RI_activation_pending, Some activation_confirmed, RI_activated),
      (RI_activated, None, RI_reporting),
      (RI_reporting, None, RI_completed)]"

record ScopedEvidence =
  ev_proposalFingerprint :: string
  ev_sourceSetFingerprint :: string

record RecursiveImprovementBlockedEvidence = ScopedEvidence +
  be_reason :: RecursiveImprovementBlockedReason
  be_evidenceRef :: string

datatype ChangedAxis = axis_target | axis_input | axis_tool | axis_work_split | axis_execution_order
  | axis_verification_method

record RecursiveImprovementRetryEvidence = ScopedEvidence +
  re_changedAxes :: "ChangedAxis list"
  re_evidenceRef :: string

record RecursiveImprovementRollbackEvidence = ScopedEvidence +
  rb_restoredSourceRefs :: "string list"
  rb_baselineRestored :: bool
  rb_verificationRef :: string

datatype ActivationState = state_activated | state_activation_pending

record RecursiveImprovementCompletionEvidence = ScopedEvidence +
  ce_changedSourceRefs :: "string list"
  ce_sourceWriteVerified :: bool
  ce_validationEvidenceRefs :: "string list"
  ce_activationState :: ActivationState
  ce_activationEvidenceRef :: string
  ce_rollbackPath :: string
  ce_finalReportRef :: string

datatype SourceWriteState = src_unchanged | src_written

record RecursiveImprovementTransitionInput = ScopedEvidence +
  ri_currentState :: RecursiveImprovementState
  ri_event :: "RecursiveImprovementEvent option"
  ri_requestedNextState :: RecursiveImprovementState
  ri_sourceWriteState :: SourceWriteState
  ri_sourceRefs :: "string list"
  ri_blockedEvidence :: "RecursiveImprovementBlockedEvidence option"
  ri_retryEvidence :: "RecursiveImprovementRetryEvidence option"
  ri_rollbackEvidence :: "RecursiveImprovementRollbackEvidence option"
  ri_completionEvidence :: "RecursiveImprovementCompletionEvidence option"

datatype RecursiveImprovementTransitionReasonCode =
    state_invalid | event_invalid | terminal_state_exit_forbidden | transition_not_allowed
  | source_write_evidence_invalid | blocked_evidence_missing | blocked_evidence_scope_mismatch
  | retry_evidence_missing | retry_evidence_invalid | rollback_source_not_written
  | rollback_evidence_invalid | completion_evidence_missing | completion_evidence_invalid

datatype RollbackReason = rollback_was_requested | cancel_after_write | terminal_stop_after_write

datatype TerminalFacts =
    BlockedFacts RecursiveImprovementBlockedReason string
  | RollbackFacts "string list" string
  | CompletionFacts "string list" ActivationState string string

datatype RecursiveImprovementTransitionDecision =
    Authorized RecursiveImprovementState "RecursiveImprovementEvent option" RecursiveImprovementState
      bool "TerminalFacts option"
  | RollbackRequired RollbackReason "string list"
  | Refused RecursiveImprovementTransitionReasonCode

section \<open>Authorisation\<close>

definition RI_TERMINAL_STATES :: "RecursiveImprovementState list" where
  "RI_TERMINAL_STATES = [RI_completed, RI_blocked, RI_rolled_back]"

definition ROLLBACK_CAPABLE_STATES :: "RecursiveImprovementState list" where
  "ROLLBACK_CAPABLE_STATES = [RI_apply_change, RI_test_execution, RI_activation_pending, RI_activated]"

definition exactSet :: "string list \<Rightarrow> string list \<Rightarrow> bool" where
  "exactSet left right =
     (let a = filter (\<lambda>v. v \<noteq> []) (map js_trim left);
          b = filter (\<lambda>v. v \<noteq> []) (map js_trim right)
      in length a = length left \<and> length b = length right \<and> length a > 0
         \<and> length (js_set a) = length a \<and> length (js_set b) = length b
         \<and> length a = length b \<and> list_all (\<lambda>v. v \<in> set b) a)"

definition exactScope :: "'a ScopedEvidence_scheme \<Rightarrow> string \<Rightarrow> string \<Rightarrow> bool" where
  "exactScope value proposal sourceSet \<longleftrightarrow>
     ev_proposalFingerprint value = proposal \<and> ev_sourceSetFingerprint value = sourceSet"

definition authorized ::
  "RecursiveImprovementTransitionInput \<Rightarrow> TerminalFacts option \<Rightarrow> RecursiveImprovementTransitionDecision" where
  "authorized input facts = Authorized (ri_currentState input) (ri_event input)
     (ri_requestedNextState input) (ri_requestedNextState input \<in> set RI_TERMINAL_STATES) facts"

definition blocked_facts :: "RecursiveImprovementBlockedEvidence \<Rightarrow> TerminalFacts" where
  "blocked_facts evidence = BlockedFacts (be_reason evidence) (be_evidenceRef evidence)"

definition authorizeBlocked ::
  "RecursiveImprovementTransitionInput \<Rightarrow> string \<Rightarrow> string \<Rightarrow> RecursiveImprovementTransitionDecision" where
  "authorizeBlocked input proposal sourceSet =
     (if ri_sourceWriteState input = src_written then Refused transition_not_allowed
      else case ri_blockedEvidence input of
        None \<Rightarrow> Refused blocked_evidence_missing
      | Some evidence \<Rightarrow>
          if \<not> exactScope evidence proposal sourceSet \<or> blank (be_evidenceRef evidence)
          then Refused blocked_evidence_scope_mismatch
          else authorized input (Some (blocked_facts evidence)))"

definition valid_retry :: "RecursiveImprovementRetryEvidence \<Rightarrow> string \<Rightarrow> string \<Rightarrow> bool" where
  "valid_retry retry proposal sourceSet \<longleftrightarrow>
     \<not> (\<not> exactScope retry proposal sourceSet \<or> blank (re_evidenceRef retry)
        \<or> re_changedAxes retry = []
        \<or> length (js_set (re_changedAxes retry)) \<noteq> length (re_changedAxes retry))"

definition valid_rollback ::
  "RecursiveImprovementRollbackEvidence \<Rightarrow> string \<Rightarrow> string \<Rightarrow> string list \<Rightarrow> bool" where
  "valid_rollback rollback proposal sourceSet sourceRefs \<longleftrightarrow>
     exactScope rollback proposal sourceSet \<and> rb_baselineRestored rollback
     \<and> \<not> blank (rb_verificationRef rollback) \<and> exactSet (rb_restoredSourceRefs rollback) sourceRefs"

definition valid_completion ::
  "RecursiveImprovementCompletionEvidence \<Rightarrow> string \<Rightarrow> string \<Rightarrow> string list \<Rightarrow> bool" where
  "valid_completion completion proposal sourceSet sourceRefs \<longleftrightarrow>
     exactScope completion proposal sourceSet \<and> ce_sourceWriteVerified completion
     \<and> exactSet (ce_changedSourceRefs completion) sourceRefs
     \<and> ce_validationEvidenceRefs completion \<noteq> []
     \<and> \<not> list_ex blank (ce_validationEvidenceRefs completion)
     \<and> \<not> blank (ce_activationEvidenceRef completion)
     \<and> \<not> blank (ce_rollbackPath completion) \<and> \<not> blank (ce_finalReportRef completion)"

text \<open>The part of the function after the table lookup, in the order of the source.\<close>

definition authorize_rule ::
  "RecursiveImprovementTransitionInput \<Rightarrow> string \<Rightarrow> string \<Rightarrow> RecursiveImprovementTransitionDecision" where
  "authorize_rule input proposal sourceSet =
     (let sourceRefs = ri_sourceRefs input in
      if (ri_currentState input, ri_event input, ri_requestedNextState input)
           \<notin> set CANONICAL_RECURSIVE_IMPROVEMENT_TRANSITIONS
      then Refused transition_not_allowed
      else if ri_requestedNextState input = RI_blocked then authorizeBlocked input proposal sourceSet
      else if ri_event input = Some tests_failed \<and> ri_retryEvidence input = None
      then Refused retry_evidence_missing
      else if ri_event input = Some tests_failed
           \<and> \<not> valid_retry (the (ri_retryEvidence input)) proposal sourceSet
      then Refused retry_evidence_invalid
      else if ri_requestedNextState input = RI_rolled_back
      then (case ri_rollbackEvidence input of
              None \<Rightarrow> Refused rollback_evidence_invalid
            | Some rollback \<Rightarrow>
                if ri_sourceWriteState input \<noteq> src_written
                   \<or> \<not> valid_rollback rollback proposal sourceSet sourceRefs
                then Refused rollback_evidence_invalid
                else authorized input
                  (Some (RollbackFacts (rb_restoredSourceRefs rollback) (rb_verificationRef rollback))))
      else if ri_requestedNextState input = RI_completed
      then (case ri_completionEvidence input of
              None \<Rightarrow> Refused completion_evidence_missing
            | Some completion \<Rightarrow>
                if ri_sourceWriteState input \<noteq> src_written
                   \<or> \<not> valid_completion completion proposal sourceSet sourceRefs
                then Refused completion_evidence_invalid
                else authorized input
                  (Some (CompletionFacts (ce_changedSourceRefs completion) (ce_activationState completion)
                    (ce_rollbackPath completion) (ce_finalReportRef completion))))
      else authorized input None)"

definition authorizeRecursiveImprovementTransition ::
  "RecursiveImprovementTransitionInput \<Rightarrow> RecursiveImprovementTransitionDecision" where
  "authorizeRecursiveImprovementTransition input =
     (let proposal = js_trim (ev_proposalFingerprint input);
          sourceSet = js_trim (ev_sourceSetFingerprint input);
          sourceRefs = ri_sourceRefs input in
      if ri_currentState input \<notin> set CANONICAL_RECURSIVE_IMPROVEMENT_STATES
         \<or> ri_requestedNextState input \<notin> set CANONICAL_RECURSIVE_IMPROVEMENT_STATES
         \<or> proposal = [] \<or> sourceSet = []
      then Refused state_invalid
      else if ri_event input \<noteq> None
         \<and> the (ri_event input) \<notin> set CANONICAL_RECURSIVE_IMPROVEMENT_EVENTS
      then Refused event_invalid
      else if ri_currentState input \<in> set RI_TERMINAL_STATES then Refused terminal_state_exit_forbidden
      else if sourceRefs = [] \<or> length (js_set (map js_trim sourceRefs)) \<noteq> length sourceRefs
         \<or> list_ex blank sourceRefs
      then Refused source_write_evidence_invalid
      else if ri_event input = Some rollback_requested
      then (if ri_sourceWriteState input \<noteq> src_written then Refused rollback_source_not_written
            else if ri_currentState input \<notin> set ROLLBACK_CAPABLE_STATES then Refused transition_not_allowed
            else RollbackRequired rollback_was_requested sourceRefs)
      else if ri_event input = Some cancel_requested
      then (if ri_sourceWriteState input = src_written
            then (if ri_currentState input \<in> set ROLLBACK_CAPABLE_STATES
                  then RollbackRequired cancel_after_write sourceRefs
                  else Refused transition_not_allowed)
            else if ri_requestedNextState input \<noteq> RI_blocked then Refused transition_not_allowed
            else authorizeBlocked input proposal sourceSet)
      else if ri_event input = Some max_retry_reached
      then (case ri_blockedEvidence input of
              None \<Rightarrow> Refused blocked_evidence_missing
            | Some evidence \<Rightarrow>
                if \<not> exactScope evidence proposal sourceSet \<or> blank (be_evidenceRef evidence)
                then Refused blocked_evidence_scope_mismatch
                else if ri_sourceWriteState input = src_written
                then RollbackRequired terminal_stop_after_write sourceRefs
                else if ri_requestedNextState input = RI_blocked
                then authorized input (Some (blocked_facts evidence))
                else Refused transition_not_allowed)
      else authorize_rule input proposal sourceSet)"

section \<open>Lemmas\<close>

lemma length_filter_eq_iff: "length (filter P xs) = length xs \<longleftrightarrow> list_all P xs"
proof (induction xs)
  case (Cons x xs)
  have "length (filter P xs) \<noteq> Suc (length xs)" using length_filter_le [of P xs] by linarith
  with Cons show ?case by simp
qed simp

lemma exactSet_iff:
  "exactSet left right \<longleftrightarrow> left \<noteq> [] \<and> list_all (\<lambda>v. \<not> blank v) left \<and> list_all (\<lambda>v. \<not> blank v) right
     \<and> distinct (map js_trim left) \<and> mset (map js_trim left) = mset (map js_trim right)"
proof -
  have len: "length (filter (\<lambda>v. v \<noteq> []) (map js_trim vs)) = length vs \<longleftrightarrow> list_all (\<lambda>v. \<not> blank v) vs" for vs
    using length_filter_eq_iff [of "\<lambda>v. v \<noteq> []" "map js_trim vs"] by (simp add: list.pred_map comp_def blank_def)
  have norm: "filter (\<lambda>v. v \<noteq> []) (map js_trim vs) = map js_trim vs" if "list_all (\<lambda>v. \<not> blank v) vs" for vs
    using that by (auto simp: list_all_iff blank_def filter_id_conv)
  have "mset a = mset b \<longleftrightarrow> distinct b \<and> length a = length b \<and> set a \<subseteq> set b"
    if "distinct a" for a b :: "string list"
  proof
    assume "mset a = mset b"
    with that show "distinct b \<and> length a = length b \<and> set a \<subseteq> set b"
      by (auto dest: mset_eq_imp_distinct_iff mset_eq_length mset_eq_setD)
  next
    assume b: "distinct b \<and> length a = length b \<and> set a \<subseteq> set b"
    with that have "card (set a) = card (set b)" by (simp add: distinct_card)
    with b have "set a = set b" by (intro card_subset_eq) simp_all
    with b that show "mset a = mset b" by (simp add: set_eq_iff_mset_eq_distinct)
  qed
  note msets = this
  show ?thesis
  proof (cases "list_all (\<lambda>v. \<not> blank v) left \<and> list_all (\<lambda>v. \<not> blank v) right")
    case True
    then have "exactSet left right \<longleftrightarrow> left \<noteq> [] \<and> distinct (map js_trim left) \<and> distinct (map js_trim right)
        \<and> length (map js_trim left) = length (map js_trim right)
        \<and> set (map js_trim left) \<subseteq> set (map js_trim right)"
      unfolding exactSet_def Let_def
      using js_set_size_eq [of "map js_trim left"] js_set_size_eq [of "map js_trim right"]
      by (auto simp: norm list_all_iff subset_iff)
    with True msets [of "map js_trim left" "map js_trim right"] show ?thesis by blast
  next
    case False
    then show ?thesis unfolding exactSet_def Let_def len by blast
  qed
qed

lemma authorize_rule_AuthorizedD:
  assumes "authorize_rule input p ss = Authorized s e t b f"
  shows "s = ri_currentState input \<and> e = ri_event input \<and> t = ri_requestedNextState input
    \<and> b = (t \<in> set RI_TERMINAL_STATES)
    \<and> (s, e, t) \<in> set CANONICAL_RECURSIVE_IMPROVEMENT_TRANSITIONS
    \<and> (t = RI_blocked \<longrightarrow> ri_sourceWriteState input = src_unchanged
        \<and> (\<exists>ev. ri_blockedEvidence input = Some ev \<and> exactScope ev p ss \<and> \<not> blank (be_evidenceRef ev)))
    \<and> (e = Some tests_failed \<longrightarrow> (\<exists>re. ri_retryEvidence input = Some re \<and> valid_retry re p ss))
    \<and> (t = RI_rolled_back \<longrightarrow> ri_sourceWriteState input = src_written
        \<and> (\<exists>rb. ri_rollbackEvidence input = Some rb \<and> valid_rollback rb p ss (ri_sourceRefs input)))
    \<and> (t = RI_completed \<longrightarrow> ri_sourceWriteState input = src_written
        \<and> (\<exists>ce. ri_completionEvidence input = Some ce \<and> valid_completion ce p ss (ri_sourceRefs input)))"
proof -
  have tf: "(s, Some tests_failed, RI_blocked) \<notin> set CANONICAL_RECURSIVE_IMPROVEMENT_TRANSITIONS" for s
    by (auto simp: CANONICAL_RECURSIVE_IMPROVEMENT_TRANSITIONS_def)
  have "ri_sourceWriteState input = src_unchanged \<or> ri_sourceWriteState input = src_written"
    by (cases "ri_sourceWriteState input") auto
  with assms show ?thesis
    using tf by (cases "ri_retryEvidence input") (auto simp: authorize_rule_def authorizeBlocked_def authorized_def Let_def
        split: if_splits option.splits)
qed

lemma authorize_AuthorizedD:
  assumes "authorizeRecursiveImprovementTransition input = Authorized s e t b f"
  defines "p \<equiv> js_trim (ev_proposalFingerprint input)"
    and "ss \<equiv> js_trim (ev_sourceSetFingerprint input)"
  shows "s = ri_currentState input \<and> e = ri_event input \<and> t = ri_requestedNextState input
    \<and> s \<notin> set RI_TERMINAL_STATES \<and> b = (t \<in> set RI_TERMINAL_STATES)
    \<and> ((s, e, t) \<in> set CANONICAL_RECURSIVE_IMPROVEMENT_TRANSITIONS
        \<or> e \<in> {Some cancel_requested, Some max_retry_reached} \<and> t = RI_blocked)
    \<and> (t = RI_blocked \<longrightarrow> ri_sourceWriteState input = src_unchanged
        \<and> (\<exists>ev. ri_blockedEvidence input = Some ev \<and> exactScope ev p ss \<and> \<not> blank (be_evidenceRef ev)))
    \<and> (e = Some tests_failed \<longrightarrow> (\<exists>re. ri_retryEvidence input = Some re \<and> valid_retry re p ss))
    \<and> (t = RI_rolled_back \<longrightarrow> ri_sourceWriteState input = src_written
        \<and> (\<exists>rb. ri_rollbackEvidence input = Some rb \<and> valid_rollback rb p ss (ri_sourceRefs input)))
    \<and> (t = RI_completed \<longrightarrow> ri_sourceWriteState input = src_written
        \<and> (\<exists>ce. ri_completionEvidence input = Some ce \<and> valid_completion ce p ss (ri_sourceRefs input)))"
proof (cases "ri_event input \<in> {Some rollback_requested, Some cancel_requested, Some max_retry_reached}")
  case False
  with assms have rule: "authorize_rule input p ss = Authorized s e t b f"
    and "ri_currentState input \<notin> set RI_TERMINAL_STATES"
    by (auto simp: authorizeRecursiveImprovementTransition_def Let_def split: if_splits)
  with authorize_rule_AuthorizedD [OF rule] show ?thesis by blast
next
  case True
  have "ri_sourceWriteState input = src_unchanged \<or> ri_sourceWriteState input = src_written"
    by (cases "ri_sourceWriteState input") auto
  with True assms show ?thesis
    by (auto simp: authorizeRecursiveImprovementTransition_def authorizeBlocked_def authorized_def Let_def
        split: if_splits option.splits)
qed

section \<open>The machine of authorised transitions\<close>

definition improvement_step ::
  "RecursiveImprovementState \<Rightarrow> RecursiveImprovementTransitionInput \<Rightarrow> RecursiveImprovementState option" where
  "improvement_step s input =
     (if ri_currentState input \<noteq> s then None
      else case authorizeRecursiveImprovementTransition input of
        Authorized _ _ t _ _ \<Rightarrow> Some t | _ \<Rightarrow> None)"

fun improvement_level :: "RecursiveImprovementState \<Rightarrow> nat" where
  "improvement_level RI_idle = 0"
| "improvement_level RI_intake = 1"
| "improvement_level RI_source_discovery = 2"
| "improvement_level RI_baseline_capture = 3"
| "improvement_level RI_proposal_drafting = 4"
| "improvement_level RI_harness_meta_review = 4"
| "improvement_level RI_invariant_review = 4"
| "improvement_level RI_diff_generation = 5"
| "improvement_level RI_approval_wait = 6"
| "improvement_level RI_apply_change = 7"
| "improvement_level RI_test_execution = 8"
| "improvement_level RI_activation_pending = 9"
| "improvement_level RI_activated = 10"
| "improvement_level RI_reporting = 10"
| "improvement_level RI_completed = 10"
| "improvement_level RI_blocked = 0"
| "improvement_level RI_rolled_back = 0"

definition improvement_milestones :: "RecursiveImprovementEvent option list" where
  "improvement_milestones = map Some
     [start_requested, inputs_validated, source_found, baseline_recorded, invariant_passed, diff_ready,
      approval_granted, change_applied, tests_passed, activation_confirmed]"

lemma improvement_stepD:
  assumes "improvement_step s input = Some t"
  obtains e b f where "authorizeRecursiveImprovementTransition input = Authorized s e t b f"
    "ri_currentState input = s" "ri_event input = e" "ri_requestedNextState input = t"
proof -
  from assms obtain s' e b f where
    a: "authorizeRecursiveImprovementTransition input = Authorized s' e t b f" "ri_currentState input = s"
    by (auto simp: improvement_step_def split: if_splits RecursiveImprovementTransitionDecision.splits)
  have "s' = ri_currentState input \<and> e = ri_event input \<and> t = ri_requestedNextState input"
    using authorize_AuthorizedD [OF a(1)] by blast
  with a show thesis by (intro that) simp_all
qed

lemma table_level:
  "list_all (\<lambda>(s, e, t). improvement_level t \<le> improvement_level s
      \<or> improvement_level s < length improvement_milestones
        \<and> improvement_level t = Suc (improvement_level s)
        \<and> e = improvement_milestones ! improvement_level s) CANONICAL_RECURSIVE_IMPROVEMENT_TRANSITIONS"
  by (simp add: CANONICAL_RECURSIVE_IMPROVEMENT_TRANSITIONS_def improvement_milestones_def)

interpretation improvement: final_state_machine improvement_step "\<lambda>s. s \<in> set RI_TERMINAL_STATES"
proof unfold_locales
  show "improvement_step s e = None" if "s \<in> set RI_TERMINAL_STATES" for s e
  proof (rule ccontr)
    assume "improvement_step s e \<noteq> None"
    then obtain t where "improvement_step s e = Some t" by blast
    then show False
      by (rule improvement_stepD) (use that authorize_AuthorizedD in blast)
  qed
qed

interpretation improvement_path:
  milestone_machine improvement_step RI_idle ri_event improvement_level improvement_milestones
proof unfold_locales
  show "improvement_level t \<le> improvement_level s
      \<or> improvement_level s < length improvement_milestones
        \<and> improvement_level t = Suc (improvement_level s)
        \<and> ri_event e = improvement_milestones ! improvement_level s"
    if step: "improvement_step s e = Some t" for s e t
  proof -
    obtain b f where a: "authorizeRecursiveImprovementTransition e = Authorized s (ri_event e) t b f"
      by (rule improvement_stepD [OF step]) simp
    have "(s, ri_event e, t) \<in> set CANONICAL_RECURSIVE_IMPROVEMENT_TRANSITIONS \<or> t = RI_blocked"
      using authorize_AuthorizedD [OF a] by blast
    with table_level show ?thesis by (force simp: list_all_iff)
  qed
qed simp

section \<open>Sample inputs of the witnesses\<close>

definition improvement_input ::
  "RecursiveImprovementState \<Rightarrow> RecursiveImprovementEvent option \<Rightarrow> RecursiveImprovementState
     \<Rightarrow> RecursiveImprovementTransitionInput" where
  "improvement_input s e t = \<lparr>ev_proposalFingerprint = ''p'', ev_sourceSetFingerprint = ''s'',
     ri_currentState = s, ri_event = e, ri_requestedNextState = t, ri_sourceWriteState = src_written,
     ri_sourceRefs = [''a.md''],
     ri_blockedEvidence = Some \<lparr>ev_proposalFingerprint = ''p'', ev_sourceSetFingerprint = ''s'',
       be_reason = safe_changed_strategies_exhausted, be_evidenceRef = ''e1''\<rparr>,
     ri_retryEvidence = None,
     ri_rollbackEvidence = Some \<lparr>ev_proposalFingerprint = ''p'', ev_sourceSetFingerprint = ''s'',
       rb_restoredSourceRefs = [''a.md''], rb_baselineRestored = True, rb_verificationRef = ''v''\<rparr>,
     ri_completionEvidence = Some \<lparr>ev_proposalFingerprint = ''p'', ev_sourceSetFingerprint = ''s'',
       ce_changedSourceRefs = ['' a.md''], ce_sourceWriteVerified = True,
       ce_validationEvidenceRefs = [''t1''], ce_activationState = state_activated,
       ce_activationEvidenceRef = ''ac'', ce_rollbackPath = ''rb'', ce_finalReportRef = ''fr''\<rparr>\<rparr>"

definition improvement_inputs :: "RecursiveImprovementTransitionInput list" where
  "improvement_inputs =
     [improvement_input RI_idle (Some start_requested) RI_intake,
      improvement_input RI_intake (Some inputs_validated) RI_source_discovery,
      improvement_input RI_source_discovery (Some source_found) RI_baseline_capture,
      improvement_input RI_baseline_capture (Some baseline_recorded) RI_proposal_drafting,
      improvement_input RI_proposal_drafting (Some proposal_ready) RI_invariant_review,
      improvement_input RI_invariant_review (Some invariant_passed) RI_diff_generation,
      improvement_input RI_diff_generation (Some diff_ready) RI_approval_wait,
      improvement_input RI_approval_wait (Some approval_granted) RI_apply_change,
      improvement_input RI_apply_change (Some change_applied) RI_test_execution,
      improvement_input RI_test_execution (Some tests_passed) RI_activation_pending,
      improvement_input RI_activation_pending (Some activation_confirmed) RI_activated,
      improvement_input RI_activated None RI_reporting,
      improvement_input RI_reporting None RI_completed]"

lemma improvement_sample_refs:
  "js_trim ''p'' = ''p''" "js_trim ''s'' = ''s''" "js_trim ''a.md'' = ''a.md''" "js_trim '' a.md'' = ''a.md''"
  "\<not> blank ''a.md''" "\<not> blank ''e1''" "\<not> blank ''v''" "\<not> blank ''t1''" "\<not> blank ''ac''"
  "\<not> blank ''rb''" "\<not> blank ''fr''"
  by (simp_all add: blank_def js_trim_def js_ws_def)

lemma improvement_sample_completion:
  "valid_completion (the (ri_completionEvidence (improvement_input s e t))) ''p'' ''s'' [''a.md'']"
  by (simp add: improvement_input_def valid_completion_def exactScope_def exactSet_def improvement_sample_refs Let_def
      js_set_distinct)

lemma improvement_sample_step:
  assumes "(s, e, t) \<in> set CANONICAL_RECURSIVE_IMPROVEMENT_TRANSITIONS"
    and "e \<notin> {Some tests_failed, Some rollback_requested, Some cancel_requested, Some max_retry_reached}"
    and "t \<notin> {RI_blocked, RI_rolled_back}" and "s \<notin> set RI_TERMINAL_STATES"
  shows "improvement_step s (improvement_input s e t) = Some t"
proof -
  have "s \<in> set CANONICAL_RECURSIVE_IMPROVEMENT_STATES" "t \<in> set CANONICAL_RECURSIVE_IMPROVEMENT_STATES" for s t
    unfolding CANONICAL_RECURSIVE_IMPROVEMENT_STATES_def by (cases s; simp) (cases t; simp)
  moreover have "e \<in> set CANONICAL_RECURSIVE_IMPROVEMENT_EVENTS" for e
    unfolding CANONICAL_RECURSIVE_IMPROVEMENT_EVENTS_def by (cases e; simp)
  moreover have "authorize_rule (improvement_input s e t) ''p'' ''s'' = Authorized s e t
      (t \<in> set RI_TERMINAL_STATES) (if t = RI_completed
        then Some (CompletionFacts ['' a.md''] state_activated ''rb'' ''fr'') else None)"
    using assms improvement_sample_completion [of s e t]
    by (simp add: authorize_rule_def improvement_input_def authorized_def Let_def)
  ultimately have "authorizeRecursiveImprovementTransition (improvement_input s e t) = Authorized s e t
      (t \<in> set RI_TERMINAL_STATES) (if t = RI_completed
        then Some (CompletionFacts ['' a.md''] state_activated ''rb'' ''fr'') else None)"
    using assms
    by (simp add: authorizeRecursiveImprovementTransition_def improvement_input_def improvement_sample_refs Let_def
        js_set_distinct)
  then show ?thesis by (simp add: improvement_step_def improvement_input_def)
qed

lemma improvement_sample_run: "run_steps improvement_step RI_idle improvement_inputs = Some RI_completed"
  by (simp add: improvement_inputs_def improvement_sample_step CANONICAL_RECURSIVE_IMPROVEMENT_TRANSITIONS_def
      RI_TERMINAL_STATES_def)

section \<open>Properties\<close>

text \<open>A self-improvement completes only through its gates: every accepted run from \<open>idle\<close> to
  \<open>completed\<close> contains, in order, the validated inputs, the recorded baseline, the passed
  invariants, the diff, the granted approval, the applied change, the passed tests and the
  confirmed activation.\<close>

theorem improvement_completes_through_gates:
  assumes "run_steps improvement_step RI_idle inputs = Some RI_completed"
  shows "subseq (map Some [start_requested, inputs_validated, source_found, baseline_recorded,
      invariant_passed, diff_ready, approval_granted, change_applied, tests_passed, activation_confirmed])
    (map ri_event inputs)"
  using improvement_path.run_all_milestones [OF assms] by (simp add: improvement_milestones_def)

theorem improvement_completes_through_gates_witness:
  "subseq (map Some [start_requested, inputs_validated, source_found, baseline_recorded,
      invariant_passed, diff_ready, approval_granted, change_applied, tests_passed, activation_confirmed])
    (map ri_event improvement_inputs)"
  by (rule improvement_completes_through_gates [OF improvement_sample_run])

text \<open>C24. The end of a self-improvement is evidenced: an authorised transition never leaves a final
  state; it blocks the run only if no source was written; it rolls back only written sources,
  with the baseline restored and exactly the written sources restored; it completes only with a
  verified write of exactly the declared sources and validation evidence.\<close>

theorem improvement_terminal_evidence:
  assumes "authorizeRecursiveImprovementTransition input = Authorized s e t final facts"
  shows "s \<notin> {RI_completed, RI_blocked, RI_rolled_back}
    \<and> final = (t \<in> {RI_completed, RI_blocked, RI_rolled_back})
    \<and> (t = RI_blocked \<longrightarrow> ri_sourceWriteState input = src_unchanged)
    \<and> (t = RI_rolled_back \<longrightarrow> ri_sourceWriteState input = src_written
        \<and> (\<exists>rb. ri_rollbackEvidence input = Some rb \<and> rb_baselineRestored rb
             \<and> mset (map js_trim (rb_restoredSourceRefs rb)) = mset (map js_trim (ri_sourceRefs input))))
    \<and> (t = RI_completed \<longrightarrow> ri_sourceWriteState input = src_written
        \<and> (\<exists>ce. ri_completionEvidence input = Some ce \<and> ce_sourceWriteVerified ce
             \<and> ce_validationEvidenceRefs ce \<noteq> []
             \<and> mset (map js_trim (ce_changedSourceRefs ce)) = mset (map js_trim (ri_sourceRefs input))))"
  using authorize_AuthorizedD [OF assms]
  by (auto simp: RI_TERMINAL_STATES_def valid_rollback_def valid_completion_def exactSet_iff)

theorem improvement_terminal_evidence_witness:
  "ri_sourceWriteState (improvement_input RI_reporting None RI_completed) = src_written"
proof -
  have "improvement_step RI_reporting (improvement_input RI_reporting None RI_completed) = Some RI_completed"
    by (rule improvement_sample_step)
      (simp_all add: CANONICAL_RECURSIVE_IMPROVEMENT_TRANSITIONS_def RI_TERMINAL_STATES_def)
  then obtain e b f where "authorizeRecursiveImprovementTransition (improvement_input RI_reporting None RI_completed)
      = Authorized RI_reporting e RI_completed b f"
    by (rule improvement_stepD) blast
  from improvement_terminal_evidence [OF this] show ?thesis by blast
qed

text \<open>Between the redraft after failed tests and the next application, a run whose sources are
  written cannot be ended: the code demands a rollback when the retries are exhausted, yet no
  authorised transition from these states reaches a final state.\<close>

theorem written_redraft_cannot_end:
  assumes "ri_sourceWriteState input = src_written"
    and "ri_currentState input \<in> {RI_proposal_drafting, RI_harness_meta_review, RI_invariant_review,
      RI_diff_generation, RI_approval_wait}"
  shows "(\<nexists>s e t b f. authorizeRecursiveImprovementTransition input = Authorized s e t b f
      \<and> t \<in> {RI_completed, RI_blocked, RI_rolled_back})
    \<and> authorizeRecursiveImprovementTransition (improvement_input RI_proposal_drafting (Some max_retry_reached) RI_rolled_back)
      = RollbackRequired terminal_stop_after_write [''a.md'']"
proof
  have table: "(s, e, t) \<notin> set CANONICAL_RECURSIVE_IMPROVEMENT_TRANSITIONS"
    if "s \<in> {RI_proposal_drafting, RI_harness_meta_review, RI_invariant_review, RI_diff_generation, RI_approval_wait}"
      "t \<in> {RI_completed, RI_rolled_back}" for s e t
    using that by (auto simp: CANONICAL_RECURSIVE_IMPROVEMENT_TRANSITIONS_def)
  show "\<nexists>s e t b f. authorizeRecursiveImprovementTransition input = Authorized s e t b f
      \<and> t \<in> {RI_completed, RI_blocked, RI_rolled_back}"
  proof (intro notI, elim exE conjE)
    fix s e t b f
    assume a: "authorizeRecursiveImprovementTransition input = Authorized s e t b f"
      and t: "t \<in> {RI_completed, RI_blocked, RI_rolled_back}"
    from authorize_AuthorizedD [OF a] assms(1) have "t \<noteq> RI_blocked" by auto
    with authorize_AuthorizedD [OF a] t have
      "(ri_currentState input, e, t) \<in> set CANONICAL_RECURSIVE_IMPROVEMENT_TRANSITIONS" by blast
    with table [OF assms(2)] t \<open>t \<noteq> RI_blocked\<close> show False by blast
  qed
  show "authorizeRecursiveImprovementTransition (improvement_input RI_proposal_drafting (Some max_retry_reached) RI_rolled_back)
      = RollbackRequired terminal_stop_after_write [''a.md'']"
    by (simp add: authorizeRecursiveImprovementTransition_def improvement_input_def improvement_sample_refs Let_def
        js_set_distinct CANONICAL_RECURSIVE_IMPROVEMENT_STATES_def CANONICAL_RECURSIVE_IMPROVEMENT_EVENTS_def
        RI_TERMINAL_STATES_def exactScope_def)
qed

theorem written_redraft_cannot_end_witness:
  "\<nexists>s e t b f. authorizeRecursiveImprovementTransition
       (improvement_input RI_proposal_drafting (Some rollback_completed) RI_rolled_back) = Authorized s e t b f
     \<and> t \<in> {RI_completed, RI_blocked, RI_rolled_back}"
  using written_redraft_cannot_end [of "improvement_input RI_proposal_drafting (Some rollback_completed) RI_rolled_back"]
  by (simp add: improvement_input_def)

end
