(* ===== verification/Capability_Mutation.thy ===== *)
theory Capability_Mutation
  imports Machines
begin

text \<open>
  \<open>capabilities/capability-mutation-state-machine.ts\<close>: the change of a capability revision as a
  state machine, and its execution through the ports of the host (validate, persist, apply,
  verify, roll back). The ports are not part of the module: they are the fields of a record the
  execution takes as an argument; a port whose promise is rejected is the left summand. The
  abort signal is read at three points; the model takes what each reading returned. The
  execution returns the ports it called, in order, beside its result.
\<close>

section \<open>States, events and mutations\<close>

datatype CapabilityMutationState =
    CM_draft | CM_validating | CM_ready | CM_persisting | CM_applying | CM_verifying | CM_active
  | CM_failed | CM_rolling_back | CM_rolled_back | CM_cancelled

fun mutation_state_name :: "CapabilityMutationState \<Rightarrow> string" where
  "mutation_state_name CM_draft = ''draft''"
| "mutation_state_name CM_validating = ''validating''"
| "mutation_state_name CM_ready = ''ready''"
| "mutation_state_name CM_persisting = ''persisting''"
| "mutation_state_name CM_applying = ''applying''"
| "mutation_state_name CM_verifying = ''verifying''"
| "mutation_state_name CM_active = ''active''"
| "mutation_state_name CM_failed = ''failed''"
| "mutation_state_name CM_rolling_back = ''rolling_back''"
| "mutation_state_name CM_rolled_back = ''rolled_back''"
| "mutation_state_name CM_cancelled = ''cancelled''"

record CapabilityMutation =
  cm_mutationId :: string
  cm_state :: CapabilityMutationState
  cm_baseRevision :: number
  cm_targetRevision :: number
  cm_reasonCode :: "string option"
  cm_rollbackAllowed :: "bool option"

datatype CapabilityMutationEvent =
    Validate | ValidationPassed | ValidationFailed string
  | Persist number number
  | Persisted | PersistFailed string | Applied | ApplyFailed string | Verified
  | VerificationFailed string | Rollback | RollbackSucceeded | RollbackFailed string | CancelMutation

fun mutation_event_name :: "CapabilityMutationEvent \<Rightarrow> string" where
  "mutation_event_name Validate = ''validate''"
| "mutation_event_name ValidationPassed = ''validation_passed''"
| "mutation_event_name (ValidationFailed _) = ''validation_failed''"
| "mutation_event_name (Persist _ _) = ''persist''"
| "mutation_event_name Persisted = ''persisted''"
| "mutation_event_name (PersistFailed _) = ''persist_failed''"
| "mutation_event_name Applied = ''applied''"
| "mutation_event_name (ApplyFailed _) = ''apply_failed''"
| "mutation_event_name Verified = ''verified''"
| "mutation_event_name (VerificationFailed _) = ''verification_failed''"
| "mutation_event_name Rollback = ''rollback''"
| "mutation_event_name RollbackSucceeded = ''rollback_succeeded''"
| "mutation_event_name (RollbackFailed _) = ''rollback_failed''"
| "mutation_event_name CancelMutation = ''cancel''"

section \<open>Transitions\<close>

definition invalid :: "CapabilityMutationState \<Rightarrow> CapabilityMutationEvent \<Rightarrow> string + CapabilityMutation" where
  "invalid state event = Inl (''Invalid capability transition: '' @ mutation_state_name state @ '' -> ''
     @ mutation_event_name event)"

definition move :: "CapabilityMutation \<Rightarrow> CapabilityMutationState \<Rightarrow> string option \<Rightarrow> bool
    \<Rightarrow> string + CapabilityMutation" where
  "move current state reasonCode rollbackAllowed =
     Inr (current\<lparr>cm_state := state, cm_reasonCode := reasonCode, cm_rollbackAllowed := Some rollbackAllowed\<rparr>)"

definition transitionCapabilityMutation ::
  "CapabilityMutation \<Rightarrow> CapabilityMutationEvent \<Rightarrow> string + CapabilityMutation" where
  "transitionCapabilityMutation current event =
     (if event = CancelMutation \<and> cm_state current \<in> {CM_draft, CM_validating, CM_ready}
      then move current CM_cancelled None False
      else case cm_state current of
        CM_draft \<Rightarrow> (case event of
            Validate \<Rightarrow> move current CM_validating None False
          | _ \<Rightarrow> invalid (cm_state current) event)
      | CM_validating \<Rightarrow> (case event of
            ValidationPassed \<Rightarrow> move current CM_ready None False
          | ValidationFailed r \<Rightarrow> move current CM_failed (Some r) False
          | _ \<Rightarrow> invalid (cm_state current) event)
      | CM_ready \<Rightarrow> (case event of
            Persist expectedRevision actualRevision \<Rightarrow>
              if \<not> num_eq expectedRevision (cm_baseRevision current)
                 \<or> \<not> num_eq actualRevision expectedRevision
              then Inl ''Capability revision conflict''
              else move current CM_persisting None False
          | _ \<Rightarrow> invalid (cm_state current) event)
      | CM_persisting \<Rightarrow> (case event of
            Persisted \<Rightarrow> move current CM_applying None False
          | PersistFailed r \<Rightarrow> move current CM_failed (Some r) False
          | _ \<Rightarrow> invalid (cm_state current) event)
      | CM_applying \<Rightarrow> (case event of
            Applied \<Rightarrow> move current CM_verifying None True
          | ApplyFailed r \<Rightarrow> move current CM_failed (Some r) True
          | _ \<Rightarrow> invalid (cm_state current) event)
      | CM_verifying \<Rightarrow> (case event of
            Verified \<Rightarrow> move current CM_active None False
          | VerificationFailed r \<Rightarrow> move current CM_failed (Some r) True
          | _ \<Rightarrow> invalid (cm_state current) event)
      | CM_failed \<Rightarrow> (case event of
            Rollback \<Rightarrow> if cm_rollbackAllowed current = Some True
              then move current CM_rolling_back (cm_reasonCode current) False
              else invalid (cm_state current) event
          | _ \<Rightarrow> invalid (cm_state current) event)
      | CM_rolling_back \<Rightarrow> (case event of
            RollbackSucceeded \<Rightarrow> move current CM_rolled_back (cm_reasonCode current) False
          | RollbackFailed r \<Rightarrow> move current CM_failed (Some r) True
          | _ \<Rightarrow> invalid (cm_state current) event)
      | _ \<Rightarrow> invalid (cm_state current) event)"

definition BASE_ACTIONS :: "CapabilityMutationState \<rightharpoonup> string list" where
  "BASE_ACTIONS = map_of [(CM_draft, [''validate'', ''cancel'']), (CM_validating, [''cancel'']),
     (CM_ready, [''persist'', ''cancel''])]"

record CapabilityMutationReceipt =
  cr_mutationId :: string
  cr_targetRevision :: number
  cr_state :: CapabilityMutationState
  cr_reasonCode :: "string option"
  cr_allowedActions :: "string list"

definition projectCapabilityMutationReceipt :: "CapabilityMutation \<Rightarrow> CapabilityMutationReceipt" where
  "projectCapabilityMutationReceipt mutation =
     (let allowedActions = (if cm_state mutation = CM_failed \<and> cm_rollbackAllowed mutation = Some True
        then [''rollback'']
        else case BASE_ACTIONS (cm_state mutation) of None \<Rightarrow> [] | Some actions \<Rightarrow> actions)
      in \<lparr>cr_mutationId = cm_mutationId mutation, cr_targetRevision = cm_targetRevision mutation,
          cr_state = cm_state mutation, cr_reasonCode = cm_reasonCode mutation,
          cr_allowedActions = allowedActions\<rparr>)"

section \<open>Execution through the ports\<close>

record PortResult =
  pr_ok :: bool
  pr_reasonCode :: "string option"

record PersistPortResult =
  pp_ok :: "bool option"
  pp_revision :: number
  pp_reasonCode :: "string option"

record CapabilityMutationPorts =
  port_validate :: "string + PortResult"
  port_persist :: "number \<Rightarrow> string + PersistPortResult"
  port_apply :: "number \<Rightarrow> string + PortResult"
  port_verify :: "number \<Rightarrow> string + PortResult"
  port_rollback :: "number \<Rightarrow> string + PortResult"

datatype PortCall = CallValidate | CallPersist number | CallApply number | CallVerify number
  | CallRollback number

definition reason_or :: "string option \<Rightarrow> string \<Rightarrow> string" where
  "reason_or reason fallback = (case reason of None \<Rightarrow> fallback | Some r \<Rightarrow> r)"

text \<open>\<open>await port(...)\<close>: the call is logged, a rejection ends the execution.\<close>

type_synonym execution = "PortCall list \<times> (string + CapabilityMutation)"

definition await :: "PortCall \<Rightarrow> string + 'r \<Rightarrow> ('r \<Rightarrow> execution) \<Rightarrow> execution" where
  "await call result k = (case result of
       Inl err \<Rightarrow> ([call], Inl err)
     | Inr r \<Rightarrow> (case k r of (calls, out) \<Rightarrow> (call # calls, out)))"

text \<open>A synchronous transition, which may throw.\<close>

definition transition_to :: "string + CapabilityMutation \<Rightarrow> (CapabilityMutation \<Rightarrow> execution) \<Rightarrow> execution" where
  "transition_to result k = (case result of Inl err \<Rightarrow> ([], Inl err) | Inr m \<Rightarrow> k m)"

definition return :: "string + CapabilityMutation \<Rightarrow> execution" where
  "return result = ([], result)"

definition roll_back :: "CapabilityMutation \<Rightarrow> CapabilityMutationPorts \<Rightarrow> CapabilityMutation \<Rightarrow> execution" where
  "roll_back initial ports failed =
     transition_to (transitionCapabilityMutation failed Rollback) (\<lambda>mutation.
     await (CallRollback (cm_baseRevision initial)) (port_rollback ports (cm_baseRevision initial)) (\<lambda>rolledBack.
     return (transitionCapabilityMutation mutation
       (if pr_ok rolledBack then RollbackSucceeded
        else RollbackFailed (reason_or (pr_reasonCode rolledBack) ''rollback_failed'')))))"

definition executeCapabilityMutation ::
  "CapabilityMutation \<Rightarrow> CapabilityMutationPorts \<Rightarrow> bool \<Rightarrow> bool \<Rightarrow> bool \<Rightarrow> execution" where
  "executeCapabilityMutation initial ports aborted0 aborted1 aborted2 =
     transition_to (transitionCapabilityMutation initial Validate) (\<lambda>mutation.
     if aborted0 then return (transitionCapabilityMutation mutation CancelMutation)
     else await CallValidate (port_validate ports) (\<lambda>validation.
     if aborted1 then return (transitionCapabilityMutation mutation CancelMutation)
     else if \<not> pr_ok validation
     then return (transitionCapabilityMutation mutation
       (ValidationFailed (reason_or (pr_reasonCode validation) ''validation_failed'')))
     else transition_to (transitionCapabilityMutation mutation ValidationPassed) (\<lambda>mutation.
     if aborted2 then return (transitionCapabilityMutation mutation CancelMutation)
     else transition_to (transitionCapabilityMutation mutation
         (Persist (cm_baseRevision initial) (cm_baseRevision initial))) (\<lambda>mutation.
     await (CallPersist (cm_baseRevision initial)) (port_persist ports (cm_baseRevision initial)) (\<lambda>persisted.
     if pp_ok persisted = Some False
     then return (transitionCapabilityMutation mutation
       (PersistFailed (reason_or (pp_reasonCode persisted) ''persistence_failed'')))
     else if \<not> num_eq (pp_revision persisted) (cm_targetRevision initial)
     then return (transitionCapabilityMutation mutation (PersistFailed ''persisted_revision_mismatch''))
     else transition_to (transitionCapabilityMutation mutation Persisted) (\<lambda>mutation.
     await (CallApply (cm_targetRevision initial)) (port_apply ports (cm_targetRevision initial)) (\<lambda>applied.
     if \<not> pr_ok applied
     then transition_to (transitionCapabilityMutation mutation
         (ApplyFailed (reason_or (pr_reasonCode applied) ''runtime_apply_failed''))) (roll_back initial ports)
     else transition_to (transitionCapabilityMutation mutation Applied) (\<lambda>mutation.
     await (CallVerify (cm_targetRevision initial)) (port_verify ports (cm_targetRevision initial)) (\<lambda>verified.
     if pr_ok verified then return (transitionCapabilityMutation mutation Verified)
     else transition_to (transitionCapabilityMutation mutation
         (VerificationFailed (reason_or (pr_reasonCode verified) ''health_verification_failed'')))
       (roll_back initial ports))))))))))"

section \<open>Logs\<close>

datatype CapabilityLogLevel = log_product | log_field_debug | log_development

datatype LogField = LogText string | LogNumber number | LogState CapabilityMutationState
  | LogReason "string option" | LogActions "string list"

fun log_level_name :: "CapabilityLogLevel \<Rightarrow> string" where
  "log_level_name log_product = ''product''"
| "log_level_name log_field_debug = ''field_debug''"
| "log_level_name log_development = ''development''"

definition projectCapabilityMutationLog ::
  "CapabilityLogLevel \<Rightarrow> CapabilityMutation \<Rightarrow> (string \<times> LogField) list" where
  "projectCapabilityMutationLog level mutation =
     (let receipt = projectCapabilityMutationReceipt mutation in
      if level = log_product
      then [(''level'', LogText (log_level_name level)), (''state'', LogState (cm_state mutation)),
            (''reasonCode'', LogReason (cm_reasonCode mutation))]
      else if level = log_field_debug
      then [(''level'', LogText (log_level_name level)), (''mutationId'', LogText (cm_mutationId mutation)),
            (''targetRevision'', LogNumber (cm_targetRevision mutation)),
            (''state'', LogState (cm_state mutation)), (''reasonCode'', LogReason (cm_reasonCode mutation))]
      else [(''mutationId'', LogText (cr_mutationId receipt)),
            (''targetRevision'', LogNumber (cr_targetRevision receipt)),
            (''state'', LogState (cr_state receipt)), (''reasonCode'', LogReason (cr_reasonCode receipt)),
            (''allowedActions'', LogActions (cr_allowedActions receipt)),
            (''level'', LogText (log_level_name level)), (''baseRevision'', LogNumber (cm_baseRevision mutation))])"

section \<open>The machine\<close>

definition mutation_step :: "CapabilityMutation \<Rightarrow> CapabilityMutationEvent \<Rightarrow> CapabilityMutation option" where
  "mutation_step m e = (case transitionCapabilityMutation m e of Inl _ \<Rightarrow> None | Inr t \<Rightarrow> Some t)"

definition mutation_terminal :: "CapabilityMutation \<Rightarrow> bool" where
  "mutation_terminal m \<longleftrightarrow> cm_state m \<in> {CM_active, CM_rolled_back, CM_cancelled}
     \<or> cm_state m = CM_failed \<and> cm_rollbackAllowed m \<noteq> Some True"

fun mutation_level :: "CapabilityMutationState \<Rightarrow> nat" where
  "mutation_level CM_draft = 0"
| "mutation_level CM_validating = 1"
| "mutation_level CM_ready = 2"
| "mutation_level CM_persisting = 3"
| "mutation_level CM_applying = 4"
| "mutation_level CM_verifying = 5"
| "mutation_level CM_active = 6"
| "mutation_level _ = 0"

definition activation_milestones :: "string list" where
  "activation_milestones =
     [''validate'', ''validation_passed'', ''persist'', ''persisted'', ''applied'', ''verified'']"

lemmas transition_unfold = transitionCapabilityMutation_def move_def invalid_def

lemma mutation_step_level:
  assumes "mutation_step m e = Some t"
  shows "mutation_level (cm_state t) \<le> mutation_level (cm_state m)
    \<or> mutation_level (cm_state m) < length activation_milestones
      \<and> mutation_level (cm_state t) = Suc (mutation_level (cm_state m))
      \<and> mutation_event_name e = activation_milestones ! mutation_level (cm_state m)"
  using assms
  by (cases "cm_state m"; cases e)
    (auto simp: mutation_step_def transition_unfold activation_milestones_def split: if_splits)

interpretation mutation: live_machine mutation_step mutation_terminal
proof unfold_locales
  show "mutation_step m e = None" if "mutation_terminal m" for m e
    using that by (auto simp: mutation_terminal_def mutation_step_def transition_unfold
        split: CapabilityMutationEvent.splits)
  show "\<exists>e t. mutation_step m e = Some t" if "\<not> mutation_terminal m" for m
  proof -
    let ?e = "case cm_state m of CM_persisting \<Rightarrow> Persisted | CM_applying \<Rightarrow> Applied
      | CM_verifying \<Rightarrow> Verified | CM_failed \<Rightarrow> Rollback | CM_rolling_back \<Rightarrow> RollbackSucceeded
      | _ \<Rightarrow> CancelMutation"
    have "mutation_step m ?e \<noteq> None"
      using that by (cases "cm_state m") (auto simp: mutation_terminal_def mutation_step_def transition_unfold)
    then show ?thesis by blast
  qed
qed

interpretation activation: milestone_machine mutation_step "m\<lparr>cm_state := CM_draft\<rparr>" mutation_event_name
  "mutation_level \<circ> cm_state" activation_milestones for m :: CapabilityMutation
  by unfold_locales (use mutation_step_level in simp_all)

section \<open>Properties of the execution\<close>

lemmas execution_unfold = executeCapabilityMutation_def roll_back_def transition_to_def await_def return_def

text \<open>Each way through the execution, with the ports it called.\<close>

lemma accepted_transitions:
  "cm_state m = CM_draft \<Longrightarrow> transitionCapabilityMutation m Validate = move m CM_validating None False"
  "cm_state m = CM_validating \<Longrightarrow> transitionCapabilityMutation m CancelMutation = move m CM_cancelled None False"
  "cm_state m = CM_validating \<Longrightarrow> transitionCapabilityMutation m ValidationPassed = move m CM_ready None False"
  "cm_state m = CM_validating \<Longrightarrow>
     transitionCapabilityMutation m (ValidationFailed r) = move m CM_failed (Some r) False"
  "cm_state m = CM_ready \<Longrightarrow> transitionCapabilityMutation m CancelMutation = move m CM_cancelled None False"
  "cm_state m = CM_ready \<Longrightarrow> cm_baseRevision m = b \<Longrightarrow> b \<noteq> NaN \<Longrightarrow>
     transitionCapabilityMutation m (Persist b b) = move m CM_persisting None False"
  "cm_state m = CM_persisting \<Longrightarrow> transitionCapabilityMutation m Persisted = move m CM_applying None False"
  "cm_state m = CM_persisting \<Longrightarrow>
     transitionCapabilityMutation m (PersistFailed r) = move m CM_failed (Some r) False"
  "cm_state m = CM_applying \<Longrightarrow> transitionCapabilityMutation m Applied = move m CM_verifying None True"
  "cm_state m = CM_applying \<Longrightarrow>
     transitionCapabilityMutation m (ApplyFailed r) = move m CM_failed (Some r) True"
  "cm_state m = CM_verifying \<Longrightarrow> transitionCapabilityMutation m Verified = move m CM_active None False"
  "cm_state m = CM_verifying \<Longrightarrow>
     transitionCapabilityMutation m (VerificationFailed r) = move m CM_failed (Some r) True"
  "cm_state m = CM_failed \<Longrightarrow> cm_rollbackAllowed m = Some True \<Longrightarrow>
     transitionCapabilityMutation m Rollback = move m CM_rolling_back (cm_reasonCode m) False"
  "cm_state m = CM_rolling_back \<Longrightarrow>
     transitionCapabilityMutation m RollbackSucceeded = move m CM_rolled_back (cm_reasonCode m) False"
  "cm_state m = CM_rolling_back \<Longrightarrow>
     transitionCapabilityMutation m (RollbackFailed r) = move m CM_failed (Some r) True"
  by (simp_all add: transitionCapabilityMutation_def num_eq_def)

text \<open>Reasoning about an execution: a condition on the calls and the returned mutation.\<close>

definition outcome :: "(PortCall list \<Rightarrow> CapabilityMutation \<Rightarrow> bool) \<Rightarrow> execution \<Rightarrow> bool" where
  "outcome P x = (case snd x of Inl _ \<Rightarrow> True | Inr m \<Rightarrow> P (fst x) m)"

lemma outcome_rules:
  "outcome P (transition_to r k) \<longleftrightarrow> (\<forall>m. r = Inr m \<longrightarrow> outcome P (k m))"
  "outcome P (await c q h) \<longleftrightarrow> (\<forall>z. q = Inr z \<longrightarrow> outcome (\<lambda>cs. P (c # cs)) (h z))"
  "outcome P (return r) \<longleftrightarrow> (\<forall>m. r = Inr m \<longrightarrow> P [] m)"
  "outcome P (if d then x else y) \<longleftrightarrow> (d \<longrightarrow> outcome P x) \<and> (\<not> d \<longrightarrow> outcome P y)"
  by (auto simp: outcome_def transition_to_def await_def return_def split: sum.splits prod.splits)

lemma execute_cases:
  assumes "cm_state initial = CM_draft" and "cm_baseRevision initial \<noteq> NaN"
  defines "b \<equiv> cm_baseRevision initial" and "t \<equiv> cm_targetRevision initial"
  shows "outcome (\<lambda>calls m.
      (calls \<in> {[], [CallValidate]} \<and> cm_state m = CM_cancelled)
      \<or> (calls \<in> {[CallValidate], [CallValidate, CallPersist b]} \<and> cm_state m = CM_failed
           \<and> cm_rollbackAllowed m = Some False \<and> cm_reasonCode m \<noteq> None)
      \<or> (calls = [CallValidate, CallPersist b, CallApply t, CallVerify t] \<and> cm_state m = CM_active)
      \<or> (calls \<in> {[CallValidate, CallPersist b, CallApply t, CallRollback b],
             [CallValidate, CallPersist b, CallApply t, CallVerify t, CallRollback b]}
          \<and> (cm_state m = CM_rolled_back \<or> cm_state m = CM_failed \<and> cm_rollbackAllowed m = Some True)
          \<and> cm_reasonCode m \<noteq> None))
    (executeCapabilityMutation initial ports a0 a1 a2)"
  using assms(1,2)
  by (simp add: executeCapabilityMutation_def roll_back_def outcome_rules accepted_transitions move_def
      b_def t_def)

lemma settled_refuses:
  "cm_state m \<in> {CM_active, CM_cancelled, CM_failed, CM_rolled_back} \<Longrightarrow> e \<noteq> Rollback \<Longrightarrow> mutation_step m e = None"
  by (elim insertE emptyE; cases e; simp add: mutation_step_def transition_unfold)

lemma outcomeD: "outcome P x \<Longrightarrow> x = (calls, Inr m) \<Longrightarrow> P calls m"
  by (simp add: outcome_def)

lemma execute_returns:
  assumes "cm_state initial = CM_draft" and "cm_baseRevision initial \<noteq> NaN"
    and "port_validate ports = Inr v" and "\<And>r. \<exists>x. port_persist ports r = Inr x"
    and "\<And>r. \<exists>x. port_apply ports r = Inr x" and "\<And>r. \<exists>x. port_verify ports r = Inr x"
    and "\<And>r. \<exists>x. port_rollback ports r = Inr x"
  shows "\<exists>calls m. executeCapabilityMutation initial ports a0 a1 a2 = (calls, Inr m)"
proof -
  obtain p where p: "port_persist ports (cm_baseRevision initial) = Inr p" using assms(4) by blast
  obtain a where a: "port_apply ports (cm_targetRevision initial) = Inr a" using assms(5) by blast
  obtain w where w: "port_verify ports (cm_targetRevision initial) = Inr w" using assms(6) by blast
  obtain r where r: "port_rollback ports (cm_baseRevision initial) = Inr r" using assms(7) by blast
  show ?thesis
    using assms(1,2) by (simp add: execution_unfold accepted_transitions move_def assms(3) p a w r)
qed

text \<open>The event of a user action.\<close>

definition user_event :: "CapabilityMutation \<Rightarrow> string \<Rightarrow> CapabilityMutationEvent" where
  "user_event m a = (if a = ''validate'' then Validate else if a = ''cancel'' then CancelMutation
     else if a = ''rollback'' then Rollback else Persist (cm_baseRevision m) (cm_baseRevision m))"

lemma user_event_name:
  "a \<in> {''validate'', ''cancel'', ''persist'', ''rollback''} \<Longrightarrow> mutation_event_name (user_event m a) = a"
  by (auto simp: user_event_def)

lemma user_event_only:
  assumes "mutation_event_name e = a" and "a \<in> {''validate'', ''cancel'', ''persist'', ''rollback''}"
  shows "e = user_event m a \<or> a = ''persist'' \<and> (\<exists>x y. e = Persist x y)"
  using assms(2) unfolding assms(1) [symmetric] by (cases e) (simp_all add: user_event_def)

lemma persist_needs_base:
  assumes "cm_baseRevision m \<noteq> NaN" and "mutation_step m (Persist x y) \<noteq> None"
  shows "mutation_step m (user_event m ''persist'') \<noteq> None"
  using assms
  by (cases "cm_state m") (auto simp: mutation_step_def transition_unfold num_eq_def user_event_def)

lemma receipt_actions_step:
  assumes "cm_baseRevision m \<noteq> NaN" and "a \<in> {''validate'', ''cancel'', ''persist'', ''rollback''}"
  shows "a \<in> set (cr_allowedActions (projectCapabilityMutationReceipt m))
    \<longleftrightarrow> mutation_step m (user_event m a) \<noteq> None"
proof -
  consider "a = ''validate''" | "a = ''cancel''" | "a = ''persist''" | "a = ''rollback''"
    using assms(2) by auto
  then show ?thesis
    by cases (cases "cm_state m"; simp add: user_event_def mutation_step_def transition_unfold num_eq_def
        BASE_ACTIONS_def projectCapabilityMutationReceipt_def Let_def assms(1))+
qed

definition sample_mutation :: CapabilityMutation where
  "sample_mutation = \<lparr>cm_mutationId = ''m'', cm_state = CM_draft, cm_baseRevision = Num 1,
     cm_targetRevision = Num 2, cm_reasonCode = None, cm_rollbackAllowed = None\<rparr>"

definition unhealthy_ports :: CapabilityMutationPorts where
  "unhealthy_ports = \<lparr>port_validate = Inr \<lparr>pr_ok = True, pr_reasonCode = None\<rparr>,
     port_persist = (\<lambda>_. Inr \<lparr>pp_ok = None, pp_revision = Num 2, pp_reasonCode = None\<rparr>),
     port_apply = (\<lambda>_. Inr \<lparr>pr_ok = True, pr_reasonCode = None\<rparr>),
     port_verify = (\<lambda>_. Inr \<lparr>pr_ok = False, pr_reasonCode = Some ''down''\<rparr>),
     port_rollback = (\<lambda>_. Inr \<lparr>pr_ok = True, pr_reasonCode = None\<rparr>)\<rparr>"

definition rolled_back_mutation :: CapabilityMutation where
  "rolled_back_mutation = sample_mutation\<lparr>cm_state := CM_rolled_back, cm_reasonCode := Some ''down'',
     cm_rollbackAllowed := Some False\<rparr>"

lemma sample_execution:
  "executeCapabilityMutation sample_mutation unhealthy_ports False False False =
     ([CallValidate, CallPersist (Num 1), CallApply (Num 2), CallVerify (Num 2), CallRollback (Num 1)],
      Inr rolled_back_mutation)"
  by (simp add: execution_unfold transition_unfold num_eq_def sample_mutation_def unhealthy_ports_def
      rolled_back_mutation_def reason_or_def)

text \<open>C16. A revision is never left half applied: an execution that returns ends active, cancelled,
  rolled back or failed; the runtime is rolled back exactly if it was applied and did not become
  active; it is active only after validation, persistence, application and verification; a
  cancelled execution persisted nothing; a failure without rollback applied nothing.\<close>

theorem mutation_applied_or_rolled_back:
  assumes "cm_state initial = CM_draft" and "cm_baseRevision initial \<noteq> NaN"
    and "executeCapabilityMutation initial ports a0 a1 a2 = (calls, Inr m)"
  shows "cm_state m \<in> {CM_active, CM_cancelled, CM_failed, CM_rolled_back}
    \<and> (CallRollback (cm_baseRevision initial) \<in> set calls \<longleftrightarrow>
         CallApply (cm_targetRevision initial) \<in> set calls \<and> cm_state m \<noteq> CM_active)
    \<and> (cm_state m = CM_active \<longrightarrow> calls = [CallValidate, CallPersist (cm_baseRevision initial),
         CallApply (cm_targetRevision initial), CallVerify (cm_targetRevision initial)])
    \<and> (cm_state m = CM_cancelled \<longrightarrow> set calls \<subseteq> {CallValidate})
    \<and> (cm_state m = CM_failed \<and> cm_rollbackAllowed m \<noteq> Some True \<longrightarrow>
         CallApply (cm_targetRevision initial) \<notin> set calls)
    \<and> (cm_state m \<in> {CM_failed, CM_rolled_back} \<longrightarrow> cm_reasonCode m \<noteq> None)"
  using outcomeD [OF execute_cases [OF assms(1,2)] assms(3)] by auto

theorem mutation_applied_or_rolled_back_witness:
  "CallRollback (Num 1) \<in> set [CallValidate, CallPersist (Num 1), CallApply (Num 2), CallVerify (Num 2),
     CallRollback (Num 1)] \<and> cm_reasonCode rolled_back_mutation \<noteq> None"
  using mutation_applied_or_rolled_back [OF _ _ sample_execution]
  by (simp add: sample_mutation_def rolled_back_mutation_def)

text \<open>The execution always finishes: from a draft, with ports that answer, every combination of
  answers and abort readings leads to a returned mutation and never to an invalid transition.\<close>

theorem mutation_execution_total:
  assumes "cm_state initial = CM_draft" and "cm_baseRevision initial \<noteq> NaN"
    and "port_validate ports = Inr v" and "\<And>r. \<exists>x. port_persist ports r = Inr x"
    and "\<And>r. \<exists>x. port_apply ports r = Inr x" and "\<And>r. \<exists>x. port_verify ports r = Inr x"
    and "\<And>r. \<exists>x. port_rollback ports r = Inr x"
  shows "\<exists>calls m. executeCapabilityMutation initial ports a0 a1 a2 = (calls, Inr m)
    \<and> length calls \<le> 5 \<and> \<not> (\<exists>e. mutation_step m e \<noteq> None \<and> e \<noteq> Rollback)"
proof -
  obtain calls m where x: "executeCapabilityMutation initial ports a0 a1 a2 = (calls, Inr m)"
    using execute_returns [OF assms] by blast
  note c = outcomeD [OF execute_cases [OF assms(1,2)] x]
  have "length calls \<le> 5" using c by auto
  moreover have "cm_state m \<in> {CM_active, CM_cancelled, CM_failed, CM_rolled_back}" using c by auto
  then have "e \<noteq> Rollback \<Longrightarrow> mutation_step m e = None" for e by (rule settled_refuses)
  then have "\<not> (\<exists>e. mutation_step m e \<noteq> None \<and> e \<noteq> Rollback)" by auto
  ultimately show ?thesis by (intro exI [of _ calls] exI [of _ m] conjI x)
qed

theorem mutation_execution_total_witness:
  "\<exists>calls m. executeCapabilityMutation sample_mutation unhealthy_ports False False True = (calls, Inr m)"
  using mutation_execution_total [of sample_mutation unhealthy_ports _ False False True]
  by (fastforce simp: sample_mutation_def unhealthy_ports_def)

text \<open>No shortcut to an active revision: every accepted sequence of events from a draft to an
  active mutation validates, persists, applies and verifies, in this order, and the machine stops
  exactly in its final states.\<close>

theorem active_requires_verification:
  assumes "cm_state m = CM_draft" and "run_steps mutation_step m es = Some t" and "cm_state t = CM_active"
  shows "subseq [''validate'', ''validation_passed'', ''persist'', ''persisted'', ''applied'', ''verified'']
      (map mutation_event_name es)
    \<and> (\<forall>e. mutation_step t e = None)"
proof -
  have "m = m\<lparr>cm_state := CM_draft\<rparr>" using assms(1) by simp
  with activation.run_all_milestones [of m es t] assms(2,3) show ?thesis
    using mutation.stuck_iff_terminal [of t] by (simp add: activation_milestones_def mutation_terminal_def)
qed

theorem active_requires_verification_witness:
  "subseq [''validate'', ''validation_passed'', ''persist'', ''persisted'', ''applied'', ''verified'']
     (map mutation_event_name [Validate, ValidationPassed, Persist (Num 1) (Num 1), Persisted, Applied, Verified])"
  by (rule active_requires_verification [of sample_mutation _
        "sample_mutation\<lparr>cm_state := CM_active, cm_rollbackAllowed := Some False\<rparr>", THEN conjunct1])
    (simp_all add: sample_mutation_def mutation_step_def transition_unfold num_eq_def)

text \<open>A receipt offers a user action exactly when the machine accepts it.\<close>

theorem receipt_actions_accepted:
  assumes "cm_baseRevision m \<noteq> NaN" and "a \<in> {''validate'', ''cancel'', ''persist'', ''rollback''}"
  shows "a \<in> set (cr_allowedActions (projectCapabilityMutationReceipt m))
    \<longleftrightarrow> (\<exists>e. mutation_event_name e = a \<and> mutation_step m e \<noteq> None)"
proof -
  have "mutation_step m e \<noteq> None \<longrightarrow> mutation_step m (user_event m a) \<noteq> None"
    if "mutation_event_name e = a" for e
    using user_event_only [OF that assms(2)] persist_needs_base [OF assms(1)] by metis
  then have "(\<exists>e. mutation_event_name e = a \<and> mutation_step m e \<noteq> None)
      \<longleftrightarrow> mutation_step m (user_event m a) \<noteq> None"
    using user_event_name [OF assms(2)] by blast
  with receipt_actions_step [OF assms] show ?thesis by blast
qed

theorem receipt_actions_accepted_witness:
  "\<exists>e. mutation_event_name e = ''cancel'' \<and> mutation_step sample_mutation e \<noteq> None"
  using receipt_actions_accepted [of sample_mutation "''cancel''"]
  by (simp add: sample_mutation_def projectCapabilityMutationReceipt_def BASE_ACTIONS_def Let_def)

end
