(* ===== verification/Agent_Tree.thy ===== *)
theory Agent_Tree
  imports Canonical_Json "HOL-Library.Extended_Nat"
begin

text \<open>
  The graph algorithms of \<open>orchestration/hierarchy.ts\<close> on the parent-child relationships of
  agents (\<open>contracts/sub-agent-orchestration.ts\<close>): the indexes by child and by parent, the
  descendants of an agent, its depth below the root and the reason why it is not an execution
  candidate. The \<open>while\<close> loops are functions whose termination is proved: each step visits a new
  agent of a finite set. A \<open>relationshipType\<close> has the single value \<open>parent_child\<close> and is left out.
\<close>

section \<open>Relationships and agents\<close>

datatype AgentRelationshipStatus = rel_active | rel_disabled | rel_archived

datatype AgentStatus = ag_enabled | ag_disabled | ag_archived | ag_degraded

datatype AgentEntityType = type_knowbee | type_sub_agent

fun agent_status_name :: "AgentStatus \<Rightarrow> string" where
  "agent_status_name ag_enabled = ''enabled''"
| "agent_status_name ag_disabled = ''disabled''"
| "agent_status_name ag_archived = ''archived''"
| "agent_status_name ag_degraded = ''degraded''"

record AgentRelationship =
  rl_edgeId :: string
  rl_parentAgentId :: string
  rl_childAgentId :: string
  rl_status :: AgentRelationshipStatus
  rl_sortOrder :: number
  rl_createdAt :: "number option"
  rl_updatedAt :: "number option"

datatype AgentSource = source_db | source_config | source_topology | source_synthetic

record AgentHierarchyAgentSummary =
  sm_agentId :: string
  sm_agentType :: AgentEntityType
  sm_agentName :: string
  sm_status :: AgentStatus
  sm_source :: AgentSource

abbreviation active :: "'a AgentRelationship_scheme \<Rightarrow> bool" where
  "active r \<equiv> rl_status r = rel_active"

text \<open>\<open>left - right\<close> as a comparator: only its sign matters, and \<open>NaN\<close> is falsy.\<close>

definition number_compare :: "number \<Rightarrow> number \<Rightarrow> int" where
  "number_compare a b = (if num_lt a b then - 1 else if num_lt b a then 1 else 0)"

definition or_else :: "int \<Rightarrow> int \<Rightarrow> int" where
  "or_else a b = (if a \<noteq> 0 then a else b)"

definition relationshipSort :: "host \<Rightarrow> AgentRelationship \<Rightarrow> AgentRelationship \<Rightarrow> int" where
  "relationshipSort H left right =
     or_else (localeCompare H (rl_parentAgentId left) (rl_parentAgentId right))
       (or_else (number_compare (rl_sortOrder left) (rl_sortOrder right))
         (localeCompare H (rl_edgeId left) (rl_edgeId right)))"

section \<open>Indexes\<close>

definition parentByChild :: "AgentRelationship list \<Rightarrow> (string \<times> AgentRelationship) list" where
  "parentByChild relationships =
     foldl (\<lambda>result r. if active r then AList.update (rl_childAgentId r) r result else result) [] relationships"

definition lookup_list :: "(string \<times> 'a list) list \<Rightarrow> string \<Rightarrow> 'a list" where
  "lookup_list m k = (case map_of m k of None \<Rightarrow> [] | Some xs \<Rightarrow> xs)"

definition childrenByParent ::
  "host \<Rightarrow> AgentRelationship list \<Rightarrow> (string \<times> AgentRelationship list) list" where
  "childrenByParent H relationships =
     map (\<lambda>(parent, children). (parent, sort_by (relationshipSort H) children))
       (foldl (\<lambda>result r. if \<not> active r then result
          else AList.update (rl_parentAgentId r) (lookup_list result (rl_parentAgentId r) @ [r]) result)
        [] relationships)"

section \<open>Descendants\<close>

text \<open>
  The stack is a list with its top first: pushing the reversed children and popping one by one
  visits them in order. The array of descendants and the set of visited agents always hold the
  same agents in the same order and are one list here.
\<close>

function desc_loop ::
  "(string \<times> AgentRelationship list) list \<Rightarrow> string list \<Rightarrow> AgentRelationship list \<Rightarrow> string list" where
  "desc_loop byParent visited [] = visited"
| "desc_loop byParent visited (r # stack) =
     (if rl_childAgentId r \<in> set visited then desc_loop byParent visited stack
      else desc_loop byParent (visited @ [rl_childAgentId r])
             (lookup_list byParent (rl_childAgentId r) @ stack))"
  by pat_completeness auto

lemma lookup_list_subset: "set (lookup_list m k) \<subseteq> \<Union> (set ` snd ` set m)"
proof (cases "map_of m k")
  case (Some xs)
  then have "(k, xs) \<in> set m" by (rule map_of_SomeD)
  with Some show ?thesis by (force simp: lookup_list_def)
qed (simp add: lookup_list_def)

termination desc_loop
proof (relation "inv_image (finite_psubset <*lex*> less_than) (\<lambda>(byParent, visited, stack).
    (rl_childAgentId ` (\<Union> (set ` snd ` set byParent) \<union> set stack) - set visited, length stack))", goal_cases)
  case 1
  show ?case by (intro wf_inv_image wf_lex_prod wf_finite_psubset wf_less_than)
next
  case (2 byParent visited r stack)
  then have "rl_childAgentId ` (\<Union> (set ` snd ` set byParent) \<union> set (r # stack)) - set visited
      = rl_childAgentId ` (\<Union> (set ` snd ` set byParent) \<union> set stack) - set visited"
    by auto
  then show ?case by simp
next
  case (3 byParent visited r stack)
  let ?U = "\<Union> (set ` snd ` set byParent)"
  have "rl_childAgentId ` (?U \<union> set (lookup_list byParent (rl_childAgentId r) @ stack))
      - set (visited @ [rl_childAgentId r])
      \<subset> rl_childAgentId ` (?U \<union> set (r # stack)) - set visited" (is "?A \<subset> ?B")
  proof
    show "?A \<subseteq> ?B" using lookup_list_subset [of byParent "rl_childAgentId r"] by auto
    have "rl_childAgentId r \<in> ?B" "rl_childAgentId r \<notin> ?A" using 3 by auto
    then show "?A \<noteq> ?B" by blast
  qed
  moreover have "finite (rl_childAgentId ` (?U \<union> set (r # stack)) - set visited)" by simp
  ultimately show ?case by (simp add: finite_psubset_def)
qed

definition descendantAgentIds :: "host \<Rightarrow> string \<Rightarrow> AgentRelationship list \<Rightarrow> string list" where
  "descendantAgentIds H agentId relationships =
     (let byParent = childrenByParent H relationships
      in desc_loop byParent [] (lookup_list byParent agentId))"

definition hasPath :: "host \<Rightarrow> string \<Rightarrow> string \<Rightarrow> AgentRelationship list \<Rightarrow> bool" where
  "hasPath H fromAgentId toAgentId relationships \<longleftrightarrow>
     toAgentId \<in> set (descendantAgentIds H fromAgentId relationships)"

section \<open>Depth\<close>

function depth_loop ::
  "(string \<times> AgentRelationship) list \<Rightarrow> string \<Rightarrow> string \<Rightarrow> string list \<Rightarrow> nat \<Rightarrow> enat" where
  "depth_loop byChild rootId cursor seen depth =
     (case map_of byChild cursor of
        None \<Rightarrow> enat depth
      | Some r \<Rightarrow>
          if rl_parentAgentId r = rootId then enat depth
          else if rl_parentAgentId r \<in> set seen then \<infinity>
          else depth_loop byChild rootId (rl_parentAgentId r) (set_add seen (rl_parentAgentId r)) (depth + 1))"
  by pat_completeness auto
termination depth_loop
proof (relation "measure (\<lambda>(byChild, rootId, cursor, seen, depth).
    card (rl_parentAgentId ` snd ` set byChild - set seen))", goal_cases)
  case (2 byChild rootId cursor seen depth r)
  then have "rl_parentAgentId r \<in> rl_parentAgentId ` snd ` set byChild - set seen"
    by (force dest: map_of_SomeD)
  then have "rl_parentAgentId ` snd ` set byChild - insert (rl_parentAgentId r) (set seen)
      \<subset> rl_parentAgentId ` snd ` set byChild - set seen" by blast
  then show ?case by (simp add: psubset_card_mono)
qed simp

definition depthOf :: "string \<Rightarrow> string \<Rightarrow> (string \<times> AgentRelationship) list \<Rightarrow> enat" where
  "depthOf agentId rootAgentId byChild =
     (if agentId = rootAgentId then 0 else depth_loop byChild rootAgentId agentId [agentId] 1)"

section \<open>Execution candidates\<close>

function inactive_loop ::
  "(string \<times> AgentHierarchyAgentSummary) list \<Rightarrow> (string \<times> AgentRelationship) list \<Rightarrow> string \<Rightarrow> string
     \<Rightarrow> string \<Rightarrow> string list \<Rightarrow> string option" where
  "inactive_loop agents byChild rootId agentId cursor seen =
     (if cursor = rootId then None
      else if cursor \<in> set seen then Some ''cycle_detected''
      else case map_of byChild cursor of
        None \<Rightarrow> Some (if cursor = agentId then ''agent_unassigned'' else ''ancestor_unassigned'')
      | Some r \<Rightarrow>
          (case map_of agents (rl_parentAgentId r) of
             None \<Rightarrow> Some ''missing_ancestor''
           | Some parent \<Rightarrow>
               if sm_agentId parent \<noteq> rootId \<and> sm_status parent \<noteq> ag_enabled
               then Some (''ancestor_'' @ agent_status_name (sm_status parent))
               else inactive_loop agents byChild rootId agentId (sm_agentId parent) (set_add seen cursor)))"
  by pat_completeness auto
termination inactive_loop
proof (relation "measure (\<lambda>(agents, byChild, rootId, agentId, cursor, seen).
    card (fst ` set byChild - set seen))", goal_cases)
  case (2 agents byChild rootId agentId cursor seen r parent)
  then have "cursor \<in> fst ` set byChild - set seen" by (force dest: map_of_SomeD)
  then have "fst ` set byChild - insert cursor (set seen) \<subset> fst ` set byChild - set seen" by blast
  then show ?case by (simp add: psubset_card_mono)
qed simp

definition inactiveReasonFor ::
  "string \<Rightarrow> string \<Rightarrow> (string \<times> AgentHierarchyAgentSummary) list \<Rightarrow> AgentRelationship list
     \<Rightarrow> string option" where
  "inactiveReasonFor agentId rootAgentId agents relationships =
     (case map_of agents agentId of
        None \<Rightarrow> Some ''missing_agent''
      | Some agent \<Rightarrow>
          if sm_status agent \<noteq> ag_enabled then Some (''agent_'' @ agent_status_name (sm_status agent))
          else if agentId = rootAgentId then None
          else inactive_loop agents (parentByChild relationships) rootAgentId agentId agentId [])"

text \<open>The walk to the top of \<open>ancestors\<close>.\<close>

function ancestor_loop ::
  "(string \<times> AgentHierarchyAgentSummary) list \<Rightarrow> (string \<times> AgentRelationship) list \<Rightarrow> string
     \<Rightarrow> string list \<Rightarrow> AgentHierarchyAgentSummary list" where
  "ancestor_loop agents byChild cursor seen =
     (if cursor \<in> set seen then []
      else case map_of byChild cursor of
        None \<Rightarrow> []
      | Some r \<Rightarrow>
          (case map_of agents (rl_parentAgentId r) of None \<Rightarrow> [] | Some parent \<Rightarrow> [parent])
          @ ancestor_loop agents byChild (rl_parentAgentId r) (set_add seen cursor))"
  by pat_completeness auto
termination ancestor_loop
proof (relation "measure (\<lambda>(agents, byChild, cursor, seen). card (fst ` set byChild - set seen))", goal_cases)
  case (2 agents byChild cursor seen r)
  then have "cursor \<in> fst ` set byChild - set seen" by (force dest: map_of_SomeD)
  then have "fst ` set byChild - insert cursor (set seen) \<subset> fst ` set byChild - set seen" by blast
  then show ?case by (simp add: psubset_card_mono)
qed simp

declare depth_loop.simps [simp del] inactive_loop.simps [simp del] ancestor_loop.simps [simp del]

section \<open>What the indexes hold\<close>

definition edges :: "AgentRelationship list \<Rightarrow> (string \<times> string) set" where
  "edges rs = {(rl_parentAgentId r, rl_childAgentId r) | r. r \<in> set rs \<and> active r}"

lemma edges_simps [simp]:
  "edges [] = {}"
  "edges (r # rs) = (if active r then insert (rl_parentAgentId r, rl_childAgentId r) (edges rs) else edges rs)"
  "edges (rs @ rs') = edges rs \<union> edges rs'"
  by (auto simp: edges_def)

lemma edges_sort_by [simp]: "edges (sort_by cmp rs) = edges rs"
  by (simp add: edges_def)

lemma edges_mono: "set rs \<subseteq> set rs' \<Longrightarrow> edges rs \<subseteq> edges rs'"
  by (auto simp: edges_def)

lemma parentByChild_find:
  "map_of (parentByChild rs) c = List.find (\<lambda>r. active r \<and> rl_childAgentId r = c) (rev rs)"
  unfolding parentByChild_def by (induction rs rule: rev_induct) (auto simp: update_conv')

lemma parentByChild_SomeD:
  "map_of (parentByChild rs) c = Some r \<Longrightarrow> r \<in> set rs \<and> active r \<and> rl_childAgentId r = c"
  by (auto simp: parentByChild_find dest: find_SomeD)

lemma parentByChild_None_iff:
  "map_of (parentByChild rs) c = None \<longleftrightarrow> (\<forall>r \<in> set rs. active r \<longrightarrow> rl_childAgentId r \<noteq> c)"
  by (auto simp: parentByChild_find find_None_iff)

text \<open>No agent has two parents.\<close>

definition single_parent :: "AgentRelationship list \<Rightarrow> bool" where
  "single_parent rs \<longleftrightarrow> distinct (map rl_childAgentId (filter active rs))"

lemma single_parentD:
  assumes "single_parent rs" "r \<in> set rs" "r' \<in> set rs" "active r" "active r'"
    "rl_childAgentId r = rl_childAgentId r'"
  shows "r = r'"
proof -
  have "inj_on rl_childAgentId (set (filter active rs))"
    using assms(1) by (simp add: single_parent_def distinct_map)
  then show ?thesis using assms by (auto dest: inj_onD)
qed

lemma single_parent_sort_by [simp]: "single_parent (sort_by cmp rs) = single_parent rs"
proof -
  have "mset (map rl_childAgentId (filter active (sort_by cmp rs))) = mset (map rl_childAgentId (filter active rs))"
    by (simp add: mset_filter)
  then show ?thesis unfolding single_parent_def by (rule mset_eq_imp_distinct_iff)
qed

lemma parentByChild_single:
  assumes "single_parent rs"
  shows "map_of (parentByChild rs) c = Some r \<longleftrightarrow> r \<in> set rs \<and> active r \<and> rl_childAgentId r = c"
proof (cases "map_of (parentByChild rs) c")
  case None
  then show ?thesis using parentByChild_None_iff [of rs c] by auto
next
  case (Some r')
  from parentByChild_SomeD [OF Some] show ?thesis
    using Some single_parentD [OF assms, of r r'] by auto
qed

lemma lookup_list_update:
  "lookup_list (AList.update k v m) k' = (if k' = k then v else lookup_list m k')"
  by (simp add: lookup_list_def update_conv')

lemma childrenByParent_set:
  "set (lookup_list (childrenByParent H rs) p) = {r \<in> set rs. active r \<and> rl_parentAgentId r = p}"
proof -
  let ?f = "\<lambda>result r. if \<not> active r then result
    else AList.update (rl_parentAgentId r) (lookup_list result (rl_parentAgentId r) @ [r]) result"
  have raw: "lookup_list (foldl ?f m rs) p = lookup_list m p @ filter (\<lambda>r. active r \<and> rl_parentAgentId r = p) rs" for m
    by (induction rs arbitrary: m) (auto simp: lookup_list_update)
  have sorted: "set (lookup_list (map (\<lambda>(k, v). (k, sort_by cmp v)) m) p) = set (lookup_list m p)"
    for cmp and m :: "(string \<times> AgentRelationship list) list"
    by (induction m) (auto simp: lookup_list_def)
  show ?thesis
    unfolding childrenByParent_def sorted raw by (simp add: lookup_list_def)
qed

section \<open>The descendants are the agents reachable along the relationships\<close>

definition bp_edges :: "(string \<times> AgentRelationship list) list \<Rightarrow> (string \<times> string) set" where
  "bp_edges bp = {(p, rl_childAgentId r) | p r. r \<in> set (lookup_list bp p)}"

lemma bp_edges_childrenByParent: "bp_edges (childrenByParent H rs) = edges rs"
  by (auto simp: bp_edges_def edges_def childrenByParent_set)

lemma desc_loop_sound:
  "x \<in> set (desc_loop bp visited stack) \<Longrightarrow>
     x \<in> set visited \<or> (\<exists>r \<in> set stack. (rl_childAgentId r, x) \<in> (bp_edges bp)\<^sup>*)"
proof (induction bp visited stack rule: desc_loop.induct)
  case (2 bp visited r stack)
  show ?case
  proof (cases "rl_childAgentId r \<in> set visited")
    case True
    with 2 show ?thesis by auto
  next
    case False
    with 2 consider "x \<in> set visited" | "x = rl_childAgentId r"
      | q where "q \<in> set (lookup_list bp (rl_childAgentId r))" "(rl_childAgentId q, x) \<in> (bp_edges bp)\<^sup>*"
      | q where "q \<in> set stack" "(rl_childAgentId q, x) \<in> (bp_edges bp)\<^sup>*"
      by (auto simp del: desc_loop.simps simp: desc_loop.simps(2) [of bp visited r stack])
    then show ?thesis
    proof cases
      case (3 q)
      then have "(rl_childAgentId r, rl_childAgentId q) \<in> bp_edges bp" by (auto simp: bp_edges_def)
      with 3(2) show ?thesis by (auto intro: converse_rtrancl_into_rtrancl)
    qed auto
  qed
qed simp

lemma desc_loop_closed:
  assumes "\<forall>v \<in> set visited. \<forall>w. (v, w) \<in> bp_edges bp \<longrightarrow> w \<in> set visited \<union> rl_childAgentId ` set stack"
  shows "set visited \<union> rl_childAgentId ` set stack \<subseteq> set (desc_loop bp visited stack)
    \<and> (\<forall>v \<in> set (desc_loop bp visited stack). \<forall>w. (v, w) \<in> bp_edges bp \<longrightarrow> w \<in> set (desc_loop bp visited stack))"
  using assms
proof (induction bp visited stack rule: desc_loop.induct)
  case (2 bp visited r stack)
  show ?case
  proof (cases "rl_childAgentId r \<in> set visited")
    case True
    then have "\<forall>v \<in> set visited. \<forall>w. (v, w) \<in> bp_edges bp \<longrightarrow> w \<in> set visited \<union> rl_childAgentId ` set stack"
      using 2(3) by fastforce
    from 2(1) [OF True this] True show ?thesis by auto
  next
    case False
    have new: "(rl_childAgentId r, w) \<in> bp_edges bp \<Longrightarrow> w \<in> rl_childAgentId ` set (lookup_list bp (rl_childAgentId r))" for w
      by (auto simp: bp_edges_def)
    have "\<forall>v \<in> set (visited @ [rl_childAgentId r]). \<forall>w. (v, w) \<in> bp_edges bp \<longrightarrow>
        w \<in> set (visited @ [rl_childAgentId r]) \<union> rl_childAgentId ` set (lookup_list bp (rl_childAgentId r) @ stack)"
      using 2(3) new by fastforce
    from 2(2) [OF False this] False show ?thesis by auto
  qed
qed simp

lemma desc_loop_distinct: "distinct visited \<Longrightarrow> distinct (desc_loop bp visited stack)"
  by (induction bp visited stack rule: desc_loop.induct) auto

lemma descendantAgentIds_reachable: "set (descendantAgentIds H a rs) = {x. (a, x) \<in> (edges rs)\<^sup>+}"
proof -
  let ?bp = "childrenByParent H rs"
  let ?D = "set (desc_loop ?bp [] (lookup_list ?bp a))"
  have E: "bp_edges ?bp = edges rs" by (rule bp_edges_childrenByParent)
  have start: "rl_childAgentId ` set (lookup_list ?bp a) = {x. (a, x) \<in> edges rs}"
    by (auto simp: edges_def childrenByParent_set)
  have sound: "x \<in> ?D \<Longrightarrow> (a, x) \<in> (edges rs)\<^sup>+" for x
  proof -
    assume "x \<in> ?D"
    then obtain r where r: "r \<in> set (lookup_list ?bp a)" "(rl_childAgentId r, x) \<in> (edges rs)\<^sup>*"
      using desc_loop_sound [of x ?bp "[]" "lookup_list ?bp a"] E by auto
    from r(1) start have "(a, rl_childAgentId r) \<in> edges rs" by blast
    with r(2) show ?thesis by (rule rtrancl_into_trancl2 [rotated])
  qed
  have closed: "rl_childAgentId ` set (lookup_list ?bp a) \<subseteq> ?D \<and> (\<forall>v \<in> ?D. \<forall>w. (v, w) \<in> edges rs \<longrightarrow> w \<in> ?D)"
    using desc_loop_closed [of "[]" ?bp "lookup_list ?bp a"] E by simp
  have "(a, x) \<in> (edges rs)\<^sup>+ \<Longrightarrow> x \<in> ?D" for x
    by (induction rule: trancl_induct) (use closed start in blast)+
  with sound show ?thesis unfolding descendantAgentIds_def Let_def by blast
qed

lemma hasPath_iff: "hasPath H a b rs \<longleftrightarrow> (a, b) \<in> (edges rs)\<^sup>+"
  by (simp add: hasPath_def descendantAgentIds_reachable)

section \<open>Depth below the root\<close>

text \<open>
  An agent without a parent, as well as a child of the root, has depth 1; any other agent is one
  below its parent. The relation has no value for an agent on a cycle or below one.
\<close>

inductive depth_is :: "(string \<rightharpoonup> string) \<Rightarrow> string \<Rightarrow> string \<Rightarrow> nat \<Rightarrow> bool" for P rootId where
  depth_root: "depth_is P rootId rootId 0"
| depth_top: "a \<noteq> rootId \<Longrightarrow> P a = None \<Longrightarrow> depth_is P rootId a 1"
| depth_child: "a \<noteq> rootId \<Longrightarrow> P a = Some rootId \<Longrightarrow> depth_is P rootId a 1"
| depth_below: "a \<noteq> rootId \<Longrightarrow> P a = Some p \<Longrightarrow> p \<noteq> rootId \<Longrightarrow> depth_is P rootId p n \<Longrightarrow> depth_is P rootId a (Suc n)"

inductive_cases depth_isE: "depth_is P rootId a n"

lemma depth_is_unique: "depth_is P rootId a n \<Longrightarrow> depth_is P rootId a m \<Longrightarrow> m = n"
proof (induction arbitrary: m rule: depth_is.induct)
  case (depth_below a p n)
  note hyps = depth_below.hyps
  from depth_below.prems show ?case
  proof (cases rule: depth_is.cases)
    case (depth_below p' n')
    with hyps depth_below.IH show ?thesis by simp
  qed (use hyps in simp_all)
qed (erule depth_is.cases; simp)+

lemma depth_is_pos: "depth_is P rootId a n \<Longrightarrow> a \<noteq> rootId \<Longrightarrow> 0 < n"
  by (auto elim: depth_isE)

lemma depth_is_root [simp]: "depth_is P rootId rootId n \<longleftrightarrow> n = 0"
  by (auto elim: depth_isE intro: depth_root)

definition parent_map :: "(string \<times> AgentRelationship) list \<Rightarrow> string \<rightharpoonup> string" where
  "parent_map bc c = map_option rl_parentAgentId (map_of bc c)"

lemma depth_loop_finite:
  assumes "depth_loop bc rootId cursor seen d = enat k" and "cursor \<noteq> rootId"
  shows "\<exists>n. depth_is (parent_map bc) rootId cursor n \<and> k + 1 = d + n"
  using assms
proof (induction bc rootId cursor seen d rule: depth_loop.induct)
  case (1 bc rootId cursor seen d)
  show ?case
  proof (cases "map_of bc cursor")
    case None
    then have "parent_map bc cursor = None" by (simp add: parent_map_def)
    with 1(3) have "depth_is (parent_map bc) rootId cursor 1" by (rule depth_top)
    moreover from None 1(2) have "k = d" by (simp add: depth_loop.simps [of bc])
    ultimately show ?thesis by auto
  next
    case (Some r)
    then have P: "parent_map bc cursor = Some (rl_parentAgentId r)" by (simp add: parent_map_def)
    show ?thesis
    proof (cases "rl_parentAgentId r = rootId")
      case True
      with P 1(3) have "depth_is (parent_map bc) rootId cursor 1" by (intro depth_child) simp_all
      moreover from True Some 1(2) have "k = d" by (simp add: depth_loop.simps [of bc])
      ultimately show ?thesis by auto
    next
      case False
      with 1(2) Some have new: "rl_parentAgentId r \<notin> set seen"
        and rec: "depth_loop bc rootId (rl_parentAgentId r) (set_add seen (rl_parentAgentId r)) (d + 1) = enat k"
        by (auto simp: depth_loop.simps [of bc rootId cursor] split: if_splits)
      from 1(1) [OF Some False new rec False] obtain n where
        "depth_is (parent_map bc) rootId (rl_parentAgentId r) n" "k + 1 = d + 1 + n" by blast
      with P False 1(3) show ?thesis by (intro exI [of _ "Suc n"]) (auto intro: depth_below)
    qed
  qed
qed

lemma depth_loop_depth:
  assumes "depth_is (parent_map bc) rootId cursor n" and "cursor \<noteq> rootId"
    and "\<forall>s \<in> set seen. \<exists>m \<ge> n. depth_is (parent_map bc) rootId s m"
  shows "depth_loop bc rootId cursor seen d + 1 = enat (d + n)"
  using assms
proof (induction n arbitrary: cursor seen d rule: nat_induct [case_names zero Suc])
  case zero
  then show ?case using depth_is_pos by blast
next
  case (Suc n)
  from Suc.prems(1) show ?case
  proof (cases rule: depth_is.cases)
    case depth_top
    then have "map_of bc cursor = None" "n = 0" by (simp_all add: parent_map_def)
    then show ?thesis by (simp add: depth_loop.simps [of bc rootId cursor] one_enat_def)
  next
    case depth_child
    then obtain r where "map_of bc cursor = Some r" "rl_parentAgentId r = rootId" "n = 0"
      by (auto simp: parent_map_def)
    then show ?thesis by (simp add: depth_loop.simps [of bc rootId cursor] one_enat_def)
  next
    case (depth_below p)
    then have p: "parent_map bc cursor = Some p" "p \<noteq> rootId" "depth_is (parent_map bc) rootId p n" by auto
    then obtain r where r: "map_of bc cursor = Some r" "rl_parentAgentId r = p"
      by (auto simp: parent_map_def)
    have "p \<notin> set seen" using Suc.prems(3) p(3) depth_is_unique by fastforce
    moreover have "\<forall>s \<in> set (set_add seen p). \<exists>m \<ge> n. depth_is (parent_map bc) rootId s m"
      using Suc.prems(3) p(3) by simp (meson Suc_leD order_refl)
    ultimately show ?thesis
      using Suc.IH [OF p(3,2), of "set_add seen p" "d + 1"] r p(2)
      by (simp add: depth_loop.simps [of bc rootId cursor])
  qed
qed

lemma depthOf_iff: "depthOf a rootId bc = enat n \<longleftrightarrow> depth_is (parent_map bc) rootId a n"
proof (cases "a = rootId")
  case True
  then show ?thesis by (auto simp: depthOf_def zero_enat_def)
next
  case False
  show ?thesis
  proof
    assume "depthOf a rootId bc = enat n"
    with False depth_loop_finite [of bc rootId a "[a]" 1 n] show "depth_is (parent_map bc) rootId a n"
      by (auto simp: depthOf_def)
  next
    assume d: "depth_is (parent_map bc) rootId a n"
    have "depth_loop bc rootId a [a] 1 + 1 = enat (1 + n)"
      by (rule depth_loop_depth [OF d False]) (use d in auto)
    with False show "depthOf a rootId bc = enat n"
      by (cases "depth_loop bc rootId a [a] 1") (auto simp: depthOf_def one_enat_def)
  qed
qed

lemma depthOf_infinite_iff: "depthOf a rootId bc = \<infinity> \<longleftrightarrow> (\<nexists>n. depth_is (parent_map bc) rootId a n)"
  using depthOf_iff [of a rootId bc] by (metis enat.exhaust enat.simps(3))

text \<open>Every agent is placed at most \<open>limit\<close> below the root. In particular there is no cycle.\<close>

definition placed :: "nat \<Rightarrow> string \<Rightarrow> AgentRelationship list \<Rightarrow> bool" where
  "placed limit rootId rs \<longleftrightarrow> (\<forall>a. \<exists>n \<le> limit. depth_is (parent_map (parentByChild rs)) rootId a n)"

lemma parent_map_single:
  assumes "single_parent rs"
  shows "parent_map (parentByChild rs) c = Some p \<longleftrightarrow> (p, c) \<in> edges rs"
  using parentByChild_single [OF assms, of c] by (auto simp: parent_map_def edges_def)

lemma depth_increases_down:
  assumes "single_parent rs" and "\<forall>r \<in> set rs. active r \<longrightarrow> rl_childAgentId r \<noteq> rootId"
    and "(b, a) \<in> (edges rs)\<^sup>+" and "depth_is (parent_map (parentByChild rs)) rootId a n"
  shows "\<exists>m < n. depth_is (parent_map (parentByChild rs)) rootId b m"
proof -
  let ?P = "parent_map (parentByChild rs)"
  have step: "\<exists>m < n. depth_is ?P rootId b m" if e: "(b, a) \<in> edges rs" and d: "depth_is ?P rootId a n" for a b n
  proof -
    have a: "a \<noteq> rootId" "?P a = Some b"
      using e assms(2) parent_map_single [OF assms(1)] by (auto simp: edges_def)
    from d show ?thesis by (cases rule: depth_is.cases) (use a in auto)
  qed
  from assms(3,4) show ?thesis
  proof (induction arbitrary: n rule: trancl_induct)
    case (base a)
    then show ?case by (rule step)
  next
    case (step c a)
    from \<open>\<And>b n a. (b, a) \<in> edges rs \<Longrightarrow> depth_is ?P rootId a n \<Longrightarrow> \<exists>m < n. depth_is ?P rootId b m\<close> [OF step(2,4)]
    obtain m where "m < n" "depth_is ?P rootId c m" by blast
    with step.IH show ?case by (meson less_trans)
  qed
qed

lemma placed_acyclic:
  assumes "placed limit rootId rs" and "single_parent rs" and "\<forall>r \<in> set rs. active r \<longrightarrow> rl_childAgentId r \<noteq> rootId"
  shows "acyclic (edges rs)"
proof (rule acyclicI, rule allI, rule notI)
  fix a assume cyc: "(a, a) \<in> (edges rs)\<^sup>+"
  obtain n where n: "depth_is (parent_map (parentByChild rs)) rootId a n"
    using assms(1) unfolding placed_def by blast
  from depth_increases_down [OF assms(2,3) cyc n] n depth_is_unique show False by fastforce
qed

subsection \<open>Removing and adding a relationship\<close>

lemma depth_is_submap:
  assumes "depth_is P rootId a n" and sub: "\<And>a p. P' a = Some p \<Longrightarrow> P a = Some p"
  shows "\<exists>m \<le> n. depth_is P' rootId a m"
  using assms(1)
proof (induction rule: depth_is.induct)
  case depth_root
  show ?case by auto
next
  case (depth_top a)
  then have "P' a = None" using sub [of a] by (cases "P' a") auto
  with depth_top have "depth_is P' rootId a 1" by (intro depth_is.depth_top)
  then show ?case by blast
next
  case (depth_child a)
  have "depth_is P' rootId a 1"
  proof (cases "P' a")
    case None
    with depth_child show ?thesis by (intro depth_is.depth_top)
  next
    case (Some p)
    with sub [of a p] depth_child show ?thesis by (intro depth_is.depth_child) simp_all
  qed
  then show ?case by blast
next
  case (depth_below a p n)
  then obtain m where m: "m \<le> n" "depth_is P' rootId p m" by blast
  show ?case
  proof (cases "P' a")
    case None
    with depth_below have "depth_is P' rootId a 1" by (intro depth_is.depth_top)
    then show ?thesis by auto
  next
    case (Some p')
    with sub [of a p'] depth_below have "P' a = Some p" by simp
    with depth_below m have "depth_is P' rootId a (Suc m)" by (intro depth_is.depth_below)
    with m show ?thesis by auto
  qed
qed

lemma depth_is_outside:
  assumes "depth_is P rootId a n" and "a \<notin> insert c {x. (c, x) \<in> E\<^sup>+}"
    and same: "\<And>a. a \<noteq> c \<Longrightarrow> P' a = P a" and E: "\<And>a p. P' a = Some p \<Longrightarrow> (p, a) \<in> E"
  shows "depth_is P' rootId a n"
  using assms(1,2)
proof (induction rule: depth_is.induct)
  case (depth_below a p n)
  then have "P' a = Some p" using same [of a] by auto
  with E have "(p, a) \<in> E" by blast
  with depth_below.prems have "p \<notin> insert c {x. (c, x) \<in> E\<^sup>+}" by (auto intro: trancl_into_trancl)
  with depth_below \<open>P' a = Some p\<close> show ?case by (auto intro: depth_is.depth_below)
qed (use same in \<open>auto intro: depth_is.depth_top depth_is.depth_child simp: One_nat_def [symmetric] simp del: One_nat_def\<close>)

lemma single_parent_subset:
  assumes "single_parent rs" and "set rs' \<subseteq> set rs" and "distinct rs'"
  shows "single_parent rs'"
proof -
  have "inj_on rl_childAgentId {r \<in> set rs. active r}"
    using assms(1) by (simp add: single_parent_def distinct_map)
  then have "inj_on rl_childAgentId {r \<in> set rs'. active r}"
    by (rule inj_on_subset) (use assms(2) in auto)
  then show ?thesis using assms(3) by (simp add: single_parent_def distinct_map)
qed

lemma placed_subset:
  assumes "placed limit rootId rs" and "single_parent rs" and "single_parent rs'" and "edges rs' \<subseteq> edges rs"
  shows "placed limit rootId rs'"
  unfolding placed_def
proof
  fix a
  from assms(1) obtain n where n: "n \<le> limit" "depth_is (parent_map (parentByChild rs)) rootId a n"
    unfolding placed_def by blast
  have "parent_map (parentByChild rs) a = Some p" if "parent_map (parentByChild rs') a = Some p" for a p
    using that assms(4) parent_map_single [OF assms(2)] parent_map_single [OF assms(3)] by blast
  from depth_is_submap [OF n(2) this] n(1)
  show "\<exists>n \<le> limit. depth_is (parent_map (parentByChild rs')) rootId a n" by (meson order_trans)
qed

lemma placed_add:
  assumes "placed limit rootId rs" and "single_parent rs" and "single_parent rs'"
    and e: "edges rs' = insert (p, c) (edges rs)"
    and affected: "\<And>x. x = c \<or> (c, x) \<in> (edges rs')\<^sup>+ \<Longrightarrow>
      \<exists>n \<le> limit. depth_is (parent_map (parentByChild rs')) rootId x n"
  shows "placed limit rootId rs'"
  unfolding placed_def
proof
  fix a
  let ?P = "parent_map (parentByChild rs)" and ?P' = "parent_map (parentByChild rs')"
  note P = parent_map_single [OF assms(2)] and P' = parent_map_single [OF assms(3)]
  show "\<exists>n \<le> limit. depth_is ?P' rootId a n"
  proof (cases "a = c \<or> (c, a) \<in> (edges rs')\<^sup>+")
    case True
    then show ?thesis by (rule affected)
  next
    case False
    have same: "?P' x = ?P x" if "x \<noteq> c" for x
    proof (rule option.expand)
      have "?P' x = Some q \<longleftrightarrow> ?P x = Some q" for q using P P' e that by auto
      then show "(?P' x = None) = (?P x = None)" and "?P' x \<noteq> None \<Longrightarrow> ?P x \<noteq> None \<Longrightarrow> the (?P' x) = the (?P x)"
        by (metis option.exhaust option.distinct(1), metis option.collapse option.sel)
    qed
    from assms(1) obtain n where n: "n \<le> limit" "depth_is ?P rootId a n" unfolding placed_def by blast
    have "depth_is ?P' rootId a n"
      by (rule depth_is_outside [OF n(2) _ same, where E = "edges rs'"]) (use False P' in auto)
    with n(1) show ?thesis by blast
  qed
qed

section \<open>Execution candidates\<close>

text \<open>The agents from \<open>a\<close> upwards are known and enabled, and the last one is the root.\<close>

inductive climbs ::
  "(string \<times> AgentHierarchyAgentSummary) list \<Rightarrow> (string \<times> AgentRelationship) list \<Rightarrow> string \<Rightarrow> string \<Rightarrow> nat \<Rightarrow> bool"
  for agents bc rootId where
  climb_root: "climbs agents bc rootId rootId 0"
| climb_up: "a \<noteq> rootId \<Longrightarrow> map_of bc a = Some r \<Longrightarrow> map_of agents (rl_parentAgentId r) = Some s \<Longrightarrow>
    sm_agentId s = rootId \<or> sm_status s = ag_enabled \<Longrightarrow> climbs agents bc rootId (sm_agentId s) n \<Longrightarrow>
    climbs agents bc rootId a (Suc n)"

lemma climbs_unique: "climbs agents bc rootId a n \<Longrightarrow> climbs agents bc rootId a m \<Longrightarrow> m = n"
proof (induction arbitrary: m rule: climbs.induct)
  case climb_root
  then show ?case by (cases rule: climbs.cases) simp_all
next
  case (climb_up a r s n)
  note hyps = climb_up.hyps
  from climb_up.prems show ?case
  proof (cases rule: climbs.cases)
    case (climb_up r' s' n')
    with hyps climb_up.IH show ?thesis by simp
  qed (use hyps in simp_all)
qed

lemma inactive_loop_climbs:
  assumes "climbs agents bc rootId cursor n" and "\<forall>s \<in> set seen. \<exists>m > n. climbs agents bc rootId s m"
  shows "inactive_loop agents bc rootId a cursor seen = None"
  using assms
proof (induction arbitrary: seen rule: climbs.induct)
  case climb_root
  show ?case by (simp add: inactive_loop.simps)
next
  case (climb_up c r s n)
  have c: "climbs agents bc rootId c (Suc n)" using climb_up.hyps by (rule climbs.climb_up)
  with climb_up.prems climbs_unique have "c \<notin> set seen" by fastforce
  moreover have "\<forall>x \<in> set (set_add seen c). \<exists>m > n. climbs agents bc rootId x m"
    using climb_up.prems c by simp (meson Suc_lessD lessI)
  then have "inactive_loop agents bc rootId a (sm_agentId s) (set_add seen c) = None" by (rule climb_up.IH)
  ultimately show ?case using climb_up.hyps by (auto simp: inactive_loop.simps [of agents bc rootId a c])
qed

lemma inactive_loop_None:
  "inactive_loop agents bc rootId a cursor seen = None \<Longrightarrow> \<exists>n. climbs agents bc rootId cursor n"
proof (induction agents bc rootId a cursor seen rule: inactive_loop.induct)
  case (1 agents bc rootId a cursor seen)
  show ?case
  proof (cases "cursor = rootId")
    case True
    then show ?thesis using climb_root by blast
  next
    case False
    with 1(2) obtain r s where step: "cursor \<notin> set seen" "map_of bc cursor = Some r"
      "map_of agents (rl_parentAgentId r) = Some s" "\<not> (sm_agentId s \<noteq> rootId \<and> sm_status s \<noteq> ag_enabled)"
      "inactive_loop agents bc rootId a (sm_agentId s) (set_add seen cursor) = None"
      by (auto simp: inactive_loop.simps [of agents bc rootId a cursor] split: if_splits option.splits)
    from 1(1) [OF False step] obtain n where "climbs agents bc rootId (sm_agentId s) n" by blast
    with False step have "climbs agents bc rootId cursor (Suc n)" by (intro climb_up) auto
    then show ?thesis by blast
  qed
qed

lemma inactiveReasonFor_None_iff:
  "inactiveReasonFor a rootId agents rs = None \<longleftrightarrow>
     (\<exists>s. map_of agents a = Some s \<and> sm_status s = ag_enabled)
     \<and> (\<exists>n. climbs agents (parentByChild rs) rootId a n)"
  using inactive_loop_None [of agents "parentByChild rs" rootId a a "[]"]
    inactive_loop_climbs [of agents "parentByChild rs" rootId a _ "[]" a]
  by (auto simp: inactiveReasonFor_def split: option.splits if_splits intro: exI [of _ 0] climb_root)

text \<open>For agents indexed by their own ids, climbing is being below the root through enabled agents.\<close>

definition keyed :: "(string \<times> AgentHierarchyAgentSummary) list \<Rightarrow> bool" where
  "keyed agents \<longleftrightarrow> (\<forall>k s. map_of agents k = Some s \<longrightarrow> sm_agentId s = k)"

definition enabled_edges :: "(string \<times> AgentHierarchyAgentSummary) list \<Rightarrow> string \<Rightarrow> AgentRelationship list \<Rightarrow> (string \<times> string) set" where
  "enabled_edges agents rootId rs = {(p, c). (p, c) \<in> edges rs \<and> c \<noteq> rootId
     \<and> (\<exists>s. map_of agents p = Some s \<and> (p = rootId \<or> sm_status s = ag_enabled))}"

lemma climbs_iff_reachable:
  assumes "single_parent rs" and "keyed agents"
  shows "(\<exists>n. climbs agents (parentByChild rs) rootId a n) \<longleftrightarrow> (rootId, a) \<in> (enabled_edges agents rootId rs)\<^sup>*"
proof
  assume "\<exists>n. climbs agents (parentByChild rs) rootId a n"
  then obtain n where "climbs agents (parentByChild rs) rootId a n" by blast
  then show "(rootId, a) \<in> (enabled_edges agents rootId rs)\<^sup>*"
  proof (induction rule: climbs.induct)
    case (climb_up c r s n)
    then have "sm_agentId s = rl_parentAgentId r" using assms(2) by (auto simp: keyed_def)
    moreover have "(rl_parentAgentId r, c) \<in> edges rs"
      using parentByChild_SomeD [OF climb_up.hyps(2)] by (auto simp: edges_def)
    ultimately have "(sm_agentId s, c) \<in> enabled_edges agents rootId rs"
      using climb_up.hyps by (auto simp: enabled_edges_def)
    with climb_up.IH show ?case by (rule rtrancl_into_rtrancl)
  qed simp
next
  assume "(rootId, a) \<in> (enabled_edges agents rootId rs)\<^sup>*"
  then show "\<exists>n. climbs agents (parentByChild rs) rootId a n"
  proof (induction rule: rtrancl_induct)
    case base
    show ?case using climb_root by blast
  next
    case (step p c)
    then obtain r s where "r \<in> set rs" "active r" "rl_parentAgentId r = p" "rl_childAgentId r = c"
      and c: "c \<noteq> rootId" "map_of agents p = Some s" "p = rootId \<or> sm_status s = ag_enabled"
      by (auto simp: enabled_edges_def edges_def)
    then have r: "map_of (parentByChild rs) c = Some r" "rl_parentAgentId r = p"
      using parentByChild_single [OF assms(1), of c r] by auto
    have p: "sm_agentId s = p" using c(2) assms(2) by (simp add: keyed_def)
    from step.IH obtain n where "climbs agents (parentByChild rs) rootId p n" by blast
    with r c p have "climbs agents (parentByChild rs) rootId c (Suc n)" by (intro climb_up [of _ _ _ r _ s]) auto
    then show ?case by blast
  qed
qed

section \<open>Properties\<close>

text \<open>C25. The descendants of an agent are exactly the agents reachable from it along active
  relationships, each listed once, on every set of relationships, cyclic ones included.\<close>

theorem descendants_exact:
  "set (descendantAgentIds H a rs) = {x. (a, x) \<in> (edges rs)\<^sup>+} \<and> distinct (descendantAgentIds H a rs)"
  by (simp add: descendantAgentIds_reachable) (simp add: descendantAgentIds_def desc_loop_distinct Let_def)

text \<open>The computed depth of an agent is its distance from the root of its tree, a detached tree
  counting as a child of the root, and it is infinite exactly when the parents of the agent
  run into a cycle.\<close>

theorem depth_exact:
  "(depthOf a rootId (parentByChild rs) = enat n \<longleftrightarrow> depth_is (parent_map (parentByChild rs)) rootId a n)
   \<and> (depthOf a rootId (parentByChild rs) = \<infinity> \<longleftrightarrow> (\<nexists>n. depth_is (parent_map (parentByChild rs)) rootId a n))"
  by (simp add: depthOf_iff depthOf_infinite_iff)

text \<open>An agent is an execution candidate exactly if it is known and enabled and is connected to
  the root through known and enabled agents, when no agent has two parents.\<close>

theorem candidate_iff_enabled_path:
  assumes "single_parent rs" and "keyed agents"
  shows "inactiveReasonFor a rootId agents rs = None \<longleftrightarrow>
    (\<exists>s. map_of agents a = Some s \<and> sm_status s = ag_enabled)
    \<and> (rootId, a) \<in> (enabled_edges agents rootId rs)\<^sup>*"
  using climbs_iff_reachable [OF assms] by (simp add: inactiveReasonFor_None_iff)

definition sample_agent :: "string \<Rightarrow> AgentEntityType \<Rightarrow> AgentHierarchyAgentSummary" where
  "sample_agent a k = \<lparr>sm_agentId = a, sm_agentType = k, sm_agentName = a, sm_status = ag_enabled,
     sm_source = source_db\<rparr>"

definition sample_relationship :: "string \<Rightarrow> string \<Rightarrow> AgentRelationship" where
  "sample_relationship p c = \<lparr>rl_edgeId = p @ ''->'' @ c, rl_parentAgentId = p, rl_childAgentId = c,
     rl_status = rel_active, rl_sortOrder = Num 0, rl_createdAt = None, rl_updatedAt = None\<rparr>"

theorem candidate_iff_enabled_path_witness:
  "inactiveReasonFor ''b'' ''r'' [(''r'', sample_agent ''r'' type_knowbee), (''a'', sample_agent ''a'' type_sub_agent),
      (''b'', sample_agent ''b'' type_sub_agent)]
     [sample_relationship ''r'' ''a'', sample_relationship ''a'' ''b''] = None"
proof -
  let ?agents = "[(''r'', sample_agent ''r'' type_knowbee), (''a'', sample_agent ''a'' type_sub_agent),
      (''b'', sample_agent ''b'' type_sub_agent)]"
  let ?rs = "[sample_relationship ''r'' ''a'', sample_relationship ''a'' ''b'']"
  have s: "single_parent ?rs" "keyed ?agents"
    by (auto simp: single_parent_def sample_relationship_def keyed_def sample_agent_def split: if_splits)
  have "(''r'', ''a'') \<in> enabled_edges ?agents ''r'' ?rs" "(''a'', ''b'') \<in> enabled_edges ?agents ''r'' ?rs"
    by (simp_all add: enabled_edges_def sample_relationship_def sample_agent_def)
  then have "(''r'', ''b'') \<in> (enabled_edges ?agents ''r'' ?rs)\<^sup>*" by (meson r_into_rtrancl rtrancl_trans)
  then show ?thesis
    unfolding candidate_iff_enabled_path [OF s] by (simp add: sample_agent_def)
qed

end
