(* ===== verification/Js_Values.thy ===== *)
theory Js_Values
  imports Prelude
begin

text \<open>
  The untyped values (\<open>unknown\<close> in the sources) that contracts validate and that \<open>JSON.parse\<close>
  returns, with the guards the sources share.
\<close>

datatype js =
    JsUndefined | JsNull | JsBool bool | JsNumber number | JsString string
  | JsArray "js list" | JsObject "(string \<times> js) list"

fun isRecord :: "js \<Rightarrow> bool" where
  "isRecord (JsObject _) = True"
| "isRecord _ = False"

text \<open>\<open>value.key\<close>, and \<open>"key" in value\<close>, of a value that is an object.\<close>

fun js_fields :: "js \<Rightarrow> (string \<times> js) list" where
  "js_fields (JsObject kvs) = kvs"
| "js_fields _ = []"

definition js_get :: "js \<Rightarrow> string \<Rightarrow> js" where
  "js_get v k = (case map_of (js_fields v) k of None \<Rightarrow> JsUndefined | Some x \<Rightarrow> x)"

definition js_has :: "js \<Rightarrow> string \<Rightarrow> bool" where
  "js_has v k \<longleftrightarrow> k \<in> fst ` set (js_fields v)"

fun asString :: "js \<Rightarrow> string option" where
  "asString (JsString s) = (if \<not> blank s then Some s else None)"
| "asString _ = None"

fun asFiniteNumber :: "js \<Rightarrow> number option" where
  "asFiniteNumber (JsNumber n) = (if is_finite_number n then Some n else None)"
| "asFiniteNumber _ = None"

end
