(* ===== verification/Relationship_Store.thy ===== *)
theory Relationship_Store
  imports Agent_Tree Js_Values
begin

text \<open>
  The relationship contract and the agent names of \<open>contracts/sub-agent-orchestration.ts\<close>, and the table of relationships of
  \<open>db/index.ts\<close> with the constraints of \<open>db/migrations.ts\<close>. What a client may rely on is the
  locale \<open>edge_store\<close>, interpreted on the table.
\<close>

section \<open>The relationship contract\<close>

record ContractValidationIssue =
  is_path :: string
  is_message :: string

fun relationship_status_name :: "AgentRelationshipStatus \<Rightarrow> string" where
  "relationship_status_name rel_active = ''active''"
| "relationship_status_name rel_disabled = ''disabled''"
| "relationship_status_name rel_archived = ''archived''"

definition AGENT_RELATIONSHIP_STATUSES :: "AgentRelationshipStatus list" where
  "AGENT_RELATIONSHIP_STATUSES = [rel_active, rel_disabled, rel_archived]"

definition hasNonEmptyString :: "js \<Rightarrow> string \<Rightarrow> string \<Rightarrow> ContractValidationIssue list" where
  "hasNonEmptyString rec key path =
     (case js_get rec key of
        JsString s \<Rightarrow> if \<not> blank s then []
          else [\<lparr>is_path = path @ ''.'' @ key, is_message = key @ '' must be a non-empty string.''\<rparr>]
      | _ \<Rightarrow> [\<lparr>is_path = path @ ''.'' @ key, is_message = key @ '' must be a non-empty string.''\<rparr>])"

definition hasFiniteNumber_min0 :: "js \<Rightarrow> string \<Rightarrow> string \<Rightarrow> ContractValidationIssue list" where
  "hasFiniteNumber_min0 rec key path =
     (let issue = \<lparr>is_path = path @ ''.'' @ key,
            is_message = key @ '' must be a finite number greater than or equal to 0.''\<rparr>
      in case js_get rec key of
        JsNumber n \<Rightarrow> if is_finite_number n \<and> num_le (Num 0) n then [] else [issue]
      | _ \<Rightarrow> [issue])"

text \<open>The issues of a value; none means that it is accepted.\<close>

definition validateAgentRelationship :: "js \<Rightarrow> ContractValidationIssue list" where
  "validateAgentRelationship value =
     (if \<not> isRecord value
      then [\<lparr>is_path = ''$'', is_message = ''AgentRelationship must be an object.''\<rparr>]
      else hasNonEmptyString value ''edgeId'' ''$''
        @ hasNonEmptyString value ''parentAgentId'' ''$''
        @ hasNonEmptyString value ''childAgentId'' ''$''
        @ (if js_get value ''relationshipType'' \<noteq> JsString ''parent_child''
           then [\<lparr>is_path = ''$.relationshipType'', is_message = ''relationshipType must be parent_child.''\<rparr>]
           else [])
        @ (case (js_get value ''parentAgentId'', js_get value ''childAgentId'') of
             (JsString p, JsString c) \<Rightarrow>
               if p = c then [\<lparr>is_path = ''$.childAgentId'',
                 is_message = ''parentAgentId and childAgentId must be different.''\<rparr>] else []
           | _ \<Rightarrow> [])
        @ (case js_get value ''status'' of
             JsString s \<Rightarrow> if s \<in> relationship_status_name ` set AGENT_RELATIONSHIP_STATUSES then []
               else [\<lparr>is_path = ''$.status'', is_message = ''status must be active, disabled, or archived.''\<rparr>]
           | _ \<Rightarrow> [\<lparr>is_path = ''$.status'', is_message = ''status must be active, disabled, or archived.''\<rparr>])
        @ hasFiniteNumber_min0 value ''sortOrder'' ''$'')"

text \<open>A typed relationship as the object that is validated.\<close>

definition relationship_js :: "AgentRelationship \<Rightarrow> js" where
  "relationship_js r = JsObject
     [(''edgeId'', JsString (rl_edgeId r)), (''parentAgentId'', JsString (rl_parentAgentId r)),
      (''childAgentId'', JsString (rl_childAgentId r)), (''relationshipType'', JsString ''parent_child''),
      (''status'', JsString (relationship_status_name (rl_status r))),
      (''sortOrder'', JsNumber (rl_sortOrder r)),
      (''createdAt'', (case rl_createdAt r of None \<Rightarrow> JsUndefined | Some n \<Rightarrow> JsNumber n)),
      (''updatedAt'', (case rl_updatedAt r of None \<Rightarrow> JsUndefined | Some n \<Rightarrow> JsNumber n))]"

lemma validate_typed_relationship:
  "validateAgentRelationship (relationship_js r) = [] \<longleftrightarrow>
     \<not> blank (rl_edgeId r) \<and> \<not> blank (rl_parentAgentId r) \<and> \<not> blank (rl_childAgentId r)
     \<and> rl_parentAgentId r \<noteq> rl_childAgentId r
     \<and> is_finite_number (rl_sortOrder r) \<and> num_le (Num 0) (rl_sortOrder r)"
proof -
  have "relationship_status_name (rl_status r) \<in> relationship_status_name ` set AGENT_RELATIONSHIP_STATUSES"
    by (cases "rl_status r") (simp_all add: AGENT_RELATIONSHIP_STATUSES_def)
  then show ?thesis
    by (auto simp: validateAgentRelationship_def relationship_js_def hasNonEmptyString_def
        hasFiniteNumber_min0_def js_get_def Let_def simp del: image_iff)
qed

section \<open>Agent names\<close>

text \<open>\<open>value.trim().replace(/\s+/gu, " ")\<close>.\<close>

function collapse_ws :: "string \<Rightarrow> string" where
  "collapse_ws [] = []"
| "collapse_ws (c # cs) =
     (if js_ws c then CHR '' '' # collapse_ws (dropWhile js_ws cs) else c # collapse_ws cs)"
  by pat_completeness auto
termination collapse_ws
  by (relation "measure length") (simp_all add: le_imp_less_Suc length_dropWhile_le)

definition collapseAgentNameWhitespace :: "string \<Rightarrow> string" where
  "collapseAgentNameWhitespace value = collapse_ws (js_trim value)"

definition normalizeAgentNameSnapshot :: "string \<Rightarrow> string" where
  "normalizeAgentNameSnapshot value = collapseAgentNameWhitespace value"

definition normalizeAgentName :: "string \<Rightarrow> string" where
  "normalizeAgentName value = map lower_char (collapseAgentNameWhitespace value)"

definition DEFAULT_KNOWBEE_AGENT_NAME :: string where
  "DEFAULT_KNOWBEE_AGENT_NAME = ''Knowbee''"

definition resolveAgentConfigAgentName :: "AgentEntityType \<Rightarrow> string option \<Rightarrow> string" where
  "resolveAgentConfigAgentName agentType name =
     (let agentName = normalizeAgentNameSnapshot (case name of None \<Rightarrow> [] | Some n \<Rightarrow> n)
      in if agentName \<noteq> [] then agentName
         else if agentType = type_knowbee then DEFAULT_KNOWBEE_AGENT_NAME else ''Unnamed sub-agent'')"

record AgentNameNamespaceEntry =
  nn_entityType :: AgentEntityType
  nn_entityId :: string
  nn_agentNameSnapshot :: string

record AgentNameNamespaceConflict =
  nc_normalizedAgentName :: string
  nc_existing :: AgentNameNamespaceEntry
  nc_attempted :: AgentNameNamespaceEntry

fun name_conflict_loop ::
  "(string \<times> AgentNameNamespaceEntry) list \<Rightarrow> AgentNameNamespaceEntry list \<Rightarrow> AgentNameNamespaceConflict option" where
  "name_conflict_loop seen [] = None"
| "name_conflict_loop seen (entry # entries) =
     (let normalizedAgentName = normalizeAgentName (nn_agentNameSnapshot entry) in
      if normalizedAgentName = [] then name_conflict_loop seen entries
      else case map_of seen normalizedAgentName of
        Some existing \<Rightarrow>
          if nn_entityType existing \<noteq> nn_entityType entry \<or> nn_entityId existing \<noteq> nn_entityId entry
          then Some \<lparr>nc_normalizedAgentName = normalizedAgentName, nc_existing = existing, nc_attempted = entry\<rparr>
          else name_conflict_loop (AList.update normalizedAgentName entry seen) entries
      | None \<Rightarrow> name_conflict_loop (AList.update normalizedAgentName entry seen) entries)"

definition findAgentNameNamespaceConflict :: "AgentNameNamespaceEntry list \<Rightarrow> AgentNameNamespaceConflict option" where
  "findAgentNameNamespaceConflict entries = name_conflict_loop [] entries"

section \<open>The table of relationships\<close>

record DbAgentRelationship =
  db_edge_id :: string
  db_parent_agent_id :: string
  db_child_agent_id :: string
  db_status :: AgentRelationshipStatus
  db_sort_order :: number
  db_schema_version :: nat
  db_audit_id :: "string option"
  db_created_at :: number
  db_updated_at :: number

definition SUB_AGENT_CONTRACT_SCHEMA_VERSION :: nat where
  "SUB_AGENT_CONTRACT_SCHEMA_VERSION = 1"

text \<open>\<open>UNIQUE(parent_agent_id, child_agent_id, relationship_type)\<close> and the primary key.\<close>

definition row_pair :: "DbAgentRelationship \<Rightarrow> string \<times> string" where
  "row_pair row = (db_parent_agent_id row, db_child_agent_id row)"

definition table_ok :: "DbAgentRelationship list \<Rightarrow> bool" where
  "table_ok rows \<longleftrightarrow> distinct (map db_edge_id rows) \<and> distinct (map row_pair rows)"

definition UNIQUE_FAILED :: string where
  "UNIQUE_FAILED = ''UNIQUE constraint failed: agent_relationships.parent_agent_id, agent_relationships.child_agent_id, agent_relationships.relationship_type''"

text \<open>The \<open>INSERT ... ON CONFLICT(edge_id) DO UPDATE\<close>: the creation time of an existing row is kept;
  a violated uniqueness constraint aborts the statement.\<close>

definition insert_or_update :: "DbAgentRelationship \<Rightarrow> DbAgentRelationship list \<Rightarrow> string + DbAgentRelationship list" where
  "insert_or_update new rows =
     (let rows' = (if db_edge_id new \<in> set (map db_edge_id rows)
        then map (\<lambda>row. if db_edge_id row = db_edge_id new then new\<lparr>db_created_at := db_created_at row\<rparr> else row) rows
        else rows @ [new])
      in if distinct (map row_pair rows') then Inr rows' else Inl UNIQUE_FAILED)"

text \<open>The guard \<open>assertMigrationWriteAllowed\<close> reads the migration lock; \<open>lock\<close> is its message, if any.
  \<open>options.now\<close> is given by every caller modelled here.\<close>

definition upsertAgentRelationship ::
  "string option \<Rightarrow> AgentRelationship \<Rightarrow> string option \<Rightarrow> number \<Rightarrow> DbAgentRelationship list
     \<Rightarrow> string + DbAgentRelationship list" where
  "upsertAgentRelationship lock input auditId now rows =
     (case lock of
        Some message \<Rightarrow> Inl (message @ '' (agent.relationship.upsert)'')
      | None \<Rightarrow> insert_or_update
          \<lparr>db_edge_id = rl_edgeId input, db_parent_agent_id = rl_parentAgentId input,
           db_child_agent_id = rl_childAgentId input, db_status = rl_status input,
           db_sort_order = rl_sortOrder input, db_schema_version = SUB_AGENT_CONTRACT_SCHEMA_VERSION,
           db_audit_id = auditId,
           db_created_at = (case rl_createdAt input of None \<Rightarrow> now | Some t \<Rightarrow> t),
           db_updated_at = now\<rparr> rows)"

definition getAgentRelationship :: "string \<Rightarrow> DbAgentRelationship list \<Rightarrow> DbAgentRelationship option" where
  "getAgentRelationship edgeId rows = List.find (\<lambda>row. db_edge_id row = edgeId) rows"

definition row_order :: "DbAgentRelationship \<Rightarrow> DbAgentRelationship \<Rightarrow> int" where
  "row_order a b = or_else (codeUnitCompare (db_parent_agent_id a) (db_parent_agent_id b))
     (or_else (number_compare (db_sort_order a) (db_sort_order b)) (codeUnitCompare (db_edge_id a) (db_edge_id b)))"

text \<open>An absent or empty agent filter selects every row.\<close>

definition id_filter :: "string option \<Rightarrow> string \<Rightarrow> bool" where
  "id_filter wanted agentId = (case wanted of None \<Rightarrow> True | Some w \<Rightarrow> w = [] \<or> agentId = w)"

definition listAgentRelationships ::
  "string option \<Rightarrow> string option \<Rightarrow> AgentRelationshipStatus option \<Rightarrow> DbAgentRelationship list
     \<Rightarrow> DbAgentRelationship list" where
  "listAgentRelationships parentAgentId childAgentId status rows =
     sort_by row_order (filter (\<lambda>row. id_filter parentAgentId (db_parent_agent_id row)
       \<and> id_filter childAgentId (db_child_agent_id row)
       \<and> (case status of None \<Rightarrow> True | Some s \<Rightarrow> db_status row = s)) rows)"

definition relationshipFromRow :: "DbAgentRelationship \<Rightarrow> AgentRelationship" where
  "relationshipFromRow row = \<lparr>rl_edgeId = db_edge_id row, rl_parentAgentId = db_parent_agent_id row,
     rl_childAgentId = db_child_agent_id row, rl_status = db_status row, rl_sortOrder = db_sort_order row,
     rl_createdAt = Some (db_created_at row), rl_updatedAt = Some (db_updated_at row)\<rparr>"

section \<open>What a client may rely on\<close>

text \<open>
  A store of relationships: \<open>content\<close> is what it holds, \<open>put\<close> replaces the relationship with the
  same edge id or adds it (and may refuse). Only the time stamps of the stored copy may differ.
\<close>

definition same_link :: "AgentRelationship \<Rightarrow> AgentRelationship \<Rightarrow> bool" where
  "same_link r r' \<longleftrightarrow> rl_edgeId r' = rl_edgeId r \<and> rl_parentAgentId r' = rl_parentAgentId r
     \<and> rl_childAgentId r' = rl_childAgentId r \<and> rl_status r' = rl_status r \<and> rl_sortOrder r' = rl_sortOrder r"

locale edge_store =
  fixes content :: "'s \<Rightarrow> AgentRelationship list"
    and put :: "AgentRelationship \<Rightarrow> 's \<Rightarrow> 's option"
    and inv :: "'s \<Rightarrow> bool"
  assumes distinct_content: "inv s \<Longrightarrow> distinct (map rl_edgeId (content s))"
    and put_inv: "inv s \<Longrightarrow> put r s = Some s' \<Longrightarrow> inv s'"
    and put_content: "inv s \<Longrightarrow> put r s = Some s' \<Longrightarrow>
      \<exists>r'. same_link r r' \<and> mset (content s') =
        add_mset r' (mset (filter (\<lambda>x. rl_edgeId x \<noteq> rl_edgeId r) (content s)))"
begin

lemma put_edges:
  assumes "inv s" and "put r s = Some s'"
  shows "edges (content s') = edges (filter (\<lambda>x. rl_edgeId x \<noteq> rl_edgeId r) (content s))
    \<union> (if active r then {(rl_parentAgentId r, rl_childAgentId r)} else {})"
proof -
  obtain r' where r': "same_link r r'" and c: "mset (content s') =
      add_mset r' (mset (filter (\<lambda>x. rl_edgeId x \<noteq> rl_edgeId r) (content s)))"
    using put_content [OF assms] by blast
  have set: "set (content s') = insert r' (set (filter (\<lambda>x. rl_edgeId x \<noteq> rl_edgeId r) (content s)))"
    using c by (metis set_mset_add_mset_insert set_mset_mset)
  have "edges (content s') = edges (r' # filter (\<lambda>x. rl_edgeId x \<noteq> rl_edgeId r) (content s))"
    unfolding edges_def set by auto
  with r' show ?thesis by (simp add: same_link_def)
qed

lemma put_single_parent:
  assumes "inv s" and "put r s = Some s'" and "single_parent (content s)"
    and "active r \<Longrightarrow> \<forall>x \<in> set (content s). active x \<and> rl_edgeId x \<noteq> rl_edgeId r \<longrightarrow>
      rl_childAgentId x \<noteq> rl_childAgentId r"
  shows "single_parent (content s')"
proof -
  obtain r' where r': "same_link r r'" and c: "mset (content s') =
      add_mset r' (mset (filter (\<lambda>x. rl_edgeId x \<noteq> rl_edgeId r) (content s)))"
    using put_content [OF assms(1,2)] by blast
  have "single_parent (filter (\<lambda>x. rl_edgeId x \<noteq> rl_edgeId r) (content s))"
    by (rule single_parent_subset [OF assms(3)]) (use distinct_content [OF assms(1)] in \<open>auto simp: distinct_map\<close>)
  then have "single_parent (r' # filter (\<lambda>x. rl_edgeId x \<noteq> rl_edgeId r) (content s))"
    using assms(4) r' by (auto simp: single_parent_def same_link_def)
  moreover have "mset (map rl_childAgentId (filter active (content s')))
      = mset (map rl_childAgentId (filter active (r' # filter (\<lambda>x. rl_edgeId x \<noteq> rl_edgeId r) (content s))))"
    using c by (simp add: mset_filter filter_filter_mset conj_commute)
  ultimately show ?thesis unfolding single_parent_def using mset_eq_imp_distinct_iff by blast
qed

lemma put_children:
  assumes "inv s" and "put r s = Some s'"
  shows "{c. (p, c) \<in> edges (content s')} \<subseteq> {c. (p, c) \<in> edges (content s)}
    \<or> active r \<and> p = rl_parentAgentId r \<and> {c. (p, c) \<in> edges (content s')}
        = insert (rl_childAgentId r) {c. (p, c) \<in> edges (filter (\<lambda>x. rl_edgeId x \<noteq> rl_edgeId r) (content s))}"
  using put_edges [OF assms] edges_mono [of "filter (\<lambda>x. rl_edgeId x \<noteq> rl_edgeId r) (content s)" "content s"]
  by auto

text \<open>A relationship that is not active can only detach agents, so everyone stays placed.\<close>

lemma put_inactive_placed:
  assumes "inv s" and "put r s = Some s'" and "single_parent (content s)" and "\<not> active r"
    and "placed limit rootId (content s)"
  shows "placed limit rootId (content s')"
proof (rule placed_subset [OF assms(5,3)])
  show "single_parent (content s')" using put_single_parent [OF assms(1-3)] assms(4) by blast
  show "edges (content s') \<subseteq> edges (content s)"
    using put_edges [OF assms(1,2)] assms(4) edges_mono [of "filter (\<lambda>x. rl_edgeId x \<noteq> rl_edgeId r) (content s)" "content s"]
    by auto
qed

lemma put_active_placed:
  assumes "inv s" and "put r s = Some s'" and "single_parent (content s)" and "single_parent (content s')"
    and "active r" and "placed limit rootId (content s)"
    and "\<And>x. x = rl_childAgentId r \<or> (rl_childAgentId r, x) \<in> (edges (content s'))\<^sup>+ \<Longrightarrow>
      \<exists>n \<le> limit. depth_is (parent_map (parentByChild (content s'))) rootId x n"
  shows "placed limit rootId (content s')"
proof -
  let ?rest = "filter (\<lambda>x. rl_edgeId x \<noteq> rl_edgeId r) (content s)"
  have rest: "single_parent ?rest"
    by (rule single_parent_subset [OF assms(3)]) (use distinct_content [OF assms(1)] in \<open>auto simp: distinct_map\<close>)
  have "placed limit rootId ?rest"
    by (rule placed_subset [OF assms(6,3) rest edges_mono]) auto
  then show ?thesis
    by (rule placed_add [OF _ rest assms(4) _ assms(7)]) (use put_edges [OF assms(1,2)] assms(5) in auto)
qed

end

text \<open>The table is such a store.\<close>

definition table_content :: "DbAgentRelationship list \<Rightarrow> AgentRelationship list" where
  "table_content rows = map relationshipFromRow rows"

definition table_put :: "string option \<Rightarrow> number \<Rightarrow> AgentRelationship \<Rightarrow> DbAgentRelationship list \<Rightarrow> DbAgentRelationship list option" where
  "table_put audit now r rows =
     (case upsertAgentRelationship None r audit now rows of Inl _ \<Rightarrow> None | Inr rows' \<Rightarrow> Some rows')"

lemma map_update_mset:
  assumes "distinct (map f rows)" and "x \<in> set rows" and "f x = k"
  shows "mset (map (\<lambda>row. if f row = k then g row else row) rows) = add_mset (g x) (mset (filter (\<lambda>row. f row \<noteq> k) rows))"
  using assms
proof (induction rows)
  case (Cons y ys)
  show ?case
  proof (cases "f y = k")
    case True
    with Cons.prems have "f y \<notin> f ` set ys" "y = x" by (auto intro: ccontr)
    with True have "\<forall>z \<in> set ys. f z \<noteq> k" by (metis imageI)
    then have "map (\<lambda>row. if f row = k then g row else row) ys = ys" "filter (\<lambda>row. f row \<noteq> k) ys = ys"
      by (auto intro: map_idI simp: filter_id_conv)
    with True \<open>y = x\<close> show ?thesis by simp
  next
    case False
    with Cons have "x \<in> set ys" by auto
    with Cons False show ?thesis by simp
  qed
qed simp

lemma insert_or_update_InrD:
  assumes "insert_or_update new rows = Inr rows'" and "table_ok rows"
  shows "table_ok rows' \<and> (\<exists>t. mset rows' =
    add_mset (new\<lparr>db_created_at := t\<rparr>) (mset (filter (\<lambda>row. db_edge_id row \<noteq> db_edge_id new) rows)))"
proof (cases "db_edge_id new \<in> set (map db_edge_id rows)")
  case True
  then obtain x where x: "x \<in> set rows" "db_edge_id x = db_edge_id new" by auto
  let ?rows = "map (\<lambda>row. if db_edge_id row = db_edge_id new then new\<lparr>db_created_at := db_created_at row\<rparr> else row) rows"
  from assms True have r: "rows' = ?rows" "distinct (map row_pair rows')"
    by (auto simp: insert_or_update_def Let_def split: if_splits)
  have "map db_edge_id rows' = map db_edge_id rows" unfolding r(1) by auto
  with r(2) assms(2) have "table_ok rows'" by (simp only: table_ok_def)
  moreover have "mset rows' = add_mset (new\<lparr>db_created_at := db_created_at x\<rparr>)
      (mset (filter (\<lambda>row. db_edge_id row \<noteq> db_edge_id new) rows))"
    unfolding r(1) by (rule map_update_mset) (use assms(2) x in \<open>simp_all add: table_ok_def\<close>)
  ultimately show ?thesis by blast
next
  case False
  with assms have r: "rows' = rows @ [new]" "distinct (map row_pair rows')"
    by (auto simp: insert_or_update_def Let_def split: if_splits)
  have "filter (\<lambda>row. db_edge_id row \<noteq> db_edge_id new) rows = rows"
    using False by (metis (mono_tags, lifting) filter_True image_eqI list.set_map)
  then have "mset rows' = add_mset (new\<lparr>db_created_at := db_created_at new\<rparr>)
      (mset (filter (\<lambda>row. db_edge_id row \<noteq> db_edge_id new) rows))"
    using r(1) by simp
  moreover have "table_ok rows'" using r assms(2) False by (auto simp: table_ok_def)
  ultimately show ?thesis by blast
qed

interpretation table: edge_store table_content "table_put audit now" table_ok for audit now
proof unfold_locales
  show "distinct (map rl_edgeId (table_content rows))" if "table_ok rows" for rows
    using that by (simp add: table_content_def table_ok_def comp_def relationshipFromRow_def)
next
  fix rows rows' :: "DbAgentRelationship list" and r
  assume ok: "table_ok rows" and put: "table_put audit now r rows = Some rows'"
  let ?new = "\<lparr>db_edge_id = rl_edgeId r, db_parent_agent_id = rl_parentAgentId r,
           db_child_agent_id = rl_childAgentId r, db_status = rl_status r,
           db_sort_order = rl_sortOrder r, db_schema_version = SUB_AGENT_CONTRACT_SCHEMA_VERSION,
           db_audit_id = audit,
           db_created_at = (case rl_createdAt r of None \<Rightarrow> now | Some t \<Rightarrow> t),
           db_updated_at = now\<rparr>"
  have ins: "insert_or_update ?new rows = Inr rows'"
    using put by (auto simp: table_put_def upsertAgentRelationship_def split: sum.splits)
  note D = insert_or_update_InrD [OF ins ok]
  show "table_ok rows'" using D by blast
  obtain t where t: "mset rows' = add_mset (?new\<lparr>db_created_at := t\<rparr>)
      (mset (filter (\<lambda>row. db_edge_id row \<noteq> rl_edgeId r) rows))" using D by auto
  have "filter (\<lambda>x. rl_edgeId x \<noteq> rl_edgeId r) (table_content rows)
      = table_content (filter (\<lambda>row. db_edge_id row \<noteq> rl_edgeId r) rows)"
    by (simp add: table_content_def filter_map comp_def relationshipFromRow_def)
  then have "mset (table_content rows') = add_mset (relationshipFromRow (?new\<lparr>db_created_at := t\<rparr>))
      (mset (filter (\<lambda>x. rl_edgeId x \<noteq> rl_edgeId r) (table_content rows)))"
    using t by (simp add: table_content_def)
  moreover have "same_link r (relationshipFromRow (?new\<lparr>db_created_at := t\<rparr>))"
    by (simp add: same_link_def relationshipFromRow_def)
  ultimately show "\<exists>r'. same_link r r' \<and> mset (table_content rows') =
      add_mset r' (mset (filter (\<lambda>x. rl_edgeId x \<noteq> rl_edgeId r) (table_content rows)))" by blast
qed

end
