(* ===== verification/Agent_Hierarchy.thy ===== *)
theory Agent_Hierarchy
  imports Relationship_Store Machines
begin

text \<open>
  The agent hierarchy service of \<open>orchestration/hierarchy.ts\<close>: validation, creation and disabling
  of relationships on the table of \<open>Relationship_Store\<close>, the queries on the tree, its projection
  and the layout preference. The service reads the registry of agents (\<open>orchestration/registry.ts\<close>,
  not modelled), the configuration, the clock and the migration lock; they are arguments.
\<close>

section \<open>Environment\<close>

record AgentConfig =
  ac_agentId :: string
  ac_agentType :: AgentEntityType
  ac_agentName :: "string option"
  ac_status :: AgentStatus

record AgentHierarchyServiceDependencies =
  dep_rootAgentId :: "string option"
  dep_maxDepth :: "number option"
  dep_maxChildCount :: "number option"
  dep_knowbee :: "AgentConfig option"
  dep_maxDelegationTurns :: "number option"
  dep_registry_snapshot :: "(AgentConfig \<times> AgentSource) list"
  dep_registry_list :: "AgentConfig list"

definition DEFAULT_ROOT_AGENT_ID :: string where
  "DEFAULT_ROOT_AGENT_ID = ''agent:knowbee''"

definition DEFAULT_MAX_DEPTH :: nat where
  "DEFAULT_MAX_DEPTH = 5"

definition DEFAULT_MAX_CHILD_COUNT :: nat where
  "DEFAULT_MAX_CHILD_COUNT = 10"

definition rootAgentId :: "AgentHierarchyServiceDependencies \<Rightarrow> string" where
  "rootAgentId env = (case dep_rootAgentId env of
       Some r \<Rightarrow> r
     | None \<Rightarrow> (case dep_knowbee env of Some k \<Rightarrow> ac_agentId k | None \<Rightarrow> DEFAULT_ROOT_AGENT_ID))"

definition positiveIntegerOrDefault :: "number option \<Rightarrow> nat \<Rightarrow> nat" where
  "positiveIntegerOrDefault value fallback = (case value of
       Some (Num q) \<Rightarrow> if is_integer_number (Num q) \<and> q > 0 then nat \<lfloor>q\<rfloor> else fallback
     | _ \<Rightarrow> fallback)"

definition maxDepth :: "AgentHierarchyServiceDependencies \<Rightarrow> nat" where
  "maxDepth env = positiveIntegerOrDefault
     (case dep_maxDepth env of Some d \<Rightarrow> Some d | None \<Rightarrow> dep_maxDelegationTurns env) DEFAULT_MAX_DEPTH"

definition maxChildCount :: "AgentHierarchyServiceDependencies \<Rightarrow> number" where
  "maxChildCount env = (case dep_maxChildCount env of
     Some n \<Rightarrow> n | None \<Rightarrow> Num (of_nat DEFAULT_MAX_CHILD_COUNT))"

definition agentFromConfig :: "AgentConfig \<Rightarrow> AgentSource \<Rightarrow> AgentHierarchyAgentSummary" where
  "agentFromConfig config source = \<lparr>sm_agentId = ac_agentId config, sm_agentType = ac_agentType config,
     sm_agentName = resolveAgentConfigAgentName (ac_agentType config) (ac_agentName config),
     sm_status = ac_status config, sm_source = source\<rparr>"

definition put_agent :: "AgentConfig \<Rightarrow> AgentSource \<Rightarrow> (string \<times> AgentHierarchyAgentSummary) list
    \<Rightarrow> (string \<times> AgentHierarchyAgentSummary) list" where
  "put_agent config source result = AList.update (ac_agentId config) (agentFromConfig config source) result"

definition agentSummaries :: "AgentHierarchyServiceDependencies \<Rightarrow> (string \<times> AgentHierarchyAgentSummary) list" where
  "agentSummaries env =
     (let fromSnapshot = foldl (\<lambda>m (config, source). put_agent config source m) [] (dep_registry_snapshot env);
          fromList = foldl (\<lambda>m config. put_agent config source_db m) fromSnapshot (dep_registry_list env);
          withRoot = (case dep_knowbee env of None \<Rightarrow> fromList | Some knowbee \<Rightarrow> put_agent knowbee source_config fromList)
      in if rootAgentId env \<in> set (map fst withRoot) then withRoot
         else AList.update (rootAgentId env) \<lparr>sm_agentId = rootAgentId env, sm_agentType = type_knowbee,
           sm_agentName = DEFAULT_KNOWBEE_AGENT_NAME, sm_status = ag_enabled, sm_source = source_synthetic\<rparr> withRoot)"

section \<open>Diagnostics\<close>

datatype HierarchyDiagnosticSeverity = sev_info | sev_warning | sev_blocked

record AgentHierarchyDiagnostic =
  dg_reasonCode :: string
  dg_severity :: HierarchyDiagnosticSeverity
  dg_message :: string
  dg_edgeId :: "string option"
  dg_parentAgentId :: "string option"
  dg_childAgentId :: "string option"
  dg_limit :: "number option"
  dg_value :: "number option"
  dg_path :: "string option"

text \<open>The relationship an untyped input is normalised to: the fields the code casts without a check
  keep the untyped value until the contract has accepted it.\<close>

record RawRelationship =
  raw_edgeId :: string
  raw_parentAgentId :: string
  raw_childAgentId :: string
  raw_relationshipType :: js
  raw_status :: js
  raw_sortOrder :: js
  raw_createdAt :: number
  raw_updatedAt :: number

record AgentHierarchyValidationResult =
  vr_ok :: bool
  vr_relationship :: "RawRelationship + AgentRelationship"
  vr_diagnostics :: "AgentHierarchyDiagnostic list"

definition asStatus :: "js \<Rightarrow> js option" where
  "asStatus value = (if value \<in> {JsString ''active'', JsString ''disabled'', JsString ''archived''}
     then Some value else None)"

definition defaultEdgeId :: "string \<Rightarrow> string \<Rightarrow> string" where
  "defaultEdgeId parentAgentId childAgentId = ''relationship:'' @ parentAgentId @ ''->'' @ childAgentId"

definition nodeIdForAgent :: "string \<Rightarrow> string" where
  "nodeIdForAgent agentId = ''agent:'' @ agentId"

definition or_default :: "'a option \<Rightarrow> 'a \<Rightarrow> 'a" where
  "or_default x d = (case x of None \<Rightarrow> d | Some y \<Rightarrow> y)"

definition normalizeRelationshipInput :: "js \<Rightarrow> number \<Rightarrow> nat \<Rightarrow> RawRelationship" where
  "normalizeRelationshipInput input now nextSortOrder =
     (let value = (if isRecord input then input else JsObject []);
          parentAgentId = or_default (asString (js_get value ''parentAgentId'')) [];
          childAgentId = or_default (asString (js_get value ''childAgentId'')) [];
          sortOrder = (if js_has value ''sortOrder'' then js_get value ''sortOrder''
                       else JsNumber (Num (of_nat nextSortOrder)))
      in \<lparr>raw_edgeId = or_default (asString (js_get value ''edgeId''))
            (if parentAgentId \<noteq> [] \<and> childAgentId \<noteq> [] then defaultEdgeId parentAgentId childAgentId else []),
          raw_parentAgentId = parentAgentId,
          raw_childAgentId = childAgentId,
          raw_relationshipType = (if js_has value ''relationshipType'' then js_get value ''relationshipType''
            else JsString ''parent_child''),
          raw_status = or_default (asStatus (js_get value ''status''))
            (if js_has value ''status'' then js_get value ''status'' else JsString ''active''),
          raw_sortOrder = sortOrder,
          raw_createdAt = or_default (asFiniteNumber (js_get value ''createdAt'')) now,
          raw_updatedAt = or_default (asFiniteNumber (js_get value ''updatedAt'')) now\<rparr>)"

definition raw_js :: "RawRelationship \<Rightarrow> js" where
  "raw_js r = JsObject
     [(''edgeId'', JsString (raw_edgeId r)), (''parentAgentId'', JsString (raw_parentAgentId r)),
      (''childAgentId'', JsString (raw_childAgentId r)), (''relationshipType'', raw_relationshipType r),
      (''status'', raw_status r), (''sortOrder'', raw_sortOrder r),
      (''createdAt'', JsNumber (raw_createdAt r)), (''updatedAt'', JsNumber (raw_updatedAt r))]"

fun status_of_js :: "js \<Rightarrow> AgentRelationshipStatus option" where
  "status_of_js (JsString s) = (if s = ''active'' then Some rel_active
     else if s = ''disabled'' then Some rel_disabled else if s = ''archived'' then Some rel_archived else None)"
| "status_of_js _ = None"

fun number_of_js :: "js \<Rightarrow> number option" where
  "number_of_js (JsNumber n) = Some n"
| "number_of_js _ = None"

text \<open>The relationship of an accepted input.\<close>

definition typed_relationship :: "RawRelationship \<Rightarrow> AgentRelationship option" where
  "typed_relationship r = (case (status_of_js (raw_status r), number_of_js (raw_sortOrder r)) of
       (Some s, Some n) \<Rightarrow> Some \<lparr>rl_edgeId = raw_edgeId r, rl_parentAgentId = raw_parentAgentId r,
         rl_childAgentId = raw_childAgentId r, rl_status = s, rl_sortOrder = n,
         rl_createdAt = Some (raw_createdAt r), rl_updatedAt = Some (raw_updatedAt r)\<rparr>
     | _ \<Rightarrow> None)"

definition some_text :: "string \<Rightarrow> string option" where
  "some_text s = (if s = [] then None else Some s)"

definition contractIssueDiagnostic :: "ContractValidationIssue \<Rightarrow> RawRelationship \<Rightarrow> AgentHierarchyDiagnostic" where
  "contractIssueDiagnostic issue r =
     \<lparr>dg_reasonCode =
        (if is_path issue = ''$.childAgentId'' \<and> sublist ''different'' (is_message issue) then ''self_parent_blocked''
         else if is_path issue = ''$.status'' then ''invalid_relationship_status''
         else ''invalid_relationship_contract''),
      dg_severity = sev_blocked, dg_message = is_message issue,
      dg_edgeId = some_text (raw_edgeId r), dg_parentAgentId = some_text (raw_parentAgentId r),
      dg_childAgentId = some_text (raw_childAgentId r), dg_limit = None, dg_value = None,
      dg_path = Some (is_path issue)\<rparr>"

definition blocked_diagnostic ::
  "string \<Rightarrow> string \<Rightarrow> AgentRelationship \<Rightarrow> (number \<times> number) option \<Rightarrow> AgentHierarchyDiagnostic" where
  "blocked_diagnostic reasonCode message r limits =
     \<lparr>dg_reasonCode = reasonCode, dg_severity = sev_blocked, dg_message = message,
      dg_edgeId = Some (rl_edgeId r), dg_parentAgentId = Some (rl_parentAgentId r),
      dg_childAgentId = Some (rl_childAgentId r), dg_limit = map_option fst limits,
      dg_value = map_option snd limits, dg_path = None\<rparr>"

section \<open>Validation\<close>

definition activeRelationships :: "host \<Rightarrow> DbAgentRelationship list \<Rightarrow> AgentRelationship list" where
  "activeRelationships H rows =
     sort_by (relationshipSort H) (map relationshipFromRow (listAgentRelationships None None (Some rel_active) rows))"

definition relationshipWithDefaults :: "host \<Rightarrow> number \<Rightarrow> DbAgentRelationship list \<Rightarrow> js \<Rightarrow> RawRelationship" where
  "relationshipWithDefaults H now rows input =
     (let parentAgentId = (if isRecord input then asString (js_get input ''parentAgentId'') else None);
          nextSortOrder = (case parentAgentId of
            Some p \<Rightarrow> length (filter (\<lambda>r. rl_parentAgentId r = p) (activeRelationships H rows))
          | None \<Rightarrow> 0)
      in normalizeRelationshipInput input now nextSortOrder)"

definition enat_number :: "enat \<Rightarrow> number" where
  "enat_number e = (case e of enat n \<Rightarrow> Num (of_nat n) | \<infinity> \<Rightarrow> Infinity)"

definition show_enat :: "enat \<Rightarrow> string" where
  "show_enat e = (case e of enat n \<Rightarrow> show_nat n | \<infinity> \<Rightarrow> ''Infinity'')"

text \<open>The checks of an active relationship against the other active relationships.\<close>

definition nextChildCount :: "AgentRelationship list \<Rightarrow> AgentRelationship \<Rightarrow> string list" where
  "nextChildCount others r = set_add (js_set (map rl_childAgentId
     (filter (\<lambda>x. rl_parentAgentId x = rl_parentAgentId r) others))) (rl_childAgentId r)"

definition depth_violation :: "host \<Rightarrow> nat \<Rightarrow> string \<Rightarrow> AgentRelationship list \<Rightarrow> AgentRelationship \<Rightarrow> string option" where
  "depth_violation H limit rootId others r =
     (let future = sort_by (relationshipSort H) (others @ [r]);
          byChild = parentByChild future;
          affectedAgentIds = rl_childAgentId r # descendantAgentIds H (rl_childAgentId r) future
      in List.find (\<lambda>a. depthOf a rootId byChild > enat limit) affectedAgentIds)"

definition active_diagnostics ::
  "host \<Rightarrow> AgentHierarchyServiceDependencies \<Rightarrow> AgentRelationship list \<Rightarrow> AgentRelationship
     \<Rightarrow> AgentHierarchyDiagnostic list" where
  "active_diagnostics H env allActive r =
     (let others = filter (\<lambda>x. rl_edgeId x \<noteq> rl_edgeId r) allActive;
          duplicateRelationship = List.find (\<lambda>x. rl_parentAgentId x = rl_parentAgentId r
            \<and> rl_childAgentId x = rl_childAgentId r) others;
          existingParent = List.find (\<lambda>x. rl_childAgentId x = rl_childAgentId r) others;
          size = length (nextChildCount others r)
      in (if duplicateRelationship \<noteq> None
          then [blocked_diagnostic ''duplicate_relationship_blocked''
            (rl_parentAgentId r @ '' already has '' @ rl_childAgentId r @ '' as a direct child.'') r None] else [])
       @ (case existingParent of
            Some x \<Rightarrow> if rl_parentAgentId x \<noteq> rl_parentAgentId r
              then [blocked_diagnostic ''child_multi_parent_blocked''
                (rl_childAgentId r @ '' already has parent '' @ rl_parentAgentId x @ ''.'') r None] else []
          | None \<Rightarrow> [])
       @ (if num_lt (maxChildCount env) (Num (of_nat size))
          then [blocked_diagnostic ''max_child_count_exceeded''
            (rl_parentAgentId r @ '' would have '' @ show_nat size @ '' direct children.'') r
            (Some (maxChildCount env, Num (of_nat size)))] else [])
       @ (if hasPath H (rl_childAgentId r) (rl_parentAgentId r) others
          then [blocked_diagnostic ''cycle_detected'' ''Adding this relationship would create a cycle.'' r None] else [])
       @ (case depth_violation H (maxDepth env) (rootAgentId env) others r of
            None \<Rightarrow> []
          | Some a \<Rightarrow>
              let depth = depthOf a (rootAgentId env) (parentByChild (sort_by (relationshipSort H) (others @ [r])))
              in [blocked_diagnostic ''max_depth_exceeded''
                (a @ '' would be at hierarchy depth '' @ show_enat depth @ ''.'') r
                (Some (Num (of_nat (maxDepth env)), enat_number depth))]))"

definition typed_diagnostics ::
  "host \<Rightarrow> AgentHierarchyServiceDependencies \<Rightarrow> DbAgentRelationship list \<Rightarrow> AgentRelationship
     \<Rightarrow> AgentHierarchyDiagnostic list" where
  "typed_diagnostics H env rows r =
     (let agents = map fst (agentSummaries env)
      in (if rl_childAgentId r = rootAgentId env
          then [blocked_diagnostic ''knowbee_parent_forbidden''
            ''The root main agent must remain parentless and cannot be a child.'' r None] else [])
       @ (if rl_parentAgentId r \<notin> set agents
          then [blocked_diagnostic ''unknown_parent_agent''
            (''Parent agent '' @ rl_parentAgentId r @ '' is not defined.'') r None] else [])
       @ (if rl_childAgentId r \<notin> set agents
          then [blocked_diagnostic ''unknown_child_agent''
            (''Child agent '' @ rl_childAgentId r @ '' is not defined.'') r None] else [])
       @ (if active r then active_diagnostics H env (activeRelationships H rows) r else []))"

definition validateRelationship ::
  "host \<Rightarrow> AgentHierarchyServiceDependencies \<Rightarrow> number \<Rightarrow> DbAgentRelationship list \<Rightarrow> js
     \<Rightarrow> AgentHierarchyValidationResult" where
  "validateRelationship H env now rows input =
     (let raw = relationshipWithDefaults H now rows input;
          issues = validateAgentRelationship (raw_js raw)
      in case (issues, typed_relationship raw) of
           ([], Some r) \<Rightarrow>
             let diagnostics = typed_diagnostics H env rows r
             in \<lparr>vr_ok = list_all (\<lambda>d. dg_severity d \<noteq> sev_blocked) diagnostics,
                 vr_relationship = Inr r, vr_diagnostics = diagnostics\<rparr>
         | _ \<Rightarrow> \<lparr>vr_ok = False, vr_relationship = Inl raw,
                 vr_diagnostics = map (\<lambda>issue. contractIssueDiagnostic issue raw) issues\<rparr>)"

section \<open>Operations\<close>

definition createRelationship ::
  "host \<Rightarrow> AgentHierarchyServiceDependencies \<Rightarrow> string option \<Rightarrow> number \<Rightarrow> string option
     \<Rightarrow> DbAgentRelationship list \<Rightarrow> js \<Rightarrow> string + DbAgentRelationship list \<times> AgentHierarchyValidationResult" where
  "createRelationship H env lock now auditId rows input =
     (let result = validateRelationship H env now rows input
      in case vr_relationship result of
           Inr r \<Rightarrow>
             if \<not> vr_ok result then Inr (rows, result)
             else rbind (upsertAgentRelationship lock r auditId now rows) (\<lambda>rows'.
               let stored = getAgentRelationship (rl_edgeId r) rows'
               in Inr (rows', \<lparr>vr_ok = True,
                    vr_relationship = Inr (case stored of Some row \<Rightarrow> relationshipFromRow row | None \<Rightarrow> r),
                    vr_diagnostics = vr_diagnostics result\<rparr>))
         | Inl _ \<Rightarrow> Inr (rows, result))"

definition disableRelationship ::
  "string option \<Rightarrow> number \<Rightarrow> string option \<Rightarrow> DbAgentRelationship list \<Rightarrow> string
     \<Rightarrow> string + DbAgentRelationship list \<times> AgentRelationship option" where
  "disableRelationship lock now auditId rows edgeId =
     (case getAgentRelationship edgeId rows of
        None \<Rightarrow> Inr (rows, None)
      | Some row \<Rightarrow>
          let relationship = (relationshipFromRow row)\<lparr>rl_status := rel_disabled, rl_updatedAt := Some now\<rparr>;
              audit = (case auditId of Some a \<Rightarrow> Some a | None \<Rightarrow> db_audit_id row)
          in rbind (upsertAgentRelationship lock relationship audit now rows) (\<lambda>rows'.
               Inr (rows', Some (case getAgentRelationship edgeId rows' of
                 Some stored \<Rightarrow> relationshipFromRow stored | None \<Rightarrow> relationship))))"

definition relationships :: "host \<Rightarrow> DbAgentRelationship list \<Rightarrow> AgentRelationship list" where
  "relationships H rows = sort_by (relationshipSort H) (map relationshipFromRow (listAgentRelationships None None None rows))"

definition get_relationship :: "DbAgentRelationship list \<Rightarrow> string \<Rightarrow> AgentRelationship option" where
  "get_relationship rows edgeId = map_option relationshipFromRow (getAgentRelationship edgeId rows)"

record DirectChildProjection =
  dc_relationship :: AgentRelationship
  dc_agent :: "AgentHierarchyAgentSummary option"
  dc_isExecutionCandidate :: bool
  dc_blockedReason :: "string option"

definition directChildren ::
  "host \<Rightarrow> AgentHierarchyServiceDependencies \<Rightarrow> DbAgentRelationship list \<Rightarrow> string \<Rightarrow> DirectChildProjection list" where
  "directChildren H env rows parentAgentId =
     (let agents = agentSummaries env; allActive = activeRelationships H rows
      in map (\<lambda>r. let blockedReason = inactiveReasonFor (rl_childAgentId r) (rootAgentId env) agents allActive
           in \<lparr>dc_relationship = r, dc_agent = map_of agents (rl_childAgentId r),
               dc_isExecutionCandidate = (blockedReason = None), dc_blockedReason = blockedReason\<rparr>)
         (sort_by (relationshipSort H) (filter (\<lambda>r. rl_parentAgentId r = parentAgentId) allActive)))"

definition ancestors ::
  "host \<Rightarrow> AgentHierarchyServiceDependencies \<Rightarrow> DbAgentRelationship list \<Rightarrow> string
     \<Rightarrow> AgentHierarchyAgentSummary list" where
  "ancestors H env rows agentId =
     ancestor_loop (agentSummaries env) (parentByChild (activeRelationships H rows)) agentId []"

definition descendants ::
  "host \<Rightarrow> AgentHierarchyServiceDependencies \<Rightarrow> DbAgentRelationship list \<Rightarrow> string
     \<Rightarrow> AgentHierarchyAgentSummary list" where
  "descendants H env rows agentId =
     List.map_filter (map_of (agentSummaries env)) (descendantAgentIds H agentId (activeRelationships H rows))"

definition topLevelSubAgents ::
  "host \<Rightarrow> AgentHierarchyServiceDependencies \<Rightarrow> DbAgentRelationship list \<Rightarrow> AgentHierarchyAgentSummary list" where
  "topLevelSubAgents H env rows =
     sort_by (\<lambda>l r. localeCompare H (sm_agentId l) (sm_agentId r))
       (filter (\<lambda>a. sm_agentType a = type_sub_agent)
         (List.map_filter (\<lambda>r. map_of (agentSummaries env) (rl_childAgentId r))
           (filter (\<lambda>r. rl_parentAgentId r = rootAgentId env) (activeRelationships H rows))))"

section \<open>Projection\<close>

record NodeMetadata =
  md_agentType :: AgentEntityType
  md_source :: AgentSource
  md_root :: bool
  md_topLevel :: bool
  md_depth :: "enat option"
  md_executionCandidate :: bool
  md_blockedReason :: "string option"

record RelationshipGraphNode =
  gn_nodeId :: string
  gn_entityType :: AgentEntityType
  gn_entityId :: string
  gn_label :: string
  gn_status :: AgentStatus
  gn_metadata :: NodeMetadata

record RelationshipGraphEdge =
  ge_edgeId :: string
  ge_fromNodeId :: string
  ge_toNodeId :: string
  ge_status :: AgentRelationshipStatus
  ge_sortOrder :: number

record AgentTreeProjection =
  tp_rootAgentId :: string
  tp_generatedAt :: number
  tp_nodes :: "RelationshipGraphNode list"
  tp_edges :: "RelationshipGraphEdge list"
  tp_topLevelSubAgents :: "AgentHierarchyAgentSummary list"
  tp_topLevelFallbackActive :: bool
  tp_executionCandidateAgentIds :: "string list"
  tp_diagnostics :: "AgentHierarchyDiagnostic list"

definition agentMetadata ::
  "AgentHierarchyAgentSummary \<Rightarrow> string \<Rightarrow> bool \<Rightarrow> enat option \<Rightarrow> string option \<Rightarrow> NodeMetadata" where
  "agentMetadata agent rootId topLevel depth blockedReason =
     \<lparr>md_agentType = sm_agentType agent, md_source = sm_source agent, md_root = (sm_agentId agent = rootId),
      md_topLevel = topLevel, md_depth = depth, md_executionCandidate = (blockedReason = None),
      md_blockedReason = blockedReason\<rparr>"

definition placeholder_agent :: "string \<Rightarrow> AgentHierarchyAgentSummary" where
  "placeholder_agent agentId = \<lparr>sm_agentId = agentId, sm_agentType = type_sub_agent,
     sm_agentName = ''Unnamed sub-agent'', sm_status = ag_disabled, sm_source = source_synthetic\<rparr>"

definition root_first :: "host \<Rightarrow> string \<Rightarrow> AgentHierarchyAgentSummary \<Rightarrow> AgentHierarchyAgentSummary \<Rightarrow> int" where
  "root_first H rootId left right =
     (if sm_agentId left = rootId then - 1 else if sm_agentId right = rootId then 1
      else localeCompare H (sm_agentId left) (sm_agentId right))"

definition projectionAgentIds ::
  "string \<Rightarrow> (string \<times> AgentHierarchyAgentSummary) list \<Rightarrow> AgentRelationship list \<Rightarrow> string list" where
  "projectionAgentIds rootId agents allActive =
     foldl (\<lambda>ids r. set_add (set_add ids (rl_parentAgentId r)) (rl_childAgentId r))
       (foldl set_add [rootId] (map (sm_agentId \<circ> snd) agents)) allActive"

definition buildProjection ::
  "host \<Rightarrow> AgentHierarchyServiceDependencies \<Rightarrow> number \<Rightarrow> DbAgentRelationship list \<Rightarrow> AgentTreeProjection" where
  "buildProjection H env now rows =
     (let rootId = rootAgentId env; agents = agentSummaries env; allActive = activeRelationships H rows;
          byChild = parentByChild allActive; topLevel = topLevelSubAgents H env rows;
          topLevelIds = map sm_agentId topLevel;
          nodes = map (\<lambda>agent.
              \<lparr>gn_nodeId = nodeIdForAgent (sm_agentId agent), gn_entityType = sm_agentType agent,
               gn_entityId = sm_agentId agent, gn_label = sm_agentName agent, gn_status = sm_status agent,
               gn_metadata = agentMetadata agent rootId (sm_agentId agent \<in> set topLevelIds)
                 (if allActive \<noteq> [] then Some (depthOf (sm_agentId agent) rootId byChild) else None)
                 (inactiveReasonFor (sm_agentId agent) rootId agents allActive)\<rparr>)
            (sort_by (root_first H rootId)
              (map (\<lambda>a. or_default (map_of agents a) (placeholder_agent a)) (projectionAgentIds rootId agents allActive)))
      in \<lparr>tp_rootAgentId = rootId, tp_generatedAt = now, tp_nodes = nodes,
          tp_edges = map (\<lambda>r. \<lparr>ge_edgeId = rl_edgeId r, ge_fromNodeId = nodeIdForAgent (rl_parentAgentId r),
            ge_toNodeId = nodeIdForAgent (rl_childAgentId r), ge_status = rl_status r,
            ge_sortOrder = rl_sortOrder r\<rparr>) allActive,
          tp_topLevelSubAgents = topLevel, tp_topLevelFallbackActive = False,
          tp_executionCandidateAgentIds = map gn_entityId
            (filter (\<lambda>n. gn_entityType n = type_sub_agent \<and> md_executionCandidate (gn_metadata n)) nodes),
          tp_diagnostics = []\<rparr>)"

section \<open>Layout preference\<close>

record NodeLayout =
  nl_x :: number
  nl_y :: number
  nl_collapsed :: "bool option"

record AgentTreeLayoutPreference =
  lp_schemaVersion :: nat
  lp_layout :: string
  lp_nodes :: "(string \<times> NodeLayout) list"
  lp_viewport :: "(number \<times> number \<times> number) option"
  lp_updatedAt :: "number option"

definition LAYOUT_SCHEMA_VERSION :: nat where
  "LAYOUT_SCHEMA_VERSION = 1"

definition defaultLayoutPreference :: AgentTreeLayoutPreference where
  "defaultLayoutPreference = \<lparr>lp_schemaVersion = LAYOUT_SCHEMA_VERSION, lp_layout = ''tree'', lp_nodes = [],
     lp_viewport = None, lp_updatedAt = None\<rparr>"

definition node_layout :: "js \<Rightarrow> NodeLayout option" where
  "node_layout rawNode =
     (if \<not> isRecord rawNode then None
      else case (asFiniteNumber (js_get rawNode ''x''), asFiniteNumber (js_get rawNode ''y'')) of
        (Some x, Some y) \<Rightarrow> Some \<lparr>nl_x = x, nl_y = y,
          nl_collapsed = (case js_get rawNode ''collapsed'' of JsBool b \<Rightarrow> Some b | _ \<Rightarrow> None)\<rparr>
      | _ \<Rightarrow> None)"

definition layout_viewport :: "js \<Rightarrow> (number \<times> number \<times> number) option" where
  "layout_viewport viewportInput =
     (if isRecord viewportInput
      then case (asFiniteNumber (js_get viewportInput ''x''), asFiniteNumber (js_get viewportInput ''y''),
          asFiniteNumber (js_get viewportInput ''zoom'')) of
        (Some x, Some y, Some zoom) \<Rightarrow> Some (x, y, zoom) | _ \<Rightarrow> None
      else None)"

definition normalizeLayoutPreference :: "js \<Rightarrow> number \<Rightarrow> AgentTreeLayoutPreference" where
  "normalizeLayoutPreference value updatedAt =
     (let input = (if isRecord value then value else JsObject []);
          nodesInput = (if isRecord (js_get input ''nodes'') then js_get input ''nodes'' else JsObject []);
          nodes = foldl (\<lambda>m (nodeId, rawNode). case node_layout rawNode of
              None \<Rightarrow> m | Some n \<Rightarrow> AList.update nodeId n m) [] (js_fields nodesInput);
          viewport = layout_viewport (js_get input ''viewport'')
      in \<lparr>lp_schemaVersion = LAYOUT_SCHEMA_VERSION, lp_layout = or_default (asString (js_get input ''layout'')) ''tree'',
          lp_nodes = nodes, lp_viewport = viewport, lp_updatedAt = Some updatedAt\<rparr>)"

definition node_layout_js :: "NodeLayout \<Rightarrow> js" where
  "node_layout_js n = JsObject ([(''x'', JsNumber (nl_x n)), (''y'', JsNumber (nl_y n))]
     @ (case nl_collapsed n of None \<Rightarrow> [] | Some b \<Rightarrow> [(''collapsed'', JsBool b)]))"

text \<open>The preference as the value that is written; \<open>JSON.parse\<close> of its text is this value again.\<close>

definition layout_js :: "AgentTreeLayoutPreference \<Rightarrow> js" where
  "layout_js p = JsObject
     ([(''schemaVersion'', JsNumber (Num (of_nat (lp_schemaVersion p)))), (''layout'', JsString (lp_layout p)),
       (''nodes'', JsObject (map (\<lambda>(k, n). (k, node_layout_js n)) (lp_nodes p)))]
      @ (case lp_viewport p of None \<Rightarrow> []
         | Some (x, y, zoom) \<Rightarrow> [(''viewport'', JsObject [(''x'', JsNumber x), (''y'', JsNumber y), (''zoom'', JsNumber zoom)])])
      @ [(''updatedAt'', (case lp_updatedAt p of None \<Rightarrow> JsNull | Some t \<Rightarrow> JsNumber t))])"

text \<open>The layout file: \<open>None\<close> when it cannot be read or parsed.\<close>

definition readLayout :: "number \<Rightarrow> js option \<Rightarrow> AgentTreeLayoutPreference" where
  "readLayout now file = (case file of
       None \<Rightarrow> defaultLayoutPreference
     | Some parsed \<Rightarrow>
         if \<not> isRecord parsed then defaultLayoutPreference
         else normalizeLayoutPreference parsed
           (or_default (asFiniteNumber (js_get parsed ''updatedAt'')) now))"

definition writeLayout :: "number \<Rightarrow> js \<Rightarrow> js option \<times> AgentTreeLayoutPreference" where
  "writeLayout now input =
     (let preference = normalizeLayoutPreference input now in (Some (layout_js preference), preference))"

section \<open>Lemmas\<close>

lemma set_activeRelationships:
  "set (activeRelationships H rows) = {r \<in> set (table_content rows). active r}"
  by (auto simp: activeRelationships_def listAgentRelationships_def id_filter_def table_content_def relationshipFromRow_def)

lemma activeRelationships_active: "r \<in> set (activeRelationships H rows) \<Longrightarrow> active r"
  by (simp add: set_activeRelationships)

lemma edges_activeRelationships: "edges (activeRelationships H rows) = edges (table_content rows)"
  unfolding edges_def set_activeRelationships by auto

lemma edges_others:
  "edges (filter (\<lambda>x. rl_edgeId x \<noteq> e) (activeRelationships H rows))
     = edges (filter (\<lambda>x. rl_edgeId x \<noteq> e) (table_content rows))"
  unfolding edges_def by (auto simp: set_activeRelationships)

lemma distinct_map_distinct: "distinct (map f xs) \<Longrightarrow> distinct xs"
  by (simp add: distinct_map)

lemma distinct_activeRelationships:
  assumes "table_ok rows"
  shows "distinct (activeRelationships H rows)"
proof -
  have "distinct (map rl_edgeId (map relationshipFromRow (filter (\<lambda>row. db_status row = rel_active) rows)))"
    using assms by (simp add: table_ok_def relationshipFromRow_def comp_def distinct_map_filter)
  then have "distinct (map relationshipFromRow (filter (\<lambda>row. db_status row = rel_active) rows))"
    by (rule distinct_map_distinct)
  moreover have "mset (map relationshipFromRow (listAgentRelationships None None (Some rel_active) rows))
      = mset (map relationshipFromRow (filter (\<lambda>row. db_status row = rel_active) rows))"
    by (simp add: listAgentRelationships_def id_filter_def)
  ultimately show ?thesis
    unfolding activeRelationships_def distinct_sort_by using mset_eq_imp_distinct_iff by blast
qed

lemma single_parent_active:
  assumes "table_ok rows" and "single_parent (table_content rows)"
  shows "single_parent (activeRelationships H rows)"
  by (rule single_parent_subset [OF assms(2) _ distinct_activeRelationships [OF assms(1)]])
    (auto simp: set_activeRelationships)

lemma parent_map_edges:
  assumes "single_parent rs" and "single_parent rs'" and "edges rs = edges rs'"
  shows "parent_map (parentByChild rs) = parent_map (parentByChild rs')"
proof
  fix c
  have "parent_map (parentByChild rs) c = Some p \<longleftrightarrow> parent_map (parentByChild rs') c = Some p" for p
    using parent_map_single [OF assms(1)] parent_map_single [OF assms(2)] assms(3) by simp
  then show "parent_map (parentByChild rs) c = parent_map (parentByChild rs') c"
    by (metis option.exhaust)
qed

text \<open>What an accepted input is.\<close>

lemma typed_when_valid:
  assumes "validateAgentRelationship (raw_js raw) = []"
  shows "\<exists>r. typed_relationship raw = Some r \<and> \<not> blank (rl_edgeId r) \<and> \<not> blank (rl_parentAgentId r)
    \<and> \<not> blank (rl_childAgentId r) \<and> rl_parentAgentId r \<noteq> rl_childAgentId r"
proof -
  have get: "js_get (raw_js raw) ''edgeId'' = JsString (raw_edgeId raw)"
    "js_get (raw_js raw) ''parentAgentId'' = JsString (raw_parentAgentId raw)"
    "js_get (raw_js raw) ''childAgentId'' = JsString (raw_childAgentId raw)"
    "js_get (raw_js raw) ''status'' = raw_status raw" "js_get (raw_js raw) ''sortOrder'' = raw_sortOrder raw"
    by (simp_all add: js_get_def raw_js_def)
  have isrec: "isRecord (raw_js raw)" by (simp add: raw_js_def)
  from assms isrec have texts: "\<not> blank (raw_edgeId raw)" "\<not> blank (raw_parentAgentId raw)"
    "\<not> blank (raw_childAgentId raw)" "raw_parentAgentId raw \<noteq> raw_childAgentId raw"
    by (auto simp: validateAgentRelationship_def hasNonEmptyString_def get split: if_splits)
  from assms isrec obtain s where "raw_status raw = JsString s" "s \<in> {''active'', ''disabled'', ''archived''}"
    by (auto simp: validateAgentRelationship_def get AGENT_RELATIONSHIP_STATUSES_def split: if_splits js.splits)
  then have "\<exists>st. status_of_js (raw_status raw) = Some st" by auto
  moreover from assms isrec have "\<exists>n. number_of_js (raw_sortOrder raw) = Some n"
    by (cases "raw_sortOrder raw")
      (auto simp: validateAgentRelationship_def hasFiniteNumber_min0_def get Let_def)
  ultimately show ?thesis using texts by (auto simp: typed_relationship_def)
qed

lemma validateRelationship_okD:
  assumes "vr_ok (validateRelationship H env now rows input)"
  obtains r where "vr_relationship (validateRelationship H env now rows input) = Inr r"
    "typed_diagnostics H env rows r = []" "rl_parentAgentId r \<noteq> rl_childAgentId r"
proof -
  let ?raw = "relationshipWithDefaults H now rows input"
  have valid: "validateAgentRelationship (raw_js ?raw) = []"
    using assms by (auto simp: validateRelationship_def Let_def split: list.splits option.splits)
  obtain r where r: "typed_relationship ?raw = Some r" "rl_parentAgentId r \<noteq> rl_childAgentId r"
    using typed_when_valid [OF valid] by blast
  have all: "list_all (\<lambda>d. dg_severity d \<noteq> sev_blocked) (typed_diagnostics H env rows r)"
    using assms by (simp add: validateRelationship_def Let_def valid r(1))
  have "\<forall>d \<in> set (typed_diagnostics H env rows r). dg_severity d = sev_blocked"
    by (auto simp: typed_diagnostics_def active_diagnostics_def blocked_diagnostic_def Let_def
        split: if_splits option.splits)
  with all have "typed_diagnostics H env rows r = []"
    by (cases "typed_diagnostics H env rows r") (auto simp: list_all_iff)
  with r show ?thesis
    by (intro that [of r]) (simp_all add: validateRelationship_def Let_def valid)
qed

section \<open>The condition for an active relationship\<close>

text \<open>The relationships after the change, and what the service promises of them.\<close>

definition may_link ::
  "AgentHierarchyServiceDependencies \<Rightarrow> AgentRelationship list \<Rightarrow> AgentRelationship \<Rightarrow> bool" where
  "may_link env others r \<longleftrightarrow>
     (\<forall>x \<in> set others. rl_childAgentId x \<noteq> rl_childAgentId r)
     \<and> \<not> num_lt (maxChildCount env)
          (Num (of_nat (card (insert (rl_childAgentId r) {c. (rl_parentAgentId r, c) \<in> edges others}))))
     \<and> (\<forall>a. a = rl_childAgentId r \<or> (rl_childAgentId r, a) \<in> (edges (others @ [r]))\<^sup>+ \<longrightarrow>
          (\<exists>n \<le> maxDepth env. depth_is (parent_map (parentByChild (others @ [r]))) (rootAgentId env) a n))"

lemma edges_all_active:
  assumes "\<forall>x \<in> set rs. active x"
  shows "(p, c) \<in> edges rs \<longleftrightarrow> (\<exists>x \<in> set rs. rl_parentAgentId x = p \<and> rl_childAgentId x = c)"
  using assms by (auto simp: edges_def)

lemma nextChildCount_size:
  assumes "\<forall>x \<in> set others. active x"
  shows "length (nextChildCount others r)
    = card (insert (rl_childAgentId r) {c. (rl_parentAgentId r, c) \<in> edges others})"
proof -
  have "set (nextChildCount others r) = insert (rl_childAgentId r) {c. (rl_parentAgentId r, c) \<in> edges others}"
    by (auto simp: nextChildCount_def edges_all_active [OF assms])
  moreover have "distinct (nextChildCount others r)" by (simp add: nextChildCount_def)
  ultimately show ?thesis by (metis distinct_card)
qed

lemma depth_violation_None_iff:
  assumes "single_parent (others @ [r])"
  shows "depth_violation H limit rootId others r = None \<longleftrightarrow>
    (\<forall>a. a = rl_childAgentId r \<or> (rl_childAgentId r, a) \<in> (edges (others @ [r]))\<^sup>+ \<longrightarrow>
      (\<exists>n \<le> limit. depth_is (parent_map (parentByChild (others @ [r]))) rootId a n))"
proof -
  let ?f = "sort_by (relationshipSort H) (others @ [r])"
  have P: "parent_map (parentByChild ?f) = parent_map (parentByChild (others @ [r]))"
    by (rule parent_map_edges) (use assms in \<open>simp_all only: single_parent_sort_by edges_sort_by\<close>)
  have "\<not> depthOf a rootId (parentByChild ?f) > enat limit \<longleftrightarrow>
      (\<exists>n \<le> limit. depth_is (parent_map (parentByChild (others @ [r]))) rootId a n)" for a
  proof (cases "depthOf a rootId (parentByChild ?f)")
    case (enat n)
    then have "depth_is (parent_map (parentByChild (others @ [r]))) rootId a n" by (simp add: depthOf_iff P)
    then have "(\<exists>n' \<le> limit. depth_is (parent_map (parentByChild (others @ [r]))) rootId a n') \<longleftrightarrow> n \<le> limit"
      using depth_is_unique by metis
    with enat show ?thesis by (simp add: not_less)
  next
    case infinity
    then show ?thesis using depthOf_infinite_iff [of a rootId "parentByChild ?f"] P by auto
  qed
  then show ?thesis
    by (simp add: depth_violation_def Let_def find_None_iff descendantAgentIds_reachable del: edges_simps)
      (metis edges_sort_by)
qed

lemma active_diagnostics_Nil_iff:
  assumes "\<forall>x \<in> set allActive. active x" and "single_parent allActive" and "distinct allActive" and "active r"
    and root: "rl_childAgentId r \<noteq> rootAgentId env" "\<forall>x \<in> set allActive. rl_childAgentId x \<noteq> rootAgentId env"
  defines "others \<equiv> filter (\<lambda>x. rl_edgeId x \<noteq> rl_edgeId r) allActive"
  shows "active_diagnostics H env allActive r = [] \<longleftrightarrow> may_link env others r"
proof -
  have all: "\<forall>x \<in> set others. active x" using assms(1) by (simp add: others_def)
  define child_free where "child_free \<longleftrightarrow> (\<forall>x \<in> set others. rl_childAgentId x \<noteq> rl_childAgentId r)"
  have parents: "(List.find (\<lambda>x. rl_parentAgentId x = rl_parentAgentId r \<and> rl_childAgentId x = rl_childAgentId r) others = None
      \<and> (case List.find (\<lambda>x. rl_childAgentId x = rl_childAgentId r) others of
          Some x \<Rightarrow> rl_parentAgentId x = rl_parentAgentId r | None \<Rightarrow> True)) \<longleftrightarrow> child_free"
    by (auto simp: find_None_iff child_free_def split: option.splits dest!: find_SomeD)
  have single: "single_parent (others @ [r])" if child_free
  proof -
    have "single_parent others" by (rule single_parent_subset [OF assms(2)]) (use assms(3) in \<open>auto simp: others_def\<close>)
    with that assms(4) show ?thesis by (auto simp: single_parent_def child_free_def)
  qed
  have no_cycle: "\<not> hasPath H (rl_childAgentId r) (rl_parentAgentId r) others"
    if free: child_free and viol: "depth_violation H (maxDepth env) (rootAgentId env) others r = None"
  proof
    assume "hasPath H (rl_childAgentId r) (rl_parentAgentId r) others"
    then have "(rl_childAgentId r, rl_parentAgentId r) \<in> (edges (others @ [r]))\<^sup>+"
      unfolding hasPath_iff by (rule trancl_mono) auto
    then have cyc: "(rl_childAgentId r, rl_childAgentId r) \<in> (edges (others @ [r]))\<^sup>+"
      using assms(4) by (auto intro: trancl_into_trancl)
    obtain n where "depth_is (parent_map (parentByChild (others @ [r]))) (rootAgentId env) (rl_childAgentId r) n"
      using depth_violation_None_iff [OF single [OF free], THEN iffD1, OF viol] by blast
    moreover have "\<forall>x \<in> set (others @ [r]). active x \<longrightarrow> rl_childAgentId x \<noteq> rootAgentId env"
      using root by (auto simp: others_def)
    ultimately show False
      using depth_increases_down [OF single [OF free] _ cyc] depth_is_unique by fastforce
  qed
  have "active_diagnostics H env allActive r = [] \<longleftrightarrow>
      (List.find (\<lambda>x. rl_parentAgentId x = rl_parentAgentId r \<and> rl_childAgentId x = rl_childAgentId r) others = None
      \<and> (case List.find (\<lambda>x. rl_childAgentId x = rl_childAgentId r) others of
          Some x \<Rightarrow> rl_parentAgentId x = rl_parentAgentId r | None \<Rightarrow> True))
      \<and> \<not> num_lt (maxChildCount env) (Num (of_nat (length (nextChildCount others r))))
      \<and> \<not> hasPath H (rl_childAgentId r) (rl_parentAgentId r) others
      \<and> depth_violation H (maxDepth env) (rootAgentId env) others r = None"
    unfolding active_diagnostics_def Let_def others_def [symmetric] by (simp split: option.splits)
  also have "\<dots> \<longleftrightarrow> child_free
      \<and> \<not> num_lt (maxChildCount env) (Num (of_nat (length (nextChildCount others r))))
      \<and> depth_violation H (maxDepth env) (rootAgentId env) others r = None"
    unfolding parents using no_cycle by blast
  also have "\<dots> \<longleftrightarrow> may_link env others r"
  proof (cases child_free)
    case True
    then show ?thesis
      unfolding may_link_def depth_violation_None_iff [OF single [OF True]] nextChildCount_size [OF all]
      by (simp add: child_free_def)
  next
    case False
    then show ?thesis by (auto simp: may_link_def child_free_def)
  qed
  finally show ?thesis .
qed

section \<open>The invariant of the stored hierarchy\<close>

definition hierarchy_ok :: "AgentHierarchyServiceDependencies \<Rightarrow> DbAgentRelationship list \<Rightarrow> bool" where
  "hierarchy_ok env rows \<longleftrightarrow> table_ok rows
     \<and> single_parent (table_content rows)
     \<and> (\<forall>r \<in> set (table_content rows). active r \<longrightarrow> rl_childAgentId r \<noteq> rootAgentId env)
     \<and> (\<forall>p. {c. (p, c) \<in> edges (table_content rows)} \<noteq> {} \<longrightarrow>
          \<not> num_lt (maxChildCount env) (Num (of_nat (card {c. (p, c) \<in> edges (table_content rows)}))))
     \<and> placed (maxDepth env) (rootAgentId env) (table_content rows)"

lemma positiveIntegerOrDefault_pos: "0 < d \<Longrightarrow> 0 < positiveIntegerOrDefault v d"
proof (cases v)
  case (Some n)
  assume "0 < d"
  have "0 < nat \<lfloor>q\<rfloor>" if "of_int \<lfloor>q\<rfloor> = q" "q > 0" for q :: rat
    using that by (metis of_int_0_less_iff zero_less_nat_eq)
  with \<open>0 < d\<close> Some show ?thesis
    by (cases n) (auto simp: positiveIntegerOrDefault_def is_integer_number_def)
qed (simp add: positiveIntegerOrDefault_def)

lemma maxDepth_pos: "1 \<le> maxDepth env"
  using positiveIntegerOrDefault_pos [of DEFAULT_MAX_DEPTH] by (simp add: maxDepth_def DEFAULT_MAX_DEPTH_def Suc_le_eq)

lemma hierarchy_ok_empty: "hierarchy_ok env []"
proof -
  have "\<exists>n \<le> maxDepth env. depth_is (parent_map []) (rootAgentId env) a n" for a
  proof (cases "a = rootAgentId env")
    case False
    then have "depth_is (parent_map []) (rootAgentId env) a 1" by (intro depth_top) (simp_all add: parent_map_def)
    with maxDepth_pos show ?thesis by blast
  qed auto
  then show ?thesis
    by (simp add: hierarchy_ok_def table_ok_def table_content_def single_parent_def placed_def parentByChild_def)
qed

lemma num_lt_Num_le: "\<not> num_lt x (Num b) \<Longrightarrow> a \<le> b \<Longrightarrow> \<not> num_lt x (Num a)"
  by (cases x) auto

lemma finite_edges: "finite {c. (p, c) \<in> edges rs}"
proof -
  have "{c. (p, c) \<in> edges rs} \<subseteq> rl_childAgentId ` set rs" by (auto simp: edges_def)
  then show ?thesis by (rule finite_subset) simp
qed

lemma may_link_children:
  assumes "may_link env others r" and "{c. (p, c) \<in> E} = insert (rl_childAgentId r) {c. (p, c) \<in> edges others}"
    and "p = rl_parentAgentId r"
  shows "\<not> num_lt (maxChildCount env) (Num (of_nat (card {c. (p, c) \<in> E})))"
  using assms by (simp add: may_link_def)

lemma hierarchy_ok_put:
  assumes ok: "hierarchy_ok env rows" and put: "table_put audit now r rows = Some rows'"
    and child: "active r \<Longrightarrow> rl_childAgentId r \<noteq> rootAgentId env"
    and link: "active r \<Longrightarrow> may_link env (filter (\<lambda>x. rl_edgeId x \<noteq> rl_edgeId r) (activeRelationships H rows)) r"
  shows "hierarchy_ok env rows'"
proof -
  let ?others = "filter (\<lambda>x. rl_edgeId x \<noteq> rl_edgeId r) (activeRelationships H rows)"
  let ?rest = "filter (\<lambda>x. rl_edgeId x \<noteq> rl_edgeId r) (table_content rows)"
  from ok have t: "table_ok rows" and sp: "single_parent (table_content rows)"
    and pl: "placed (maxDepth env) (rootAgentId env) (table_content rows)" by (auto simp: hierarchy_ok_def)
  have t': "table_ok rows'" by (rule table.put_inv [OF t put])
  have e: "edges (table_content rows') = edges ?rest
      \<union> (if active r then {(rl_parentAgentId r, rl_childAgentId r)} else {})"
    by (rule table.put_edges [OF t put])
  have sub: "edges ?rest \<subseteq> edges (table_content rows)" by (rule edges_mono) auto
  have sp': "single_parent (table_content rows')"
    using table.put_single_parent [OF t put sp] link by (auto simp: may_link_def set_activeRelationships)
  have root: "\<forall>x \<in> set (table_content rows'). active x \<longrightarrow> rl_childAgentId x \<noteq> rootAgentId env"
  proof -
    have "(p, rootAgentId env) \<notin> edges (table_content rows')" for p
      using ok child e sub by (auto simp: hierarchy_ok_def edges_def split: if_splits)
    then show ?thesis by (auto simp: edges_def)
  qed
  have kids: "\<not> num_lt (maxChildCount env) (Num (of_nat (card {c. (p, c) \<in> edges (table_content rows')})))"
    if "{c. (p, c) \<in> edges (table_content rows')} \<noteq> {}" for p
    using table.put_children [OF t put, of p]
  proof
    assume le: "{c. (p, c) \<in> edges (table_content rows')} \<subseteq> {c. (p, c) \<in> edges (table_content rows)}"
    with that ok have "\<not> num_lt (maxChildCount env) (Num (of_nat (card {c. (p, c) \<in> edges (table_content rows)})))"
      by (auto simp: hierarchy_ok_def)
    then show ?thesis by (rule num_lt_Num_le) (use le finite_edges in \<open>simp add: card_mono\<close>)
  next
    assume new: "active r \<and> p = rl_parentAgentId r \<and> {c. (p, c) \<in> edges (table_content rows')}
        = insert (rl_childAgentId r) {c. (p, c) \<in> edges ?rest}"
    then have a: "active r" and p: "p = rl_parentAgentId r"
      and eq: "{c. (p, c) \<in> edges (table_content rows')} = insert (rl_childAgentId r) {c. (p, c) \<in> edges ?rest}"
      by blast+
    show ?thesis
      by (rule may_link_children [OF link [OF a] _ p]) (simp only: edges_others eq)
  qed
  have "placed (maxDepth env) (rootAgentId env) (table_content rows')"
  proof (cases "active r")
    case False
    then show ?thesis using table.put_inactive_placed [OF t put sp _ pl] by blast
  next
    case True
    have eo: "edges (table_content rows') = edges (?others @ [r])"
      using e True by (simp add: edges_others)
    have so: "single_parent (?others @ [r])"
    proof -
      have "single_parent ?others"
        by (rule single_parent_subset [OF single_parent_active [OF t sp]])
          (auto simp: distinct_activeRelationships [OF t])
      with link [OF True] True show ?thesis by (auto simp: single_parent_def may_link_def)
    qed
    have P: "parent_map (parentByChild (table_content rows')) = parent_map (parentByChild (?others @ [r]))"
      by (rule parent_map_edges [OF sp' so eo])
    show ?thesis
    proof (rule table.put_active_placed [OF t put sp sp' True pl])
      fix x assume "x = rl_childAgentId r \<or> (rl_childAgentId r, x) \<in> (edges (table_content rows'))\<^sup>+"
      then show "\<exists>n \<le> maxDepth env. depth_is (parent_map (parentByChild (table_content rows'))) (rootAgentId env) x n"
        using link [OF True] unfolding eo P may_link_def by blast
    qed
  qed
  with t' sp' root kids show ?thesis by (auto simp: hierarchy_ok_def)
qed

lemma typed_diagnostics_Nil:
  assumes ok: "hierarchy_ok env rows"
  shows "typed_diagnostics H env rows r = [] \<longleftrightarrow>
    rl_childAgentId r \<noteq> rootAgentId env
    \<and> rl_parentAgentId r \<in> set (map fst (agentSummaries env))
    \<and> rl_childAgentId r \<in> set (map fst (agentSummaries env))
    \<and> (active r \<longrightarrow> may_link env (filter (\<lambda>x. rl_edgeId x \<noteq> rl_edgeId r) (activeRelationships H rows)) r)"
proof (cases "active r \<and> rl_childAgentId r \<noteq> rootAgentId env")
  case True
  from ok have t: "table_ok rows" and sp: "single_parent (table_content rows)" by (auto simp: hierarchy_ok_def)
  have "active_diagnostics H env (activeRelationships H rows) r = [] \<longleftrightarrow>
      may_link env (filter (\<lambda>x. rl_edgeId x \<noteq> rl_edgeId r) (activeRelationships H rows)) r"
    by (rule active_diagnostics_Nil_iff)
      (use True ok in \<open>auto simp: set_activeRelationships single_parent_active [OF t sp]
        distinct_activeRelationships [OF t] hierarchy_ok_def\<close>)
  with True show ?thesis by (auto simp: typed_diagnostics_def Let_def)
qed (auto simp: typed_diagnostics_def Let_def)

lemma upsert_table_put:
  assumes "upsertAgentRelationship lock r audit now rows = Inr rows'"
  shows "table_put audit now r rows = Some rows'"
  using assms by (cases lock) (simp_all add: table_put_def upsertAgentRelationship_def)

lemma create_preserves:
  assumes "hierarchy_ok env rows" and "createRelationship H env lock now audit rows input = Inr (rows', result)"
  shows "hierarchy_ok env rows'"
proof (cases "vr_ok (validateRelationship H env now rows input)")
  case True
  then obtain r where r: "vr_relationship (validateRelationship H env now rows input) = Inr r"
    "typed_diagnostics H env rows r = []" by (rule validateRelationship_okD)
  with True assms(2) have "upsertAgentRelationship lock r audit now rows = Inr rows'"
    by (auto simp: createRelationship_def Let_def rbind_Inr_iff)
  then have "table_put audit now r rows = Some rows'" by (rule upsert_table_put)
  then show ?thesis
    by (rule hierarchy_ok_put [OF assms(1)]) (use r(2) typed_diagnostics_Nil [OF assms(1)] in auto)
next
  case False
  with assms show ?thesis by (auto simp: createRelationship_def Let_def split: sum.splits)
qed

lemma disable_preserves:
  assumes "hierarchy_ok env rows" and "disableRelationship lock now audit rows edgeId = Inr (rows', result)"
  shows "hierarchy_ok env rows'"
proof (cases "getAgentRelationship edgeId rows")
  case None
  with assms show ?thesis by (simp add: disableRelationship_def)
next
  case (Some row)
  let ?r = "(relationshipFromRow row)\<lparr>rl_status := rel_disabled, rl_updatedAt := Some now\<rparr>"
  from Some assms(2) obtain a where "upsertAgentRelationship lock ?r a now rows = Inr rows'"
    by (auto simp: disableRelationship_def Let_def rbind_Inr_iff)
  then have "table_put a now ?r rows = Some rows'" by (rule upsert_table_put)
  then show ?thesis by (rule hierarchy_ok_put [OF assms(1)]) auto
qed

section \<open>The service as a machine\<close>

datatype HierarchyOperation =
    CreateOp number "string option" js
  | DisableOp number "string option" string

fun hierarchy_step ::
  "host \<Rightarrow> AgentHierarchyServiceDependencies \<Rightarrow> string option \<Rightarrow> DbAgentRelationship list \<Rightarrow> HierarchyOperation
     \<Rightarrow> DbAgentRelationship list option" where
  "hierarchy_step H env lock rows (CreateOp now audit input) =
     (case createRelationship H env lock now audit rows input of Inl _ \<Rightarrow> None | Inr (rows', _) \<Rightarrow> Some rows')"
| "hierarchy_step H env lock rows (DisableOp now audit edgeId) =
     (case disableRelationship lock now audit rows edgeId of Inl _ \<Rightarrow> None | Inr (rows', _) \<Rightarrow> Some rows')"

interpretation hierarchy: invariant_machine "hierarchy_step H env lock" "hierarchy_ok env" for H env lock
proof unfold_locales
  show "hierarchy_ok env rows'" if "hierarchy_ok env rows" "hierarchy_step H env lock rows e = Some rows'" for rows e rows'
  proof (cases e)
    case (CreateOp now audit input)
    with that(2) obtain res where "createRelationship H env lock now audit rows input = Inr (rows', res)"
      by (auto split: sum.splits)
    with that(1) show ?thesis by (rule create_preserves)
  next
    case (DisableOp now audit edgeId)
    with that(2) obtain res where "disableRelationship lock now audit rows edgeId = Inr (rows', res)"
      by (auto split: sum.splits)
    with that(1) show ?thesis by (rule disable_preserves)
  qed
qed

section \<open>Reading back what was written\<close>

lemma find_map_other:
  assumes "\<And>x. P (f x) = P x" and "\<And>x. P x \<Longrightarrow> f x = x"
  shows "List.find P (map f xs) = List.find P xs"
  using assms by (induction xs) auto

lemma get_after_insert_or_update:
  assumes "insert_or_update new rows = Inr rows'"
  shows "getAgentRelationship e rows' =
    (if e = db_edge_id new
     then Some (case getAgentRelationship e rows of None \<Rightarrow> new | Some row \<Rightarrow> new\<lparr>db_created_at := db_created_at row\<rparr>)
     else getAgentRelationship e rows)"
proof (cases "db_edge_id new \<in> set (map db_edge_id rows)")
  case True
  let ?f = "\<lambda>row. if db_edge_id row = db_edge_id new then new\<lparr>db_created_at := db_created_at row\<rparr> else row"
  have rows': "rows' = map ?f rows"
    using assms True by (auto simp: insert_or_update_def Let_def split: if_splits)
  have edge: "db_edge_id (?f x) = db_edge_id x" for x by simp
  show ?thesis
  proof (cases "e = db_edge_id new")
    case True
    have "List.find (\<lambda>row. db_edge_id row = db_edge_id new) (map ?f rows)
        = map_option ?f (List.find (\<lambda>row. db_edge_id row = db_edge_id new) rows)"
      by (induction rows) auto
    moreover from \<open>db_edge_id new \<in> set (map db_edge_id rows)\<close> obtain row where
      row: "getAgentRelationship e rows = Some row"
      using True by (cases "getAgentRelationship e rows") (auto simp: getAgentRelationship_def find_None_iff)
    ultimately show ?thesis using True row find_SomeD [of "\<lambda>row. db_edge_id row = e" rows row]
      by (simp add: rows' getAgentRelationship_def)
  next
    case False
    then show ?thesis unfolding rows' getAgentRelationship_def
      by (subst find_map_other) (auto simp: edge)
  qed
next
  case False
  have rows': "rows' = rows @ [new]"
    using assms False by (auto simp: insert_or_update_def Let_def split: if_splits)
  have app: "List.find P (xs @ [y]) = (case List.find P xs of None \<Rightarrow> if P y then Some y else None | Some x \<Rightarrow> Some x)"
    for P xs and y :: DbAgentRelationship by (induction xs) auto
  have "db_edge_id row \<noteq> db_edge_id new" if "row \<in> set rows" for row
    using False imageI [OF that, of db_edge_id] by auto
  then have "getAgentRelationship (db_edge_id new) rows = None"
    by (simp add: getAgentRelationship_def find_None_iff)
  then show ?thesis
    by (auto simp: rows' getAgentRelationship_def app split: option.splits)
qed

lemma upsert_get:
  assumes "upsertAgentRelationship lock r audit now rows = Inr rows'"
  shows "(\<exists>r'. get_relationship rows' (rl_edgeId r) = Some r' \<and> same_link r r')
    \<and> (\<forall>e. e \<noteq> rl_edgeId r \<longrightarrow> get_relationship rows' e = get_relationship rows e)"
proof -
  obtain new where new: "insert_or_update new rows = Inr rows'" "db_edge_id new = rl_edgeId r"
    "db_parent_agent_id new = rl_parentAgentId r" "db_child_agent_id new = rl_childAgentId r"
    "db_status new = rl_status r" "db_sort_order new = rl_sortOrder r"
    using assms by (cases lock) (auto simp: upsertAgentRelationship_def)
  show ?thesis
    using get_after_insert_or_update [OF new(1)] new(2-)
    by (auto simp: get_relationship_def same_link_def relationshipFromRow_def split: option.splits)
qed

text \<open>A typed relationship survives its normalisation.\<close>

lemma normalize_typed:
  assumes "\<not> blank (rl_edgeId r)" "\<not> blank (rl_parentAgentId r)" "\<not> blank (rl_childAgentId r)"
    and "rl_createdAt r = Some c" "is_finite_number c" "rl_updatedAt r = Some u" "is_finite_number u"
  shows "typed_relationship (relationshipWithDefaults H now rows (relationship_js r)) = Some r
    \<and> raw_js (relationshipWithDefaults H now rows (relationship_js r)) = relationship_js r"
proof -
  let ?v = "relationship_js r"
  have get: "isRecord ?v" "js_get ?v ''edgeId'' = JsString (rl_edgeId r)"
    "js_get ?v ''parentAgentId'' = JsString (rl_parentAgentId r)"
    "js_get ?v ''childAgentId'' = JsString (rl_childAgentId r)"
    "js_get ?v ''status'' = JsString (relationship_status_name (rl_status r))" "js_has ?v ''status''"
    "js_get ?v ''sortOrder'' = JsNumber (rl_sortOrder r)" "js_has ?v ''sortOrder''"
    "js_get ?v ''relationshipType'' = JsString ''parent_child''" "js_has ?v ''relationshipType''"
    "js_get ?v ''createdAt'' = JsNumber c" "js_get ?v ''updatedAt'' = JsNumber u"
    using assms by (simp_all add: js_get_def js_has_def relationship_js_def)
  have raw: "relationshipWithDefaults H now rows ?v =
      \<lparr>raw_edgeId = rl_edgeId r, raw_parentAgentId = rl_parentAgentId r, raw_childAgentId = rl_childAgentId r,
       raw_relationshipType = JsString ''parent_child'',
       raw_status = JsString (relationship_status_name (rl_status r)),
       raw_sortOrder = JsNumber (rl_sortOrder r), raw_createdAt = c, raw_updatedAt = u\<rparr>"
    unfolding relationshipWithDefaults_def normalizeRelationshipInput_def Let_def
    using assms get by (cases "rl_status r") (simp_all add: or_default_def asStatus_def)
  have "status_of_js (JsString (relationship_status_name (rl_status r))) = Some (rl_status r)"
    by (cases "rl_status r") simp_all
  then show ?thesis
    unfolding raw using assms(4,6) by (simp add: typed_relationship_def raw_js_def relationship_js_def)
qed

section \<open>Properties\<close>

text \<open>C2. The agent hierarchy is always a forest below a parentless root: after any sequence of
  creations and disablings of relationships, from the empty table and with any inputs, no agent
  has two parents, there is no cycle, the root has no parent, no agent exceeds the limit of
  children and no agent is deeper than the limit.\<close>

theorem hierarchy_always_forest:
  assumes "run_steps (hierarchy_step H env lock) [] ops = Some rows"
  shows "acyclic (edges (activeRelationships H rows))
    \<and> single_parent (activeRelationships H rows)
    \<and> (\<forall>p. (p, rootAgentId env) \<notin> edges (activeRelationships H rows))
    \<and> (\<forall>p. {c. (p, c) \<in> edges (activeRelationships H rows)} \<noteq> {} \<longrightarrow> \<not> num_lt (maxChildCount env)
         (Num (of_nat (card {c. (p, c) \<in> edges (activeRelationships H rows)}))))
    \<and> (\<forall>a. depthOf a (rootAgentId env) (parentByChild (activeRelationships H rows)) \<le> enat (maxDepth env))"
proof -
  have ok: "hierarchy_ok env rows" using hierarchy.run_inv [OF hierarchy_ok_empty assms] .
  then have t: "table_ok rows" and sp: "single_parent (table_content rows)"
    and root: "\<forall>r \<in> set (table_content rows). active r \<longrightarrow> rl_childAgentId r \<noteq> rootAgentId env"
    and pl: "placed (maxDepth env) (rootAgentId env) (table_content rows)"
    by (auto simp: hierarchy_ok_def)
  have sa: "single_parent (activeRelationships H rows)" by (rule single_parent_active [OF t sp])
  have P: "parent_map (parentByChild (activeRelationships H rows)) = parent_map (parentByChild (table_content rows))"
    by (rule parent_map_edges [OF sa sp edges_activeRelationships])
  have "depthOf a (rootAgentId env) (parentByChild (activeRelationships H rows)) \<le> enat (maxDepth env)" for a
  proof -
    obtain n where "n \<le> maxDepth env" "depth_is (parent_map (parentByChild (table_content rows))) (rootAgentId env) a n"
      using pl unfolding placed_def by blast
    then have "depthOf a (rootAgentId env) (parentByChild (activeRelationships H rows)) = enat n" "n \<le> maxDepth env"
      by (simp_all add: depthOf_iff P)
    then show ?thesis by simp
  qed
  moreover have "acyclic (edges (activeRelationships H rows))"
    unfolding edges_activeRelationships by (rule placed_acyclic [OF pl sp root])
  moreover have "(p, rootAgentId env) \<notin> edges (activeRelationships H rows)" for p
    using root unfolding edges_activeRelationships by (auto simp: edges_def)
  ultimately show ?thesis
    using sa ok unfolding edges_activeRelationships hierarchy_ok_def by blast
qed

text \<open>C20. What validation accepts: on a well-formed table an active relationship that satisfies the
  contract is accepted exactly if its child is not the root, both agents are known, no other
  relationship leads to the child, the parent stays within its limit of children, and the child
  and everything below it stay within the depth limit.\<close>

theorem relationship_accepted_iff:
  assumes "hierarchy_ok env rows" and "validateAgentRelationship (relationship_js r) = []" and "active r"
    and "rl_createdAt r = Some c" "is_finite_number c" "rl_updatedAt r = Some u" "is_finite_number u"
  shows "vr_ok (validateRelationship H env now rows (relationship_js r)) \<longleftrightarrow>
    rl_childAgentId r \<noteq> rootAgentId env
    \<and> rl_parentAgentId r \<in> set (map fst (agentSummaries env))
    \<and> rl_childAgentId r \<in> set (map fst (agentSummaries env))
    \<and> may_link env (filter (\<lambda>x. rl_edgeId x \<noteq> rl_edgeId r) (activeRelationships H rows)) r"
proof -
  have "\<not> blank (rl_edgeId r)" "\<not> blank (rl_parentAgentId r)" "\<not> blank (rl_childAgentId r)"
    using assms(2) unfolding validate_typed_relationship by blast+
  then have n: "typed_relationship (relationshipWithDefaults H now rows (relationship_js r)) = Some r"
    "raw_js (relationshipWithDefaults H now rows (relationship_js r)) = relationship_js r"
    using normalize_typed [of r] assms(4-7) by blast+
  have blocked: "\<forall>d \<in> set (typed_diagnostics H env rows r). dg_severity d = sev_blocked"
    by (auto simp: typed_diagnostics_def active_diagnostics_def blocked_diagnostic_def Let_def
        split: if_splits option.splits)
  have "vr_ok (validateRelationship H env now rows (relationship_js r)) \<longleftrightarrow> typed_diagnostics H env rows r = []"
    unfolding validateRelationship_def Let_def n assms(2)
    using blocked by (cases "typed_diagnostics H env rows r") (auto simp: list_all_iff)
  then show ?thesis using typed_diagnostics_Nil [OF assms(1)] assms(3) by simp
qed

text \<open>A created relationship is the one that is read back, and no other relationship changes.\<close>

theorem created_relationship_read_back:
  assumes "createRelationship H env lock now audit rows input = Inr (rows', result)" and "vr_ok result"
  shows "\<exists>r. vr_relationship result = Inr r \<and> get_relationship rows' (rl_edgeId r) = Some r
    \<and> (\<forall>e. e \<noteq> rl_edgeId r \<longrightarrow> get_relationship rows' e = get_relationship rows e)"
proof -
  have ok: "vr_ok (validateRelationship H env now rows input)"
    using assms by (auto simp: createRelationship_def Let_def rbind_Inr_iff split: sum.splits if_splits)
  then obtain r where r: "vr_relationship (validateRelationship H env now rows input) = Inr r"
    by (rule validateRelationship_okD)
  with ok assms(1) have up: "upsertAgentRelationship lock r audit now rows = Inr rows'"
    and res: "vr_relationship result = Inr (case getAgentRelationship (rl_edgeId r) rows' of
      Some row \<Rightarrow> relationshipFromRow row | None \<Rightarrow> r)"
    by (auto simp: createRelationship_def Let_def rbind_Inr_iff)
  obtain r' where r': "get_relationship rows' (rl_edgeId r) = Some r'" "same_link r r'"
    "\<forall>e. e \<noteq> rl_edgeId r \<longrightarrow> get_relationship rows' e = get_relationship rows e"
    using upsert_get [OF up] by blast
  then have "vr_relationship result = Inr r'" "rl_edgeId r' = rl_edgeId r"
    using res by (auto simp: get_relationship_def same_link_def)
  with r' show ?thesis by auto
qed

section \<open>When creation throws\<close>

lemma distinct_pairs_snoc:
  "distinct (map row_pair (rows @ [new])) \<longleftrightarrow> distinct (map row_pair rows) \<and> row_pair new \<notin> set (map row_pair rows)"
  by auto

lemma distinct_pairs_update:
  fixes new :: DbAgentRelationship
  defines "f \<equiv> \<lambda>row. if db_edge_id row = db_edge_id new then new\<lparr>db_created_at := db_created_at row\<rparr> else row"
  assumes "distinct (map db_edge_id rows)" and "distinct (map row_pair rows)"
    and "db_edge_id new \<in> set (map db_edge_id rows)"
  shows "distinct (map row_pair (map f rows)) \<longleftrightarrow>
    (\<forall>row \<in> set rows. db_edge_id row \<noteq> db_edge_id new \<longrightarrow> row_pair row \<noteq> row_pair new)"
  using assms(2-4)
proof (induction rows)
  case Nil
  then show ?case by simp
next
  case (Cons row rows)
  have pair: "row_pair (f x) = (if db_edge_id x = db_edge_id new then row_pair new else row_pair x)" for x
    by (simp add: f_def row_pair_def)
  show ?case
  proof (cases "db_edge_id row = db_edge_id new")
    case True
    then have others: "\<forall>x \<in> set rows. db_edge_id x \<noteq> db_edge_id new" using Cons.prems(1) by (auto simp: image_iff)
    then have "map f rows = rows" by (simp add: f_def map_idI)
    then show ?thesis using Cons.prems True others pair [of row] by (auto simp: image_iff)
  next
    case False
    then have mem: "db_edge_id new \<in> set (map db_edge_id rows)" using Cons.prems(3) by auto
    have IH: "distinct (map row_pair (map f rows)) \<longleftrightarrow>
        (\<forall>x \<in> set rows. db_edge_id x \<noteq> db_edge_id new \<longrightarrow> row_pair x \<noteq> row_pair new)"
      using Cons.IH Cons.prems(1,2) mem by simp
    have "row_pair row \<notin> row_pair ` f ` set rows \<longleftrightarrow> row_pair row \<noteq> row_pair new"
    proof -
      obtain x where x: "x \<in> set rows" "db_edge_id x = db_edge_id new" using mem by auto
      then have "row_pair new \<in> row_pair ` f ` set rows" by (metis imageI pair)
      moreover have "row_pair row \<noteq> row_pair y" if "y \<in> set rows" for y
        using Cons.prems(2) imageI [OF that, of row_pair] by auto
      ultimately show ?thesis by (auto simp: image_iff pair)
    qed
    then show ?thesis using IH False pair [of row] by auto
  qed
qed

lemma insert_or_update_fails_iff:
  assumes "table_ok rows"
  shows "insert_or_update new rows = Inl UNIQUE_FAILED \<longleftrightarrow>
    (\<exists>row \<in> set rows. db_edge_id row \<noteq> db_edge_id new \<and> row_pair row = row_pair new)"
proof (cases "db_edge_id new \<in> set (map db_edge_id rows)")
  case True
  have "distinct (map db_edge_id rows)" "distinct (map row_pair rows)"
    using assms by (simp_all add: table_ok_def)
  from distinct_pairs_update [OF this True] show ?thesis
    using True by (auto simp: insert_or_update_def Let_def)
next
  case False
  then have new: "db_edge_id row \<noteq> db_edge_id new" if "row \<in> set rows" for row
    using imageI [OF that, of db_edge_id] by auto
  have "row_pair new \<in> set (map row_pair rows) \<longleftrightarrow> (\<exists>row \<in> set rows. row_pair row = row_pair new)"
    by (auto simp: image_iff) (metis)
  then show ?thesis
    using assms False new unfolding insert_or_update_def Let_def table_ok_def
    by (auto simp: distinct_pairs_snoc simp del: map_append)
qed

text \<open>Creating a relationship that validation accepted throws exactly if another row, whatever
  its status, already links the same two agents: the database's uniqueness constraint also
  covers disabled rows, which validation does not look at.\<close>

theorem accepted_create_throws_iff:
  assumes "hierarchy_ok env rows" and "validateRelationship H env now rows input = result"
    and "vr_ok result" and "vr_relationship result = Inr r"
  shows "createRelationship H env None now audit rows input = Inl UNIQUE_FAILED \<longleftrightarrow>
    (\<exists>row \<in> set rows. db_edge_id row \<noteq> rl_edgeId r
       \<and> db_parent_agent_id row = rl_parentAgentId r \<and> db_child_agent_id row = rl_childAgentId r)"
proof -
  have t: "table_ok rows" using assms(1) by (simp add: hierarchy_ok_def)
  have "createRelationship H env None now audit rows input = Inl UNIQUE_FAILED \<longleftrightarrow>
      upsertAgentRelationship None r audit now rows = Inl UNIQUE_FAILED"
    using assms(2-) by (cases "upsertAgentRelationship None r audit now rows") (auto simp: createRelationship_def Let_def)
  then show ?thesis
    by (simp add: upsertAgentRelationship_def insert_or_update_fails_iff [OF t] row_pair_def)
qed

section \<open>The layout file\<close>

lemma asFiniteNumber_Some: "asFiniteNumber v = Some n \<Longrightarrow> v = JsNumber n \<and> is_finite_number n"
  by (cases v) (auto split: if_splits)

lemma node_layout_roundtrip:
  assumes "is_finite_number (nl_x n)" "is_finite_number (nl_y n)"
  shows "node_layout (node_layout_js n) = Some n"
  using assms by (cases "nl_collapsed n") (simp_all add: node_layout_def node_layout_js_def js_get_def)

lemma node_layout_finite:
  "node_layout v = Some n \<Longrightarrow> is_finite_number (nl_x n) \<and> is_finite_number (nl_y n)"
  by (auto simp: node_layout_def dest: asFiniteNumber_Some split: if_splits option.splits)

lemma foldl_update_distinct:
  assumes "distinct (map fst (acc @ xs))" and "\<forall>(k, v) \<in> set xs. g (h v) = Some v"
  shows "foldl (\<lambda>m (k, raw). case g raw of None \<Rightarrow> m | Some n \<Rightarrow> AList.update k n m) acc
      (map (\<lambda>(k, v). (k, h v)) xs) = acc @ xs"
  using assms
proof (induction xs arbitrary: acc)
  case (Cons kv xs)
  obtain k v where kv: "kv = (k, v)" by force
  have "k \<notin> fst ` set acc" using Cons.prems(1) kv by auto
  then have "AList.update k v acc = acc @ [(k, v)]" by (induction acc) auto
  then show ?case using Cons.IH [of "acc @ [(k, v)]"] Cons.prems kv by simp
qed simp

text \<open>What normalisation yields is a preference that its written form determines.\<close>

definition layout_ok :: "AgentTreeLayoutPreference \<Rightarrow> bool" where
  "layout_ok p \<longleftrightarrow> lp_schemaVersion p = LAYOUT_SCHEMA_VERSION \<and> \<not> blank (lp_layout p) \<and> distinct (map fst (lp_nodes p))
     \<and> (\<forall>(k, n) \<in> set (lp_nodes p). is_finite_number (nl_x n) \<and> is_finite_number (nl_y n))
     \<and> (\<forall>x y z. lp_viewport p = Some (x, y, z) \<longrightarrow> is_finite_number x \<and> is_finite_number y \<and> is_finite_number z)"

lemma foldl_update_invariant:
  assumes "distinct (map fst acc)" and "\<forall>(k, n) \<in> set acc. Q n" and "\<And>raw n. g raw = Some n \<Longrightarrow> Q n"
  shows "distinct (map fst (foldl (\<lambda>m (k, raw). case g raw of None \<Rightarrow> m | Some n \<Rightarrow> AList.update k n m) acc xs))
    \<and> (\<forall>(k, n) \<in> set (foldl (\<lambda>m (k, raw). case g raw of None \<Rightarrow> m | Some n \<Rightarrow> AList.update k n m) acc xs). Q n)"
  using assms(1,2)
proof (induction xs arbitrary: acc)
  case (Cons kv xs)
  obtain k raw where kv: "kv = (k, raw)" by force
  show ?case
  proof (cases "g raw")
    case None
    then show ?thesis using Cons kv by simp
  next
    case (Some n)
    have "distinct (map fst (AList.update k n acc))" using Cons.prems(1) by (rule distinct_update)
    moreover have "\<forall>(k', n') \<in> set (AList.update k n acc). Q n'"
      using Cons.prems(2) assms(3) [OF Some] by (induction acc) (auto split: if_splits)
    ultimately show ?thesis using Cons.IH [of "AList.update k n acc"] kv Some by simp
  qed
qed simp

lemma asString_not_blank: "asString v = Some s \<Longrightarrow> \<not> blank s"
  by (cases v) (auto split: if_splits)

lemma normalizeLayoutPreference_ok: "layout_ok (normalizeLayoutPreference value t)"
proof -
  let ?nodes = "\<lambda>xs. foldl (\<lambda>m (nodeId, rawNode). case node_layout rawNode of
              None \<Rightarrow> m | Some n \<Rightarrow> AList.update nodeId n m) [] xs"
  have "distinct (map fst (?nodes xs)) \<and> (\<forall>(k, n) \<in> set (?nodes xs). is_finite_number (nl_x n) \<and> is_finite_number (nl_y n))" for xs
    by (rule foldl_update_invariant [where Q = "\<lambda>n. is_finite_number (nl_x n) \<and> is_finite_number (nl_y n)"])
      (auto dest: node_layout_finite)
  moreover have "\<not> blank ''tree''" by code_simp
  then have "\<not> blank (or_default (asString v) ''tree'')" for v
    by (cases "asString v") (auto simp: or_default_def dest: asString_not_blank)
  ultimately show ?thesis
    unfolding layout_ok_def normalizeLayoutPreference_def Let_def
    by (auto simp: layout_viewport_def dest: asFiniteNumber_Some split: if_splits option.splits)
qed

lemma normalize_layout_js:
  assumes "layout_ok p" and "lp_updatedAt p = Some t"
  shows "normalizeLayoutPreference (layout_js p) t = p"
proof -
  let ?v = "layout_js p"
  have nodes: "js_get ?v ''nodes'' = JsObject (map (\<lambda>(k, n). (k, node_layout_js n)) (lp_nodes p))"
    and layout: "js_get ?v ''layout'' = JsString (lp_layout p)" and isrec: "isRecord ?v"
    by (simp_all add: layout_js_def js_get_def)
  have viewport: "js_get ?v ''viewport'' = (case lp_viewport p of None \<Rightarrow> JsUndefined | Some (x, y, zoom) \<Rightarrow>
      JsObject [(''x'', JsNumber x), (''y'', JsNumber y), (''zoom'', JsNumber zoom)])"
    by (auto simp: layout_js_def js_get_def split: option.splits)
  have "foldl (\<lambda>m (k, raw). case node_layout raw of None \<Rightarrow> m | Some n \<Rightarrow> AList.update k n m) []
      (map (\<lambda>(k, v). (k, node_layout_js v)) (lp_nodes p)) = [] @ lp_nodes p"
    by (rule foldl_update_distinct) (use assms(1) node_layout_roundtrip in \<open>auto simp: layout_ok_def\<close>)
  moreover have "asString (JsString (lp_layout p)) = Some (lp_layout p)" using assms(1) by (simp add: layout_ok_def)
  moreover have "layout_viewport (js_get ?v ''viewport'') = lp_viewport p"
    unfolding viewport using assms(1) by (cases "lp_viewport p") (auto simp: layout_viewport_def layout_ok_def js_get_def)
  ultimately show ?thesis
    unfolding normalizeLayoutPreference_def Let_def
    using assms isrec nodes layout
    by (intro AgentTreeLayoutPreference.equality) (simp_all add: layout_ok_def or_default_def)
qed

text \<open>The layout preference survives its file: what is read after a write is the preference the
  write returned, whatever was given to it.\<close>

theorem layout_write_read:
  assumes "is_finite_number now"
  shows "readLayout later (fst (writeLayout now input)) = snd (writeLayout now input)"
proof -
  let ?p = "normalizeLayoutPreference input now"
  have t: "lp_updatedAt ?p = Some now" by (simp add: normalizeLayoutPreference_def Let_def)
  have "js_get (layout_js ?p) ''updatedAt'' = JsNumber now" "isRecord (layout_js ?p)"
    by (auto simp: layout_js_def js_get_def t split: option.splits)
  then show ?thesis
    using assms normalize_layout_js [OF normalizeLayoutPreference_ok t]
    by (simp add: readLayout_def writeLayout_def Let_def or_default_def)
qed

theorem layout_write_read_witness:
  "readLayout (Num 9) (fst (writeLayout (Num 5) (JsObject [(''layout'', JsString ''grid'')])))
     = snd (writeLayout (Num 5) (JsObject [(''layout'', JsString ''grid'')]))"
  by (rule layout_write_read) simp

section \<open>Witnesses\<close>

definition sample_env :: AgentHierarchyServiceDependencies where
  "sample_env = \<lparr>dep_rootAgentId = Some ''r'', dep_maxDepth = Some (Num 2), dep_maxChildCount = None,
     dep_knowbee = None, dep_maxDelegationTurns = None, dep_registry_snapshot = [],
     dep_registry_list = [\<lparr>ac_agentId = ''a'', ac_agentType = type_sub_agent, ac_agentName = Some ''A'', ac_status = ag_enabled\<rparr>]\<rparr>"

definition sample_input :: js where
  "sample_input = JsObject [(''parentAgentId'', JsString ''r''), (''childAgentId'', JsString ''a''), (''edgeId'', JsString ''e'')]"

definition sample_row :: "string \<Rightarrow> AgentRelationshipStatus \<Rightarrow> DbAgentRelationship" where
  "sample_row e status = \<lparr>db_edge_id = e, db_parent_agent_id = ''r'', db_child_agent_id = ''a'', db_status = status,
     db_sort_order = Num 0, db_schema_version = 1, db_audit_id = None, db_created_at = Num 1, db_updated_at = Num 1\<rparr>"

lemma sample_created:
  "createRelationship plain_host sample_env None (Num 1) None [] sample_input
     = Inr ([sample_row ''e'' rel_active], \<lparr>vr_ok = True,
         vr_relationship = Inr (relationshipFromRow (sample_row ''e'' rel_active)), vr_diagnostics = []\<rparr>)"
  by code_simp

theorem hierarchy_always_forest_witness:
  "acyclic (edges (activeRelationships plain_host [sample_row ''e'' rel_active]))"
proof -
  have "run_steps (hierarchy_step plain_host sample_env None) [] [CreateOp (Num 1) None sample_input]
      = Some [sample_row ''e'' rel_active]"
    by (simp add: sample_created)
  from hierarchy_always_forest [OF this] show ?thesis by blast
qed

theorem created_relationship_read_back_witness:
  "\<exists>r. get_relationship [sample_row ''e'' rel_active] (rl_edgeId r) = Some r"
  using created_relationship_read_back [OF sample_created] by auto

theorem relationship_accepted_iff_witness:
  "may_link sample_env [] (relationshipFromRow (sample_row ''e'' rel_active))"
proof -
  let ?r = "relationshipFromRow (sample_row ''e'' rel_active)"
  have "validateAgentRelationship (relationship_js ?r) = []" by code_simp
  moreover have "active ?r" "rl_createdAt ?r = Some (Num 1)" "rl_updatedAt ?r = Some (Num 1)"
    by (simp_all add: relationshipFromRow_def sample_row_def)
  moreover have "vr_ok (validateRelationship plain_host sample_env (Num 1) [] (relationship_js ?r))" by code_simp
  moreover have "activeRelationships plain_host [] = []" by code_simp
  ultimately show ?thesis
    using relationship_accepted_iff [OF hierarchy_ok_empty, of ?r "Num 1" "Num 1" plain_host sample_env "Num 1"] by simp
qed

lemma sample_disabled_ok: "hierarchy_ok sample_env [sample_row ''d'' rel_disabled]"
proof -
  let ?input = "JsObject [(''parentAgentId'', JsString ''r''), (''childAgentId'', JsString ''a''), (''edgeId'', JsString ''d'')]"
  have "hierarchy_step plain_host sample_env None [] (CreateOp (Num 1) None ?input) = Some [sample_row ''d'' rel_active]"
    by code_simp
  moreover have "hierarchy_step plain_host sample_env None [sample_row ''d'' rel_active] (DisableOp (Num 1) None ''d'')
      = Some [sample_row ''d'' rel_disabled]"
    by code_simp
  ultimately have "run_steps (hierarchy_step plain_host sample_env None) []
      [CreateOp (Num 1) None ?input, DisableOp (Num 1) None ''d''] = Some [sample_row ''d'' rel_disabled]"
    by simp
  then show ?thesis by (rule hierarchy.run_inv [OF hierarchy_ok_empty])
qed

theorem accepted_create_throws_iff_witness:
  "createRelationship plain_host sample_env None (Num 1) None [sample_row ''d'' rel_disabled] sample_input = Inl UNIQUE_FAILED"
proof -
  let ?rows = "[sample_row ''d'' rel_disabled]"
  let ?result = "validateRelationship plain_host sample_env (Num 1) ?rows sample_input"
  have ok: "vr_ok ?result" by code_simp
  have r: "vr_relationship ?result = Inr (relationshipFromRow (sample_row ''e'' rel_active))" by code_simp
  show ?thesis
    unfolding accepted_create_throws_iff [OF sample_disabled_ok refl ok r]
    by (simp add: sample_row_def relationshipFromRow_def)
qed

end
