(* ===== verification/Side_Effect_Operation.thy ===== *)
theory Side_Effect_Operation
  imports Canonical_Json Machines
begin

text \<open>
  The contract of a side-effect operation (\<open>contracts/side-effect-operation.ts\<close>) and the decisions
  on its verification (\<open>runs/side-effect-verification.ts\<close>): the state machine of an operation, the
  typed receipt every transition needs, the identity that names an operation, the authorisation
  that binds a policy decision to it, and the verdict on an observed post-state.
\<close>

section \<open>States, events and receipts\<close>

datatype SideEffectOperationState =
    RESERVED | EFFECT_STARTED | EFFECT_REJECTED | EFFECT_RECORDED | VERIFYING | VERIFIED
  | VERIFY_FAILED | CANCEL_REQUESTED | COMPENSATING | COMPENSATED | MANUAL_INTERVENTION

datatype SideEffectOperationEvent =
    START_EFFECT | RECORD_REJECTION | RECORD_EFFECT | BEGIN_VERIFICATION | VERIFICATION_PASSED
  | VERIFICATION_FAILED | REQUEST_CANCEL | BEGIN_COMPENSATION | COMPENSATION_SUCCEEDED
  | COMPENSATION_FAILED | MARK_MANUAL

datatype SideEffectReceiptKind =
    kind_authorization | kind_effect | kind_observation | kind_cancellation | kind_compensation | kind_manual

fun operation_state_name :: "SideEffectOperationState \<Rightarrow> string" where
  "operation_state_name RESERVED = ''RESERVED''"
| "operation_state_name EFFECT_STARTED = ''EFFECT_STARTED''"
| "operation_state_name EFFECT_REJECTED = ''EFFECT_REJECTED''"
| "operation_state_name EFFECT_RECORDED = ''EFFECT_RECORDED''"
| "operation_state_name VERIFYING = ''VERIFYING''"
| "operation_state_name VERIFIED = ''VERIFIED''"
| "operation_state_name VERIFY_FAILED = ''VERIFY_FAILED''"
| "operation_state_name CANCEL_REQUESTED = ''CANCEL_REQUESTED''"
| "operation_state_name COMPENSATING = ''COMPENSATING''"
| "operation_state_name COMPENSATED = ''COMPENSATED''"
| "operation_state_name MANUAL_INTERVENTION = ''MANUAL_INTERVENTION''"

definition SIDE_EFFECT_OPERATION_STATES :: "SideEffectOperationState list" where
  "SIDE_EFFECT_OPERATION_STATES = [RESERVED, EFFECT_STARTED, EFFECT_REJECTED, EFFECT_RECORDED, VERIFYING,
     VERIFIED, VERIFY_FAILED, CANCEL_REQUESTED, COMPENSATING, COMPENSATED, MANUAL_INTERVENTION]"

fun operation_event_name :: "SideEffectOperationEvent \<Rightarrow> string" where
  "operation_event_name START_EFFECT = ''START_EFFECT''"
| "operation_event_name RECORD_REJECTION = ''RECORD_REJECTION''"
| "operation_event_name RECORD_EFFECT = ''RECORD_EFFECT''"
| "operation_event_name BEGIN_VERIFICATION = ''BEGIN_VERIFICATION''"
| "operation_event_name VERIFICATION_PASSED = ''VERIFICATION_PASSED''"
| "operation_event_name VERIFICATION_FAILED = ''VERIFICATION_FAILED''"
| "operation_event_name REQUEST_CANCEL = ''REQUEST_CANCEL''"
| "operation_event_name BEGIN_COMPENSATION = ''BEGIN_COMPENSATION''"
| "operation_event_name COMPENSATION_SUCCEEDED = ''COMPENSATION_SUCCEEDED''"
| "operation_event_name COMPENSATION_FAILED = ''COMPENSATION_FAILED''"
| "operation_event_name MARK_MANUAL = ''MARK_MANUAL''"

definition SIDE_EFFECT_OPERATION_EVENTS :: "SideEffectOperationEvent list" where
  "SIDE_EFFECT_OPERATION_EVENTS = [START_EFFECT, RECORD_REJECTION, RECORD_EFFECT, BEGIN_VERIFICATION,
     VERIFICATION_PASSED, VERIFICATION_FAILED, REQUEST_CANCEL, BEGIN_COMPENSATION, COMPENSATION_SUCCEEDED,
     COMPENSATION_FAILED, MARK_MANUAL]"

fun SIDE_EFFECT_EVENT_RECEIPT_KIND :: "SideEffectOperationEvent \<Rightarrow> SideEffectReceiptKind" where
  "SIDE_EFFECT_EVENT_RECEIPT_KIND START_EFFECT = kind_authorization"
| "SIDE_EFFECT_EVENT_RECEIPT_KIND RECORD_REJECTION = kind_effect"
| "SIDE_EFFECT_EVENT_RECEIPT_KIND RECORD_EFFECT = kind_effect"
| "SIDE_EFFECT_EVENT_RECEIPT_KIND BEGIN_VERIFICATION = kind_observation"
| "SIDE_EFFECT_EVENT_RECEIPT_KIND VERIFICATION_PASSED = kind_observation"
| "SIDE_EFFECT_EVENT_RECEIPT_KIND VERIFICATION_FAILED = kind_observation"
| "SIDE_EFFECT_EVENT_RECEIPT_KIND REQUEST_CANCEL = kind_cancellation"
| "SIDE_EFFECT_EVENT_RECEIPT_KIND BEGIN_COMPENSATION = kind_compensation"
| "SIDE_EFFECT_EVENT_RECEIPT_KIND COMPENSATION_SUCCEEDED = kind_compensation"
| "SIDE_EFFECT_EVENT_RECEIPT_KIND COMPENSATION_FAILED = kind_compensation"
| "SIDE_EFFECT_EVENT_RECEIPT_KIND MARK_MANUAL = kind_manual"

record SideEffectOperationReceipt =
  rc_schemaVersion :: nat
  rc_receiptId :: string
  rc_operationId :: string
  rc_workId :: string
  rc_event :: SideEffectOperationEvent
  rc_kind :: SideEffectReceiptKind
  rc_evidenceFingerprint :: string
  rc_evidenceRefs :: "string list"
  rc_operationRevision :: number
  rc_issuedAt :: number

datatype SideEffectClass = class_read_only | class_local_write | class_external_write | class_destructive | class_financial

definition STATE_CHANGING_SIDE_EFFECT_CLASSES :: "SideEffectClass list" where
  "STATE_CHANGING_SIDE_EFFECT_CLASSES = [class_local_write, class_external_write, class_destructive, class_financial]"

record SideEffectOperationIdentity =
  id_operationId :: string
  id_scopeId :: string
  id_runId :: string
  id_workId :: string
  id_stepKey :: string
  id_adapterId :: string
  id_targetFingerprint :: string
  id_paramsFingerprint :: string

record PreparedSideEffectOperation =
  pr_schemaVersion :: nat
  pr_identity :: SideEffectOperationIdentity
  pr_operationBindingHash :: string
  pr_resolvedTargetFingerprint :: string
  pr_effectFingerprint :: string

record SideEffectOperationAuthorization =
  au_policyDecisionId :: string
  au_policyReceiptRef :: string
  au_operationId :: string
  au_runId :: string
  au_adapterId :: string
  au_effectClass :: SideEffectClass
  au_targetFingerprint :: string
  au_paramsFingerprint :: string
  au_scopeFingerprint :: string
  au_expectedEffectFingerprint :: string

section \<open>Receipts\<close>

definition required :: "string \<Rightarrow> string \<Rightarrow> string + string" where
  "required value field = requireText (field @ '' is required.'') value"

definition receipt_valid ::
  "SideEffectOperationReceipt \<Rightarrow> SideEffectOperationIdentity \<Rightarrow> SideEffectOperationEvent \<Rightarrow> number \<Rightarrow> bool" where
  "receipt_valid receipt identity event operationRevision \<longleftrightarrow> \<not> (
     rc_schemaVersion receipt \<noteq> 1
     \<or> blank (rc_receiptId receipt)
     \<or> rc_operationId receipt \<noteq> id_operationId identity
     \<or> rc_workId receipt \<noteq> id_workId identity
     \<or> rc_event receipt \<noteq> event
     \<or> rc_kind receipt \<noteq> SIDE_EFFECT_EVENT_RECEIPT_KIND event
     \<or> \<not> num_eq (rc_operationRevision receipt) operationRevision
     \<or> \<not> is_safe_integer (rc_operationRevision receipt)
     \<or> num_le (rc_operationRevision receipt) (Num 0)
     \<or> \<not> is_safe_integer (rc_issuedAt receipt)
     \<or> num_lt (rc_issuedAt receipt) (Num 0)
     \<or> \<not> HASH_PATTERN (rc_evidenceFingerprint receipt)
     \<or> rc_evidenceRefs receipt = []
     \<or> list_ex blank (rc_evidenceRefs receipt)
     \<or> length (js_set (rc_evidenceRefs receipt)) \<noteq> length (rc_evidenceRefs receipt))"

text \<open>\<open>{ ok: true }\<close> is \<open>Inr ()\<close>, \<open>{ ok: false, reasonCode }\<close> is \<open>Inl reasonCode\<close>.\<close>

definition validateSideEffectOperationReceipt ::
  "SideEffectOperationReceipt \<Rightarrow> SideEffectOperationIdentity \<Rightarrow> SideEffectOperationEvent \<Rightarrow> number \<Rightarrow> string + unit" where
  "validateSideEffectOperationReceipt receipt identity event operationRevision =
     (if receipt_valid receipt identity event operationRevision then Inr () else Inl ''side_effect_receipt_invalid'')"

text \<open>\<open>encodeURIComponent\<close> on the code units of \<open>Prelude\<close>: unreserved characters stay, the others are
  the percent-encoded bytes of their UTF-8 form.\<close>

definition URI_UNRESERVED :: string where
  "URI_UNRESERVED = ''ABCDEFGHIJKLMNOPQRSTUVWXYZabcdefghijklmnopqrstuvwxyz0123456789-_.!~*'' @ [CHR 0x27] @ ''()''"

definition hex_digit :: "nat \<Rightarrow> char" where
  "hex_digit n = ''0123456789ABCDEF'' ! n"

definition percent_byte :: "nat \<Rightarrow> string" where
  "percent_byte b = [CHR 0x25, hex_digit (b div 16 mod 16), hex_digit (b mod 16)]"

definition encode_char :: "char \<Rightarrow> string" where
  "encode_char c =
     (let n = (of_char c :: nat)
      in if c \<in> set URI_UNRESERVED then [c]
         else if n < 128 then percent_byte n
         else percent_byte (192 + n div 64) @ percent_byte (128 + n mod 64))"

definition encodeURIComponent :: "string \<Rightarrow> string" where
  "encodeURIComponent s = concat (map encode_char s)"

text \<open>\<open>s.slice(-n)\<close>.\<close>

definition slice_last :: "nat \<Rightarrow> string \<Rightarrow> string" where
  "slice_last n s = drop (length s - n) s"

definition buildSideEffectOperationReceipt ::
  "SideEffectOperationIdentity \<Rightarrow> SideEffectOperationEvent \<Rightarrow> nat \<Rightarrow> string \<Rightarrow> string list \<Rightarrow> number
     \<Rightarrow> string + SideEffectOperationReceipt" where
  "buildSideEffectOperationReceipt identity event operationRevision evidenceFingerprint evidenceRefs issuedAt =
     (let receipt = \<lparr>rc_schemaVersion = 1,
        rc_receiptId = ''side-effect-receipt:'' @ encodeURIComponent (id_operationId identity) @ '':''
          @ show_nat operationRevision @ '':'' @ slice_last 24 evidenceFingerprint,
        rc_operationId = id_operationId identity, rc_workId = id_workId identity, rc_event = event,
        rc_kind = SIDE_EFFECT_EVENT_RECEIPT_KIND event, rc_evidenceFingerprint = evidenceFingerprint,
        rc_evidenceRefs = js_set evidenceRefs, rc_operationRevision = Num (of_nat operationRevision),
        rc_issuedAt = issuedAt\<rparr>
      in rbind (validateSideEffectOperationReceipt receipt identity event (Num (of_nat operationRevision)))
           (\<lambda>_. Inr receipt))"

section \<open>Identity and authorisation\<close>

definition buildSideEffectOperationIdentity ::
  "string \<Rightarrow> string \<Rightarrow> string \<Rightarrow> string \<Rightarrow> string \<Rightarrow> string \<Rightarrow> string + SideEffectOperationIdentity" where
  "buildSideEffectOperationIdentity in_runId in_workId in_stepKey in_adapterId targetFingerprint paramsFingerprint =
     rbind (required in_runId ''Run ID'') (\<lambda>runId.
     rbind (required in_workId ''Work ID'') (\<lambda>workId.
     rbind (required in_stepKey ''Step key'') (\<lambda>stepKey.
     rbind (required in_adapterId ''Adapter ID'') (\<lambda>adapterId.
       if \<not> HASH_PATTERN targetFingerprint \<or> \<not> HASH_PATTERN paramsFingerprint
       then Inl ''Side-effect operation fingerprints must be SHA-256 references.''
       else Inr \<lparr>
         id_operationId = ''operation:'' @ runId @ '':'' @ stepKey @ '':'' @ encodeURIComponent adapterId @ '':''
           @ slice_last 16 targetFingerprint @ '':'' @ slice_last 16 paramsFingerprint,
         id_scopeId = ''operation-scope:'' @ runId @ '':'' @ stepKey @ '':'' @ encodeURIComponent adapterId @ '':''
           @ slice_last 16 targetFingerprint,
         id_runId = runId, id_workId = workId, id_stepKey = stepKey, id_adapterId = adapterId,
         id_targetFingerprint = targetFingerprint, id_paramsFingerprint = paramsFingerprint\<rparr>))))"

definition buildPreparedSideEffectOperation ::
  "SideEffectOperationIdentity \<Rightarrow> string \<Rightarrow> string + PreparedSideEffectOperation" where
  "buildPreparedSideEffectOperation identity operationBindingHash =
     (if \<not> HASH_PATTERN operationBindingHash
      then Inl ''Prepared side-effect operation binding must be a SHA-256 reference.''
      else Inr \<lparr>pr_schemaVersion = 1, pr_identity = identity, pr_operationBindingHash = operationBindingHash,
        pr_resolvedTargetFingerprint = id_targetFingerprint identity,
        pr_effectFingerprint = id_paramsFingerprint identity\<rparr>)"

definition buildSideEffectOperationAuthorization ::
  "SideEffectOperationIdentity \<Rightarrow> string \<Rightarrow> string \<Rightarrow> SideEffectClass \<Rightarrow> string \<Rightarrow> string
     \<Rightarrow> string + SideEffectOperationAuthorization" where
  "buildSideEffectOperationAuthorization identity policyDecisionId policyReceiptRef effectClass scopeFingerprint
       expectedEffectFingerprint =
     (if effectClass \<notin> set STATE_CHANGING_SIDE_EFFECT_CLASSES
      then Inl ''Side-effect authorization requires a state-changing effect class.''
      else if \<not> HASH_PATTERN scopeFingerprint \<or> \<not> HASH_PATTERN expectedEffectFingerprint
      then Inl ''Side-effect authorization fingerprints must be SHA-256 references.''
      else rbind (required policyDecisionId ''Policy decision ID'') (\<lambda>decisionId.
           rbind (required policyReceiptRef ''Policy receipt reference'') (\<lambda>receiptRef.
             Inr \<lparr>au_policyDecisionId = decisionId, au_policyReceiptRef = receiptRef,
               au_operationId = id_operationId identity, au_runId = id_runId identity,
               au_adapterId = id_adapterId identity, au_effectClass = effectClass,
               au_targetFingerprint = id_targetFingerprint identity,
               au_paramsFingerprint = id_paramsFingerprint identity, au_scopeFingerprint = scopeFingerprint,
               au_expectedEffectFingerprint = expectedEffectFingerprint\<rparr>)))"

definition validateSideEffectOperationAuthorization ::
  "SideEffectOperationIdentity \<Rightarrow> SideEffectOperationAuthorization option \<Rightarrow> string + SideEffectOperationAuthorization" where
  "validateSideEffectOperationAuthorization identity authorization =
     (case authorization of
        None \<Rightarrow> Inl ''side_effect_authorization_required''
      | Some a \<Rightarrow>
          if au_operationId a \<noteq> id_operationId identity \<or> au_runId a \<noteq> id_runId identity
            \<or> au_adapterId a \<noteq> id_adapterId identity \<or> au_targetFingerprint a \<noteq> id_targetFingerprint identity
            \<or> au_paramsFingerprint a \<noteq> id_paramsFingerprint identity
          then Inl ''side_effect_authorization_scope_mismatch''
          else if blank (au_policyDecisionId a) \<or> blank (au_policyReceiptRef a)
            \<or> \<not> HASH_PATTERN (au_scopeFingerprint a) \<or> \<not> HASH_PATTERN (au_expectedEffectFingerprint a)
          then Inl ''side_effect_authorization_invalid''
          else Inr a)"

section \<open>Transitions\<close>

fun operation_row :: "SideEffectOperationState \<Rightarrow> (SideEffectOperationEvent \<times> SideEffectOperationState) list" where
  "operation_row RESERVED = [(START_EFFECT, EFFECT_STARTED), (REQUEST_CANCEL, CANCEL_REQUESTED)]"
| "operation_row EFFECT_STARTED = [(RECORD_REJECTION, EFFECT_REJECTED), (RECORD_EFFECT, EFFECT_RECORDED),
     (REQUEST_CANCEL, CANCEL_REQUESTED)]"
| "operation_row EFFECT_REJECTED = []"
| "operation_row EFFECT_RECORDED = [(BEGIN_VERIFICATION, VERIFYING), (REQUEST_CANCEL, CANCEL_REQUESTED)]"
| "operation_row VERIFYING = [(VERIFICATION_PASSED, VERIFIED), (VERIFICATION_FAILED, VERIFY_FAILED),
     (REQUEST_CANCEL, CANCEL_REQUESTED)]"
| "operation_row VERIFIED = []"
| "operation_row VERIFY_FAILED = [(BEGIN_COMPENSATION, COMPENSATING), (MARK_MANUAL, MANUAL_INTERVENTION)]"
| "operation_row CANCEL_REQUESTED = [(BEGIN_VERIFICATION, VERIFYING), (BEGIN_COMPENSATION, COMPENSATING),
     (MARK_MANUAL, MANUAL_INTERVENTION)]"
| "operation_row COMPENSATING = [(COMPENSATION_SUCCEEDED, COMPENSATED), (COMPENSATION_FAILED, MANUAL_INTERVENTION)]"
| "operation_row COMPENSATED = []"
| "operation_row MANUAL_INTERVENTION = []"

definition OPERATION_TRANSITIONS :: "SideEffectOperationState \<Rightarrow> SideEffectOperationEvent \<Rightarrow> SideEffectOperationState option" where
  "OPERATION_TRANSITIONS state = map_of (operation_row state)"

definition OPERATION_TERMINAL_STATES :: "SideEffectOperationState list" where
  "OPERATION_TERMINAL_STATES = [VERIFIED, COMPENSATED, MANUAL_INTERVENTION, EFFECT_REJECTED]"

record AcceptedTransition =
  ac_previousState :: SideEffectOperationState
  ac_event :: SideEffectOperationEvent
  ac_nextState :: SideEffectOperationState
  ac_receiptRef :: string

definition transitionSideEffectOperation ::
  "SideEffectOperationState \<Rightarrow> SideEffectOperationEvent \<Rightarrow> string \<Rightarrow> string + AcceptedTransition" where
  "transitionSideEffectOperation state event receiptRef =
     (if js_trim receiptRef = [] then Inl ''receipt_required''
      else if state \<in> set OPERATION_TERMINAL_STATES then Inl ''terminal_state_locked''
      else case OPERATION_TRANSITIONS state event of
        None \<Rightarrow> Inl ''transition_not_allowed''
      | Some nextState \<Rightarrow> Inr \<lparr>ac_previousState = state, ac_event = event, ac_nextState = nextState,
          ac_receiptRef = js_trim receiptRef\<rparr>)"

section \<open>Verification of an effect\<close>

record SideEffectReceiptEvidence =
  ef_success :: bool
  ef_targetFingerprint :: string
  ef_resultFingerprint :: string
  ef_recordedAt :: number
  ef_receiptRef :: string

record SideEffectObservationEvidence =
  ob_available :: bool
  ob_targetFingerprint :: string
  ob_expectedStateFingerprint :: string
  ob_observedStateFingerprint :: string
  ob_capturedAt :: number
  ob_receiptRef :: string

text \<open>A verdict: the two receipts, or the reason it is not verified.\<close>

type_synonym SideEffectVerificationDecision = "string + string \<times> string"

definition decideSideEffectVerification ::
  "SideEffectReceiptEvidence \<Rightarrow> SideEffectObservationEvidence \<Rightarrow> string option \<Rightarrow> SideEffectVerificationDecision" where
  "decideSideEffectVerification effect observation authorizedExpected =
     (if \<not> ef_success effect then Inl ''adapter_failed''
      else if \<not> ob_available observation then Inl ''observation_unavailable''
      else if ob_targetFingerprint observation \<noteq> ef_targetFingerprint effect then Inl ''observation_target_mismatch''
      else if (case authorizedExpected of None \<Rightarrow> False
               | Some expected \<Rightarrow> ob_expectedStateFingerprint observation \<noteq> expected)
      then Inl ''authorized_expectation_mismatch''
      else if num_lt (ob_capturedAt observation) (ef_recordedAt effect) then Inl ''observation_stale''
      else if ob_observedStateFingerprint observation \<noteq> ob_expectedStateFingerprint observation
      then Inl ''post_state_mismatch''
      else Inr (ef_receiptRef effect, ob_receiptRef observation))"

definition decideResumedSideEffectVerification ::
  "string \<Rightarrow> string \<Rightarrow> string \<Rightarrow> SideEffectObservationEvidence \<Rightarrow> SideEffectVerificationDecision" where
  "decideResumedSideEffectVerification targetFingerprint authorizedExpected effectReceiptRef observation =
     (if \<not> ob_available observation then Inl ''observation_unavailable''
      else if ob_targetFingerprint observation \<noteq> targetFingerprint then Inl ''observation_target_mismatch''
      else if ob_expectedStateFingerprint observation \<noteq> authorizedExpected then Inl ''authorized_expectation_mismatch''
      else if ob_observedStateFingerprint observation \<noteq> ob_expectedStateFingerprint observation
      then Inl ''post_state_mismatch''
      else Inr (effectReceiptRef, ob_receiptRef observation))"

datatype CompensationSupport = reversible | irreversible

datatype RemediationAction = act_none | act_compensate | act_manual_intervention

definition decideSideEffectRemediation ::
  "SideEffectVerificationDecision \<Rightarrow> CompensationSupport \<Rightarrow> RemediationAction \<times> string" where
  "decideSideEffectRemediation decision compensationSupport =
     (case decision of
        Inr _ \<Rightarrow> (act_none, ''side_effect_verified'')
      | Inl _ \<Rightarrow> (case compensationSupport of
            reversible \<Rightarrow> (act_compensate, ''side_effect_verification_failed'')
          | irreversible \<Rightarrow> (act_manual_intervention, ''side_effect_irreversible'')))"

section \<open>The state machine\<close>

definition operation_step ::
  "SideEffectOperationState \<Rightarrow> SideEffectOperationEvent \<times> string \<Rightarrow> SideEffectOperationState option" where
  "operation_step state er = (case transitionSideEffectOperation state (fst er) (snd er) of
     Inl _ \<Rightarrow> None | Inr a \<Rightarrow> Some (ac_nextState a))"

lemma transition_Inr_iff:
  "transitionSideEffectOperation s e ref = Inr a \<longleftrightarrow>
     \<not> blank ref \<and> OPERATION_TRANSITIONS s e = Some (ac_nextState a)
     \<and> a = \<lparr>ac_previousState = s, ac_event = e, ac_nextState = ac_nextState a, ac_receiptRef = js_trim ref\<rparr>"
proof -
  have "s \<in> set OPERATION_TERMINAL_STATES \<Longrightarrow> OPERATION_TRANSITIONS s e = None"
    by (auto simp: OPERATION_TERMINAL_STATES_def OPERATION_TRANSITIONS_def)
  then show ?thesis
    by (auto simp: transitionSideEffectOperation_def blank_def split: option.splits)
qed

lemma operation_step_iff:
  "operation_step s (e, ref) = Some t \<longleftrightarrow> \<not> blank ref \<and> OPERATION_TRANSITIONS s e = Some t"
proof
  assume "operation_step s (e, ref) = Some t"
  then show "\<not> blank ref \<and> OPERATION_TRANSITIONS s e = Some t"
    by (auto simp: operation_step_def transition_Inr_iff split: sum.splits)
next
  assume "\<not> blank ref \<and> OPERATION_TRANSITIONS s e = Some t"
  then have "transitionSideEffectOperation s e ref =
      Inr \<lparr>ac_previousState = s, ac_event = e, ac_nextState = t, ac_receiptRef = js_trim ref\<rparr>"
    unfolding transition_Inr_iff by simp
  then show "operation_step s (e, ref) = Some t" by (simp add: operation_step_def)
qed

lemma not_blank_letter: "\<not> blank ''r''"
  by code_simp

interpretation operation: live_machine operation_step "\<lambda>s. s \<in> set OPERATION_TERMINAL_STATES"
proof unfold_locales
  show "operation_step s er = None" if "s \<in> set OPERATION_TERMINAL_STATES" for s er
    using that by (simp add: operation_step_def transitionSideEffectOperation_def)
  show "\<exists>er t. operation_step s er = Some t" if "s \<notin> set OPERATION_TERMINAL_STATES" for s
  proof -
    from that obtain e t where "OPERATION_TRANSITIONS s e = Some t"
      by (cases s) (force simp: OPERATION_TRANSITIONS_def OPERATION_TERMINAL_STATES_def)+
    then have "operation_step s (e, ''r'') = Some t" by (simp add: operation_step_iff not_blank_letter)
    then show ?thesis by blast
  qed
qed

lemma never_reserved_again: "OPERATION_TRANSITIONS s e = Some t \<Longrightarrow> t \<noteq> RESERVED"
  by (cases s) (auto simp: OPERATION_TRANSITIONS_def split: if_splits)

lemma start_only_from_reserved: "OPERATION_TRANSITIONS s START_EFFECT = Some t \<Longrightarrow> s = RESERVED \<and> t = EFFECT_STARTED"
  by (cases s) (auto simp: OPERATION_TRANSITIONS_def)

section \<open>Identities\<close>

lemma HASH_PATTERN_length: "HASH_PATTERN s \<Longrightarrow> length s = 71"
  by (simp add: HASH_PATTERN_def)

text \<open>The fields of a built identity are trimmed and well formed, so building again changes nothing.\<close>

definition built_identity :: "SideEffectOperationIdentity \<Rightarrow> bool" where
  "built_identity i \<longleftrightarrow> buildSideEffectOperationIdentity (id_runId i) (id_workId i) (id_stepKey i) (id_adapterId i)
     (id_targetFingerprint i) (id_paramsFingerprint i) = Inr i"

lemma required_Inr_iff: "required v f = Inr t \<longleftrightarrow> \<not> blank v \<and> t = js_trim v"
  by (simp add: required_def requireText_Inr_iff)

lemma build_identity_built:
  assumes "buildSideEffectOperationIdentity r w s a tf pf = Inr i"
  shows "built_identity i"
  using assms unfolding buildSideEffectOperationIdentity_def built_identity_def
  by (auto simp: rbind_Inr_iff required_Inr_iff split: if_splits)

lemma built_identity_ids:
  assumes "built_identity i"
  shows "id_scopeId i = ''operation-scope:'' @ id_runId i @ '':'' @ id_stepKey i @ '':'' @ encodeURIComponent (id_adapterId i)
      @ '':'' @ slice_last 16 (id_targetFingerprint i)"
    and "id_operationId i = ''operation:'' @ id_runId i @ '':'' @ id_stepKey i @ '':'' @ encodeURIComponent (id_adapterId i)
      @ '':'' @ slice_last 16 (id_targetFingerprint i) @ '':'' @ slice_last 16 (id_paramsFingerprint i)"
    and "length (slice_last 16 (id_targetFingerprint i)) = 16" "length (slice_last 16 (id_paramsFingerprint i)) = 16"
proof -
  have "buildSideEffectOperationIdentity (id_runId i) (id_workId i) (id_stepKey i) (id_adapterId i)
     (id_targetFingerprint i) (id_paramsFingerprint i) = Inr i" using assms by (simp add: built_identity_def)
  then have eq: "i = \<lparr>id_operationId = ''operation:'' @ js_trim (id_runId i) @ '':'' @ js_trim (id_stepKey i) @ '':''
        @ encodeURIComponent (js_trim (id_adapterId i)) @ '':''
        @ slice_last 16 (id_targetFingerprint i) @ '':'' @ slice_last 16 (id_paramsFingerprint i),
      id_scopeId = ''operation-scope:'' @ js_trim (id_runId i) @ '':'' @ js_trim (id_stepKey i) @ '':''
        @ encodeURIComponent (js_trim (id_adapterId i)) @ '':'' @ slice_last 16 (id_targetFingerprint i),
      id_runId = js_trim (id_runId i), id_workId = js_trim (id_workId i), id_stepKey = js_trim (id_stepKey i),
      id_adapterId = js_trim (id_adapterId i),
      id_targetFingerprint = id_targetFingerprint i, id_paramsFingerprint = id_paramsFingerprint i\<rparr>"
    and hash: "HASH_PATTERN (id_targetFingerprint i)" "HASH_PATTERN (id_paramsFingerprint i)"
    unfolding buildSideEffectOperationIdentity_def
    by (simp_all add: rbind_Inr_iff required_Inr_iff split: if_splits)
  have trims: "js_trim (id_runId i) = id_runId i" "js_trim (id_stepKey i) = id_stepKey i"
    "js_trim (id_adapterId i) = id_adapterId i"
    using eq by (metis SideEffectOperationIdentity.select_convs)+
  show "id_scopeId i = ''operation-scope:'' @ id_runId i @ '':'' @ id_stepKey i @ '':'' @ encodeURIComponent (id_adapterId i)
      @ '':'' @ slice_last 16 (id_targetFingerprint i)"
    using eq unfolding trims by (metis SideEffectOperationIdentity.select_convs(2))
  show "id_operationId i = ''operation:'' @ id_runId i @ '':'' @ id_stepKey i @ '':'' @ encodeURIComponent (id_adapterId i)
      @ '':'' @ slice_last 16 (id_targetFingerprint i) @ '':'' @ slice_last 16 (id_paramsFingerprint i)"
    using eq unfolding trims by (metis SideEffectOperationIdentity.select_convs(1))
  show "length (slice_last 16 (id_targetFingerprint i)) = 16" "length (slice_last 16 (id_paramsFingerprint i)) = 16"
    using hash by (simp_all add: slice_last_def HASH_PATTERN_length)
qed

text \<open>\<open>encodeURIComponent\<close> is injective: the first byte of a code determines its length.\<close>

lemma encode_char_cases:
  "encode_char c = [c] \<and> c \<noteq> CHR 0x25 \<or>
   encode_char c = percent_byte (of_char c) \<and> (of_char c :: nat) < 128 \<or>
   encode_char c = percent_byte (192 + of_char c div 64) @ percent_byte (128 + of_char c mod 64) \<and> \<not> (of_char c :: nat) < 128"
proof -
  have "CHR 0x25 \<notin> set URI_UNRESERVED" by code_simp
  then show ?thesis unfolding encode_char_def Let_def by auto
qed

lemma hex_digit_inj:
  assumes "a < 16" "b < 16" "hex_digit a = hex_digit b"
  shows "a = b"
proof -
  have "distinct ''0123456789ABCDEF''" by code_simp
  with assms show ?thesis unfolding hex_digit_def by (subst (asm) nth_eq_iff_index_eq) auto
qed

lemma percent_byte_inj:
  assumes "percent_byte a @ x = percent_byte b @ y" "a < 256" "b < 256"
  shows "a = b \<and> x = y"
proof -
  have "a div 16 mod 16 = b div 16 mod 16" "a mod 16 = b mod 16"
    using assms(1) hex_digit_inj [of "a div 16 mod 16" "b div 16 mod 16"] hex_digit_inj [of "a mod 16" "b mod 16"]
    by (auto simp: percent_byte_def)
  moreover have "a div 16 < 16" "b div 16 < 16" using assms(2,3) by auto
  ultimately have "a = b" by (metis div_mult_mod_eq mod_less)
  with assms(1) show ?thesis by simp
qed

lemma percent_byte_Cons: "percent_byte b @ x = CHR 0x25 # hex_digit (b div 16 mod 16) # hex_digit (b mod 16) # x"
  by (simp add: percent_byte_def)

lemma of_char_inj: "(of_char c :: nat) = of_char d \<Longrightarrow> c = d"
  by (metis char_of_char)

lemma encode_char_prefix_free:
  assumes "encode_char c @ x = encode_char d @ y"
  shows "c = d \<and> x = y"
proof -
  let ?n = "of_char c :: nat" and ?m = "of_char d :: nat"
  have b: "?n < 256" "?m < 256" by simp_all
  then have b2: "192 + ?n div 64 < 256" "192 + ?m div 64 < 256" "128 + ?n mod 64 < 256" "128 + ?m mod 64 < 256"
    using less_mult_imp_div_less [of ?n 64 64] less_mult_imp_div_less [of ?m 64 64]
      mod_less_divisor [of 64 ?n] mod_less_divisor [of 64 ?m] by linarith+
  consider "encode_char c = [c]" "encode_char d = [d]" | "encode_char c = [c]" "c \<noteq> CHR 0x25" "encode_char d \<noteq> [d]"
    | "encode_char d = [d]" "d \<noteq> CHR 0x25" "encode_char c \<noteq> [c]"
    | (22) "encode_char c = percent_byte ?n" "?n < 128" "encode_char d = percent_byte ?m" "?m < 128"
    | (23) "encode_char c = percent_byte ?n" "?n < 128" "encode_char d = percent_byte (192 + ?m div 64) @ percent_byte (128 + ?m mod 64)"
    | (32) "encode_char d = percent_byte ?m" "?m < 128" "encode_char c = percent_byte (192 + ?n div 64) @ percent_byte (128 + ?n mod 64)"
    | (33) "encode_char c = percent_byte (192 + ?n div 64) @ percent_byte (128 + ?n mod 64)"
      "encode_char d = percent_byte (192 + ?m div 64) @ percent_byte (128 + ?m mod 64)"
    using encode_char_cases [of c] encode_char_cases [of d] by metis
  then show ?thesis
  proof cases
    case 1
    with assms show ?thesis by simp
  next
    case 2
    from 2(3) encode_char_cases [of d] obtain z where "encode_char d @ y = CHR 0x25 # z"
      by (auto simp: percent_byte_Cons)
    with assms 2 show ?thesis by simp
  next
    case 3
    from 3(3) encode_char_cases [of c] obtain z where "encode_char c @ x = CHR 0x25 # z"
      by (auto simp: percent_byte_Cons)
    with assms 3 show ?thesis by simp
  next
    case 22
    with assms have "?n = ?m \<and> x = y" using percent_byte_inj b by metis
    then show ?thesis using of_char_inj by blast
  next
    case 23
    with assms have "percent_byte ?n @ x = percent_byte (192 + ?m div 64) @ (percent_byte (128 + ?m mod 64) @ y)" by simp
    from percent_byte_inj [OF this b(1) b2(2)] 23 show ?thesis by simp
  next
    case 32
    with assms have "percent_byte ?m @ y = percent_byte (192 + ?n div 64) @ (percent_byte (128 + ?n mod 64) @ x)" by simp
    from percent_byte_inj [OF this b(2) b2(1)] 32 show ?thesis by simp
  next
    case 33
    with assms have e: "percent_byte (192 + ?n div 64) @ (percent_byte (128 + ?n mod 64) @ x)
        = percent_byte (192 + ?m div 64) @ (percent_byte (128 + ?m mod 64) @ y)" by simp
    from percent_byte_inj [OF e b2(1,2)] have d: "?n div 64 = ?m div 64"
      and e2: "percent_byte (128 + ?n mod 64) @ x = percent_byte (128 + ?m mod 64) @ y" by auto
    from percent_byte_inj [OF e2 b2(3,4)] have "?n mod 64 = ?m mod 64" "x = y" by auto
    with d have "?n = ?m" by (metis div_mult_mod_eq)
    with \<open>x = y\<close> show ?thesis using of_char_inj by blast
  qed
qed

lemma encode_char_not_Nil: "encode_char c \<noteq> []"
  by (auto simp: encode_char_def Let_def percent_byte_def)

lemma encodeURIComponent_inj: "encodeURIComponent s = encodeURIComponent t \<Longrightarrow> s = t"
proof (induction s arbitrary: t)
  case Nil
  then show ?case by (cases t) (auto simp: encodeURIComponent_def encode_char_not_Nil)
next
  case (Cons c s)
  show ?case
  proof (cases t)
    case Nil
    with Cons.prems show ?thesis by (simp add: encodeURIComponent_def encode_char_not_Nil)
  next
    case (Cons d t')
    with Cons.prems have "encode_char c @ concat (map encode_char s) = encode_char d @ concat (map encode_char t')"
      by (simp add: encodeURIComponent_def)
    from encode_char_prefix_free [OF this] Cons.IH [of t'] Cons show ?thesis
      by (simp add: encodeURIComponent_def)
  qed
qed

section \<open>Properties of the contract\<close>

text \<open>Within one step of one run, a scope names exactly one adapter and target (up to the digits
  of the target's hash that it carries) and an operation exactly one scope and parameter hash.\<close>

theorem operation_ids_exact:
  assumes "built_identity i" and "built_identity j" and "id_runId i = id_runId j" and "id_stepKey i = id_stepKey j"
  shows "(id_scopeId i = id_scopeId j \<longleftrightarrow> id_adapterId i = id_adapterId j
      \<and> slice_last 16 (id_targetFingerprint i) = slice_last 16 (id_targetFingerprint j))
    \<and> (id_operationId i = id_operationId j \<longleftrightarrow> id_scopeId i = id_scopeId j
      \<and> slice_last 16 (id_paramsFingerprint i) = slice_last 16 (id_paramsFingerprint j))"
  using built_identity_ids [OF assms(1)] built_identity_ids [OF assms(2)] assms(3,4)
  by (auto dest: encodeURIComponent_inj)

definition sample_hash :: "char \<Rightarrow> string" where
  "sample_hash c = ''sha256:'' @ replicate 64 c"

definition sample_identity :: "char \<Rightarrow> SideEffectOperationIdentity" where
  "sample_identity c = (case buildSideEffectOperationIdentity ''run'' ''work'' ''step'' ''adapter'' (sample_hash CHR ''a'') (sample_hash c)
     of Inr i \<Rightarrow> i | Inl _ \<Rightarrow> undefined)"

lemma sample_identity_built: "built_identity (sample_identity CHR ''a'')" "built_identity (sample_identity CHR ''b'')"
  by code_simp+

theorem operation_ids_exact_witness:
  "id_operationId (sample_identity CHR ''a'') \<noteq> id_operationId (sample_identity CHR ''b'')"
proof -
  have "id_runId (sample_identity CHR ''a'') = id_runId (sample_identity CHR ''b'')"
    "id_stepKey (sample_identity CHR ''a'') = id_stepKey (sample_identity CHR ''b'')"
    "slice_last 16 (id_paramsFingerprint (sample_identity CHR ''a'')) \<noteq> slice_last 16 (id_paramsFingerprint (sample_identity CHR ''b''))"
    by code_simp+
  then show ?thesis using operation_ids_exact [OF sample_identity_built] by blast
qed

end
