(* ===== verification/Side_Effect_Store.thy ===== *)
theory Side_Effect_Store
  imports Side_Effect_Operation Js_Values
begin

text \<open>
  The persisted history of a side-effect operation: the use cases that reserve an operation and move
  it on (\<open>runs/side-effect-operation-use-case.ts\<close>), over the repository interface they are given, and
  the SQLite repository (\<open>db/side-effect-operation-repository.ts\<close>) with the constraints of its two
  tables (\<open>db/migrations.ts\<close>, version 77). What the use cases rely on is the locale
  \<open>operation_repository\<close>; the SQLite repository is its interpretation.

  A text column that holds JSON is the value \<open>JSON.parse\<close> returns for it, \<open>None\<close> if it throws; the
  value of a text written by \<open>JSON.stringify\<close> is the value that was written.
\<close>

section \<open>Aggregates and the repository interface\<close>

record SideEffectOperationTransitionRecord =
  tr_revision :: nat
  tr_previousState :: SideEffectOperationState
  tr_event :: SideEffectOperationEvent
  tr_nextState :: SideEffectOperationState
  tr_receiptRef :: string

record SideEffectOperationAggregate =
  ag_identity :: SideEffectOperationIdentity
  ag_state :: SideEffectOperationState
  ag_revision :: nat
  ag_transitions :: "SideEffectOperationTransitionRecord list"

text \<open>The answer of \<open>saveTransition\<close>: saved, or the reason and the current revision.\<close>

datatype SaveResult = Saved | NotSaved string nat

text \<open>An operation of the repository may throw; those that write return the new database.\<close>

record 'db SideEffectOperationRepository =
  rp_loadByScope :: "string \<Rightarrow> 'db \<Rightarrow> string + SideEffectOperationAggregate option"
  rp_create :: "SideEffectOperationAggregate \<Rightarrow> 'db \<Rightarrow> string + bool \<times> 'db"
  rp_loadReceipt :: "string \<Rightarrow> 'db \<Rightarrow> string + SideEffectOperationReceipt option"
  rp_saveTransition :: "SideEffectOperationAggregate \<Rightarrow> nat \<Rightarrow> SideEffectOperationReceipt \<Rightarrow> 'db \<Rightarrow> string + SaveResult \<times> 'db"

definition sameIdentity :: "SideEffectOperationIdentity \<Rightarrow> SideEffectOperationIdentity \<Rightarrow> bool" where
  "sameIdentity left right \<longleftrightarrow>
     id_operationId left = id_operationId right \<and> id_scopeId left = id_scopeId right
     \<and> id_runId left = id_runId right \<and> id_workId left = id_workId right \<and> id_stepKey left = id_stepKey right
     \<and> id_adapterId left = id_adapterId right \<and> id_targetFingerprint left = id_targetFingerprint right
     \<and> id_paramsFingerprint left = id_paramsFingerprint right"

section \<open>Use cases\<close>

datatype ReserveSideEffectOperationResult =
    ReservedNew SideEffectOperationAggregate
  | ReservedExisting SideEffectOperationAggregate
  | ReserveRejected string

definition reserved_aggregate :: "SideEffectOperationIdentity \<Rightarrow> SideEffectOperationAggregate" where
  "reserved_aggregate identity = \<lparr>ag_identity = identity, ag_state = RESERVED, ag_revision = 0, ag_transitions = []\<rparr>"

definition existing_or_conflict ::
  "SideEffectOperationAggregate \<Rightarrow> SideEffectOperationIdentity \<Rightarrow> ReserveSideEffectOperationResult" where
  "existing_or_conflict current identity =
     (if sameIdentity (ag_identity current) identity then ReservedExisting current
      else ReserveRejected ''operation_scope_params_conflict'')"

definition reserveSideEffectOperation ::
  "'db SideEffectOperationRepository \<Rightarrow> SideEffectOperationIdentity \<Rightarrow> 'db
     \<Rightarrow> string + ReserveSideEffectOperationResult \<times> 'db" where
  "reserveSideEffectOperation repository identity db =
     rbind (rp_loadByScope repository (id_scopeId identity) db) (\<lambda>loaded. case loaded of
       Some current \<Rightarrow> Inr (existing_or_conflict current identity, db)
     | None \<Rightarrow>
         rbind (rp_create repository (reserved_aggregate identity) db) (\<lambda>(created, db').
           if created then Inr (ReservedNew (reserved_aggregate identity), db')
           else rbind (rp_loadByScope repository (id_scopeId identity) db') (\<lambda>raced. case raced of
               None \<Rightarrow> Inr (ReserveRejected ''operation_scope_persistence_conflict'', db')
             | Some current \<Rightarrow> Inr (existing_or_conflict current identity, db'))))"

datatype PreparedAdmissionStatus =
    reserved_new | reserved_existing | verified_existing | compensated_existing | effect_rejected_existing
  | manual_intervention_existing | active_existing

datatype PrepareSideEffectOperationResult =
    PreparedAdmission PreparedAdmissionStatus PreparedSideEffectOperation SideEffectOperationAggregate
  | PrepareRejected string

fun existing_status :: "SideEffectOperationState \<Rightarrow> PreparedAdmissionStatus" where
  "existing_status RESERVED = reserved_existing"
| "existing_status VERIFIED = verified_existing"
| "existing_status COMPENSATED = compensated_existing"
| "existing_status EFFECT_REJECTED = effect_rejected_existing"
| "existing_status MANUAL_INTERVENTION = manual_intervention_existing"
| "existing_status _ = active_existing"

definition prepareSideEffectOperation ::
  "'db SideEffectOperationRepository \<Rightarrow> PreparedSideEffectOperation \<Rightarrow> 'db
     \<Rightarrow> string + PrepareSideEffectOperationResult \<times> 'db" where
  "prepareSideEffectOperation repository prepared db =
     rbind (reserveSideEffectOperation repository (pr_identity prepared) db) (\<lambda>(reservation, db').
       Inr (case reservation of
           ReserveRejected reasonCode \<Rightarrow> PrepareRejected reasonCode
         | ReservedNew aggregate \<Rightarrow> PreparedAdmission reserved_new prepared aggregate
         | ReservedExisting aggregate \<Rightarrow> PreparedAdmission (existing_status (ag_state aggregate)) prepared aggregate, db'))"

text \<open>Applied, or the reason of the rejection and the current revision where it is reported.\<close>

datatype TransitionSideEffectOperationResult =
    Applied SideEffectOperationAggregate
  | Rejected string "nat option"

definition next_aggregate :: "SideEffectOperationAggregate \<Rightarrow> AcceptedTransition \<Rightarrow> SideEffectOperationAggregate" where
  "next_aggregate current decision =
     current\<lparr>ag_state := ac_nextState decision, ag_revision := ag_revision current + 1,
       ag_transitions := ag_transitions current @ [\<lparr>tr_revision = ag_revision current + 1,
         tr_previousState = ac_previousState decision, tr_event = ac_event decision,
         tr_nextState = ac_nextState decision, tr_receiptRef = ac_receiptRef decision\<rparr>]\<rparr>"

definition last_transition :: "SideEffectOperationAggregate \<Rightarrow> SideEffectOperationTransitionRecord option" where
  "last_transition a = (if ag_transitions a = [] then None else Some (last (ag_transitions a)))"

definition apply_transition ::
  "'db SideEffectOperationRepository \<Rightarrow> nat \<Rightarrow> SideEffectOperationEvent \<Rightarrow> SideEffectOperationReceipt
     \<Rightarrow> SideEffectOperationAggregate \<Rightarrow> 'db \<Rightarrow> string + TransitionSideEffectOperationResult \<times> 'db" where
  "apply_transition repository expectedRevision event receipt current db =
     (if ag_revision current \<noteq> expectedRevision
      then Inr (Rejected ''stale_revision'' (Some (ag_revision current)), db)
      else case validateSideEffectOperationReceipt receipt (ag_identity current) event
                  (Num (of_nat (ag_revision current + 1))) of
        Inl _ \<Rightarrow> Inr (Rejected ''receipt_invalid'' None, db)
      | Inr _ \<Rightarrow> (case transitionSideEffectOperation (ag_state current) event (rc_receiptId receipt) of
            Inl reasonCode \<Rightarrow> Inr (Rejected reasonCode None, db)
          | Inr decision \<Rightarrow>
              rbind (rp_saveTransition repository (next_aggregate current decision) expectedRevision receipt db)
                (\<lambda>(saved, db'). case saved of
                   Saved \<Rightarrow> Inr (Applied (next_aggregate current decision), db')
                 | NotSaved reasonCode currentRevision \<Rightarrow> Inr (Rejected reasonCode (Some currentRevision), db'))))"

definition transitionReservedSideEffectOperation ::
  "'db SideEffectOperationRepository \<Rightarrow> string \<Rightarrow> string \<Rightarrow> nat \<Rightarrow> SideEffectOperationEvent
     \<Rightarrow> SideEffectOperationReceipt \<Rightarrow> 'db \<Rightarrow> string + TransitionSideEffectOperationResult \<times> 'db" where
  "transitionReservedSideEffectOperation repository operationId scopeId expectedRevision event receipt db =
     rbind (rp_loadByScope repository scopeId db) (\<lambda>loaded. case loaded of
       None \<Rightarrow> Inr (Rejected ''operation_not_found'' None, db)
     | Some current \<Rightarrow>
         if id_operationId (ag_identity current) \<noteq> operationId
         then Inr (Rejected ''operation_identity_mismatch'' None, db)
         else if ag_revision current = expectedRevision + 1
         then rbind (rp_loadReceipt repository (rc_receiptId receipt) db) (\<lambda>persisted.
           if (case last_transition current of None \<Rightarrow> False
               | Some record \<Rightarrow> tr_event record = event \<and> tr_receiptRef record = rc_receiptId receipt)
           then (if persisted = Some receipt then Inr (Applied current, db)
                 else Inr (Rejected ''receipt_conflict'' None, db))
           else apply_transition repository expectedRevision event receipt current db)
         else apply_transition repository expectedRevision event receipt current db)"

section \<open>The SQLite repository\<close>

record OperationRow =
  ow_operation_id :: string
  ow_scope_id :: string
  ow_run_id :: string
  ow_work_id :: string
  ow_step_key :: string
  ow_adapter_id :: string
  ow_target_fingerprint :: string
  ow_params_fingerprint :: string
  ow_state :: SideEffectOperationState
  ow_revision :: nat
  ow_transitions_json :: "js option"
  ow_created_at :: number
  ow_updated_at :: number

record ReceiptRow =
  rr_receipt_id :: string
  rr_operation_id :: string
  rr_work_id :: string
  rr_event :: SideEffectOperationEvent
  rr_kind :: SideEffectReceiptKind
  rr_schema_version :: nat
  rr_evidence_fingerprint :: string
  rr_evidence_refs_json :: "js option"
  rr_operation_revision :: number
  rr_issued_at :: number

text \<open>The two tables, the keys they refer to, and the clock.\<close>

record operation_db =
  od_operations :: "OperationRow list"
  od_receipts :: "ReceiptRow list"
  od_runs :: "string list"
  od_works :: "string list"
  od_now :: number

definition corrupt :: string where
  "corrupt = ''side_effect_operation_persistence_corrupt''"

definition FOREIGN_KEY_FAILED :: string where
  "FOREIGN_KEY_FAILED = ''FOREIGN KEY constraint failed''"

definition state_js :: "SideEffectOperationState \<Rightarrow> js" where
  "state_js s = JsString (operation_state_name s)"

definition record_js :: "SideEffectOperationTransitionRecord \<Rightarrow> js" where
  "record_js r = JsObject
     [(''revision'', JsNumber (Num (of_nat (tr_revision r)))), (''previousState'', state_js (tr_previousState r)),
      (''event'', JsString (operation_event_name (tr_event r))), (''nextState'', state_js (tr_nextState r)),
      (''receiptRef'', JsString (tr_receiptRef r))]"

fun event_of_js :: "js \<Rightarrow> SideEffectOperationEvent option" where
  "event_of_js (JsString s) = List.find (\<lambda>e. operation_event_name e = s) SIDE_EFFECT_OPERATION_EVENTS"
| "event_of_js _ = None"

fun is_object :: "js \<Rightarrow> bool" where
  "is_object (JsObject _) = True"
| "is_object (JsArray _) = True"
| "is_object _ = False"

fun js_text :: "js \<Rightarrow> string" where
  "js_text (JsString s) = s"
| "js_text _ = []"

text \<open>The loop over the stored history; an event the state machine does not know is not accepted by it.\<close>

fun hydrate_loop ::
  "nat \<Rightarrow> SideEffectOperationState \<Rightarrow> js list
     \<Rightarrow> string + SideEffectOperationTransitionRecord list \<times> SideEffectOperationState" where
  "hydrate_loop index state [] = Inr ([], state)"
| "hydrate_loop index state (item # rest) =
     (if \<not> is_object item \<or> js_get item ''revision'' \<noteq> JsNumber (Num (of_nat (index + 1)))
        \<or> js_get item ''previousState'' \<noteq> state_js state
      then Inl corrupt
      else case event_of_js (js_get item ''event'') of
        None \<Rightarrow> Inl corrupt
      | Some event \<Rightarrow> (case transitionSideEffectOperation state event (js_text (js_get item ''receiptRef'')) of
            Inl _ \<Rightarrow> Inl corrupt
          | Inr decision \<Rightarrow>
              if js_get item ''nextState'' \<noteq> state_js (ac_nextState decision) then Inl corrupt
              else rbind (hydrate_loop (index + 1) (ac_nextState decision) rest) (\<lambda>(transitions, final).
                Inr (\<lparr>tr_revision = index + 1, tr_previousState = ac_previousState decision,
                   tr_event = ac_event decision, tr_nextState = ac_nextState decision,
                   tr_receiptRef = ac_receiptRef decision\<rparr> # transitions, final))))"

definition hydrate :: "OperationRow \<Rightarrow> string + SideEffectOperationAggregate" where
  "hydrate row =
     rbind (buildSideEffectOperationIdentity (ow_run_id row) (ow_work_id row) (ow_step_key row) (ow_adapter_id row)
         (ow_target_fingerprint row) (ow_params_fingerprint row)) (\<lambda>identity.
       if id_operationId identity \<noteq> ow_operation_id row \<or> id_scopeId identity \<noteq> ow_scope_id row then Inl corrupt
       else case ow_transitions_json row of
         Some (JsArray raw) \<Rightarrow>
           if length raw \<noteq> ow_revision row then Inl corrupt
           else rbind (hydrate_loop 0 RESERVED raw) (\<lambda>(transitions, state).
             if state \<noteq> ow_state row then Inl corrupt
             else Inr \<lparr>ag_identity = identity, ag_state = state, ag_revision = ow_revision row,
               ag_transitions = transitions\<rparr>)
       | _ \<Rightarrow> Inl corrupt)"

fun strings_of_js :: "js \<Rightarrow> string list option" where
  "strings_of_js (JsArray vs) =
     (if list_all (\<lambda>v. case v of JsString _ \<Rightarrow> True | _ \<Rightarrow> False) vs then Some (map js_text vs) else None)"
| "strings_of_js _ = None"

definition hydrateReceipt :: "ReceiptRow \<Rightarrow> string + SideEffectOperationReceipt" where
  "hydrateReceipt row =
     (case Option.bind (rr_evidence_refs_json row) strings_of_js of
        None \<Rightarrow> Inl corrupt
      | Some evidenceRefs \<Rightarrow> Inr \<lparr>rc_schemaVersion = rr_schema_version row, rc_receiptId = rr_receipt_id row,
          rc_operationId = rr_operation_id row, rc_workId = rr_work_id row, rc_event = rr_event row,
          rc_kind = rr_kind row, rc_evidenceFingerprint = rr_evidence_fingerprint row,
          rc_evidenceRefs = evidenceRefs, rc_operationRevision = rr_operation_revision row,
          rc_issuedAt = rr_issued_at row\<rparr>)"

definition loadByScope :: "string \<Rightarrow> operation_db \<Rightarrow> string + SideEffectOperationAggregate option" where
  "loadByScope scopeId db =
     (case List.find (\<lambda>row. ow_scope_id row = scopeId) (od_operations db) of
        None \<Rightarrow> Inr None
      | Some row \<Rightarrow> rbind (hydrate row) (\<lambda>a. Inr (Some a)))"

definition listed_before :: "OperationRow \<Rightarrow> OperationRow \<Rightarrow> int" where
  "listed_before a b =
     (if num_lt (ow_updated_at a) (ow_updated_at b) then - 1
      else if num_lt (ow_updated_at b) (ow_updated_at a) then 1
      else codeUnitCompare (ow_operation_id a) (ow_operation_id b))"

definition listByRun :: "string \<Rightarrow> int \<Rightarrow> operation_db \<Rightarrow> string + SideEffectOperationAggregate list" where
  "listByRun runId limit db =
     (let bounded = max 1 (min 1000 limit)
      in mapM hydrate (take (nat bounded)
           (sort_by listed_before (filter (\<lambda>row. ow_run_id row = runId) (od_operations db)))))"

text \<open>\<open>operation.transitions[revision - 1]\<close>: undefined outside the list.\<close>

definition transition_at :: "SideEffectOperationAggregate \<Rightarrow> number \<Rightarrow> SideEffectOperationTransitionRecord option" where
  "transition_at a revision =
     (case revision of
        Num q \<Rightarrow> if of_int \<lfloor>q\<rfloor> = q \<and> 1 \<le> q \<and> nat \<lfloor>q\<rfloor> \<le> length (ag_transitions a)
          then Some (ag_transitions a ! (nat \<lfloor>q\<rfloor> - 1)) else None
      | _ \<Rightarrow> None)"

definition loadReceipt :: "string \<Rightarrow> operation_db \<Rightarrow> string + SideEffectOperationReceipt option" where
  "loadReceipt receiptId db =
     (case List.find (\<lambda>row. rr_receipt_id row = receiptId) (od_receipts db) of
        None \<Rightarrow> Inr None
      | Some row \<Rightarrow>
          rbind (hydrateReceipt row) (\<lambda>receipt.
            case List.find (\<lambda>op. ow_operation_id op = rc_operationId receipt) (od_operations db) of
              None \<Rightarrow> Inl corrupt
            | Some operationRow \<Rightarrow>
                rbind (hydrate operationRow) (\<lambda>operation.
                  if validateSideEffectOperationReceipt receipt (ag_identity operation) (rc_event receipt)
                       (rc_operationRevision receipt) \<noteq> Inr ()
                    \<or> map_option tr_event (transition_at operation (rc_operationRevision receipt)) \<noteq> Some (rc_event receipt)
                    \<or> map_option tr_receiptRef (transition_at operation (rc_operationRevision receipt)) \<noteq> Some (rc_receiptId receipt)
                  then Inl corrupt
                  else Inr (Some receipt))))"

definition create :: "SideEffectOperationAggregate \<Rightarrow> operation_db \<Rightarrow> string + bool \<times> operation_db" where
  "create aggregate db =
     (let identity = ag_identity aggregate
      in if ag_state aggregate \<noteq> RESERVED \<or> ag_revision aggregate \<noteq> 0 \<or> ag_transitions aggregate \<noteq> [] then Inl corrupt
         else if id_operationId identity \<in> set (map ow_operation_id (od_operations db))
           \<or> id_scopeId identity \<in> set (map ow_scope_id (od_operations db))
         then Inr (False, db)
         else if id_runId identity \<notin> set (od_runs db) \<or> id_workId identity \<notin> set (od_works db)
         then Inl FOREIGN_KEY_FAILED
         else Inr (True, db\<lparr>od_operations := od_operations db @
           [\<lparr>ow_operation_id = id_operationId identity, ow_scope_id = id_scopeId identity,
             ow_run_id = id_runId identity, ow_work_id = id_workId identity, ow_step_key = id_stepKey identity,
             ow_adapter_id = id_adapterId identity, ow_target_fingerprint = id_targetFingerprint identity,
             ow_params_fingerprint = id_paramsFingerprint identity, ow_state = RESERVED, ow_revision = 0,
             ow_transitions_json = Some (JsArray []), ow_created_at = od_now db, ow_updated_at = od_now db\<rparr>]\<rparr>))"

definition receipt_row :: "SideEffectOperationReceipt \<Rightarrow> ReceiptRow" where
  "receipt_row receipt = \<lparr>rr_receipt_id = rc_receiptId receipt, rr_operation_id = rc_operationId receipt,
     rr_work_id = rc_workId receipt, rr_event = rc_event receipt, rr_kind = rc_kind receipt,
     rr_schema_version = rc_schemaVersion receipt, rr_evidence_fingerprint = rc_evidenceFingerprint receipt,
     rr_evidence_refs_json = Some (JsArray (map JsString (rc_evidenceRefs receipt))),
     rr_operation_revision = rc_operationRevision receipt, rr_issued_at = rc_issuedAt receipt\<rparr>"

text \<open>\<open>INSERT OR IGNORE\<close> of a receipt: ignored on a repeated receipt id or a repeated revision of the
  operation; a missing operation or work item violates a foreign key. A validated receipt meets
  the checks of the other columns.\<close>

definition insert_receipt :: "SideEffectOperationReceipt \<Rightarrow> operation_db \<Rightarrow> string + bool \<times> operation_db" where
  "insert_receipt receipt db =
     (if rc_receiptId receipt \<in> set (map rr_receipt_id (od_receipts db))
        \<or> (rc_operationId receipt, rc_operationRevision receipt)
            \<in> set (map (\<lambda>r. (rr_operation_id r, rr_operation_revision r)) (od_receipts db))
      then Inr (False, db)
      else if rc_operationId receipt \<notin> set (map ow_operation_id (od_operations db)) \<or> rc_workId receipt \<notin> set (od_works db)
      then Inl FOREIGN_KEY_FAILED
      else Inr (True, db\<lparr>od_receipts := od_receipts db @ [receipt_row receipt]\<rparr>))"

definition update_matches :: "SideEffectOperationAggregate \<Rightarrow> nat \<Rightarrow> OperationRow \<Rightarrow> bool" where
  "update_matches aggregate expectedRevision row \<longleftrightarrow>
     ow_operation_id row = id_operationId (ag_identity aggregate)
     \<and> ow_scope_id row = id_scopeId (ag_identity aggregate) \<and> ow_revision row = expectedRevision"

definition update_operation :: "SideEffectOperationAggregate \<Rightarrow> nat \<Rightarrow> operation_db \<Rightarrow> nat \<times> operation_db" where
  "update_operation aggregate expectedRevision db =
     (length (filter (update_matches aggregate expectedRevision) (od_operations db)),
      db\<lparr>od_operations := map (\<lambda>row. if update_matches aggregate expectedRevision row
        then row\<lparr>ow_state := ag_state aggregate, ow_revision := ag_revision aggregate,
          ow_transitions_json := Some (JsArray (map record_js (ag_transitions aggregate))),
          ow_updated_at := od_now db\<rparr>
        else row) (od_operations db)\<rparr>)"

definition not_saved ::
  "string \<Rightarrow> SideEffectOperationAggregate \<Rightarrow> nat \<Rightarrow> operation_db \<Rightarrow> string + SaveResult \<times> operation_db" where
  "not_saved reasonCode aggregate expectedRevision db =
     rbind (loadByScope (id_scopeId (ag_identity aggregate)) db) (\<lambda>current.
       Inr (NotSaved reasonCode (case current of Some a \<Rightarrow> ag_revision a | None \<Rightarrow> expectedRevision), db))"

text \<open>The transaction rolls back when the update does not match exactly one row.\<close>

definition saveTransition ::
  "SideEffectOperationAggregate \<Rightarrow> nat \<Rightarrow> SideEffectOperationReceipt \<Rightarrow> operation_db \<Rightarrow> string + SaveResult \<times> operation_db" where
  "saveTransition aggregate expectedRevision receipt db =
     (let event = (case last_transition aggregate of Some record \<Rightarrow> tr_event record | None \<Rightarrow> rc_event receipt)
      in if validateSideEffectOperationReceipt receipt (ag_identity aggregate) event (Num (of_nat (ag_revision aggregate)))
           \<noteq> Inr ()
         then Inr (NotSaved ''receipt_invalid'' expectedRevision, db)
         else rbind (insert_receipt receipt db) (\<lambda>(inserted, db').
           if \<not> inserted then not_saved ''receipt_conflict'' aggregate expectedRevision db
           else case update_operation aggregate expectedRevision db' of (changes, db'') \<Rightarrow>
             if changes \<noteq> 1 then not_saved ''revision_conflict'' aggregate expectedRevision db
             else Inr (Saved, db'')))"

definition sqlite_repository :: "operation_db SideEffectOperationRepository" where
  "sqlite_repository = \<lparr>rp_loadByScope = loadByScope, rp_create = create, rp_loadReceipt = loadReceipt,
     rp_saveTransition = saveTransition\<rparr>"

section \<open>Histories\<close>

text \<open>A stored history is a run of the state machine, numbered from one.\<close>

primrec history ::
  "SideEffectOperationTransitionRecord list \<Rightarrow> nat \<Rightarrow> SideEffectOperationState \<Rightarrow> SideEffectOperationState option" where
  "history [] n s = Some s"
| "history (r # rs) n s =
     (if tr_revision r = n + 1 \<and> tr_previousState r = s \<and> OPERATION_TRANSITIONS s (tr_event r) = Some (tr_nextState r)
        \<and> \<not> blank (tr_receiptRef r) \<and> js_trim (tr_receiptRef r) = tr_receiptRef r
      then history rs (n + 1) (tr_nextState r) else None)"

definition aggregate_ok :: "SideEffectOperationAggregate \<Rightarrow> bool" where
  "aggregate_ok a \<longleftrightarrow> built_identity (ag_identity a) \<and> ag_revision a = length (ag_transitions a)
     \<and> history (ag_transitions a) 0 RESERVED = Some (ag_state a)"

lemma history_append:
  "history (rs @ rs') n s = (case history rs n s of None \<Rightarrow> None | Some t \<Rightarrow> history rs' (n + length rs) t)"
  by (induction rs arbitrary: n s) (auto split: option.splits)

lemma history_run:
  "history rs n s = Some t \<Longrightarrow> run_steps operation_step s (map (\<lambda>r. (tr_event r, tr_receiptRef r)) rs) = Some t"
proof (induction rs arbitrary: n s)
  case (Cons r rs)
  then have "operation_step s (tr_event r, tr_receiptRef r) = Some (tr_nextState r)"
    by (simp add: operation_step_iff split: if_splits)
  with Cons show ?case by (simp split: if_splits)
qed simp

text \<open>One step of the history, as the use case takes it.\<close>

definition advances ::
  "SideEffectOperationAggregate \<Rightarrow> SideEffectOperationEvent \<Rightarrow> SideEffectOperationReceipt \<Rightarrow> SideEffectOperationAggregate \<Rightarrow> bool" where
  "advances a e r a' \<longleftrightarrow> receipt_valid r (ag_identity a) e (Num (of_nat (ag_revision a + 1)))
     \<and> (\<exists>d. transitionSideEffectOperation (ag_state a) e (rc_receiptId r) = Inr d \<and> a' = next_aggregate a d)"

lemma advancesE:
  assumes "advances a e r a'"
  obtains t where "a' = a\<lparr>ag_state := t, ag_revision := ag_revision a + 1,
      ag_transitions := ag_transitions a @ [\<lparr>tr_revision = ag_revision a + 1, tr_previousState = ag_state a, tr_event = e,
        tr_nextState = t, tr_receiptRef = js_trim (rc_receiptId r)\<rparr>]\<rparr>"
    "OPERATION_TRANSITIONS (ag_state a) e = Some t" "\<not> blank (rc_receiptId r)"
    "receipt_valid r (ag_identity a) e (Num (of_nat (ag_revision a + 1)))"
proof -
  from assms obtain d where v: "receipt_valid r (ag_identity a) e (Num (of_nat (ag_revision a + 1)))"
    and d: "transitionSideEffectOperation (ag_state a) e (rc_receiptId r) = Inr d" and a': "a' = next_aggregate a d"
    by (auto simp: advances_def)
  from d have "\<not> blank (rc_receiptId r)" "OPERATION_TRANSITIONS (ag_state a) e = Some (ac_nextState d)"
    and eq: "d = \<lparr>ac_previousState = ag_state a, ac_event = e, ac_nextState = ac_nextState d,
      ac_receiptRef = js_trim (rc_receiptId r)\<rparr>"
    unfolding transition_Inr_iff by blast+
  moreover from eq have prev: "ac_previousState d = ag_state a" "ac_event d = e" "ac_receiptRef d = js_trim (rc_receiptId r)"
    by (metis AcceptedTransition.select_convs)+
  have "a' = a\<lparr>ag_state := ac_nextState d, ag_revision := ag_revision a + 1,
      ag_transitions := ag_transitions a @ [\<lparr>tr_revision = ag_revision a + 1, tr_previousState = ag_state a, tr_event = e,
        tr_nextState = ac_nextState d, tr_receiptRef = js_trim (rc_receiptId r)\<rparr>]\<rparr>"
    unfolding a' next_aggregate_def using prev by simp
  ultimately show ?thesis using v by (intro that) auto
qed

lemma advances_ok: "aggregate_ok a \<Longrightarrow> advances a e r a' \<Longrightarrow> aggregate_ok a'"
  by (elim advancesE) (auto simp: aggregate_ok_def history_append)

lemma advances_keeps:
  "advances a e r a' \<Longrightarrow> ag_identity a' = ag_identity a \<and> prefix (ag_transitions a) (ag_transitions a')
     \<and> ag_revision a' = ag_revision a + 1 \<and> OPERATION_TRANSITIONS (ag_state a) e = Some (ag_state a')"
  by (elim advancesE) simp

lemma reserved_aggregate_ok: "built_identity i \<Longrightarrow> aggregate_ok (reserved_aggregate i)"
  by (simp add: aggregate_ok_def reserved_aggregate_def)

lemma sameIdentity_iff: "sameIdentity i j \<longleftrightarrow> i = j"
  by (cases i; cases j) (auto simp: sameIdentity_def)

text \<open>The last transition of a history leads to its state; only an empty history is reserved.\<close>

lemma history_last:
  "history rs n s = Some t \<Longrightarrow> rs \<noteq> [] \<Longrightarrow>
     tr_nextState (last rs) = t \<and> OPERATION_TRANSITIONS (tr_previousState (last rs)) (tr_event (last rs)) = Some t"
  by (induction rs arbitrary: n s) (auto split: if_splits)

lemma aggregate_last:
  assumes "aggregate_ok a" and "last_transition a = Some rec"
  shows "OPERATION_TRANSITIONS (tr_previousState rec) (tr_event rec) = Some (ag_state a)"
  using assms history_last [of "ag_transitions a" 0 RESERVED "ag_state a"]
  by (auto simp: aggregate_ok_def last_transition_def split: if_splits)

lemma reserved_no_history: "aggregate_ok a \<Longrightarrow> ag_state a = RESERVED \<Longrightarrow> ag_transitions a = []"
  using aggregate_last [of a "last (ag_transitions a)"] never_reserved_again
  by (cases "ag_transitions a = []") (auto simp: last_transition_def)

section \<open>What the use cases rely on\<close>

text \<open>
  \<open>content\<close> is what the repository holds, by scope. A create adds a reserved operation under a free
  scope, a save replaces the operation of a scope by its next aggregate if nobody was faster; a
  refusal changes nothing.
\<close>

locale operation_repository =
  fixes repo :: "'db SideEffectOperationRepository"
    and content :: "'db \<Rightarrow> string \<Rightarrow> SideEffectOperationAggregate option"
    and inv :: "'db \<Rightarrow> bool"
  assumes load: "inv db \<Longrightarrow> rp_loadByScope repo s db = Inr (content db s)"
    and content_ok: "inv db \<Longrightarrow> content db s = Some a \<Longrightarrow> aggregate_ok a \<and> id_scopeId (ag_identity a) = s"
    and create_done: "inv db \<Longrightarrow> built_identity i \<Longrightarrow> rp_create repo (reserved_aggregate i) db = Inr (True, db') \<Longrightarrow>
      inv db' \<and> content db (id_scopeId i) = None \<and> content db' = (content db)(id_scopeId i \<mapsto> reserved_aggregate i)"
    and create_refused: "inv db \<Longrightarrow> rp_create repo a db = Inr (False, db') \<Longrightarrow> db' = db"
    and save_done: "inv db \<Longrightarrow> content db s = Some a \<Longrightarrow> advances a e r a' \<Longrightarrow>
      rp_saveTransition repo a' (ag_revision a) r db = Inr (Saved, db') \<Longrightarrow>
      inv db' \<and> content db' = (content db)(s \<mapsto> a')"
    and save_refused: "inv db \<Longrightarrow> rp_saveTransition repo a n r db = Inr (NotSaved c k, db') \<Longrightarrow> db' = db"
begin

lemma reserve_cases:
  assumes "inv db" and "built_identity i" and "reserveSideEffectOperation repo i db = Inr (res, db')"
  obtains (new) "res = ReservedNew (reserved_aggregate i)" "inv db'" "content db (id_scopeId i) = None"
      "content db' = (content db)(id_scopeId i \<mapsto> reserved_aggregate i)"
    | (existing) a where "res = ReservedExisting a" "db' = db" "content db (id_scopeId i) = Some a" "ag_identity a = i"
    | (rejected) reason where "res = ReserveRejected reason" "db' = db"
proof (cases "content db (id_scopeId i)")
  case (Some a)
  with assms have "res = existing_or_conflict a i" "db' = db"
    by (simp_all add: reserveSideEffectOperation_def load)
  then show thesis using Some
    by (cases "ag_identity a = i") (auto simp: existing_or_conflict_def sameIdentity_iff intro: existing rejected)
next
  case None
  with assms obtain c db1 where c: "rp_create repo (reserved_aggregate i) db = Inr (c, db1)"
    by (auto simp: reserveSideEffectOperation_def load rbind_Inr_iff)
  show thesis
  proof (cases c)
    case True
    with c create_done [OF assms(1,2)] assms None show thesis
      by (intro new) (auto simp: reserveSideEffectOperation_def load)
  next
    case False
    with c create_refused [OF assms(1)] have "db1 = db" by auto
    with c False None assms show thesis
      by (intro rejected) (auto simp: reserveSideEffectOperation_def load)
  qed
qed

lemma apply_cases:
  assumes "inv db" and "content db s = Some a" and "apply_transition repo n e r a db = Inr (res, db')"
  obtains (applied) a' where "res = Applied a'" "ag_revision a = n" "advances a e r a'" "inv db'"
      "content db' = (content db)(s \<mapsto> a')"
    | (rejected) c k where "res = Rejected c k" "db' = db"
proof (cases "ag_revision a = n \<and> receipt_valid r (ag_identity a) e (Num (of_nat (ag_revision a + 1)))")
  case False
  with assms(3) have "\<exists>c k. res = Rejected c k \<and> db' = db"
    by (auto simp: apply_transition_def validateSideEffectOperationReceipt_def split: if_splits)
  then show thesis using rejected by blast
next
  case True
  show thesis
  proof (cases "transitionSideEffectOperation (ag_state a) e (rc_receiptId r)")
    case (Inl c)
    with True assms(3) have "\<exists>c k. res = Rejected c k \<and> db' = db"
      by (auto simp: apply_transition_def validateSideEffectOperationReceipt_def)
    then show thesis using rejected by blast
  next
    case (Inr d)
    have adv: "advances a e r (next_aggregate a d)" using True Inr by (auto simp: advances_def)
    from True Inr assms(3) obtain sv db1 where
      sv: "rp_saveTransition repo (next_aggregate a d) (ag_revision a) r db = Inr (sv, db1)"
      and res: "(case sv of Saved \<Rightarrow> Inr (Applied (next_aggregate a d), db1)
        | NotSaved c k \<Rightarrow> Inr (Rejected c (Some k), db1)) = (Inr (res, db') :: string + _)"
      by (auto simp: apply_transition_def validateSideEffectOperationReceipt_def rbind_Inr_iff)
    show thesis
    proof (cases sv)
      case Saved
      with sv save_done [OF assms(1,2) adv] res have "inv db' \<and> content db' = (content db)(s \<mapsto> next_aggregate a d)
          \<and> res = Applied (next_aggregate a d)" by auto
      with True adv show thesis using applied by blast
    next
      case (NotSaved c k)
      with sv save_refused [OF assms(1)] res have "res = Rejected c (Some k) \<and> db' = db" by auto
      then show thesis using rejected by blast
    qed
  qed
qed

lemma transition_cases:
  assumes "inv db" and "transitionReservedSideEffectOperation repo opId s n e r db = Inr (res, db')"
  obtains (applied) a a' where "res = Applied a'" "content db s = Some a" "ag_revision a = n" "advances a e r a'" "inv db'"
      "content db' = (content db)(s \<mapsto> a')" "id_operationId (ag_identity a) = opId"
    | (repeated) a rec where "res = Applied a" "content db s = Some a" "ag_revision a = n + 1" "db' = db"
      "last_transition a = Some rec" "tr_event rec = e" "id_operationId (ag_identity a) = opId"
    | (rejected) c k where "res = Rejected c k" "db' = db"
proof (cases "content db s")
  case None
  with assms have "res = Rejected ''operation_not_found'' None \<and> db' = db"
    by (auto simp: transitionReservedSideEffectOperation_def load)
  then show thesis using rejected by blast
next
  case (Some a)
  show thesis
  proof (cases "id_operationId (ag_identity a) = opId")
    case False
    with assms Some have "res = Rejected ''operation_identity_mismatch'' None \<and> db' = db"
      by (auto simp: transitionReservedSideEffectOperation_def load)
    then show thesis using rejected by blast
  next
    case True
    note op = True
    consider "apply_transition repo n e r a db = Inr (res, db')"
      | rec where "res = Applied a" "ag_revision a = n + 1" "db' = db" "last_transition a = Some rec" "tr_event rec = e"
      | c where "res = Rejected c None" "db' = db"
      using assms(2) Some True
      by (auto simp: transitionReservedSideEffectOperation_def load [OF assms(1)] rbind_Inr_iff
          split: if_splits option.splits)
    then show thesis
    proof cases
      case 1
      show thesis
      proof (cases rule: apply_cases [OF assms(1) Some 1])
        case (1 a')
        then show thesis using applied Some op by blast
      next
        case (2 c k)
        then show thesis using rejected by blast
      qed
    next
      case 2
      with Some op show thesis using repeated by blast
    next
      case 3
      then show thesis by (rule rejected)
    qed
  qed
qed

text \<open>What is stored only grows, and the invariant is kept.\<close>

definition grows :: "'db \<Rightarrow> 'db \<Rightarrow> bool" where
  "grows db db' \<longleftrightarrow> inv db' \<and> (\<forall>s a. content db s = Some a \<longrightarrow> (\<exists>a'. content db' s = Some a'
     \<and> ag_identity a' = ag_identity a \<and> prefix (ag_transitions a) (ag_transitions a')))"

lemma grows_refl: "inv db \<Longrightarrow> grows db db"
  by (auto simp: grows_def)

lemma growsD:
  assumes "grows db db'" and "content db s = Some a"
  obtains a' where "content db' s = Some a'" "ag_identity a' = ag_identity a" "prefix (ag_transitions a) (ag_transitions a')"
  using assms unfolding grows_def by blast

lemma grows_trans:
  assumes "grows x y" and "grows y z"
  shows "grows x z"
  unfolding grows_def
proof (intro conjI allI impI)
  show "inv z" using assms(2) by (simp add: grows_def)
  fix s a assume "content x s = Some a"
  from growsD [OF assms(1) this] obtain b where b: "content y s = Some b" "ag_identity b = ag_identity a"
    "prefix (ag_transitions a) (ag_transitions b)" .
  from growsD [OF assms(2) b(1)] obtain c where "content z s = Some c" "ag_identity c = ag_identity b"
    "prefix (ag_transitions b) (ag_transitions c)" .
  with b show "\<exists>c. content z s = Some c \<and> ag_identity c = ag_identity a \<and> prefix (ag_transitions a) (ag_transitions c)"
    using prefix_order.trans by metis
qed

lemma reserve_grows:
  assumes "inv db" and "built_identity i" and "reserveSideEffectOperation repo i db = Inr (res, db')"
  shows "grows db db'"
  using assms by (cases rule: reserve_cases [OF assms]) (auto simp: grows_def)

lemma transition_grows:
  assumes "inv db" and "transitionReservedSideEffectOperation repo opId s n e r db = Inr (res, db')"
  shows "grows db db'"
  by (cases rule: transition_cases [OF assms]) (use assms(1) advances_keeps in \<open>auto simp: grows_def\<close>)

end

section \<open>The tables keep the contract\<close>

definition row_of :: "SideEffectOperationAggregate \<Rightarrow> number \<Rightarrow> number \<Rightarrow> OperationRow" where
  "row_of a created updated = \<lparr>ow_operation_id = id_operationId (ag_identity a), ow_scope_id = id_scopeId (ag_identity a),
     ow_run_id = id_runId (ag_identity a), ow_work_id = id_workId (ag_identity a), ow_step_key = id_stepKey (ag_identity a),
     ow_adapter_id = id_adapterId (ag_identity a), ow_target_fingerprint = id_targetFingerprint (ag_identity a),
     ow_params_fingerprint = id_paramsFingerprint (ag_identity a), ow_state = ag_state a, ow_revision = ag_revision a,
     ow_transitions_json = Some (JsArray (map record_js (ag_transitions a))), ow_created_at = created,
     ow_updated_at = updated\<rparr>"

lemma event_of_js_name: "event_of_js (JsString (operation_event_name e)) = Some e"
  by (cases e) (simp_all add: SIDE_EFFECT_OPERATION_EVENTS_def)

lemma record_js_get:
  "js_get (record_js r) ''revision'' = JsNumber (Num (of_nat (tr_revision r)))"
  "js_get (record_js r) ''previousState'' = state_js (tr_previousState r)"
  "js_get (record_js r) ''event'' = JsString (operation_event_name (tr_event r))"
  "js_get (record_js r) ''nextState'' = state_js (tr_nextState r)"
  "js_get (record_js r) ''receiptRef'' = JsString (tr_receiptRef r)" "is_object (record_js r)"
  by (simp_all add: record_js_def js_get_def)

lemma hydrate_loop_history:
  "history rs n s = Some t \<Longrightarrow> hydrate_loop n s (map record_js rs) = Inr (rs, t)"
proof (induction rs arbitrary: n s)
  case (Cons r rs)
  then have r: "tr_revision r = n + 1" "tr_previousState r = s" "OPERATION_TRANSITIONS s (tr_event r) = Some (tr_nextState r)"
    "\<not> blank (tr_receiptRef r)" "js_trim (tr_receiptRef r) = tr_receiptRef r" "history rs (n + 1) (tr_nextState r) = Some t"
    by (auto split: if_splits)
  then have "transitionSideEffectOperation s (tr_event r) (tr_receiptRef r) =
      Inr \<lparr>ac_previousState = s, ac_event = tr_event r, ac_nextState = tr_nextState r, ac_receiptRef = tr_receiptRef r\<rparr>"
    unfolding transition_Inr_iff by simp
  with r Cons.IH [OF r(6)] show ?case
    by (simp add: record_js_get event_of_js_name del: event_of_js.simps)
qed simp

lemma hydrate_row_of: "aggregate_ok a \<Longrightarrow> hydrate (row_of a c u) = Inr a"
  using hydrate_loop_history [of "ag_transitions a" 0 RESERVED "ag_state a"]
  by (simp add: hydrate_def row_of_def aggregate_ok_def built_identity_def)

definition tables_ok :: "operation_db \<Rightarrow> bool" where
  "tables_ok db \<longleftrightarrow> distinct (map ow_operation_id (od_operations db)) \<and> distinct (map ow_scope_id (od_operations db))
     \<and> (\<forall>row \<in> set (od_operations db). \<exists>a. aggregate_ok a \<and> row = row_of a (ow_created_at row) (ow_updated_at row))"

definition stored :: "operation_db \<Rightarrow> string \<Rightarrow> SideEffectOperationAggregate option" where
  "stored db s = (case loadByScope s db of Inr a \<Rightarrow> a | Inl _ \<Rightarrow> None)"

lemma row_of_sel [simp]:
  "ow_operation_id (row_of a c u) = id_operationId (ag_identity a)" "ow_scope_id (row_of a c u) = id_scopeId (ag_identity a)"
  "ow_revision (row_of a c u) = ag_revision a"
  by (simp_all add: row_of_def)

lemma find_row:
  assumes "tables_ok db" and "List.find (\<lambda>row. ow_scope_id row = s) (od_operations db) = Some row"
  obtains a c u where "aggregate_ok a" "row = row_of a c u" "hydrate row = Inr a" "id_scopeId (ag_identity a) = s"
    "row \<in> set (od_operations db)"
proof -
  from find_SomeD [OF assms(2)] have row: "row \<in> set (od_operations db)" "ow_scope_id row = s" by auto
  then obtain a where a: "aggregate_ok a" "row = row_of a (ow_created_at row) (ow_updated_at row)"
    using assms(1) by (auto simp: tables_ok_def)
  then have "hydrate row = Inr a" using hydrate_row_of by metis
  moreover have "id_scopeId (ag_identity a) = s" using a(2) row(2) row_of_sel(2) by metis
  ultimately show ?thesis using a row by (intro that) auto
qed

lemma loadByScope_stored: "tables_ok db \<Longrightarrow> loadByScope s db = Inr (stored db s)"
  by (cases "List.find (\<lambda>row. ow_scope_id row = s) (od_operations db)")
    (auto simp: stored_def loadByScope_def elim: find_row)

lemma stored_ok:
  assumes "tables_ok db" and "stored db s = Some a"
  obtains c u where "aggregate_ok a" "id_scopeId (ag_identity a) = s" "row_of a c u \<in> set (od_operations db)"
    "List.find (\<lambda>row. ow_scope_id row = s) (od_operations db) = Some (row_of a c u)"
proof (cases "List.find (\<lambda>row. ow_scope_id row = s) (od_operations db)")
  case None
  with assms(2) show ?thesis by (simp add: stored_def loadByScope_def)
next
  case (Some row)
  from find_row [OF assms(1) Some] obtain a' c u where a': "aggregate_ok a'" "row = row_of a' c u" "hydrate row = Inr a'"
    "id_scopeId (ag_identity a') = s" "row \<in> set (od_operations db)" .
  with assms(2) Some have "a' = a" by (simp add: stored_def loadByScope_def)
  with a' Some show ?thesis by (intro that) auto
qed

lemma stored_None_iff: "tables_ok db \<Longrightarrow> stored db s = None \<longleftrightarrow> s \<notin> set (map ow_scope_id (od_operations db))"
proof -
  assume ok: "tables_ok db"
  have "stored db s = None \<longleftrightarrow> List.find (\<lambda>row. ow_scope_id row = s) (od_operations db) = None"
  proof (cases "List.find (\<lambda>row. ow_scope_id row = s) (od_operations db)")
    case (Some row)
    obtain a where "hydrate row = Inr a" using find_row [OF ok Some] by blast
    then show ?thesis by (simp add: Some stored_def loadByScope_def)
  qed (simp add: stored_def loadByScope_def)
  then show ?thesis by (auto simp: find_None_iff)
qed

text \<open>Creating an operation.\<close>

lemma create_tables:
  assumes "tables_ok db" and "built_identity i" and "create (reserved_aggregate i) db = Inr (True, db')"
  shows "tables_ok db' \<and> stored db (id_scopeId i) = None \<and> stored db' = (stored db)(id_scopeId i \<mapsto> reserved_aggregate i)"
proof -
  let ?row = "row_of (reserved_aggregate i) (od_now db) (od_now db)"
  have new: "id_operationId i \<notin> set (map ow_operation_id (od_operations db))" "id_scopeId i \<notin> set (map ow_scope_id (od_operations db))"
    and db': "db' = db\<lparr>od_operations := od_operations db @ [?row]\<rparr>"
    using assms(3) by (auto simp: create_def Let_def reserved_aggregate_def row_of_def split: if_splits)
  have row: "aggregate_ok (reserved_aggregate i)" "hydrate ?row = Inr (reserved_aggregate i)"
    "ow_scope_id ?row = id_scopeId i" "ow_operation_id ?row = id_operationId i"
    using reserved_aggregate_ok [OF assms(2)] hydrate_row_of by (simp_all add: reserved_aggregate_def)
  have ok': "tables_ok db'"
    using assms(1) new row unfolding db' tables_ok_def by (auto simp: row_of_def)
  have none: "stored db (id_scopeId i) = None" using stored_None_iff [OF assms(1)] new(2) by simp
  have "stored db' s = ((stored db)(id_scopeId i \<mapsto> reserved_aggregate i)) s" for s
  proof (cases "List.find (\<lambda>row. ow_scope_id row = s) (od_operations db)")
    case None
    then show ?thesis using row unfolding db' by (auto simp: stored_def loadByScope_def find_append)
  next
    case (Some row')
    then have "s \<noteq> id_scopeId i" using find_SomeD [OF Some] new(2) by force
    then show ?thesis using Some unfolding db' by (simp add: stored_def loadByScope_def find_append)
  qed
  with ok' none show ?thesis by blast
qed

text \<open>Saving a transition.\<close>

lemma update_matches_iff:
  assumes "tables_ok db" and "stored db s = Some a" and "advances a e r a'" and "row \<in> set (od_operations db)"
  shows "update_matches a' (ag_revision a) row \<longleftrightarrow> ow_scope_id row = s"
proof -
  from stored_ok [OF assms(1,2)] obtain c u where a: "id_scopeId (ag_identity a) = s" "row_of a c u \<in> set (od_operations db)" .
  have same: "ag_identity a' = ag_identity a" using advances_keeps [OF assms(3)] by simp
  have "row = row_of a c u" if "ow_scope_id row = s"
    using that a assms(1,4) unfolding tables_ok_def by (metis distinct_map inj_onD row_of_sel(2))
  then show ?thesis unfolding update_matches_def same using a(1) by auto
qed

lemma length_filter_key:
  assumes "distinct (map f xs)" and "x \<in> set xs"
  shows "length (filter (\<lambda>y. f y = f x) xs) = 1"
proof -
  have "set (filter (\<lambda>y. f y = f x) xs) = {x}" using assms by (auto simp: distinct_map inj_on_def)
  moreover have "distinct (filter (\<lambda>y. f y = f x) xs)" using assms(1) by (simp add: distinct_map)
  ultimately show ?thesis by (metis card.empty card.insert distinct_card equals0D finite.emptyI One_nat_def)
qed

definition put_row :: "SideEffectOperationAggregate \<Rightarrow> string \<Rightarrow> number \<Rightarrow> OperationRow \<Rightarrow> OperationRow" where
  "put_row a' s now row = (if ow_scope_id row = s then row_of a' (ow_created_at row) now else row)"

lemma update_operation_put:
  assumes "tables_ok db" and "stored db s = Some a" and "advances a e r a'"
  shows "update_operation a' (ag_revision a) db = (1, db\<lparr>od_operations := map (put_row a' s (od_now db)) (od_operations db)\<rparr>)"
proof -
  from stored_ok [OF assms(1,2)] obtain c u where a: "id_scopeId (ag_identity a) = s" "row_of a c u \<in> set (od_operations db)"
    "List.find (\<lambda>row. ow_scope_id row = s) (od_operations db) = Some (row_of a c u)" .
  note iff = update_matches_iff [OF assms]
  have "filter (update_matches a' (ag_revision a)) (od_operations db)
      = filter (\<lambda>row. ow_scope_id row = ow_scope_id (row_of a c u)) (od_operations db)"
    using iff a(1) by (auto intro: filter_cong)
  then have one: "length (filter (update_matches a' (ag_revision a)) (od_operations db)) = 1"
    using length_filter_key [of ow_scope_id "od_operations db" "row_of a c u"] assms(1) a(2) by (simp add: tables_ok_def)
  have same: "ag_identity a' = ag_identity a" using advances_keeps [OF assms(3)] by simp
  have "(if update_matches a' (ag_revision a) row
        then row\<lparr>ow_state := ag_state a', ow_revision := ag_revision a',
          ow_transitions_json := Some (JsArray (map record_js (ag_transitions a'))), ow_updated_at := od_now db\<rparr>
        else row) = put_row a' s (od_now db) row" if row: "row \<in> set (od_operations db)" for row
  proof (cases "ow_scope_id row = s")
    case True
    then have "row = row_of a c u"
      using a row assms(1) unfolding tables_ok_def by (metis distinct_map inj_onD row_of_sel(2))
    then show ?thesis using iff [OF row] a(1) by (simp add: put_row_def row_of_def same)
  qed (simp add: put_row_def iff [OF row])
  then show ?thesis unfolding update_operation_def one by (simp cong: map_cong)
qed

lemma find_put_row:
  assumes "id_scopeId (ag_identity a') = s"
  shows "List.find (\<lambda>row. ow_scope_id row = s') (map (put_row a' s now) rows)
    = map_option (put_row a' s now) (List.find (\<lambda>row. ow_scope_id row = s') rows)"
  using assms by (induction rows) (auto simp: put_row_def)

lemma put_row_stored:
  assumes "tables_ok db" and "stored db s = Some a" and "advances a e r a'"
    and "od_operations db' = map (put_row a' s (od_now db)) (od_operations db)"
  shows "tables_ok db' \<and> stored db' = (stored db)(s \<mapsto> a')"
proof -
  from stored_ok [OF assms(1,2)] obtain c u where a: "aggregate_ok a" "id_scopeId (ag_identity a) = s"
    "row_of a c u \<in> set (od_operations db)" "List.find (\<lambda>row. ow_scope_id row = s) (od_operations db) = Some (row_of a c u)" .
  have same: "ag_identity a' = ag_identity a" using advances_keeps [OF assms(3)] by simp
  have ok': "aggregate_ok a'" by (rule advances_ok [OF a(1) assms(3)])
  have keys: "ow_scope_id (put_row a' s (od_now db) row) = ow_scope_id row"
    "ow_operation_id (put_row a' s (od_now db) row) = ow_operation_id row" if "row \<in> set (od_operations db)" for row
  proof -
    have "row = row_of a c u" if "ow_scope_id row = s"
      using that a \<open>row \<in> set (od_operations db)\<close> assms(1) unfolding tables_ok_def by (metis distinct_map inj_onD row_of_sel(2))
    then show "ow_scope_id (put_row a' s (od_now db) row) = ow_scope_id row"
      "ow_operation_id (put_row a' s (od_now db) row) = ow_operation_id row"
      by (auto simp: put_row_def same a(2))
  qed
  have "map ow_scope_id (od_operations db') = map ow_scope_id (od_operations db)"
    "map ow_operation_id (od_operations db') = map ow_operation_id (od_operations db)"
    unfolding assms(4) using keys by simp_all
  moreover have "\<exists>b. aggregate_ok b \<and> row = row_of b (ow_created_at row) (ow_updated_at row)" if "row \<in> set (od_operations db')" for row
  proof -
    from that obtain old where old: "old \<in> set (od_operations db)" "row = put_row a' s (od_now db) old"
      unfolding assms(4) by auto
    show ?thesis
    proof (cases "ow_scope_id old = s")
      case True
      with old ok' show ?thesis by (intro exI [of _ a']) (simp add: put_row_def row_of_def)
    next
      case False
      with old assms(1) show ?thesis by (auto simp: put_row_def tables_ok_def)
    qed
  qed
  ultimately have tables: "tables_ok db'" using assms(1) by (simp add: tables_ok_def)
  have "stored db' s' = ((stored db)(s \<mapsto> a')) s'" for s'
  proof (cases "s' = s")
    case True
    then show ?thesis using a(2,4) hydrate_row_of [OF ok'] find_put_row [of a' s] unfolding stored_def loadByScope_def assms(4)
      by (simp add: same put_row_def)
  next
    case False
    have "put_row a' s (od_now db) row = row" if "List.find (\<lambda>row. ow_scope_id row = s') (od_operations db) = Some row" for row
      using find_SomeD [OF that] False by (simp add: put_row_def)
    then show ?thesis using False find_put_row [of a' s s'] a(2) unfolding stored_def loadByScope_def assms(4)
      by (cases "List.find (\<lambda>row. ow_scope_id row = s') (od_operations db)") (simp_all add: same)
  qed
  with tables show ?thesis by blast
qed

lemma insert_receipt_done:
  assumes "insert_receipt r db = Inr (True, db')"
  shows "db' = db\<lparr>od_receipts := od_receipts db @ [receipt_row r]\<rparr>" "rc_receiptId r \<notin> set (map rr_receipt_id (od_receipts db))"
  using assms by (auto simp: insert_receipt_def split: if_splits)

lemma tables_ok_receipts: "tables_ok (db\<lparr>od_receipts := rs\<rparr>) = tables_ok db"
  "stored (db\<lparr>od_receipts := rs\<rparr>) = stored db"
  by (simp_all add: tables_ok_def stored_def loadByScope_def fun_eq_iff)

lemma saveTransition_saved:
  assumes "tables_ok db" and "stored db s = Some a" and "advances a e r a'"
    and "saveTransition a' (ag_revision a) r db = Inr (Saved, db')"
  shows "tables_ok db' \<and> stored db' = (stored db)(s \<mapsto> a')
    \<and> od_receipts db' = od_receipts db @ [receipt_row r] \<and> rc_receiptId r \<notin> set (map rr_receipt_id (od_receipts db))"
proof -
  have not_saved: "not_saved c a' n db \<noteq> Inr (Saved, db')" for c n
    by (auto simp: not_saved_def rbind_Inr_iff)
  from assms(4) not_saved obtain db1 where
    ins: "insert_receipt r db = Inr (True, db1)" and upd: "update_operation a' (ag_revision a) db1 = (1, db')"
    by (auto simp: saveTransition_def Let_def rbind_Inr_iff split: if_splits prod.splits)
  note db1 = insert_receipt_done [OF ins]
  have ok1: "tables_ok db1" "stored db1 s = Some a" using assms(1,2) unfolding db1(1) by (simp_all add: tables_ok_receipts)
  have db': "db' = db1\<lparr>od_operations := map (put_row a' s (od_now db1)) (od_operations db1)\<rparr>"
    using upd update_operation_put [OF ok1 assms(3)] by simp
  have "tables_ok db' \<and> stored db' = (stored db1)(s \<mapsto> a')"
    by (rule put_row_stored [OF ok1 assms(3)]) (simp add: db')
  then show ?thesis using db1 by (simp add: db' tables_ok_receipts)
qed

lemma saveTransition_refused:
  assumes "tables_ok db" and "saveTransition a n r db = Inr (NotSaved c k, db')"
  shows "db' = db"
  using assms(2)
  by (auto simp: saveTransition_def Let_def not_saved_def loadByScope_stored [OF assms(1)] rbind_Inr_iff
      split: if_splits prod.splits)

interpretation sqlite: operation_repository sqlite_repository stored tables_ok
proof unfold_locales
  show "rp_loadByScope sqlite_repository s db = Inr (stored db s)" if "tables_ok db" for db s
    using loadByScope_stored [OF that] by (simp add: sqlite_repository_def)
  show "aggregate_ok a \<and> id_scopeId (ag_identity a) = s" if "tables_ok db" "stored db s = Some a" for db s a
    using stored_ok [OF that] by blast
  show "tables_ok db' \<and> stored db (id_scopeId i) = None \<and> stored db' = (stored db)(id_scopeId i \<mapsto> reserved_aggregate i)"
    if "tables_ok db" "built_identity i" "rp_create sqlite_repository (reserved_aggregate i) db = Inr (True, db')" for db i db'
    using create_tables [OF that(1,2)] that(3) by (simp add: sqlite_repository_def)
  show "db' = db" if "tables_ok db" "rp_create sqlite_repository a db = Inr (False, db')" for db a db'
    using that(2) by (auto simp: sqlite_repository_def create_def Let_def split: if_splits)
  show "tables_ok db' \<and> stored db' = (stored db)(s \<mapsto> a')"
    if "tables_ok db" "stored db s = Some a" "advances a e r a'"
      "rp_saveTransition sqlite_repository a' (ag_revision a) r db = Inr (Saved, db')" for db s a e r a' db'
    using saveTransition_saved [OF that(1-3)] that(4) by (simp add: sqlite_repository_def)
  show "db' = db" if "tables_ok db" "rp_saveTransition sqlite_repository a n r db = Inr (NotSaved c k, db')" for db a n r c k db'
    using saveTransition_refused [OF that(1)] that(2) by (simp add: sqlite_repository_def)
qed

section \<open>The use cases as a machine\<close>

text \<open>An operation that throws leaves the tables as they were.\<close>

datatype StoreOperation =
    ReserveOp SideEffectOperationIdentity
  | TransitionOp string string nat SideEffectOperationEvent SideEffectOperationReceipt
  | ClockOp number

fun store_step :: "operation_db \<Rightarrow> StoreOperation \<Rightarrow> operation_db option" where
  "store_step db (ReserveOp i) =
     (case reserveSideEffectOperation sqlite_repository i db of Inl _ \<Rightarrow> Some db | Inr (_, db') \<Rightarrow> Some db')"
| "store_step db (TransitionOp opId s n e r) =
     (case transitionReservedSideEffectOperation sqlite_repository opId s n e r db of
        Inl _ \<Rightarrow> Some db | Inr (_, db') \<Rightarrow> Some db')"
| "store_step db (ClockOp now) = Some (db\<lparr>od_now := now\<rparr>)"

text \<open>
  The identities that are reserved come from \<open>buildSideEffectOperationIdentity\<close>, as at every caller. The use case
  itself does not check it: an identity that was put together otherwise (with an untrimmed step key, say)
  is stored as well, and loading its scope then throws.
\<close>

fun reserves_built :: "StoreOperation \<Rightarrow> bool" where
  "reserves_built (ReserveOp i) = built_identity i"
| "reserves_built op = True"

lemma tables_ok_clock: "tables_ok (db\<lparr>od_now := t\<rparr>) = tables_ok db" "stored (db\<lparr>od_now := t\<rparr>) = stored db"
  by (simp_all add: tables_ok_def stored_def loadByScope_def fun_eq_iff)

lemma store_step_grows:
  assumes "tables_ok db" and "reserves_built op" and "store_step db op = Some db'"
  shows "sqlite.grows db db'"
proof (cases op)
  case (ReserveOp i)
  with assms sqlite.reserve_grows sqlite.grows_refl [OF assms(1)] show ?thesis
    by (auto split: if_splits sum.splits)
next
  case (TransitionOp opId s n e r)
  with assms sqlite.transition_grows sqlite.grows_refl [OF assms(1)] show ?thesis
    by (auto split: sum.splits)
next
  case (ClockOp now)
  with assms show ?thesis by (auto simp: sqlite.grows_def tables_ok_clock)
qed

lemma store_run_grows:
  "tables_ok db \<Longrightarrow> \<forall>op \<in> set ops. reserves_built op \<Longrightarrow> run_steps store_step db ops = Some db'
     \<Longrightarrow> sqlite.grows db db'"
proof (induction ops arbitrary: db)
  case Nil
  then show ?case by (simp add: sqlite.grows_refl)
next
  case (Cons op ops)
  from Cons.prems(3) obtain db1 where db1: "store_step db op = Some db1" "run_steps store_step db1 ops = Some db'"
    by (rule run_steps_ConsE)
  have g: "sqlite.grows db db1" using store_step_grows [OF Cons.prems(1) _ db1(1)] Cons.prems(2) by simp
  then have "tables_ok db1" by (simp add: sqlite.grows_def)
  then have "sqlite.grows db1 db'" using Cons.IH [OF _ _ db1(2)] Cons.prems(2) by simp
  with g show ?case by (rule sqlite.grows_trans)
qed

lemma empty_tables_ok: "od_operations db = [] \<Longrightarrow> tables_ok db"
  by (simp add: tables_ok_def)

section \<open>Applied transitions are durable\<close>

lemma transition_saved:
  assumes "tables_ok db" and "stored db s = Some a" and "ag_revision a = n"
    and "transitionReservedSideEffectOperation sqlite_repository opId s n e r db = Inr (Applied a', db')"
  shows "advances a e r a' \<and> saveTransition a' n r db = Inr (Saved, db') \<and> id_operationId (ag_identity a) = opId"
proof -
  have op: "id_operationId (ag_identity a) = opId"
    and ap: "apply_transition sqlite_repository n e r a db = Inr (Applied a', db')"
    using assms(2-4) sqlite.load [OF assms(1), of s]
    by (auto simp: transitionReservedSideEffectOperation_def split: if_splits)
  from ap assms(3) obtain d where v: "receipt_valid r (ag_identity a) e (Num (of_nat (n + 1)))"
    and d: "transitionSideEffectOperation (ag_state a) e (rc_receiptId r) = Inr d"
    and sv: "rp_saveTransition sqlite_repository (next_aggregate a d) n r db = Inr (Saved, db')"
    and a': "a' = next_aggregate a d"
    by (auto simp: apply_transition_def validateSideEffectOperationReceipt_def rbind_Inr_iff
        split: if_splits sum.splits SaveResult.splits) (metis SaveResult.exhaust)
  then show ?thesis using op assms(3) by (auto simp: advances_def sqlite_repository_def)
qed

lemma receipt_validD:
  assumes "receipt_valid r i e (Num q)"
  shows "rc_operationId r = id_operationId i" "rc_event r = e" "rc_operationRevision r = Num q" "\<not> blank (rc_receiptId r)"
  using assms by (auto simp: receipt_valid_def num_eq_def)

lemma hydrateReceipt_row: "hydrateReceipt (receipt_row r) = Inr r"
proof -
  have "strings_of_js (JsArray (map JsString xs)) = Some xs" for xs
    by (simp add: list_all_iff comp_def)
  then show ?thesis by (simp add: hydrateReceipt_def receipt_row_def del: strings_of_js.simps)
qed

lemma find_key:
  assumes "distinct (map f xs)" and "x \<in> set xs"
  shows "List.find (\<lambda>y. f y = f x) xs = Some x"
  using assms by (induction xs) (auto simp: image_iff)

lemma saved_receipt_loads:
  assumes "tables_ok db" and "stored db s = Some a" and "advances a e r a'"
    and "saveTransition a' (ag_revision a) r db = Inr (Saved, db')" and "js_trim (rc_receiptId r) = rc_receiptId r"
  shows "loadReceipt (rc_receiptId r) db' = Inr (Some r)"
proof -
  note saved = saveTransition_saved [OF assms(1-4)]
  have "List.find (\<lambda>row. rr_receipt_id row = rc_receiptId r) (od_receipts db) = None"
    using saved by (auto simp: find_None_iff image_iff)
  then have row: "List.find (\<lambda>row. rr_receipt_id row = rc_receiptId r) (od_receipts db') = Some (receipt_row r)"
    using saved by (simp add: find_append receipt_row_def)
  have st: "stored db' s = Some a'" using saved by simp
  from saved have t': "tables_ok db'" by blast
  from stored_ok [OF t' st] obtain c u where a': "aggregate_ok a'" "row_of a' c u \<in> set (od_operations db')" .
  obtain t where t: "a' = a\<lparr>ag_state := t, ag_revision := ag_revision a + 1,
      ag_transitions := ag_transitions a @ [\<lparr>tr_revision = ag_revision a + 1, tr_previousState = ag_state a, tr_event = e,
        tr_nextState = t, tr_receiptRef = js_trim (rc_receiptId r)\<rparr>]\<rparr>"
    and v: "receipt_valid r (ag_identity a) e (Num (of_nat (ag_revision a + 1)))"
    using assms(3) by (rule advancesE)
  note rv = receipt_validD [OF v]
  have "List.find (\<lambda>op. ow_operation_id op = rc_operationId r) (od_operations db') = Some (row_of a' c u)"
    using find_key [of ow_operation_id "od_operations db'" "row_of a' c u"] t' a'(2) rv(1) t by (simp add: tables_ok_def)
  moreover have "ag_revision a = length (ag_transitions a)"
    using assms(1,2) stored_ok by (metis aggregate_ok_def)
  then have "transition_at a' (rc_operationRevision r) = Some (last (ag_transitions a'))"
    unfolding rv(3) transition_at_def t by (simp add: nat_add_distrib)
  moreover have "tr_event (last (ag_transitions a')) = e" "tr_receiptRef (last (ag_transitions a')) = rc_receiptId r"
    "ag_identity a' = ag_identity a"
    using assms(5) by (simp_all add: t)
  ultimately show ?thesis
    using v rv hydrate_row_of [OF a'(1)]
    by (simp add: loadReceipt_def row hydrateReceipt_row validateSideEffectOperationReceipt_def)
qed

section \<open>Properties of the store\<close>

text \<open>C23. The stored history of an operation is always readable and truthful: after any sequence of
  reservations and transitions on initially empty tables, however often they are repeated or refused, loading any
  scope succeeds, and what it returns is a run of the state machine from RESERVED to the stored state, one
  revision per transition. The identities reserved are those \<open>buildSideEffectOperationIdentity\<close> returns;
  the transitions have any inputs.\<close>

theorem operation_history_valid:
  assumes "od_operations db = []" and "\<forall>op \<in> set ops. reserves_built op" and "run_steps store_step db ops = Some db'"
  shows "\<exists>m. loadByScope s db' = Inr m \<and> (\<forall>a. m = Some a \<longrightarrow>
    id_scopeId (ag_identity a) = s \<and> ag_revision a = length (ag_transitions a)
    \<and> map tr_revision (ag_transitions a) = [1..<Suc (ag_revision a)]
    \<and> run_steps operation_step RESERVED (map (\<lambda>r. (tr_event r, tr_receiptRef r)) (ag_transitions a)) = Some (ag_state a))"
proof -
  have ok: "tables_ok db'" using store_run_grows [OF empty_tables_ok [OF assms(1)] assms(2,3)] by (simp add: sqlite.grows_def)
  have revisions: "history rs n t = Some u \<Longrightarrow> map tr_revision rs = [Suc n..<Suc (n + length rs)]" for rs n t u
  proof (induction rs arbitrary: n t)
    case (Cons r rs)
    then show ?case using Cons.IH [of "n + 1" "tr_nextState r"] by (simp add: upt_conv_Cons del: upt_Suc split: if_splits)
  qed simp
  show ?thesis
  proof (intro exI conjI allI impI)
    show "loadByScope s db' = Inr (stored db' s)" by (rule loadByScope_stored [OF ok])
    fix a assume "stored db' s = Some a"
    with sqlite.content_ok [OF ok] have a: "aggregate_ok a" "id_scopeId (ag_identity a) = s" by blast+
    then show "id_scopeId (ag_identity a) = s" "ag_revision a = length (ag_transitions a)"
      "run_steps operation_step RESERVED (map (\<lambda>r. (tr_event r, tr_receiptRef r)) (ag_transitions a)) = Some (ag_state a)"
      using history_run [of "ag_transitions a" 0] by (simp_all add: aggregate_ok_def)
    show "map tr_revision (ag_transitions a) = [1..<Suc (ag_revision a)]"
      using a(1) revisions [of "ag_transitions a" 0 RESERVED "ag_state a"] by (simp add: aggregate_ok_def del: upt_Suc)
  qed
qed

text \<open>The history of an operation is append-only: once a scope holds an operation, no later
  sequence of reservations and transitions changes its identity or a recorded transition.\<close>

theorem operation_history_append_only:
  assumes "od_operations db = []" and "\<forall>op \<in> set (ops @ ops'). reserves_built op"
    and "run_steps store_step db ops = Some db1" and "run_steps store_step db1 ops' = Some db2"
    and "loadByScope s db1 = Inr (Some a)"
  shows "\<exists>a'. loadByScope s db2 = Inr (Some a') \<and> ag_identity a' = ag_identity a
    \<and> prefix (ag_transitions a) (ag_transitions a')"
proof -
  have ok1: "tables_ok db1" using store_run_grows [OF empty_tables_ok [OF assms(1)] _ assms(3)] assms(2)
    by (simp add: sqlite.grows_def)
  have g: "sqlite.grows db1 db2" using store_run_grows [OF ok1 _ assms(4)] assms(2) by simp
  have "stored db1 s = Some a" using assms(5) by (simp add: stored_def)
  from sqlite.growsD [OF g this] obtain a' where "stored db2 s = Some a'" "ag_identity a' = ag_identity a"
    "prefix (ag_transitions a) (ag_transitions a')" .
  moreover have "tables_ok db2" using g by (simp add: sqlite.grows_def)
  ultimately show ?thesis using loadByScope_stored by auto
qed

text \<open>An applied transition is durable and safe to repeat: both the operation and the receipt
  read back as they were written, and the same call again reports the same result and writes
  nothing.\<close>

theorem applied_transition_durable:
  assumes "tables_ok db" and "loadByScope s db = Inr (Some a)" and "js_trim (rc_receiptId r) = rc_receiptId r"
    and "transitionReservedSideEffectOperation sqlite_repository opId s (ag_revision a) e r db = Inr (Applied a', db')"
  shows "loadByScope s db' = Inr (Some a') \<and> loadReceipt (rc_receiptId r) db' = Inr (Some r)
    \<and> transitionReservedSideEffectOperation sqlite_repository opId s (ag_revision a) e r db' = Inr (Applied a', db')"
proof -
  have st: "stored db s = Some a" using assms(2) by (simp add: stored_def)
  from transition_saved [OF assms(1) st refl assms(4)] have adv: "advances a e r a'"
    and sv: "saveTransition a' (ag_revision a) r db = Inr (Saved, db')" and op: "id_operationId (ag_identity a) = opId"
    by auto
  have load: "loadByScope s db' = Inr (Some a')"
    using saveTransition_saved [OF assms(1) st adv sv] loadByScope_stored by simp
  have receipt: "loadReceipt (rc_receiptId r) db' = Inr (Some r)"
    by (rule saved_receipt_loads [OF assms(1) st adv sv assms(3)])
  have "last_transition a' = Some (last (ag_transitions a'))" "tr_event (last (ag_transitions a')) = e"
    "tr_receiptRef (last (ag_transitions a')) = rc_receiptId r" "ag_revision a' = ag_revision a + 1"
    "ag_identity a' = ag_identity a"
    using adv assms(3) by (auto elim!: advancesE simp: last_transition_def)
  then show ?thesis using load receipt op
    by (simp add: transitionReservedSideEffectOperation_def sqlite_repository_def)
qed

definition sample_store :: operation_db where
  "sample_store = \<lparr>od_operations = [], od_receipts = [], od_runs = [''run''], od_works = [''work''], od_now = Num 1\<rparr>"

definition sample_receipt :: "SideEffectOperationEvent \<Rightarrow> nat \<Rightarrow> SideEffectOperationReceipt" where
  "sample_receipt e n = (case buildSideEffectOperationReceipt (sample_identity CHR ''a'') e n (sample_hash CHR ''c'') [''ref''] (Num 1)
     of Inr r \<Rightarrow> r | Inl _ \<Rightarrow> undefined)"

definition sample_reserve :: StoreOperation where
  "sample_reserve = ReserveOp (sample_identity CHR ''a'')"

definition sample_start :: StoreOperation where
  "sample_start = TransitionOp (id_operationId (sample_identity CHR ''a'')) (id_scopeId (sample_identity CHR ''a'')) 0
     START_EFFECT (sample_receipt START_EFFECT 1)"

definition sample_reserved :: operation_db where
  "sample_reserved = sample_store\<lparr>od_operations := [row_of (reserved_aggregate (sample_identity CHR ''a'')) (Num 1) (Num 1)]\<rparr>"

definition sample_started :: operation_db where
  "sample_started = (case store_step sample_reserved sample_start of Some db \<Rightarrow> db | None \<Rightarrow> undefined)"

lemma sample_steps:
  "store_step sample_store sample_reserve = Some sample_reserved"
  "store_step sample_reserved sample_start = Some sample_started"
  by code_simp+

lemma sample_reserved_loads:
  "loadByScope (id_scopeId (sample_identity CHR ''a'')) sample_reserved = Inr (Some (reserved_aggregate (sample_identity CHR ''a'')))"
  by code_simp

theorem operation_history_valid_witness:
  "\<exists>a. loadByScope (id_scopeId (sample_identity CHR ''a'')) sample_started = Inr a"
proof -
  have "run_steps store_step sample_store [sample_reserve, sample_start] = Some sample_started" by (simp add: sample_steps)
  from operation_history_valid [OF _ _ this] show ?thesis
    by (auto simp: sample_store_def sample_reserve_def sample_start_def sample_identity_built)
qed

theorem operation_history_append_only_witness:
  "\<exists>a. loadByScope (id_scopeId (sample_identity CHR ''a'')) sample_started = Inr (Some a)"
proof -
  have r: "run_steps store_step sample_store [sample_reserve] = Some sample_reserved"
    "run_steps store_step sample_reserved [sample_start] = Some sample_started" by (simp_all add: sample_steps)
  from operation_history_append_only [OF _ _ r sample_reserved_loads] show ?thesis
    by (auto simp: sample_store_def sample_reserve_def sample_start_def sample_identity_built)
qed

theorem applied_transition_durable_witness:
  "loadReceipt (rc_receiptId (sample_receipt START_EFFECT 1)) sample_started = Inr (Some (sample_receipt START_EFFECT 1))"
proof -
  let ?i = "sample_identity CHR ''a''" and ?r = "sample_receipt START_EFFECT 1"
  have ok: "tables_ok sample_reserved"
    using store_step_grows [OF empty_tables_ok _ sample_steps(1)]
    by (simp add: sample_store_def sqlite.grows_def sample_reserve_def sample_identity_built)
  have trim: "js_trim (rc_receiptId ?r) = rc_receiptId ?r" by code_simp
  have "\<exists>a. transitionReservedSideEffectOperation sqlite_repository (id_operationId ?i) (id_scopeId ?i)
      (ag_revision (reserved_aggregate ?i)) START_EFFECT ?r sample_reserved = Inr (Applied a, sample_started)"
    by (rule exI [of _ "next_aggregate (reserved_aggregate ?i) \<lparr>ac_previousState = RESERVED, ac_event = START_EFFECT,
        ac_nextState = EFFECT_STARTED, ac_receiptRef = rc_receiptId ?r\<rparr>"]) code_simp
  then show ?thesis using applied_transition_durable [OF ok sample_reserved_loads trim] by blast
qed

end
