(* ===== verification/Side_Effect_Executor.thy ===== *)
theory Side_Effect_Executor
  imports Side_Effect_Store
begin

text \<open>
  The execution of a side effect (\<open>runs/side-effect-operation-executor.ts\<close>): authorisation,
  reservation, the effect itself, its verification, and compensation or manual intervention. The
  function is asynchronous; between two awaits it runs without interruption. An execution is
  therefore a process: \<open>start_execution\<close> is the code up to the first await, \<open>resume_execution\<close> the
  code from an await to the next one or to the result, given what the awaited call returned
  (\<open>Inl\<close>: it threw) and the answers of \<open>isCancelled\<close>. The callbacks of the caller are the
  environment: what they return is arbitrary.
\<close>

section \<open>Inputs and results\<close>

datatype RetrySafety = safe_same_command | change_strategy

record 'v EffectResult =
  er_value :: 'v
  er_success :: bool
  er_resultFingerprint :: string
  er_recordedAt :: number
  er_effectEvidenceRefs :: "string list option"
  er_preEffectRejection :: "(string \<times> RetrySafety) option"

record PostStateObservation =
  po_available :: bool
  po_targetFingerprint :: string
  po_expectedStateFingerprint :: string
  po_observedStateFingerprint :: string
  po_capturedAt :: number
  po_recoveryEvidence :: "js option"

record ExecutionInput =
  xi_identity :: SideEffectOperationIdentity
  xi_compensationSupport :: CompensationSupport
  xi_observesCurrentPostState :: bool
  xi_compensates :: bool
  xi_verifiesCompensation :: bool

text \<open>The evidence objects the transitions are given.\<close>

datatype TransitionEvidence =
    NoEvidence
  | ResumedFrom SideEffectOperationState
  | ResumedReceipts "string \<times> string"
  | ResumedFailure string
  | ReasonEvidence string
  | AuthorizationEvidence SideEffectOperationAuthorization
  | RejectionEvidence string RetrySafety string string number
  | EffectEvidence bool string string number "string list option"
  | VerifiedReceipts "string \<times> string"
  | CompensationEvidence js js

record ExecutionDependencies =
  xd_authorization :: "SideEffectOperationAuthorization option"
  xd_createReceipt :: "SideEffectOperationIdentity \<Rightarrow> SideEffectOperationEvent \<Rightarrow> nat \<Rightarrow> TransitionEvidence
    \<Rightarrow> string + SideEffectOperationReceipt"

datatype 'v SideEffectOperationExecutionResult =
    Verified 'v SideEffectOperationAggregate
  | DuplicateVerified SideEffectOperationAggregate
  | ResumedVerified SideEffectOperationAggregate
  | CancelledBeforeEffect SideEffectOperationAggregate
  | Compensated SideEffectOperationAggregate
  | EffectRejected string SideEffectOperationAggregate
  | ManualIntervention string SideEffectOperationAggregate "js option" "string option"
  | Blocked string "SideEffectOperationAggregate option"
  | Threw string

text \<open>Where an execution waits: for the current post-state of a resumed operation, the effect, its
  post-state, the compensation, or its verification.\<close>

datatype 'v Process =
    AwaitingCurrentPostState SideEffectOperationAuthorization SideEffectOperationAggregate string
  | AwaitingEffect SideEffectOperationAuthorization SideEffectOperationAggregate
  | AwaitingPostState SideEffectOperationAuthorization SideEffectOperationAggregate "'v EffectResult" string
  | AwaitingCompensation SideEffectOperationAggregate
  | AwaitingCompensationVerification SideEffectOperationAggregate js
  | Finished "'v SideEffectOperationExecutionResult"

datatype 'v Answer =
    PostStateAnswer "string + PostStateObservation"
  | EffectAnswer "string + 'v EffectResult" bool
  | CompensationAnswer "string + bool \<times> js"
  | VerificationAnswer "string + bool \<times> js"

section \<open>Transitions of an execution\<close>

text \<open>
  The local function \<open>transition\<close>, followed by the continuation of the code when it was applied;
  every rejection ends the execution as blocked, with the aggregate it had.
\<close>

definition transition_then ::
  "'db SideEffectOperationRepository \<Rightarrow> ExecutionDependencies \<Rightarrow> SideEffectOperationAggregate
     \<Rightarrow> SideEffectOperationEvent \<Rightarrow> TransitionEvidence
     \<Rightarrow> (SideEffectOperationAggregate \<Rightarrow> 'db \<Rightarrow> 'v Process \<times> 'db) \<Rightarrow> 'db \<Rightarrow> 'v Process \<times> 'db" where
  "transition_then repository deps aggregate event evidence continue db =
     (case xd_createReceipt deps (ag_identity aggregate) event (ag_revision aggregate + 1) evidence of
        Inl e \<Rightarrow> (Finished (Threw e), db)
      | Inr receipt \<Rightarrow>
          (case transitionReservedSideEffectOperation repository (id_operationId (ag_identity aggregate))
                  (id_scopeId (ag_identity aggregate)) (ag_revision aggregate) event receipt db of
             Inl e \<Rightarrow> (Finished (Threw e), db)
           | Inr (Rejected reasonCode _, db') \<Rightarrow> (Finished (Blocked reasonCode (Some aggregate)), db')
           | Inr (Applied aggregate', db') \<Rightarrow> continue aggregate' db'))"

definition finish :: "'v SideEffectOperationExecutionResult \<Rightarrow> 'db \<Rightarrow> 'v Process \<times> 'db" where
  "finish result db = (Finished result, db)"

definition last_ref :: "SideEffectOperationEvent list \<Rightarrow> SideEffectOperationAggregate \<Rightarrow> string option" where
  "last_ref events aggregate =
     map_option tr_receiptRef (List.find (\<lambda>item. tr_event item \<in> set events) (rev (ag_transitions aggregate)))"

text \<open>The value of an optional field that is spread only if it is truthy.\<close>

definition truthy :: "string option \<Rightarrow> string option" where
  "truthy v = (case v of Some (c # cs) \<Rightarrow> Some (c # cs) | _ \<Rightarrow> None)"

section \<open>Starting\<close>

definition resume_operation ::
  "'db SideEffectOperationRepository \<Rightarrow> ExecutionInput \<Rightarrow> ExecutionDependencies \<Rightarrow> SideEffectOperationAuthorization
     \<Rightarrow> SideEffectOperationAggregate \<Rightarrow> 'db \<Rightarrow> 'v Process \<times> 'db" where
  "resume_operation repository input deps authorization aggregate db =
     (if \<not> xi_observesCurrentPostState input
      then finish (Blocked ''side_effect_resume_observer_missing'' (Some aggregate)) db
      else case last_ref [RECORD_EFFECT] aggregate of
        None \<Rightarrow> finish (Blocked ''side_effect_record_receipt_missing'' (Some aggregate)) db
      | Some effectReceiptRef \<Rightarrow>
          if effectReceiptRef = [] then finish (Blocked ''side_effect_record_receipt_missing'' (Some aggregate)) db
          else case rp_loadReceipt repository effectReceiptRef db of
            Inl e \<Rightarrow> finish (Threw e) db
          | Inr persisted \<Rightarrow>
              if (case persisted of None \<Rightarrow> True
                  | Some receipt \<Rightarrow> rc_operationId receipt \<noteq> id_operationId (ag_identity aggregate)
                      \<or> rc_event receipt \<noteq> RECORD_EFFECT \<or> rc_kind receipt \<noteq> kind_effect)
              then finish (Blocked ''side_effect_record_receipt_invalid'' (Some aggregate)) db
              else if ag_state aggregate \<noteq> VERIFYING
              then transition_then repository deps aggregate BEGIN_VERIFICATION (ResumedFrom (ag_state aggregate))
                (\<lambda>aggregate' db'. (AwaitingCurrentPostState authorization aggregate' effectReceiptRef, db')) db
              else (AwaitingCurrentPostState authorization aggregate effectReceiptRef, db))"

definition start_reserved ::
  "'db SideEffectOperationRepository \<Rightarrow> ExecutionDependencies \<Rightarrow> SideEffectOperationAuthorization \<Rightarrow> bool \<Rightarrow> bool
     \<Rightarrow> SideEffectOperationAggregate \<Rightarrow> 'db \<Rightarrow> 'v Process \<times> 'db" where
  "start_reserved repository deps authorization cancelledBefore cancelledAfterStart aggregate db =
     (if cancelledBefore
      then transition_then repository deps aggregate REQUEST_CANCEL NoEvidence
        (\<lambda>aggregate'. finish (CancelledBeforeEffect aggregate')) db
      else transition_then repository deps aggregate START_EFFECT (AuthorizationEvidence authorization)
        (\<lambda>started db'.
           if cancelledAfterStart
           then transition_then repository deps started REQUEST_CANCEL (ReasonEvidence ''cancelled_after_start_before_effect'')
             (\<lambda>aggregate'. finish (CancelledBeforeEffect aggregate')) db'
           else (AwaitingEffect authorization started, db')) db)"

text \<open>The branches on the state of an operation that was already there.\<close>

definition start_existing ::
  "'db SideEffectOperationRepository \<Rightarrow> ExecutionInput \<Rightarrow> ExecutionDependencies \<Rightarrow> SideEffectOperationAuthorization
     \<Rightarrow> bool \<Rightarrow> bool \<Rightarrow> SideEffectOperationAggregate \<Rightarrow> 'db \<Rightarrow> 'v Process \<times> 'db" where
  "start_existing repository input deps authorization cancelledBefore cancelledAfterStart aggregate db =
     (if ag_state aggregate = VERIFIED then finish (DuplicateVerified aggregate) db
      else if ag_state aggregate = EFFECT_REJECTED
      then finish (EffectRejected ''side_effect_existing_effect_rejected'' aggregate) db
      else if ag_state aggregate = MANUAL_INTERVENTION
      then finish (ManualIntervention ''side_effect_existing_manual_intervention'' aggregate None
        (truthy (last_ref [MARK_MANUAL, COMPENSATION_FAILED] aggregate))) db
      else if ag_state aggregate \<in> {EFFECT_RECORDED, VERIFYING, CANCEL_REQUESTED}
      then resume_operation repository input deps authorization aggregate db
      else if ag_state aggregate \<noteq> RESERVED
      then finish (Blocked (''side_effect_operation_not_resumable:'' @ operation_state_name (ag_state aggregate))
        (Some aggregate)) db
      else start_reserved repository deps authorization cancelledBefore cancelledAfterStart aggregate db)"

definition start_execution ::
  "'db SideEffectOperationRepository \<Rightarrow> ExecutionInput \<Rightarrow> ExecutionDependencies \<Rightarrow> bool \<Rightarrow> bool \<Rightarrow> 'db \<Rightarrow> 'v Process \<times> 'db" where
  "start_execution repository input deps cancelledBefore cancelledAfterStart db =
     (case validateSideEffectOperationAuthorization (xi_identity input) (xd_authorization deps) of
        Inl reasonCode \<Rightarrow> finish (Blocked reasonCode None) db
      | Inr authorization \<Rightarrow>
          (case reserveSideEffectOperation repository (xi_identity input) db of
             Inl e \<Rightarrow> finish (Threw e) db
           | Inr (ReserveRejected reasonCode, db') \<Rightarrow> finish (Blocked reasonCode None) db'
           | Inr (ReservedNew aggregate, db') \<Rightarrow>
               start_reserved repository deps authorization cancelledBefore cancelledAfterStart aggregate db'
           | Inr (ReservedExisting aggregate, db') \<Rightarrow>
               start_existing repository input deps authorization cancelledBefore cancelledAfterStart aggregate db'))"

section \<open>After an await\<close>

definition observation_evidence :: "PostStateObservation \<Rightarrow> SideEffectObservationEvidence" where
  "observation_evidence obs = \<lparr>ob_available = po_available obs, ob_targetFingerprint = po_targetFingerprint obs,
     ob_expectedStateFingerprint = po_expectedStateFingerprint obs, ob_observedStateFingerprint = po_observedStateFingerprint obs,
     ob_capturedAt = po_capturedAt obs, ob_receiptRef = ''observation-evidence:'' @ po_observedStateFingerprint obs\<rparr>"

definition after_current_post_state ::
  "'db SideEffectOperationRepository \<Rightarrow> ExecutionInput \<Rightarrow> ExecutionDependencies \<Rightarrow> SideEffectOperationAuthorization
     \<Rightarrow> SideEffectOperationAggregate \<Rightarrow> string \<Rightarrow> PostStateObservation \<Rightarrow> 'db \<Rightarrow> 'v Process \<times> 'db" where
  "after_current_post_state repository input deps authorization aggregate effectReceiptRef observation db =
     (case decideResumedSideEffectVerification (id_targetFingerprint (xi_identity input))
             (au_expectedEffectFingerprint authorization) effectReceiptRef (observation_evidence observation) of
        Inr receiptRefs \<Rightarrow>
          transition_then repository deps aggregate VERIFICATION_PASSED (ResumedReceipts receiptRefs)
            (\<lambda>aggregate'. finish (ResumedVerified aggregate')) db
      | Inl reasonCode \<Rightarrow>
          transition_then repository deps aggregate VERIFICATION_FAILED (ResumedFailure reasonCode)
            (\<lambda>failed. transition_then repository deps failed MARK_MANUAL (ReasonEvidence ''side_effect_resume_verification_failed'')
              (\<lambda>aggregate'. finish (ManualIntervention ''side_effect_resume_verification_failed'' aggregate'
                 (po_recoveryEvidence observation) None))) db)"

definition after_effect ::
  "'db SideEffectOperationRepository \<Rightarrow> ExecutionInput \<Rightarrow> ExecutionDependencies \<Rightarrow> SideEffectOperationAuthorization
     \<Rightarrow> SideEffectOperationAggregate \<Rightarrow> 'v EffectResult \<Rightarrow> bool \<Rightarrow> 'db \<Rightarrow> 'v Process \<times> 'db" where
  "after_effect repository input deps authorization aggregate effect cancelled db =
     (case er_preEffectRejection effect of
        Some (reasonCode, retrySafety) \<Rightarrow>
          transition_then repository deps aggregate RECORD_REJECTION
            (RejectionEvidence reasonCode retrySafety (id_targetFingerprint (xi_identity input))
              (er_resultFingerprint effect) (er_recordedAt effect))
            (\<lambda>aggregate'. finish (EffectRejected reasonCode aggregate')) db
      | None \<Rightarrow>
          transition_then repository deps aggregate RECORD_EFFECT
            (EffectEvidence (er_success effect) (id_targetFingerprint (xi_identity input)) (er_resultFingerprint effect)
              (er_recordedAt effect) (er_effectEvidenceRefs effect))
            (\<lambda>recorded db1.
               case map_option tr_receiptRef (last_transition recorded) of
                 None \<Rightarrow> finish (Blocked ''side_effect_record_receipt_missing'' (Some recorded)) db1
               | Some effectReceiptRef \<Rightarrow>
                   if effectReceiptRef = [] then finish (Blocked ''side_effect_record_receipt_missing'' (Some recorded)) db1
                   else
                     (let verify = (\<lambda>current. transition_then repository deps current BEGIN_VERIFICATION NoEvidence
                            (\<lambda>verifying db2. (AwaitingPostState authorization verifying effect effectReceiptRef, db2)))
                      in if cancelled
                         then transition_then repository deps recorded REQUEST_CANCEL NoEvidence verify db1
                         else verify recorded db1)) db)"

definition after_post_state ::
  "'db SideEffectOperationRepository \<Rightarrow> ExecutionInput \<Rightarrow> ExecutionDependencies \<Rightarrow> SideEffectOperationAuthorization
     \<Rightarrow> SideEffectOperationAggregate \<Rightarrow> 'v EffectResult \<Rightarrow> string \<Rightarrow> PostStateObservation \<Rightarrow> 'db \<Rightarrow> 'v Process \<times> 'db" where
  "after_post_state repository input deps authorization aggregate effect effectReceiptRef observation db =
     (let decision = decideSideEffectVerification
            \<lparr>ef_success = er_success effect, ef_targetFingerprint = id_targetFingerprint (xi_identity input),
             ef_resultFingerprint = er_resultFingerprint effect, ef_recordedAt = er_recordedAt effect,
             ef_receiptRef = effectReceiptRef\<rparr>
            (observation_evidence observation) (Some (au_expectedEffectFingerprint authorization))
      in case decision of
        Inr receiptRefs \<Rightarrow>
          transition_then repository deps aggregate VERIFICATION_PASSED (VerifiedReceipts receiptRefs)
            (\<lambda>aggregate'. finish (Verified (er_value effect) aggregate')) db
      | Inl reasonCode \<Rightarrow>
          transition_then repository deps aggregate VERIFICATION_FAILED (ReasonEvidence reasonCode)
            (\<lambda>failed db1.
               let remediation = decideSideEffectRemediation decision (xi_compensationSupport input)
               in if fst remediation = act_manual_intervention \<or> \<not> xi_compensates input \<or> \<not> xi_verifiesCompensation input
                  then transition_then repository deps failed MARK_MANUAL (ReasonEvidence (snd remediation))
                    (\<lambda>aggregate'. finish (ManualIntervention (snd remediation) aggregate'
                       (po_recoveryEvidence observation) None)) db1
                  else transition_then repository deps failed BEGIN_COMPENSATION NoEvidence
                    (\<lambda>compensating db2. (AwaitingCompensation compensating, db2)) db1) db)"

definition after_compensation_verification ::
  "'db SideEffectOperationRepository \<Rightarrow> ExecutionDependencies \<Rightarrow> SideEffectOperationAggregate \<Rightarrow> js \<Rightarrow> bool \<Rightarrow> js
     \<Rightarrow> 'db \<Rightarrow> 'v Process \<times> 'db" where
  "after_compensation_verification repository deps aggregate compensationEvidence verified verificationEvidence db =
     (if verified
      then transition_then repository deps aggregate COMPENSATION_SUCCEEDED
        (CompensationEvidence compensationEvidence verificationEvidence) (\<lambda>aggregate'. finish (Compensated aggregate')) db
      else transition_then repository deps aggregate COMPENSATION_FAILED
        (CompensationEvidence compensationEvidence verificationEvidence)
        (\<lambda>aggregate'. finish (ManualIntervention ''side_effect_compensation_failed'' aggregate' None None)) db)"

text \<open>An answer of the wrong kind is not an answer to the await; an awaited call that throws ends the
  execution with that error.\<close>

fun resume_execution ::
  "'db SideEffectOperationRepository \<Rightarrow> ExecutionInput \<Rightarrow> ExecutionDependencies \<Rightarrow> 'v Process \<Rightarrow> 'v Answer \<Rightarrow> 'db
     \<Rightarrow> ('v Process \<times> 'db) option" where
  "resume_execution repository input deps (AwaitingCurrentPostState authorization aggregate ref) answer db =
     (case answer of
        PostStateAnswer (Inl e) \<Rightarrow> Some (finish (Threw e) db)
      | PostStateAnswer (Inr observation) \<Rightarrow>
          Some (after_current_post_state repository input deps authorization aggregate ref observation db)
      | _ \<Rightarrow> None)"
| "resume_execution repository input deps (AwaitingEffect authorization aggregate) answer db =
     (case answer of
        EffectAnswer (Inl e) _ \<Rightarrow> Some (finish (Threw e) db)
      | EffectAnswer (Inr effect) cancelled \<Rightarrow>
          Some (after_effect repository input deps authorization aggregate effect cancelled db)
      | _ \<Rightarrow> None)"
| "resume_execution repository input deps (AwaitingPostState authorization aggregate effect ref) answer db =
     (case answer of
        PostStateAnswer (Inl e) \<Rightarrow> Some (finish (Threw e) db)
      | PostStateAnswer (Inr observation) \<Rightarrow>
          Some (after_post_state repository input deps authorization aggregate effect ref observation db)
      | _ \<Rightarrow> None)"
| "resume_execution repository input deps (AwaitingCompensation aggregate) answer db =
     (case answer of
        CompensationAnswer (Inl e) \<Rightarrow> Some (finish (Threw e) db)
      | CompensationAnswer (Inr (success, evidence)) \<Rightarrow>
          Some (if success then (AwaitingCompensationVerification aggregate evidence, db)
            else after_compensation_verification repository deps aggregate evidence False
              (JsString ''compensation_execution_failed'') db)
      | _ \<Rightarrow> None)"
| "resume_execution repository input deps (AwaitingCompensationVerification aggregate evidence) answer db =
     (case answer of
        VerificationAnswer (Inl e) \<Rightarrow> Some (finish (Threw e) db)
      | VerificationAnswer (Inr (verified, verification)) \<Rightarrow>
          Some (after_compensation_verification repository deps aggregate evidence verified verification db)
      | _ \<Rightarrow> None)"
| "resume_execution repository input deps (Finished result) answer db = None"

section \<open>Executions on a repository\<close>

definition ends_with :: "SideEffectOperationEvent \<Rightarrow> SideEffectOperationAggregate \<Rightarrow> bool" where
  "ends_with e a \<longleftrightarrow> (\<exists>rec. last_transition a = Some rec \<and> tr_event rec = e)
     \<and> (\<exists>s. OPERATION_TRANSITIONS s e = Some (ag_state a))"

lemma snd_finish [simp]: "finish r db = (Finished r, db)"
  by (simp add: finish_def)

lemma advances_ends_with: "advances a e r a' \<Longrightarrow> ends_with e a'"
  by (elim advancesE) (auto simp: ends_with_def last_transition_def)

context operation_repository
begin

lemma transition_then_cases:
  assumes "inv db" and "transition_then repo deps a e ev k db = (p, db')"
  obtains (ended) r where "p = Finished r" "db' = db" "\<exists>c. r = Threw c \<or> r = Blocked c (Some a)"
    | (continued) a' db1 where "k a' db1 = (p, db')" "grows db db1" "content db1 (id_scopeId (ag_identity a)) = Some a'"
      "ends_with e a'" "id_operationId (ag_identity a') = id_operationId (ag_identity a)"
proof (cases "xd_createReceipt deps (ag_identity a) e (ag_revision a + 1) ev")
  case (Inl c)
  with assms(2) have "p = Finished (Threw c)" "db' = db" by (auto simp: transition_then_def)
  then show thesis using ended by blast
next
  case (Inr r)
  let ?t = "transitionReservedSideEffectOperation repo (id_operationId (ag_identity a)) (id_scopeId (ag_identity a))
    (ag_revision a) e r db"
  show thesis
  proof (cases ?t)
    case (Inl c)
    with Inr assms(2) have "p = Finished (Threw c)" "db' = db" by (auto simp: transition_then_def)
    then show thesis using ended by blast
  next
    case r: (Inr resdb)
    obtain res db1 where resdb: "resdb = (res, db1)" by force
    have t: "?t = Inr (res, db1)" using r resdb by simp
    have g: "grows db db1" by (rule transition_grows [OF assms(1) t])
    show thesis
    proof (cases rule: transition_cases [OF assms(1) t])
      case (1 b b')
      then have "k b' db1 = (p, db')" using Inr t assms(2) by (simp add: transition_then_def)
      moreover have "id_operationId (ag_identity b') = id_operationId (ag_identity a)"
        using 1 advances_keeps by simp
      ultimately show thesis using continued g 1 advances_ends_with by simp
    next
      case (2 b rec)
      then have "k b db1 = (p, db')" using Inr t assms(2) by (simp add: transition_then_def)
      moreover have "ends_with e b"
        using 2 aggregate_last [of b rec] content_ok [OF assms(1)] by (auto simp: ends_with_def)
      ultimately show thesis using continued g 2 by simp
    next
      case (3 c k)
      then have "p = Finished (Blocked c (Some a))" "db' = db" using Inr t assms(2) by (auto simp: transition_then_def)
      then show thesis using ended by blast
    qed
  qed
qed

lemma transition_then_fresh:
  assumes "inv db" and "content db (id_scopeId (ag_identity a)) = Some a"
    and "transition_then repo deps a e ev k db = (p, db')"
  obtains (ended) r where "p = Finished r" "db' = db"
    | (continued) a' db1 r where "k a' db1 = (p, db')" "inv db1" "advances a e r a'"
      "content db1 = (content db)(id_scopeId (ag_identity a) \<mapsto> a')"
proof (cases "xd_createReceipt deps (ag_identity a) e (ag_revision a + 1) ev")
  case (Inl c)
  with assms(3) show thesis using ended by (auto simp: transition_then_def)
next
  case (Inr r)
  let ?t = "transitionReservedSideEffectOperation repo (id_operationId (ag_identity a)) (id_scopeId (ag_identity a))
    (ag_revision a) e r db"
  show thesis
  proof (cases ?t)
    case (Inl c)
    with Inr assms(3) show thesis using ended by (auto simp: transition_then_def)
  next
    case r: (Inr resdb)
    obtain res db1 where resdb: "resdb = (res, db1)" by force
    have t: "?t = Inr (res, db1)" using r resdb by simp
    show thesis
    proof (cases rule: transition_cases [OF assms(1) t])
      case (1 b b')
      then have "k b' db1 = (p, db')" using Inr t assms(3) by (simp add: transition_then_def)
      then show thesis using continued 1 assms(2) by auto
    next
      case (2 b rec)
      then show thesis using assms(2) by auto
    next
      case (3 c k)
      then show thesis using ended Inr t assms(3) by (auto simp: transition_then_def)
    qed
  qed
qed

text \<open>Every stretch of an execution only appends to histories.\<close>

lemma transition_then_grows:
  assumes "inv db" and "\<And>a' db1. inv db1 \<Longrightarrow> grows db1 (snd (k a' db1))"
  shows "grows db (snd (transition_then repo deps a e ev k db))"
proof -
  obtain p db' where t: "transition_then repo deps a e ev k db = (p, db')" by force
  show ?thesis
  proof (cases rule: transition_then_cases [OF assms(1) t])
    case (1 r)
    then show ?thesis using t grows_refl [OF assms(1)] by simp
  next
    case (2 a' db1)
    then have "grows db1 db'" using assms(2) [of db1 a'] by (simp add: grows_def)
    with 2 t show ?thesis using grows_trans by simp
  qed
qed

lemmas process_grows = transition_then_grows grows_refl

lemma start_reserved_grows: "inv db \<Longrightarrow> grows db (snd (start_reserved repo deps au c1 c2 a db))"
  by (auto simp: start_reserved_def intro!: process_grows)

lemma resume_operation_grows: "inv db \<Longrightarrow> grows db (snd (resume_operation repo input deps au a db))"
  by (auto simp: resume_operation_def intro!: process_grows split: option.splits sum.splits)

lemma start_existing_grows: "inv db \<Longrightarrow> grows db (snd (start_existing repo input deps au c1 c2 a db))"
  by (simp add: start_existing_def start_reserved_grows resume_operation_grows grows_refl)

lemma start_grows:
  assumes "inv db" and "built_identity (xi_identity input)"
  shows "grows db (snd (start_execution repo input deps c1 c2 db))"
proof (cases "validateSideEffectOperationAuthorization (xi_identity input) (xd_authorization deps)")
  case (Inl e)
  then show ?thesis using grows_refl [OF assms(1)] by (simp add: start_execution_def)
next
  case au: (Inr au)
  show ?thesis
  proof (cases "reserveSideEffectOperation repo (xi_identity input) db")
    case (Inl e)
    then show ?thesis using au grows_refl [OF assms(1)] by (simp add: start_execution_def)
  next
    case (Inr resdb)
    obtain res db1 where r: "resdb = (res, db1)" by force
    have g: "grows db db1" using reserve_grows [OF assms] Inr r by blast
    then have i: "inv db1" by (simp add: grows_def)
    have "grows db1 (snd (start_execution repo input deps c1 c2 db))"
      by (cases res) (simp_all add: start_execution_def au Inr r start_reserved_grows [OF i] start_existing_grows [OF i] grows_refl [OF i])
    with g show ?thesis by (rule grows_trans)
  qed
qed

lemma after_current_post_state_grows:
  "inv db \<Longrightarrow> grows db (snd (after_current_post_state repo input deps au a ref obs db))"
  by (auto simp: after_current_post_state_def intro!: process_grows split: sum.splits)

lemma after_effect_grows: "inv db \<Longrightarrow> grows db (snd (after_effect repo input deps au a effect c db))"
  by (auto simp: after_effect_def Let_def intro!: process_grows split: option.splits)

lemma after_post_state_grows: "inv db \<Longrightarrow> grows db (snd (after_post_state repo input deps au a effect ref obs db))"
  unfolding after_post_state_def Let_def
  by (split sum.split) (auto intro!: process_grows simp del: fst_conv)

lemma after_compensation_verification_grows:
  "inv db \<Longrightarrow> grows db (snd (after_compensation_verification repo deps a ce v ve db))"
  by (auto simp: after_compensation_verification_def intro!: process_grows)

lemma snd_grows: "x = (p, db') \<Longrightarrow> grows db (snd x) \<Longrightarrow> grows db db'"
  by simp

lemmas after_grows = after_current_post_state_grows [THEN snd_grows [rotated]] after_effect_grows [THEN snd_grows [rotated]]
  after_post_state_grows [THEN snd_grows [rotated]] after_compensation_verification_grows [THEN snd_grows [rotated]]

lemma resume_grows:
  assumes "inv db" and "resume_execution repo input deps p ans db = Some (p', db')"
  shows "grows db db'"
  using assms grows_refl [OF assms(1)]
  by (cases p) (auto split: Answer.splits sum.splits if_splits prod.splits intro: after_grows)

end

context operation_repository
begin

text \<open>The effect is performed only by an authorised execution that has just moved its operation from
  reserved to started.\<close>

lemma start_reserved_effect:
  assumes "inv db" and "content db (id_scopeId (ag_identity a)) = Some a"
    and "start_reserved repo deps au c1 c2 a db = (AwaitingEffect au' a' :: 'v Process, db')"
  obtains r where "\<not> c1" "\<not> c2" "au' = au" "ag_state a = RESERVED" "advances a START_EFFECT r a'" "inv db'"
    "content db' = (content db)(id_scopeId (ag_identity a) \<mapsto> a')"
proof (cases c1)
  case True
  with assms(3) have t: "transition_then repo deps a REQUEST_CANCEL NoEvidence (\<lambda>x. finish (CancelledBeforeEffect x)) db
      = (AwaitingEffect au' a' :: 'v Process, db')" by (simp add: start_reserved_def)
  then show thesis by (cases rule: transition_then_cases [OF assms(1) t]) auto
next
  case False
  let ?k = "\<lambda>started db1. if c2 then transition_then repo deps started REQUEST_CANCEL
      (ReasonEvidence ''cancelled_after_start_before_effect'') (\<lambda>x. finish (CancelledBeforeEffect x)) db1
      else (AwaitingEffect au started, db1)"
  from False assms(3) have t: "transition_then repo deps a START_EFFECT (AuthorizationEvidence au) ?k db
      = (AwaitingEffect au' a' :: 'v Process, db')" by (simp add: start_reserved_def)
  show thesis
  proof (cases rule: transition_then_fresh [OF assms(1,2) t])
    case (2 b db1 r)
    show thesis
    proof (cases c2)
      case True
      with 2(1) have t2: "transition_then repo deps b REQUEST_CANCEL
          (ReasonEvidence ''cancelled_after_start_before_effect'') (\<lambda>x. finish (CancelledBeforeEffect x)) db1
          = (AwaitingEffect au' a' :: 'v Process, db')" by simp
      then show thesis by (cases rule: transition_then_cases [OF 2(2) t2]) auto
    next
      case False
      with 2 have "au' = au" "b = a'" "db1 = db'" by auto
      moreover have "ag_state a = RESERVED" using 2(3) start_only_from_reserved by (auto elim: advancesE)
      ultimately show thesis using 2 that \<open>\<not> c1\<close> False by blast
    qed
  qed auto
qed

end

text \<open>Does a stretch end by calling the effect?\<close>

fun calls_effect :: "'v Process \<Rightarrow> bool" where
  "calls_effect (AwaitingEffect _ _) = True"
| "calls_effect _ = False"

lemma transition_then_calls:
  assumes "calls_effect (fst (transition_then repo deps a e ev k db))"
  shows "\<exists>a' db1. calls_effect (fst (k a' db1))"
  using assms by (auto simp: transition_then_def split: sum.splits prod.splits TransitionSideEffectOperationResult.splits)

lemma resume_operation_no_effect: "\<not> calls_effect (fst (resume_operation repo input deps au a db))"
  unfolding resume_operation_def by (auto dest!: transition_then_calls split: option.splits sum.splits if_splits)

lemma after_no_effect:
  "\<not> calls_effect (fst (after_current_post_state repo input deps au a ref obs db))"
  "\<not> calls_effect (fst (after_effect repo input deps au a effect c db))"
  "\<not> calls_effect (fst (after_post_state repo input deps au a effect ref obs db))"
  "\<not> calls_effect (fst (after_compensation_verification repo deps a ce v ve db))"
  unfolding after_current_post_state_def after_effect_def after_post_state_def after_compensation_verification_def Let_def
  by (auto dest!: transition_then_calls split: sum.splits option.splits if_splits)

lemma not_calls_effect_fst: "x = (p, db) \<Longrightarrow> \<not> calls_effect (fst x) \<Longrightarrow> \<not> calls_effect p"
  by simp

lemmas after_no_effect_result = after_no_effect [THEN not_calls_effect_fst [rotated]]

lemma resume_no_effect:
  assumes "resume_execution repo input deps p ans db = Some (p', db')"
  shows "\<not> calls_effect p'"
  using assms
  by (cases p) (auto split: Answer.splits sum.splits if_splits prod.splits dest: after_no_effect_result)

context operation_repository
begin

lemma start_effect:
  assumes "inv db" and "built_identity (xi_identity input)"
    and "start_execution repo input deps c1 c2 db = (AwaitingEffect au a' :: 'v Process, db')"
  obtains a r where "\<not> c1" "\<not> c2"
    "validateSideEffectOperationAuthorization (xi_identity input) (xd_authorization deps) = Inr au"
    "\<forall>b. content db (id_scopeId (xi_identity input)) = Some b \<longrightarrow> b = a" "aggregate_ok a"
    "ag_identity a = xi_identity input" "ag_state a = RESERVED" "advances a START_EFFECT r a'" "inv db'"
    "content db' = (content db)(id_scopeId (xi_identity input) \<mapsto> a')"
proof -
  obtain au0 where au: "validateSideEffectOperationAuthorization (xi_identity input) (xd_authorization deps) = Inr au0"
    using assms(3) by (cases "validateSideEffectOperationAuthorization (xi_identity input) (xd_authorization deps)")
      (auto simp: start_execution_def)
  obtain res db1 where res: "reserveSideEffectOperation repo (xi_identity input) db = Inr (res, db1)"
    using assms(3) au by (cases "reserveSideEffectOperation repo (xi_identity input) db") (auto simp: start_execution_def)
  show thesis
  proof (cases rule: reserve_cases [OF assms(1,2) res])
    case 1
    let ?a = "reserved_aggregate (xi_identity input)"
    have "start_reserved repo deps au0 c1 c2 ?a db1 = (AwaitingEffect au a' :: 'v Process, db')"
      using assms(3) by (simp add: start_execution_def au res 1(1))
    moreover have "content db1 (id_scopeId (ag_identity ?a)) = Some ?a" using 1 by (simp add: reserved_aggregate_def)
    ultimately obtain r where r: "\<not> c1" "\<not> c2" "au = au0" "advances ?a START_EFFECT r a'" "inv db'"
      "content db' = (content db1)(id_scopeId (ag_identity ?a) \<mapsto> a')"
      using start_reserved_effect [OF 1(2), of ?a] by metis
    show thesis by (rule that [of ?a r]) (use r au 1 reserved_aggregate_ok [OF assms(2)] in \<open>auto simp: reserved_aggregate_def\<close>)
  next
    case (2 a)
    have ex: "start_existing repo input deps au0 c1 c2 a db1 = (AwaitingEffect au a' :: 'v Process, db')"
      using assms(3) by (simp add: start_execution_def au res 2(1))
    have "\<not> calls_effect (fst (resume_operation repo input deps au0 a db1 :: 'v Process \<times> _))"
      by (rule resume_operation_no_effect)
    then have "ag_state a = RESERVED"
      using ex by (auto simp: start_existing_def split: if_splits)
    then have "start_reserved repo deps au0 c1 c2 a db = (AwaitingEffect au a' :: 'v Process, db')"
      using ex 2 by (simp add: start_existing_def)
    moreover have "content db (id_scopeId (ag_identity a)) = Some a" using 2 by simp
    ultimately obtain r where "\<not> c1" "\<not> c2" "au = au0" "ag_state a = RESERVED" "advances a START_EFFECT r a'" "inv db'"
      "content db' = (content db)(id_scopeId (ag_identity a) \<mapsto> a')"
      using start_reserved_effect [OF assms(1)] by metis
    then show thesis using that [of a r] au 2 content_ok [OF assms(1)] by auto
  next
    case (3 reason)
    then show thesis using assms(3) by (simp add: start_execution_def au res)
  qed
qed

end

section \<open>Concurrent executions\<close>

text \<open>
  Any number of executions in one process, started and answered in any order, on one database that
  other code may also use. \<open>sy_effects\<close> records the scope of every effect that was called.
\<close>

record 'v Execution =
  xc_input :: ExecutionInput
  xc_dependencies :: ExecutionDependencies
  xc_process :: "'v Process"

record 'v ExecutionSystem =
  sy_db :: operation_db
  sy_executions :: "'v Execution list"
  sy_effects :: "string list"

datatype 'v SystemAction =
    Launch ExecutionInput ExecutionDependencies bool bool
  | Answered nat "'v Answer"
  | External StoreOperation

fun system_step :: "'v ExecutionSystem \<Rightarrow> 'v SystemAction \<Rightarrow> 'v ExecutionSystem option" where
  "system_step sys (Launch input deps c1 c2) =
     (case start_execution sqlite_repository input deps c1 c2 (sy_db sys) of (p, db') \<Rightarrow>
        Some \<lparr>sy_db = db',
          sy_executions = sy_executions sys @ [\<lparr>xc_input = input, xc_dependencies = deps, xc_process = p\<rparr>],
          sy_effects = sy_effects sys @ (if calls_effect p then [id_scopeId (xi_identity input)] else [])\<rparr>)"
| "system_step sys (Answered i answer) =
     (if i \<ge> length (sy_executions sys) then None
      else let x = sy_executions sys ! i
           in case resume_execution sqlite_repository (xc_input x) (xc_dependencies x) (xc_process x) answer (sy_db sys) of
                None \<Rightarrow> None
              | Some (p, db') \<Rightarrow>
                  Some \<lparr>sy_db = db', sy_executions = (sy_executions sys)[i := x\<lparr>xc_process := p\<rparr>],
                    sy_effects = sy_effects sys @ (if calls_effect p then [id_scopeId (xi_identity (xc_input x))] else [])\<rparr>)"
| "system_step sys (External op) =
     (case store_step (sy_db sys) op of None \<Rightarrow> None | Some db' \<Rightarrow> Some (sys\<lparr>sy_db := db'\<rparr>))"

text \<open>Every identity comes from \<open>buildSideEffectOperationIdentity\<close>; the executor itself does not check it.\<close>

fun uses_built :: "'v SystemAction \<Rightarrow> bool" where
  "uses_built (Launch input deps c1 c2) = built_identity (xi_identity input)"
| "uses_built (Answered i answer) = True"
| "uses_built (External op) = reserves_built op"

definition effect_recorded :: "operation_db \<Rightarrow> string \<Rightarrow> bool" where
  "effect_recorded db s \<longleftrightarrow> (\<exists>a. stored db s = Some a \<and> START_EFFECT \<in> tr_event ` set (ag_transitions a))"

definition system_ok :: "'v ExecutionSystem \<Rightarrow> bool" where
  "system_ok sys \<longleftrightarrow> tables_ok (sy_db sys) \<and> distinct (sy_effects sys)
     \<and> (\<forall>s \<in> set (sy_effects sys). effect_recorded (sy_db sys) s)"

lemma effect_recorded_grows: "sqlite.grows db db' \<Longrightarrow> effect_recorded db s \<Longrightarrow> effect_recorded db' s"
  unfolding effect_recorded_def by (auto elim!: sqlite.growsD dest: set_mono_prefix)

lemma system_ok_grows:
  assumes "system_ok sys" and "sqlite.grows (sy_db sys) db'"
  shows "system_ok (sys\<lparr>sy_db := db'\<rparr>)"
  using assms effect_recorded_grows [OF assms(2)] by (simp add: system_ok_def sqlite.grows_def)

lemma launch_effect:
  fixes p :: "'v Process"
  assumes "tables_ok db" and "built_identity (xi_identity input)"
    and "start_execution sqlite_repository input deps c1 c2 db = (p, db')" and "calls_effect p"
  shows "\<not> effect_recorded db (id_scopeId (xi_identity input)) \<and> effect_recorded db' (id_scopeId (xi_identity input))"
proof -
  obtain au a' where p: "p = AwaitingEffect au a'" using assms(4) by (cases p) auto
  have "start_execution sqlite_repository input deps c1 c2 db = (AwaitingEffect au a' :: 'v Process, db')"
    using assms(3) p by simp
  then obtain a r where a: "\<forall>b. stored db (id_scopeId (xi_identity input)) = Some b \<longrightarrow> b = a" "aggregate_ok a"
    "ag_state a = RESERVED" "advances a START_EFFECT r a'" "stored db' = (stored db)(id_scopeId (xi_identity input) \<mapsto> a')"
    by (rule sqlite.start_effect [OF assms(1,2)])
  have "START_EFFECT \<in> tr_event ` set (ag_transitions a')" using a(4) by (elim advancesE) simp
  then show ?thesis using a reserved_no_history [OF a(2,3)] by (auto simp: effect_recorded_def)
qed

interpretation executions: guarded_machine "system_step :: 'v ExecutionSystem \<Rightarrow> _" uses_built system_ok
proof unfold_locales
  fix sys sys' :: "'v ExecutionSystem" and act
  assume ok: "system_ok sys" and built: "uses_built act" and st: "system_step sys act = Some sys'"
  have t: "tables_ok (sy_db sys)" using ok by (simp add: system_ok_def)
  show "system_ok sys'"
  proof (cases act)
    case (Launch input deps c1 c2)
    obtain p :: "'v Process" and db' where s: "start_execution sqlite_repository input deps c1 c2 (sy_db sys) = (p, db')" by force
    have b: "built_identity (xi_identity input)" using built Launch by simp
    from st Launch s have sys': "sy_db sys' = db'" "sy_effects sys' = sy_effects sys @ (if calls_effect p then [id_scopeId (xi_identity input)] else [])"
      by (auto split: if_splits)
    have "sqlite.grows (sy_db sys) (snd (start_execution sqlite_repository input deps c1 c2 (sy_db sys) :: 'v Process \<times> _))"
      by (rule sqlite.start_grows [OF t b])
    then have g: "sqlite.grows (sy_db sys) db'" using s by simp
    have keep: "\<forall>s \<in> set (sy_effects sys). effect_recorded db' s"
      using ok effect_recorded_grows [OF g] by (simp add: system_ok_def)
    have "tables_ok db'" using g by (simp add: sqlite.grows_def)
    then show ?thesis using ok keep launch_effect [OF t b s] by (auto simp: system_ok_def sys')
  next
    case (Answered i answer)
    let ?x = "sy_executions sys ! i"
    from st Answered obtain p db' where r: "resume_execution sqlite_repository (xc_input ?x) (xc_dependencies ?x) (xc_process ?x)
        answer (sy_db sys) = Some (p, db')" and sys': "sy_db sys' = db'"
      "sy_effects sys' = sy_effects sys @ (if calls_effect p then [id_scopeId (xi_identity (xc_input ?x))] else [])"
      by (auto simp: Let_def split: if_splits option.splits)
    have "sqlite.grows (sy_db sys) db'" by (rule sqlite.resume_grows [OF t r])
    then show ?thesis using ok resume_no_effect [OF r] effect_recorded_grows [of "sy_db sys" db']
      by (auto simp: system_ok_def sys' sqlite.grows_def)
  next
    case (External op)
    with st obtain db' where "store_step (sy_db sys) op = Some db'" "sys' = sys\<lparr>sy_db := db'\<rparr>"
      by (auto split: option.splits)
    then show ?thesis using system_ok_grows [OF ok store_step_grows [OF t]] built External by simp
  qed
qed

section \<open>Results and progress\<close>

fun verified_result :: "'v Process \<Rightarrow> ('v \<times> SideEffectOperationAggregate) option" where
  "verified_result (Finished (Verified v a)) = Some (v, a)"
| "verified_result _ = None"

lemma transition_then_verifies:
  assumes "verified_result (fst (transition_then repo deps a e ev k db)) = Some x"
  shows "\<exists>a' db1. verified_result (fst (k a' db1)) = Some x"
  using assms by (auto simp: transition_then_def split: sum.splits prod.splits TransitionSideEffectOperationResult.splits)

lemma after_not_verified:
  "verified_result (fst (after_current_post_state repo input deps au a ref obs db)) = None"
  "verified_result (fst (after_effect repo input deps au a effect c db)) = None"
  "verified_result (fst (after_compensation_verification repo deps a ce v ve db)) = None"
  unfolding after_current_post_state_def after_effect_def after_compensation_verification_def Let_def not_Some_eq [symmetric]
  by (auto dest!: transition_then_verifies split: sum.splits option.splits if_splits)

lemma not_verified_fst: "x = (p, db) \<Longrightarrow> verified_result (fst x) = None \<Longrightarrow> verified_result p = None"
  by simp

lemmas after_not_verified_result = after_not_verified [THEN not_verified_fst [rotated]]

text \<open>The verdict on a post-state is positive only if it is what was authorised.\<close>

lemma decideSideEffectVerification_Inr:
  "decideSideEffectVerification ef ob (Some expected) = Inr refs \<longleftrightarrow>
     ef_success ef \<and> ob_available ob \<and> ob_targetFingerprint ob = ef_targetFingerprint ef
     \<and> ob_expectedStateFingerprint ob = expected \<and> \<not> num_lt (ob_capturedAt ob) (ef_recordedAt ef)
     \<and> ob_observedStateFingerprint ob = expected \<and> refs = (ef_receiptRef ef, ob_receiptRef ob)"
  by (auto simp: decideSideEffectVerification_def)

lemma ends_with_verified: "ends_with VERIFICATION_PASSED a \<Longrightarrow> ag_state a = VERIFIED"
proof -
  have "OPERATION_TRANSITIONS s VERIFICATION_PASSED = Some t \<Longrightarrow> t = VERIFIED" for s t
    by (cases s) (auto simp: OPERATION_TRANSITIONS_def)
  then show "ends_with VERIFICATION_PASSED a \<Longrightarrow> ag_state a = VERIFIED" by (auto simp: ends_with_def)
qed

context operation_repository
begin

lemma after_post_state_verified:
  assumes "inv db"
    and "after_post_state repo input deps au agg effect ref obs db = (Finished (Verified v a), db')"
  shows "v = er_value effect \<and> er_success effect \<and> po_available obs
    \<and> po_targetFingerprint obs = id_targetFingerprint (xi_identity input)
    \<and> po_expectedStateFingerprint obs = au_expectedEffectFingerprint au
    \<and> po_observedStateFingerprint obs = au_expectedEffectFingerprint au
    \<and> \<not> num_lt (po_capturedAt obs) (er_recordedAt effect)
    \<and> inv db' \<and> content db' (id_scopeId (ag_identity agg)) = Some a \<and> ag_state a = VERIFIED"
proof -
  let ?ef = "\<lparr>ef_success = er_success effect, ef_targetFingerprint = id_targetFingerprint (xi_identity input),
    ef_resultFingerprint = er_resultFingerprint effect, ef_recordedAt = er_recordedAt effect, ef_receiptRef = ref\<rparr>"
  let ?d = "decideSideEffectVerification ?ef (observation_evidence obs) (Some (au_expectedEffectFingerprint au))"
  show ?thesis
  proof (cases ?d)
    case (Inl reason)
    have "verified_result (fst (after_post_state repo input deps au agg effect ref obs db)) = None"
      unfolding after_post_state_def Let_def Inl not_Some_eq [symmetric]
      by (auto dest!: transition_then_verifies split: if_splits)
    with assms(2) show ?thesis by simp
  next
    case (Inr refs)
    with assms(2) have t: "transition_then repo deps agg VERIFICATION_PASSED (VerifiedReceipts refs)
        (\<lambda>x. finish (Verified (er_value effect) x)) db = (Finished (Verified v a), db')"
      by (simp add: after_post_state_def)
    from Inr have verdict: "er_success effect" "po_available obs"
      "po_targetFingerprint obs = id_targetFingerprint (xi_identity input)"
      "po_expectedStateFingerprint obs = au_expectedEffectFingerprint au"
      "\<not> num_lt (po_capturedAt obs) (er_recordedAt effect)" "po_observedStateFingerprint obs = au_expectedEffectFingerprint au"
      unfolding decideSideEffectVerification_Inr by (simp_all add: observation_evidence_def)
    show ?thesis
    proof (cases rule: transition_then_cases [OF assms(1) t])
      case (2 a' db1)
      then show ?thesis using verdict ends_with_verified by (auto simp: grows_def)
    qed auto
  qed
qed

end

text \<open>How many more answers an execution can ask for.\<close>

fun process_rank :: "'v Process \<Rightarrow> nat" where
  "process_rank (AwaitingEffect _ _) = 4"
| "process_rank (AwaitingPostState _ _ _ _) = 3"
| "process_rank (AwaitingCompensation _) = 2"
| "process_rank (AwaitingCompensationVerification _ _) = 1"
| "process_rank (AwaitingCurrentPostState _ _ _) = 1"
| "process_rank (Finished _) = 0"

definition asks_more :: "nat \<Rightarrow> 'v Process \<Rightarrow> bool" where
  "asks_more n p \<longleftrightarrow> n < process_rank p"

lemma asks_more_simps [simp]:
  "asks_more n (Finished r) = False" "asks_more n (AwaitingPostState au a ef ref) = (n < 3)"
  "asks_more n (AwaitingCompensation a) = (n < 2)"
  by (simp_all add: asks_more_def)

lemma transition_then_asks:
  "asks_more n (fst (transition_then repo deps a e ev k db)) \<Longrightarrow> \<exists>a' db1. asks_more n (fst (k a' db1))"
  by (auto simp: transition_then_def split: sum.splits prod.splits TransitionSideEffectOperationResult.splits)

lemma after_asks:
  "\<not> asks_more 0 (fst (after_current_post_state repo input deps au a ref obs db))"
  "\<not> asks_more 3 (fst (after_effect repo input deps au a effect c db))"
  "\<not> asks_more 2 (fst (after_post_state repo input deps au a effect ref obs db))"
  "\<not> asks_more 0 (fst (after_compensation_verification repo deps a ce v ve db))"
  unfolding after_current_post_state_def after_effect_def after_post_state_def after_compensation_verification_def Let_def
  by (auto dest!: transition_then_asks split: sum.splits option.splits if_splits)

lemma asks_fst: "x = (p, db) \<Longrightarrow> \<not> asks_more n (fst x) \<Longrightarrow> process_rank p \<le> n"
  by (simp add: asks_more_def)

lemmas after_rank_result = after_asks [THEN asks_fst [rotated]]

definition process_step ::
  "'db SideEffectOperationRepository \<Rightarrow> ExecutionInput \<Rightarrow> ExecutionDependencies \<Rightarrow> 'v Process \<times> 'db \<Rightarrow> 'v Answer
     \<Rightarrow> ('v Process \<times> 'db) option" where
  "process_step repo input deps s answer = resume_execution repo input deps (fst s) answer (snd s)"

fun finished :: "'v Process \<Rightarrow> bool" where
  "finished (Finished _) = True"
| "finished _ = False"

lemma resume_rank: "resume_execution repo input deps p ans db = Some (p', db') \<Longrightarrow> process_rank p' < process_rank p"
  by (cases p) (auto split: Answer.splits sum.splits if_splits prod.splits dest!: after_rank_result)

lemma resume_some: "\<not> finished p \<Longrightarrow> \<exists>ans s. resume_execution repo input deps p ans db = Some s"
proof (cases p)
  case (AwaitingCurrentPostState au a ref)
  then show ?thesis by (intro exI [of _ "PostStateAnswer (Inl [])"]) simp
next
  case (AwaitingEffect au a)
  then show ?thesis by (intro exI [of _ "EffectAnswer (Inl []) False"]) simp
next
  case (AwaitingPostState au a ef ref)
  then show ?thesis by (intro exI [of _ "PostStateAnswer (Inl [])"]) simp
next
  case (AwaitingCompensation a)
  then show ?thesis by (intro exI [of _ "CompensationAnswer (Inl [])"]) simp
next
  case (AwaitingCompensationVerification a ce)
  then show ?thesis by (intro exI [of _ "VerificationAnswer (Inl [])"]) simp
qed simp

interpretation process: ranked_machine "process_step repo input deps" "finished \<circ> fst" "process_rank \<circ> fst"
  for repo :: "'db SideEffectOperationRepository" and input deps
proof unfold_locales
  show "process_step repo input deps s e = None" if "(finished \<circ> fst) s" for s and e :: "'a Answer"
    using that by (cases "fst s") (auto simp: process_step_def)
  show "(process_rank \<circ> fst) t < (process_rank \<circ> fst) s" if "process_step repo input deps s e = Some t" for s t and e :: "'a Answer"
    using that resume_rank by (cases t) (fastforce simp: process_step_def)
qed

interpretation process_live: live_machine "process_step repo input deps" "finished \<circ> fst"
  for repo :: "'db SideEffectOperationRepository" and input deps
proof unfold_locales
  show "\<exists>e t. process_step repo input deps s e = Some t" if "\<not> (finished \<circ> fst) s" for s
    using that resume_some [of "fst s" repo input deps "snd s"] by (simp add: process_step_def)
qed

section \<open>Properties of the execution\<close>

text \<open>C1. A side effect is performed at most once: however many executions are started in the process,
  in whatever order they are answered, cancelled or fail, and whatever else writes through the use
  cases, no scope (run, step, adapter and target) has its effect called twice, and for every
  effect that was called the database holds a history in which it was started. The identities are those
  \<open>buildSideEffectOperationIdentity\<close> returns, as at every caller.\<close>

theorem effect_at_most_once:
  assumes "od_operations (sy_db sys) = []" and "sy_effects sys = []" and "\<forall>act \<in> set acts. uses_built act"
    and "run_steps system_step sys acts = Some sys'"
  shows "distinct (sy_effects sys') \<and> (\<forall>s \<in> set (sy_effects sys').
    \<exists>a. loadByScope s (sy_db sys') = Inr (Some a) \<and> START_EFFECT \<in> tr_event ` set (ag_transitions a))"
proof -
  have "system_ok sys" using assms(1,2) by (simp add: system_ok_def empty_tables_ok)
  from executions.admitted_run_inv [OF this assms(3,4)] have ok: "system_ok sys'" .
  then show ?thesis using loadByScope_stored [of "sy_db sys'"]
    by (fastforce simp: system_ok_def effect_recorded_def)
qed

text \<open>C19. The effect is only called under a valid authorisation for exactly this operation, when the
  execution was not cancelled and nobody had moved the operation beyond its reservation, and the
  start is stored before the call.\<close>

theorem effect_needs_authorization:
  assumes "tables_ok db" and "built_identity (xi_identity input)"
    and "start_execution sqlite_repository input deps c1 c2 db = (AwaitingEffect au a' :: 'v Process, db')"
  shows "xd_authorization deps = Some au \<and> au_operationId au = id_operationId (xi_identity input)
    \<and> au_paramsFingerprint au = id_paramsFingerprint (xi_identity input)
    \<and> au_targetFingerprint au = id_targetFingerprint (xi_identity input) \<and> \<not> c1 \<and> \<not> c2
    \<and> (\<forall>a. loadByScope (id_scopeId (xi_identity input)) db = Inr (Some a) \<longrightarrow>
          ag_state a = RESERVED \<and> ag_identity a = xi_identity input)
    \<and> loadByScope (id_scopeId (xi_identity input)) db' = Inr (Some a') \<and> ag_state a' = EFFECT_STARTED"
proof -
  from assms(3) obtain a r where cs: "\<not> c1" "\<not> c2"
    and au: "validateSideEffectOperationAuthorization (xi_identity input) (xd_authorization deps) = Inr au"
    and b: "\<forall>b. stored db (id_scopeId (xi_identity input)) = Some b \<longrightarrow> b = a"
    and a: "ag_identity a = xi_identity input" "ag_state a = RESERVED" "advances a START_EFFECT r a'"
    and db': "tables_ok db'" "stored db' = (stored db)(id_scopeId (xi_identity input) \<mapsto> a')"
    by (rule sqlite.start_effect [OF assms(1,2)])
  have "ag_state a' = EFFECT_STARTED" using a(3) start_only_from_reserved by (auto elim: advancesE)
  moreover have "xd_authorization deps = Some au \<and> au_operationId au = id_operationId (xi_identity input)
    \<and> au_paramsFingerprint au = id_paramsFingerprint (xi_identity input)
    \<and> au_targetFingerprint au = id_targetFingerprint (xi_identity input)"
    using au by (auto simp: validateSideEffectOperationAuthorization_def split: option.splits if_splits)
  ultimately show ?thesis using cs b a db' loadByScope_stored [OF assms(1)] loadByScope_stored [OF db'(1)] by auto
qed

text \<open>C3. An execution reports \<open>verified\<close> only for an effect that succeeded and whose observed post-state,
  not taken before the effect was recorded, is the authorised one on the authorised target; and
  then the stored operation is VERIFIED.\<close>

theorem verified_means_observed:
  assumes "tables_ok db"
    and "resume_execution sqlite_repository input deps p answer db = Some (Finished (Verified v a), db')"
  shows "\<exists>au agg effect ref obs. p = AwaitingPostState au agg effect ref \<and> answer = PostStateAnswer (Inr obs)
    \<and> v = er_value effect \<and> er_success effect \<and> po_available obs
    \<and> po_targetFingerprint obs = id_targetFingerprint (xi_identity input)
    \<and> po_expectedStateFingerprint obs = au_expectedEffectFingerprint au
    \<and> po_observedStateFingerprint obs = au_expectedEffectFingerprint au
    \<and> \<not> num_lt (po_capturedAt obs) (er_recordedAt effect)
    \<and> loadByScope (id_scopeId (ag_identity agg)) db' = Inr (Some a) \<and> ag_state a = VERIFIED"
proof -
  have "\<exists>au agg effect ref obs. p = AwaitingPostState au agg effect ref \<and> answer = PostStateAnswer (Inr obs)
      \<and> after_post_state sqlite_repository input deps au agg effect ref obs db = (Finished (Verified v a), db')"
    using assms(2) by (cases p)
      (auto split: Answer.splits sum.splits if_splits prod.splits dest: after_not_verified_result)
  then obtain au agg effect ref obs where p: "p = AwaitingPostState au agg effect ref" "answer = PostStateAnswer (Inr obs)"
    and post: "after_post_state sqlite_repository input deps au agg effect ref obs db = (Finished (Verified v a), db')"
    by blast
  from sqlite.after_post_state_verified [OF assms(1) post] loadByScope_stored [of db'] p
  show ?thesis by auto
qed

text \<open>Every execution ends: it takes at most four answers of its callbacks, and until it has
  finished there is always a callback whose answer moves it on.\<close>

theorem executions_terminate:
  assumes "run_steps (process_step repo input deps) (p, db) answers = Some (p', db')"
  shows "length answers \<le> 4 \<and> (finished p' \<longleftrightarrow> (\<forall>answer. process_step repo input deps (p', db') answer = None))"
proof -
  have "process_rank p \<le> 4" by (cases p) simp_all
  then have "length answers \<le> 4" using process.run_length_bound [OF assms] by simp
  then show ?thesis using process_live.stuck_iff_terminal [of repo input deps "(p', db')"] by simp
qed

section \<open>Witnesses\<close>

definition sample_authorization :: SideEffectOperationAuthorization where
  "sample_authorization = (case buildSideEffectOperationAuthorization (sample_identity CHR ''a'') ''decision'' ''receipt''
     class_local_write (sample_hash CHR ''d'') (sample_hash CHR ''e'') of Inr a \<Rightarrow> a | Inl _ \<Rightarrow> undefined)"

definition sample_execution :: ExecutionInput where
  "sample_execution = \<lparr>xi_identity = sample_identity CHR ''a'', xi_compensationSupport = irreversible,
     xi_observesCurrentPostState = True, xi_compensates = False, xi_verifiesCompensation = False\<rparr>"

definition sample_dependencies :: ExecutionDependencies where
  "sample_dependencies = \<lparr>xd_authorization = Some sample_authorization,
     xd_createReceipt = (\<lambda>i e n evidence. buildSideEffectOperationReceipt i e n (sample_hash CHR ''c'') [''ref''] (Num 1))\<rparr>"

definition sample_effect :: "nat EffectResult" where
  "sample_effect = \<lparr>er_value = 7, er_success = True, er_resultFingerprint = sample_hash CHR ''f'', er_recordedAt = Num 2,
     er_effectEvidenceRefs = None, er_preEffectRejection = None\<rparr>"

definition sample_observation :: PostStateObservation where
  "sample_observation = \<lparr>po_available = True, po_targetFingerprint = sample_hash CHR ''a'',
     po_expectedStateFingerprint = sample_hash CHR ''e'', po_observedStateFingerprint = sample_hash CHR ''e'',
     po_capturedAt = Num 3, po_recoveryEvidence = None\<rparr>"

definition sample_start_state :: "nat Process \<times> operation_db" where
  "sample_start_state = start_execution sqlite_repository sample_execution sample_dependencies False False sample_store"

lemma sample_starts: "calls_effect (fst sample_start_state)"
  by code_simp

lemma sample_start:
  obtains au a' db' where
    "start_execution sqlite_repository sample_execution sample_dependencies False False sample_store
       = (AwaitingEffect au a' :: nat Process, db')"
  using sample_starts unfolding sample_start_state_def
  by (cases "start_execution sqlite_repository sample_execution sample_dependencies False False sample_store :: nat Process \<times> _")
    (auto elim: calls_effect.elims)

definition sample_system :: "nat ExecutionSystem" where
  "sample_system = \<lparr>sy_db = sample_store, sy_executions = [], sy_effects = []\<rparr>"

lemma sample_built: "built_identity (xi_identity sample_execution)"
  by (simp add: sample_execution_def sample_identity_built)

theorem effect_at_most_once_witness:
  "\<exists>sys. sy_effects sys = [id_scopeId (sample_identity CHR ''a'')]
     \<and> run_steps system_step sample_system [Launch sample_execution sample_dependencies False False] = Some sys
     \<and> distinct (sy_effects sys)"
proof -
  obtain au a' db' where s: "start_execution sqlite_repository sample_execution sample_dependencies False False sample_store
       = (AwaitingEffect au a' :: nat Process, db')" by (rule sample_start)
  define sys :: "nat ExecutionSystem" where
    "sys = \<lparr>sy_db = db', sy_executions = [\<lparr>xc_input = sample_execution, xc_dependencies = sample_dependencies,
       xc_process = AwaitingEffect au a'\<rparr>], sy_effects = [id_scopeId (sample_identity CHR ''a'')]\<rparr>"
  have run: "run_steps system_step sample_system [Launch sample_execution sample_dependencies False False] = Some sys"
    using s sample_built by (simp add: sample_system_def sys_def sample_execution_def)
  have "distinct (sy_effects sys)"
    using effect_at_most_once [OF _ _ _ run] sample_built by (simp add: sample_system_def sample_store_def)
  with run show ?thesis by (intro exI [of _ sys]) (simp add: sys_def)
qed

theorem effect_needs_authorization_witness:
  "\<exists>au a' db'. start_execution sqlite_repository sample_execution sample_dependencies False False sample_store
       = (AwaitingEffect au a' :: nat Process, db') \<and> xd_authorization sample_dependencies = Some au"
proof -
  obtain au a' db' where s: "start_execution sqlite_repository sample_execution sample_dependencies False False sample_store
       = (AwaitingEffect au a' :: nat Process, db')" by (rule sample_start)
  have "tables_ok sample_store" by (simp add: tables_ok_def sample_store_def)
  from effect_needs_authorization [OF this sample_built s] s show ?thesis by blast
qed

definition sample_verifying_aggregate :: SideEffectOperationAggregate where
  "sample_verifying_aggregate = \<lparr>ag_identity = sample_identity CHR ''a'', ag_state = VERIFYING, ag_revision = 3,
     ag_transitions =
       [\<lparr>tr_revision = 1, tr_previousState = RESERVED, tr_event = START_EFFECT, tr_nextState = EFFECT_STARTED, tr_receiptRef = ''r''\<rparr>,
        \<lparr>tr_revision = 2, tr_previousState = EFFECT_STARTED, tr_event = RECORD_EFFECT, tr_nextState = EFFECT_RECORDED, tr_receiptRef = ''r''\<rparr>,
        \<lparr>tr_revision = 3, tr_previousState = EFFECT_RECORDED, tr_event = BEGIN_VERIFICATION, tr_nextState = VERIFYING, tr_receiptRef = ''r''\<rparr>]\<rparr>"

definition sample_verifying_db :: operation_db where
  "sample_verifying_db = sample_store\<lparr>od_operations := [row_of sample_verifying_aggregate (Num 1) (Num 1)]\<rparr>"

definition sample_awaiting :: "nat Process" where
  "sample_awaiting = AwaitingPostState sample_authorization sample_verifying_aggregate sample_effect ''r''"

lemma sample_verifying_ok: "tables_ok sample_verifying_db"
proof -
  have "js_trim ''r'' = ''r''" by code_simp
  then have "aggregate_ok sample_verifying_aggregate"
    by (simp add: aggregate_ok_def sample_verifying_aggregate_def sample_identity_built OPERATION_TRANSITIONS_def not_blank_letter)
  then show ?thesis by (auto simp: tables_ok_def sample_verifying_db_def row_of_def)
qed

lemma sample_verifies:
  "\<exists>a db'. resume_execution sqlite_repository sample_execution sample_dependencies sample_awaiting
     (PostStateAnswer (Inr sample_observation)) sample_verifying_db = Some (Finished (Verified 7 a), db')"
proof -
  let ?r = "resume_execution sqlite_repository sample_execution sample_dependencies sample_awaiting
     (PostStateAnswer (Inr sample_observation)) sample_verifying_db"
  have "case ?r of Some (Finished (Verified v a), db') \<Rightarrow> v = 7 | _ \<Rightarrow> False" by code_simp
  then show ?thesis by (auto split: option.splits prod.splits Process.splits SideEffectOperationExecutionResult.splits)
qed

theorem verified_means_observed_witness:
  "\<exists>a db'. loadByScope (id_scopeId (sample_identity CHR ''a'')) db' = Inr (Some a) \<and> ag_state a = VERIFIED"
proof -
  obtain a db' where "resume_execution sqlite_repository sample_execution sample_dependencies sample_awaiting
     (PostStateAnswer (Inr sample_observation)) sample_verifying_db = Some (Finished (Verified 7 a), db')"
    using sample_verifies by blast
  from verified_means_observed [OF sample_verifying_ok this] show ?thesis
    by (auto simp: sample_awaiting_def sample_verifying_aggregate_def)
qed

theorem executions_terminate_witness:
  "length [CompensationAnswer (Inl ''error'') :: nat Answer] \<le> 4"
proof -
  have "run_steps (process_step sqlite_repository sample_execution sample_dependencies)
      (AwaitingCompensation sample_verifying_aggregate :: nat Process, sample_store) [CompensationAnswer (Inl ''error'')]
      = Some (Finished (Threw ''error''), sample_store)"
    by (simp add: process_step_def)
  from executions_terminate [OF this] show ?thesis by blast
qed

end
