(* ===== verification/Delegation_Forest.thy ===== *)
theory Delegation_Forest
  imports Relationship_Store
begin

text \<open>
  The delegation forest of \<open>orchestration/delegation-forest.ts\<close>: the validation of the agents and
  relationships into a snapshot, with its depth-first search for cycles, and the authorisation of a
  delegation in a snapshot. The text \<open>JSON.stringify\<close> gives for the agents and relationships depends on
  the property order of the caller's objects and is a parameter (\<open>stringify\<close>); the lookups by agent id
  are those of a map (ids that are properties of every JavaScript object are not considered).
\<close>

section \<open>Data\<close>

record DelegationPolicy =
  dp_enabled :: bool
  dp_maxParallelSessions :: number
  dp_directChildOnly :: "bool option"
  dp_allowedChildAgentIds :: "string list option"
  dp_resultReviewRequired :: "bool option"
  dp_aggregationMode :: "string option"
  dp_redelegationAllowed :: "bool option"
  dp_escalationPolicy :: "string option"

record DelegationForestAgent =
  fa_agentId :: string
  fa_agentName :: string
  fa_agentType :: AgentEntityType
  fa_status :: AgentStatus
  fa_delegationPolicy :: "DelegationPolicy option"

record DelegationForestSnapshot =
  fs_rootAgentId :: string
  fs_agents :: "DelegationForestAgent list"
  fs_relationships :: "AgentRelationship list"
  fs_rootAgentIds :: "string list"
  fs_directChildAgentIdsByParent :: "(string \<times> string list) list"
  fs_snapshotFingerprint :: string

datatype DelegationForestDenialReason =
    snapshot_fingerprint_mismatch | caller_unknown | target_unknown | caller_inactive | target_inactive
  | target_not_direct_child | delegation_disabled | redelegation_denied | direct_child_policy_required | target_not_allowed

record DelegationForestReceipt =
  fr_authorizationReceiptId :: string
  fr_snapshotFingerprint :: string
  fr_callerAgentName :: string
  fr_targetAgentName :: string

type_synonym stringify = "string \<Rightarrow> DelegationForestAgent list \<Rightarrow> AgentRelationship list \<Rightarrow> string"

section \<open>The search for cycles\<close>

text \<open>
  \<open>visit\<close> for the agents of a list: \<open>visiting\<close> are the agents on the current path, \<open>visited\<close> those
  finished. The recursive call is the loop over the children of an agent.
\<close>

definition CYCLE :: string where
  "CYCLE = ''Delegation forest contains a cycle.''"

function visit_all ::
  "(string \<times> string list) list \<Rightarrow> string list \<Rightarrow> string list \<Rightarrow> string list \<Rightarrow> string + string list" where
  "visit_all cs visiting [] visited = Inr visited"
| "visit_all cs visiting (a # as) visited =
     (if a \<in> set visiting then Inl CYCLE
      else if a \<in> set visited then visit_all cs visiting as visited
      else case visit_all cs (a # visiting) (lookup_list cs a) visited of
             Inl e \<Rightarrow> Inl e
           | Inr visited' \<Rightarrow> visit_all cs visiting as (set_add visited' a))"
  by pat_completeness auto

lemma lookup_list_unknown: "a \<notin> fst ` set cs \<Longrightarrow> lookup_list cs a = []"
  by (simp add: lookup_list_def map_of_eq_None_iff [symmetric])

termination visit_all
proof (relation "measures [\<lambda>(cs, visiting, as, visited). card (fst ` set cs - set visiting), \<lambda>(cs, visiting, as, visited). length as]")
  fix cs :: "(string \<times> string list) list" and visiting as visited :: "string list" and a :: string
  assume a: "a \<notin> set visiting"
  show "((cs, a # visiting, lookup_list cs a, visited), (cs, visiting, a # as, visited))
      \<in> measures [\<lambda>(cs, visiting, as, visited). card (fst ` set cs - set visiting), \<lambda>(cs, visiting, as, visited). length as]"
  proof (cases "a \<in> fst ` set cs")
    case True
    then have "card (fst ` set cs - set (a # visiting)) < card (fst ` set cs - set visiting)"
      using a by (intro psubset_card_mono) auto
    then show ?thesis by simp
  next
    case False
    then have "fst ` set cs - set (a # visiting) = fst ` set cs - set visiting" by auto
    then show ?thesis by (simp add: lookup_list_unknown [OF False])
  qed
qed auto

definition assertNoCycles :: "string list \<Rightarrow> (string \<times> string list) list \<Rightarrow> string + unit" where
  "assertNoCycles agentIds cs = rbind (visit_all cs [] agentIds []) (\<lambda>_. Inr ())"

section \<open>The snapshot\<close>

definition required_field :: "string \<Rightarrow> string" where
  "required_field field = field @ '' is required.''"

definition normalize_agent :: "DelegationForestAgent \<Rightarrow> string + DelegationForestAgent" where
  "normalize_agent agent =
     rbind (requireText (required_field ''Agent ID'') (fa_agentId agent)) (\<lambda>i.
     rbind (requireText (required_field ''Agent name'') (fa_agentName agent)) (\<lambda>n.
       Inr (agent\<lparr>fa_agentId := i, fa_agentName := normalizeAgentNameSnapshot n\<rparr>)))"

primrec agent_map ::
  "(string \<times> DelegationForestAgent) list \<Rightarrow> DelegationForestAgent list \<Rightarrow> string + (string \<times> DelegationForestAgent) list" where
  "agent_map m [] = Inr m"
| "agent_map m (agent # agents) =
     (if map_of m (fa_agentId agent) \<noteq> None then Inl (''Agent ID must be unique: '' @ fa_agentId agent @ ''.'')
      else agent_map (AList.update (fa_agentId agent) agent m) agents)"

record forest_index =
  fi_edgeIds :: "string list"
  fi_relationshipPairs :: "string list"
  fi_parentByChild :: "(string \<times> string) list"
  fi_childrenByParent :: "(string \<times> string list) list"

definition empty_index :: forest_index where
  "empty_index = \<lparr>fi_edgeIds = [], fi_relationshipPairs = [], fi_parentByChild = [], fi_childrenByParent = []\<rparr>"

definition pair_key :: "AgentRelationship \<Rightarrow> string" where
  "pair_key r = rl_parentAgentId r @ [CHR 0x00] @ rl_childAgentId r"

definition add_relationship ::
  "(string \<times> DelegationForestAgent) list \<Rightarrow> AgentRelationship \<Rightarrow> forest_index \<Rightarrow> string + forest_index" where
  "add_relationship agentById r ix =
     (let parent = rl_parentAgentId r; child = rl_childAgentId r in
      if validateAgentRelationship (relationship_js r) \<noteq> [] then
        Inl (if parent = child then ''Delegation forest rejects a self edge.'' else ''Delegation forest relationship is invalid.'')
      else if rl_edgeId r \<in> set (fi_edgeIds ix) then
        Inl (''Delegation forest edge ID is duplicate: '' @ rl_edgeId r @ ''.'')
      else if map_of agentById parent = None \<or> map_of agentById child = None then
        Inl ''Delegation forest relationship has an unknown endpoint.''
      else if pair_key r \<in> set (fi_relationshipPairs ix) then
        Inl ''Delegation forest contains a duplicate relationship.''
      else if (case map_of (fi_parentByChild ix) child of None \<Rightarrow> False | Some p \<Rightarrow> p \<noteq> [] \<and> p \<noteq> parent) then
        Inl ''A delegation forest agent cannot have multiple parents.''
      else Inr \<lparr>fi_edgeIds = set_add (fi_edgeIds ix) (rl_edgeId r),
             fi_relationshipPairs = set_add (fi_relationshipPairs ix) (pair_key r),
             fi_parentByChild = AList.update child parent (fi_parentByChild ix),
             fi_childrenByParent = AList.update parent (lookup_list (fi_childrenByParent ix) parent @ [child]) (fi_childrenByParent ix)\<rparr>)"

primrec index_relationships ::
  "(string \<times> DelegationForestAgent) list \<Rightarrow> AgentRelationship list \<Rightarrow> forest_index \<Rightarrow> string + forest_index" where
  "index_relationships agentById [] ix = Inr ix"
| "index_relationships agentById (r # rs) ix =
     rbind (add_relationship agentById r ix) (index_relationships agentById rs)"

definition forest_order :: "host \<Rightarrow> AgentRelationship \<Rightarrow> AgentRelationship \<Rightarrow> int" where
  "forest_order H left right =
     or_else (localeCompare H (rl_parentAgentId left) (rl_parentAgentId right))
       (or_else (localeCompare H (rl_childAgentId left) (rl_childAgentId right))
         (localeCompare H (rl_edgeId left) (rl_edgeId right)))"

definition name_entry :: "DelegationForestAgent \<Rightarrow> AgentNameNamespaceEntry" where
  "name_entry agent = \<lparr>nn_entityType = fa_agentType agent, nn_entityId = fa_agentId agent, nn_agentNameSnapshot = fa_agentName agent\<rparr>"

definition build_snapshot ::
  "host \<Rightarrow> stringify \<Rightarrow> string \<Rightarrow> DelegationForestAgent list \<Rightarrow> (string \<times> DelegationForestAgent) list
     \<Rightarrow> AgentRelationship list \<Rightarrow> forest_index \<Rightarrow> DelegationForestSnapshot" where
  "build_snapshot H J rootId agents agentById actives ix =
     (let rootIds = sort (filter (\<lambda>i. map_of (fi_parentByChild ix) i = None) (map fst agentById));
          children = sort_by (\<lambda>left right. localeCompare H (fst left) (fst right))
            (map (\<lambda>(parent, cs). (parent, sort (js_set cs))) (fi_childrenByParent ix));
          rs = sort_by (forest_order H) actives;
          sorted = sort_by (\<lambda>left right. localeCompare H (fa_agentId left) (fa_agentId right)) agents
      in \<lparr>fs_rootAgentId = rootId, fs_agents = sorted, fs_relationships = rs, fs_rootAgentIds = rootIds,
          fs_directChildAgentIdsByParent = children,
          fs_snapshotFingerprint = ''sha256:'' @ sha256 H (J rootId sorted rs)\<rparr>)"

definition validateDelegationForestSnapshot ::
  "host \<Rightarrow> stringify \<Rightarrow> string \<Rightarrow> DelegationForestAgent list \<Rightarrow> AgentRelationship list \<Rightarrow> string + DelegationForestSnapshot" where
  "validateDelegationForestSnapshot H J rootInput agentInputs relationshipInputs =
     rbind (requireText (required_field ''Root agent ID'') rootInput) (\<lambda>rootId.
     if agentInputs = [] then Inl ''Delegation forest requires at least one agent.'' else
     rbind (mapM normalize_agent agentInputs) (\<lambda>agents.
     rbind (agent_map [] agents) (\<lambda>agentById.
     if (case map_of agentById rootId of None \<Rightarrow> True | Some a \<Rightarrow> fa_agentType a \<noteq> type_knowbee)
     then Inl ''Root agent must exist and have knowbee agent type.''
     else case findAgentNameNamespaceConflict (map name_entry agents) of
       Some c \<Rightarrow> Inl (''Agent name must be unique: '' @ nc_normalizedAgentName c @ ''.'')
     | None \<Rightarrow>
     (let actives = filter active relationshipInputs in
     rbind (index_relationships agentById actives empty_index) (\<lambda>ix.
     if map_of (fi_parentByChild ix) rootId \<noteq> None then Inl ''The main root agent must remain parentless.''
     else rbind (assertNoCycles (map fst agentById) (fi_childrenByParent ix)) (\<lambda>_.
       Inr (build_snapshot H J rootId agents agentById actives ix)))))))"

section \<open>Authorisation\<close>

definition receipt_json :: "string \<Rightarrow> string \<Rightarrow> string \<Rightarrow> string" where
  "receipt_json fp caller target =
     ''{'' @ quote ''snapshotFingerprint'' @ '':'' @ quote fp @ '','' @ quote ''callerAgentId'' @ '':'' @ quote caller
       @ '','' @ quote ''targetAgentId'' @ '':'' @ quote target @ ''}''"

definition policy_denial :: "DelegationForestAgent \<Rightarrow> string \<Rightarrow> DelegationForestDenialReason option" where
  "policy_denial caller target =
     (if fa_agentType caller \<noteq> type_sub_agent then None
      else case fa_delegationPolicy caller of
        None \<Rightarrow> Some delegation_disabled
      | Some policy \<Rightarrow>
          if \<not> dp_enabled policy then Some delegation_disabled
          else if dp_redelegationAllowed policy \<noteq> Some True then Some redelegation_denied
          else if dp_directChildOnly policy \<noteq> Some True then Some direct_child_policy_required
          else (case dp_allowedChildAgentIds policy of
              None \<Rightarrow> None
            | Some allowed \<Rightarrow> if target \<in> set allowed then None else Some target_not_allowed))"

definition agent_of :: "DelegationForestSnapshot \<Rightarrow> string \<Rightarrow> DelegationForestAgent option" where
  "agent_of snapshot i = List.find (\<lambda>a. fa_agentId a = i) (fs_agents snapshot)"

definition authorizeDelegationInForest ::
  "host \<Rightarrow> DelegationForestSnapshot \<Rightarrow> string \<Rightarrow> string \<Rightarrow> string \<Rightarrow> DelegationForestDenialReason + DelegationForestReceipt" where
  "authorizeDelegationInForest H snapshot expectedSnapshotFingerprint callerAgentId targetAgentId =
     (if expectedSnapshotFingerprint \<noteq> fs_snapshotFingerprint snapshot then Inl snapshot_fingerprint_mismatch
      else case agent_of snapshot callerAgentId of None \<Rightarrow> Inl caller_unknown | Some caller \<Rightarrow>
      (case agent_of snapshot targetAgentId of None \<Rightarrow> Inl target_unknown | Some target \<Rightarrow>
        if fa_status caller \<noteq> ag_enabled then Inl caller_inactive
        else if fa_status target \<noteq> ag_enabled then Inl target_inactive
        else if fa_agentId target \<notin> set (lookup_list (fs_directChildAgentIdsByParent snapshot) (fa_agentId caller))
        then Inl target_not_direct_child
        else case policy_denial caller (fa_agentId target) of
          Some reason \<Rightarrow> Inl reason
        | None \<Rightarrow> Inr \<lparr>fr_authorizationReceiptId = ''delegation-forest:''
                 @ take 24 (sha256 H (receipt_json (fs_snapshotFingerprint snapshot) (fa_agentId caller) (fa_agentId target))),
               fr_snapshotFingerprint = fs_snapshotFingerprint snapshot,
               fr_callerAgentName = fa_agentName caller, fr_targetAgentName = fa_agentName target\<rparr>))"

section \<open>The search is exact\<close>

definition child_edges :: "(string \<times> string list) list \<Rightarrow> (string \<times> string) set" where
  "child_edges cs = {(p, c). c \<in> set (lookup_list cs p)}"

definition edges_from :: "(string \<times> string list) list \<Rightarrow> string set \<Rightarrow> (string \<times> string) set" where
  "edges_from cs V = {(p, c). p \<in> V \<and> c \<in> set (lookup_list cs p)}"

definition closed_under :: "(string \<times> string list) list \<Rightarrow> string set \<Rightarrow> bool" where
  "closed_under cs V \<longleftrightarrow> (\<forall>a \<in> V. set (lookup_list cs a) \<subseteq> V)"

lemma edges_from_trancl:
  "(x, y) \<in> (edges_from cs W)\<^sup>+ \<Longrightarrow> x \<in> V \<Longrightarrow> closed_under cs V \<Longrightarrow> (x, y) \<in> (edges_from cs V)\<^sup>+ \<and> y \<in> V"
proof (induction rule: trancl_induct)
  case (base y)
  then show ?case by (auto simp: edges_from_def closed_under_def)
next
  case (step y z)
  then have "(y, z) \<in> edges_from cs V" "z \<in> V" by (auto simp: edges_from_def closed_under_def)
  with step show ?case by (meson trancl_into_trancl)
qed

lemma acyclic_add_source:
  assumes ac: "acyclic (edges_from cs V)" and cl: "closed_under cs V" and ch: "set (lookup_list cs a) \<subseteq> V"
  shows "acyclic (edges_from cs (insert a V))"
proof (rule acyclicI, rule allI, rule notI)
  fix x assume x: "(x, x) \<in> (edges_from cs (insert a V))\<^sup>+"
  then obtain y where "(y, x) \<in> edges_from cs (insert a V)" by (meson tranclD2)
  then have "x \<in> V" using cl ch by (auto simp: edges_from_def closed_under_def)
  then show False using edges_from_trancl [OF x _ cl] ac by (simp add: acyclic_def)
qed

lemma visit_all_sound:
  "visit_all cs P as V = Inr V' \<Longrightarrow> closed_under cs (set V) \<Longrightarrow> set V \<inter> set P = {} \<Longrightarrow> acyclic (edges_from cs (set V))
     \<Longrightarrow> closed_under cs (set V') \<and> set V \<union> set as \<subseteq> set V' \<and> set V' \<inter> set P = {} \<and> acyclic (edges_from cs (set V'))"
proof (induction cs P as V arbitrary: V' rule: visit_all.induct)
  case (2 cs P a as V)
  show ?case
  proof (cases "a \<in> set V")
    case True
    with "2.prems" have "visit_all cs P as V = Inr V'" "a \<notin> set P" by (auto split: if_splits)
    with "2.IH"(1) True "2.prems" show ?thesis by auto
  next
    case False
    with "2.prems"(1) obtain V1 where P: "a \<notin> set P" and nested: "visit_all cs (a # P) (lookup_list cs a) V = Inr V1"
      and rest: "visit_all cs P as (set_add V1 a) = Inr V'"
      by (auto split: if_splits sum.splits)
    have V1: "closed_under cs (set V1)" "set V \<union> set (lookup_list cs a) \<subseteq> set V1" "set V1 \<inter> set (a # P) = {}"
      "acyclic (edges_from cs (set V1))"
      using "2.IH"(2) [OF P False nested] "2.prems" False by auto
    have "closed_under cs (set (set_add V1 a))" using V1 by (auto simp: closed_under_def)
    moreover have "set (set_add V1 a) \<inter> set P = {}" using V1 P by auto
    moreover have "acyclic (edges_from cs (set (set_add V1 a)))" using acyclic_add_source [OF V1(4,1)] V1(2) by simp
    ultimately have "closed_under cs (set V') \<and> set (set_add V1 a) \<union> set as \<subseteq> set V' \<and> set V' \<inter> set P = {}
        \<and> acyclic (edges_from cs (set V'))"
      by (intro "2.IH"(3) [OF P False nested rest])
    then show ?thesis using V1(2) by auto
  qed
qed simp

lemma visit_all_complete:
  "visit_all cs P as V = Inl e \<Longrightarrow> \<forall>x \<in> set P. (x, hd P) \<in> (child_edges cs)\<^sup>* \<Longrightarrow> \<forall>a \<in> set as. P = [] \<or> (hd P, a) \<in> child_edges cs
     \<Longrightarrow> e = CYCLE \<and> \<not> acyclic (child_edges cs)"
proof (induction cs P as V rule: visit_all.induct)
  case (2 cs P a as V)
  show ?case
  proof (cases "a \<in> set P")
    case True
    then have "(a, hd P) \<in> (child_edges cs)\<^sup>*" "(hd P, a) \<in> child_edges cs" using "2.prems"(2,3) by auto
    then have "(a, a) \<in> (child_edges cs)\<^sup>+" by (rule rtrancl_into_trancl1)
    then show ?thesis using True "2.prems"(1) by (auto simp: acyclic_def)
  next
    case P: False
    show ?thesis
    proof (cases "a \<in> set V")
      case True
      have "visit_all cs P as V = Inl e" using P True "2.prems"(1) by simp
      moreover have "\<forall>a \<in> set as. P = [] \<or> (hd P, a) \<in> child_edges cs" using "2.prems"(3) by auto
      ultimately show ?thesis using "2.IH"(1) [OF P True] "2.prems"(2) by blast
    next
      case V: False
      have step: "\<forall>x \<in> set (a # P). (x, hd (a # P)) \<in> (child_edges cs)\<^sup>*"
        using "2.prems"(2,3) by (auto intro: rtrancl_into_rtrancl)
      have children: "\<forall>c \<in> set (lookup_list cs a). a # P = [] \<or> (hd (a # P), c) \<in> child_edges cs" by (simp add: child_edges_def)
      show ?thesis
      proof (cases "visit_all cs (a # P) (lookup_list cs a) V")
        case (Inl e')
        then show ?thesis using "2.IH"(2) [OF P V _ step children] "2.prems"(1) P V by auto
      next
        case (Inr V1)
        then have "visit_all cs P as (set_add V1 a) = Inl e" using P V "2.prems"(1) by simp
        moreover have "\<forall>a \<in> set as. P = [] \<or> (hd P, a) \<in> child_edges cs" using "2.prems"(3) by auto
        ultimately show ?thesis using "2.IH"(3) [OF P V Inr] "2.prems"(2) by blast
      qed
    qed
  qed
qed simp

lemma assertNoCycles_iff:
  assumes "fst ` set cs \<subseteq> set as"
  shows "assertNoCycles as cs = (if acyclic (child_edges cs) then Inr () else Inl CYCLE)"
proof (cases "visit_all cs [] as []")
  case (Inl e)
  then show ?thesis using visit_all_complete [OF Inl] by (simp add: assertNoCycles_def)
next
  case (Inr V)
  have empty: "closed_under cs (set [])" "set [] \<inter> set [] = {}" "acyclic (edges_from cs (set []))"
    by (simp_all add: closed_under_def edges_from_def acyclic_def trancl_empty)
  note sound = visit_all_sound [OF Inr empty]
  have "p \<in> set V" if "c \<in> set (lookup_list cs p)" for p c
    using that sound assms lookup_list_unknown [of p cs] by (cases "p \<in> fst ` set cs") auto
  then have "edges_from cs (set V) = child_edges cs" by (auto simp: edges_from_def child_edges_def)
  then show ?thesis using sound Inr by (simp add: assertNoCycles_def)
qed

section \<open>The index of the relationships\<close>

definition known_ids :: "(string \<times> DelegationForestAgent) list \<Rightarrow> string set" where
  "known_ids agentById = fst ` set agentById"

text \<open>The index of the relationships read so far: \<open>E\<close> are their pairs of parent and child.\<close>

definition index_inv :: "(string \<times> DelegationForestAgent) list \<Rightarrow> forest_index \<Rightarrow> (string \<times> string) set \<Rightarrow> bool" where
  "index_inv agentById ix E \<longleftrightarrow>
     (\<forall>p c. map_of (fi_parentByChild ix) c = Some p \<longleftrightarrow> (p, c) \<in> E)
     \<and> child_edges (fi_childrenByParent ix) = E
     \<and> distinct (map fst (fi_childrenByParent ix)) \<and> fst ` set (fi_childrenByParent ix) \<subseteq> known_ids agentById
     \<and> (\<forall>(p, c) \<in> E. p \<in> known_ids agentById \<and> c \<in> known_ids agentById \<and> p \<noteq> [])"

lemma known_ids_None: "map_of agentById i = None \<longleftrightarrow> i \<notin> known_ids agentById"
  by (simp add: known_ids_def map_of_eq_None_iff)

lemma children_after_update: "lookup_list (AList.update k v m) x = (if x = k then v else lookup_list m x)"
  by (simp add: lookup_list_def update_conv')

lemma add_relationship_inv:
  assumes inv: "index_inv agentById ix E" and add: "add_relationship agentById r ix = Inr ix'"
  shows "index_inv agentById ix' (insert (rl_parentAgentId r, rl_childAgentId r) E)
     \<and> fi_edgeIds ix' = fi_edgeIds ix @ [rl_edgeId r] \<and> rl_edgeId r \<notin> set (fi_edgeIds ix)"
proof -
  let ?p = "rl_parentAgentId r" and ?c = "rl_childAgentId r"
  have valid: "validateAgentRelationship (relationship_js r) = []" and fresh: "rl_edgeId r \<notin> set (fi_edgeIds ix)"
    and known: "?p \<in> known_ids agentById" "?c \<in> known_ids agentById"
    and single: "\<not> (case map_of (fi_parentByChild ix) ?c of None \<Rightarrow> False | Some p \<Rightarrow> p \<noteq> [] \<and> p \<noteq> ?p)"
    and ix': "ix' = \<lparr>fi_edgeIds = set_add (fi_edgeIds ix) (rl_edgeId r),
             fi_relationshipPairs = set_add (fi_relationshipPairs ix) (pair_key r),
             fi_parentByChild = AList.update ?c ?p (fi_parentByChild ix),
             fi_childrenByParent = AList.update ?p (lookup_list (fi_childrenByParent ix) ?p @ [?c]) (fi_childrenByParent ix)\<rparr>"
    using add by (auto simp: add_relationship_def Let_def known_ids_None split: if_splits)
  have ne: "?p \<noteq> []" using valid by (auto simp: validate_typed_relationship)
  have "p = ?p" if "(p, ?c) \<in> E" for p
  proof -
    have "map_of (fi_parentByChild ix) ?c = Some p" "p \<noteq> []" using inv that by (auto simp: index_inv_def)
    then show ?thesis using single by simp
  qed
  then have "map_of (AList.update ?c ?p (fi_parentByChild ix)) c = Some p \<longleftrightarrow> (p, c) \<in> insert (?p, ?c) E" for p c
    using inv by (auto simp: update_conv' index_inv_def)
  moreover have "child_edges (fi_childrenByParent ix') = insert (?p, ?c) E"
    using inv by (auto simp: child_edges_def ix' children_after_update index_inv_def split: if_splits)
  moreover have "fst ` set (fi_childrenByParent ix') \<subseteq> known_ids agentById"
    using inv known by (auto simp: ix' index_inv_def dom_map_of_conv_image_fst [symmetric] update_conv')
  ultimately show ?thesis using inv known ne fresh
    by (auto simp: index_inv_def ix' distinct_update set_add_def)
qed

definition links :: "AgentRelationship list \<Rightarrow> (string \<times> string) set" where
  "links rs = (\<lambda>r. (rl_parentAgentId r, rl_childAgentId r)) ` set rs"

lemma index_relationships_inv:
  "index_relationships agentById rs ix = Inr ix' \<Longrightarrow> index_inv agentById ix E \<Longrightarrow> distinct (fi_edgeIds ix)
     \<Longrightarrow> index_inv agentById ix' (links rs \<union> E) \<and> fi_edgeIds ix' = fi_edgeIds ix @ map rl_edgeId rs \<and> distinct (fi_edgeIds ix')"
proof (induction rs arbitrary: ix E)
  case (Cons r rs)
  from Cons.prems(1) obtain ix1 where ix1: "add_relationship agentById r ix = Inr ix1" "index_relationships agentById rs ix1 = Inr ix'"
    by (auto simp: rbind_Inr_iff)
  note add = add_relationship_inv [OF Cons.prems(2) ix1(1)]
  have ih: "index_inv agentById ix' (links rs \<union> insert (rl_parentAgentId r, rl_childAgentId r) E)
      \<and> fi_edgeIds ix' = fi_edgeIds ix1 @ map rl_edgeId rs \<and> distinct (fi_edgeIds ix')"
    by (rule Cons.IH [OF ix1(2) conjunct1 [OF add]]) (use add Cons.prems(3) in simp)
  show ?case
  proof (intro conjI)
    show "index_inv agentById ix' (links (r # rs) \<union> E)" using ih by (simp add: links_def)
    show "fi_edgeIds ix' = fi_edgeIds ix @ map rl_edgeId (r # rs)" using ih add by simp
    show "distinct (fi_edgeIds ix')" using ih by blast
  qed
qed (simp add: links_def)

lemma empty_index_inv: "index_inv agentById empty_index {}"
  by (simp add: index_inv_def empty_index_def child_edges_def lookup_list_def)

lemma agent_map_ok:
  "agent_map m as = Inr m' \<Longrightarrow> distinct (map fst m) \<Longrightarrow>
     m' = m @ map (\<lambda>a. (fa_agentId a, a)) as \<and> distinct (map fst m @ map fa_agentId as)"
proof (induction as arbitrary: m)
  case (Cons a as)
  have new: "map_of m (fa_agentId a) = None" using Cons.prems(1) by (simp split: if_splits)
  then have "agent_map (m @ [(fa_agentId a, a)]) as = Inr m'" using Cons.prems(1) by (simp add: update_new)
  from Cons.IH [OF this] new Cons.prems(2) show ?case by (simp add: map_of_eq_None_iff)
qed simp

text \<open>What an accepted snapshot consists of.\<close>

lemma validate_InrD:
  assumes "validateDelegationForestSnapshot H J rootInput agentInputs relationshipInputs = Inr S"
  shows "\<exists>agents ix. mapM normalize_agent agentInputs = Inr agents
     \<and> distinct (map fa_agentId agents)
     \<and> (\<exists>a \<in> set agents. fa_agentId a = js_trim rootInput \<and> fa_agentType a = type_knowbee)
     \<and> findAgentNameNamespaceConflict (map name_entry agents) = None
     \<and> index_inv (map (\<lambda>a. (fa_agentId a, a)) agents) ix (links (filter active relationshipInputs))
     \<and> distinct (map rl_edgeId (filter active relationshipInputs))
     \<and> map_of (fi_parentByChild ix) (js_trim rootInput) = None
     \<and> acyclic (links (filter active relationshipInputs))
     \<and> S = build_snapshot H J (js_trim rootInput) agents (map (\<lambda>a. (fa_agentId a, a)) agents) (filter active relationshipInputs) ix"
proof -
  let ?act = "filter active relationshipInputs" and ?r = "js_trim rootInput"
  from assms obtain agents m ix where
    root: "requireText (required_field ''Root agent ID'') rootInput = Inr ?r"
    and agents: "mapM normalize_agent agentInputs = Inr agents" and m: "agent_map [] agents = Inr m"
    and knowbee: "\<not> (case map_of m ?r of None \<Rightarrow> True | Some a \<Rightarrow> fa_agentType a \<noteq> type_knowbee)"
    and names: "findAgentNameNamespaceConflict (map name_entry agents) = None"
    and ix: "index_relationships m ?act empty_index = Inr ix" and top: "map_of (fi_parentByChild ix) ?r = None"
    and cycles: "assertNoCycles (map fst m) (fi_childrenByParent ix) = Inr ()"
    and S: "S = build_snapshot H J ?r agents m ?act ix"
    by (auto simp: validateDelegationForestSnapshot_def rbind_Inr_iff requireText_Inr_iff Let_def split: if_splits option.splits)
  have meq: "m = map (\<lambda>a. (fa_agentId a, a)) agents" "distinct (map fa_agentId agents)"
    using agent_map_ok [OF m] by (auto simp: comp_def)
  have inv: "index_inv m ix (links ?act)" "distinct (map rl_edgeId ?act)"
    using index_relationships_inv [OF ix empty_index_inv] by (auto simp: empty_index_def)
  have "acyclic (child_edges (fi_childrenByParent ix))"
    using cycles assertNoCycles_iff [of "fi_childrenByParent ix" "map fst m"] inv(1)
    by (auto simp: index_inv_def known_ids_def split: if_splits)
  then have "acyclic (links ?act)" using inv(1) by (simp add: index_inv_def)
  moreover have "\<exists>a \<in> set agents. fa_agentId a = ?r \<and> fa_agentType a = type_knowbee"
  proof -
    obtain a where a: "map_of m ?r = Some a" "fa_agentType a = type_knowbee" using knowbee by (auto split: option.splits)
    then show ?thesis using map_of_SomeD [OF a(1)] by (auto simp: meq)
  qed
  ultimately show ?thesis using agents names inv top S meq(2) unfolding meq(1) by blast
qed

section \<open>Names\<close>

abbreviation entry_name :: "AgentNameNamespaceEntry \<Rightarrow> string" where
  "entry_name e \<equiv> normalizeAgentName (nn_agentNameSnapshot e)"

lemma name_conflict_loop_None:
  "name_conflict_loop seen es = None \<Longrightarrow> \<forall>e \<in> set es. entry_name e \<noteq> [] \<Longrightarrow>
     (\<forall>x. \<forall>e \<in> set es. map_of seen (entry_name e) = Some x \<longrightarrow> nn_entityId x = nn_entityId e)
     \<and> sorted_wrt (\<lambda>e e'. entry_name e = entry_name e' \<longrightarrow> nn_entityId e = nn_entityId e') es"
proof (induction seen es rule: name_conflict_loop.induct)
  case (2 seen e es)
  let ?n = "entry_name e"
  have n: "?n \<noteq> []" using "2.prems"(2) by simp
  have loop: "name_conflict_loop (AList.update ?n e seen) es = None"
    and same: "\<And>x. map_of seen ?n = Some x \<Longrightarrow> nn_entityId x = nn_entityId e"
    using "2.prems"(1) n by (auto simp: Let_def split: option.splits if_splits)
  have "(\<forall>x. \<forall>e' \<in> set es. map_of (AList.update ?n e seen) (entry_name e') = Some x \<longrightarrow> nn_entityId x = nn_entityId e')
     \<and> sorted_wrt (\<lambda>e e'. entry_name e = entry_name e' \<longrightarrow> nn_entityId e = nn_entityId e') es"
  proof (cases "map_of seen ?n")
    case None
    from "2.IH"(2) [OF refl n None loop] "2.prems"(2) show ?thesis by simp
  next
    case (Some x)
    then have "\<not> (nn_entityType x \<noteq> nn_entityType e \<or> nn_entityId x \<noteq> nn_entityId e)"
      using "2.prems"(1) n by (auto simp: Let_def split: if_splits)
    from "2.IH"(3) [OF refl n Some this loop] "2.prems"(2) show ?thesis by simp
  qed
  then have later: "\<And>x e'. e' \<in> set es \<Longrightarrow> map_of (AList.update ?n e seen) (entry_name e') = Some x \<Longrightarrow> nn_entityId x = nn_entityId e'"
    and sorted: "sorted_wrt (\<lambda>e e'. entry_name e = entry_name e' \<longrightarrow> nn_entityId e = nn_entityId e') es" by blast+
  have alike: "nn_entityId e = nn_entityId e'" if "e' \<in> set es" "entry_name e = entry_name e'" for e'
    using later [OF that(1)] that(2) by (simp add: update_conv')
  have first: "nn_entityId x = nn_entityId e'" if "e' \<in> set (e # es)" "map_of seen (entry_name e') = Some x" for x e'
  proof (cases "entry_name e' = ?n")
    case True
    then show ?thesis using that same alike [of e'] by (cases "e' = e") auto
  next
    case False
    then have "e' \<in> set es" using that by auto
    from later [OF this, of x] show ?thesis using that(2) False by (simp add: update_conv')
  qed
  have "\<forall>e' \<in> set es. entry_name e = entry_name e' \<longrightarrow> nn_entityId e = nn_entityId e'" using alike by blast
  then have "sorted_wrt (\<lambda>e e'. entry_name e = entry_name e' \<longrightarrow> nn_entityId e = nn_entityId e') (e # es)"
    using sorted unfolding sorted_wrt.simps by (rule conjI)
  then show ?case using first by blast
qed simp

lemma length_js_trim: "length (js_trim s) \<le> length s"
  unfolding js_trim_def using length_dropWhile_le [of js_ws s] length_dropWhile_le [of js_ws "rev (dropWhile js_ws s)"] by simp

lemma collapse_ws_empty: "collapse_ws s = [] \<longleftrightarrow> s = []"
  by (cases s) auto

lemma normal_name_not_empty: "\<not> blank n \<Longrightarrow> normalizeAgentName (normalizeAgentNameSnapshot n) \<noteq> []"
proof -
  assume n: "\<not> blank n"
  then obtain c cs where c: "js_trim n = c # cs" by (cases "js_trim n") (auto simp: blank_def)
  have "\<not> js_ws c"
  proof
    assume "js_ws c"
    then have "js_trim (c # cs) = js_trim cs" by (simp add: js_trim_def)
    moreover have "js_trim (c # cs) = c # cs" using js_trim_idem [of n] unfolding c .
    ultimately have "length (c # cs) \<le> length cs" using length_js_trim [of cs] by simp
    then show False by simp
  qed
  then have "\<not> blank (normalizeAgentNameSnapshot n)"
    by (simp add: normalizeAgentNameSnapshot_def collapseAgentNameWhitespace_def c blank_iff)
  then show ?thesis by (simp add: normalizeAgentName_def collapseAgentNameWhitespace_def collapse_ws_empty blank_def)
qed

lemma normalize_agent_Inr:
  "normalize_agent a = Inr b \<Longrightarrow> fa_agentId b = js_trim (fa_agentId a) \<and> fa_agentId b \<noteq> []
     \<and> normalizeAgentName (fa_agentName b) \<noteq> []"
  by (auto simp: normalize_agent_def rbind_Inr_iff requireText_Inr_iff normal_name_not_empty)

lemma distinct_sorted_wrt: "distinct xs \<longleftrightarrow> sorted_wrt (\<noteq>) xs"
  by (induction xs) auto

lemma sorted_wrt_both:
  "sorted_wrt P xs \<Longrightarrow> sorted_wrt Q xs \<Longrightarrow> (\<And>x y. P x y \<Longrightarrow> Q x y \<Longrightarrow> R x y) \<Longrightarrow> sorted_wrt R xs"
  by (induction xs) auto

lemma distinct_names:
  assumes "mapM normalize_agent inputs = Inr agents" and "distinct (map fa_agentId agents)"
    and "findAgentNameNamespaceConflict (map name_entry agents) = None"
  shows "distinct (map (\<lambda>a. normalizeAgentName (fa_agentName a)) agents)"
proof -
  have "normalizeAgentName (fa_agentName b) \<noteq> []" if "b \<in> set agents" for b
  proof -
    obtain a where "normalize_agent a = Inr b"
      using mapM_Inr_list_all2 [OF assms(1)] \<open>b \<in> set agents\<close> by (auto simp: list_all2_conv_all_nth in_set_conv_nth)
    then show ?thesis using normalize_agent_Inr by blast
  qed
  then have "sorted_wrt (\<lambda>e e'. entry_name e = entry_name e' \<longrightarrow> nn_entityId e = nn_entityId e') (map name_entry agents)"
    using name_conflict_loop_None [of "[]" "map name_entry agents"] assms(3)
    by (simp add: findAgentNameNamespaceConflict_def name_entry_def)
  then have "sorted_wrt (\<lambda>a b. normalizeAgentName (fa_agentName a) = normalizeAgentName (fa_agentName b) \<longrightarrow> fa_agentId a = fa_agentId b) agents"
    by (simp add: sorted_wrt_map name_entry_def)
  moreover have "sorted_wrt (\<lambda>a b. fa_agentId a \<noteq> fa_agentId b) agents"
    using assms(2) by (simp add: distinct_sorted_wrt sorted_wrt_map)
  ultimately have "sorted_wrt (\<lambda>a b. normalizeAgentName (fa_agentName a) \<noteq> normalizeAgentName (fa_agentName b)) agents"
    by (rule sorted_wrt_both) simp
  then show ?thesis by (simp add: distinct_sorted_wrt sorted_wrt_map)
qed

section \<open>An accepted snapshot is a forest\<close>

lemma map_of_sort_by: "distinct (map fst xs) \<Longrightarrow> map_of (sort_by cmp xs) = map_of xs"
  by (subst map_of_inject_set) (simp_all)

lemma map_of_map_snd: "map_of (map (\<lambda>(k, v). (k, f v)) xs) k = map_option f (map_of xs k)"
  by (induction xs) auto

definition forest_snapshot_ok :: "DelegationForestSnapshot \<Rightarrow> bool" where
  "forest_snapshot_ok S \<longleftrightarrow>
     (let E = links (fs_relationships S); ids = map fa_agentId (fs_agents S) in
      acyclic E \<and> (\<forall>p p' c. (p, c) \<in> E \<longrightarrow> (p', c) \<in> E \<longrightarrow> p = p') \<and> E \<subseteq> set ids \<times> set ids
      \<and> (\<exists>a \<in> set (fs_agents S). fa_agentId a = fs_rootAgentId S \<and> fa_agentType a = type_knowbee) \<and> (\<forall>p. (p, fs_rootAgentId S) \<notin> E)
      \<and> distinct ids \<and> distinct (map (\<lambda>a. normalizeAgentName (fa_agentName a)) (fs_agents S))
      \<and> distinct (map rl_edgeId (fs_relationships S)) \<and> (\<forall>r \<in> set (fs_relationships S). active r)
      \<and> (\<forall>p. set (lookup_list (fs_directChildAgentIdsByParent S) p) = E `` {p})
      \<and> set (fs_rootAgentIds S) = {a \<in> set ids. \<forall>p. (p, a) \<notin> E})"

lemma validated_snapshot_ok:
  assumes "validateDelegationForestSnapshot H J rootInput agentInputs relationshipInputs = Inr S"
  shows "forest_snapshot_ok S"
proof -
  let ?rs = "filter active relationshipInputs"
  from validate_InrD [OF assms] obtain agents ix where
    agents: "mapM normalize_agent agentInputs = Inr agents" and ids: "distinct (map fa_agentId agents)"
    and root: "\<exists>a \<in> set agents. fa_agentId a = js_trim rootInput \<and> fa_agentType a = type_knowbee"
    and names: "findAgentNameNamespaceConflict (map name_entry agents) = None"
    and inv: "index_inv (map (\<lambda>a. (fa_agentId a, a)) agents) ix (links ?rs)"
    and edgeIds: "distinct (map rl_edgeId ?rs)" and top: "map_of (fi_parentByChild ix) (js_trim rootInput) = None"
    and ac: "acyclic (links ?rs)"
    and S: "S = build_snapshot H J (js_trim rootInput) agents (map (\<lambda>a. (fa_agentId a, a)) agents) ?rs ix" by blast
  let ?E = "links ?rs"
  have parent: "map_of (fi_parentByChild ix) c = Some p \<longleftrightarrow> (p, c) \<in> ?E" for p c
    using inv by (auto simp: index_inv_def)
  have children: "child_edges (fi_childrenByParent ix) = ?E" and keys: "distinct (map fst (fi_childrenByParent ix))"
    and known: "?E \<subseteq> fa_agentId ` set agents \<times> fa_agentId ` set agents"
    using inv by (auto simp: index_inv_def known_ids_def)
  have E: "links (fs_relationships S) = ?E" by (simp add: S build_snapshot_def Let_def links_def)
  have single: "p = p'" if "(p, c) \<in> ?E" "(p', c) \<in> ?E" for p p' c using that parent by (metis option.inject)
  have noroot: "(p, js_trim rootInput) \<notin> ?E" for p using top parent [of "js_trim rootInput" p] by simp
  have keys': "distinct (map fst (map (\<lambda>(parent, cs). (parent, sort (js_set cs))) (fi_childrenByParent ix)))"
    using keys by (simp add: case_prod_beta' comp_def)
  have "map_of (fs_directChildAgentIdsByParent S) p = map_option (\<lambda>cs. sort (js_set cs)) (map_of (fi_childrenByParent ix) p)" for p
    by (simp only: S build_snapshot_def Let_def DelegationForestSnapshot.select_convs map_of_sort_by [OF keys'] map_of_map_snd)
  then have "set (lookup_list (fs_directChildAgentIdsByParent S) p) = set (lookup_list (fi_childrenByParent ix) p)" for p
    by (simp add: lookup_list_def split: option.splits)
  then have direct: "set (lookup_list (fs_directChildAgentIdsByParent S) p) = ?E `` {p}" for p
    unfolding children [symmetric] by (auto simp: child_edges_def)
  have "map_of (fi_parentByChild ix) a = None \<longleftrightarrow> (\<forall>p. (p, a) \<notin> ?E)" for a
    using parent [of a] by (cases "map_of (fi_parentByChild ix) a") auto
  then have roots: "set (fs_rootAgentIds S) = {a \<in> fa_agentId ` set agents. \<forall>p. (p, a) \<notin> ?E}"
    by (auto simp: S build_snapshot_def Let_def)
  have fields: "set (fs_agents S) = set agents" "distinct (map fa_agentId (fs_agents S))" "fs_rootAgentId S = js_trim rootInput"
    "distinct (map (\<lambda>a. normalizeAgentName (fa_agentName a)) (fs_agents S))" "distinct (map rl_edgeId (fs_relationships S))"
    "set (fs_relationships S) = set ?rs"
    using ids edgeIds distinct_names [OF agents ids names] by (simp_all add: S build_snapshot_def Let_def)
  show ?thesis unfolding forest_snapshot_ok_def Let_def E
  proof (intro conjI)
    show "\<forall>p p' c. (p, c) \<in> ?E \<longrightarrow> (p', c) \<in> ?E \<longrightarrow> p = p'" using single by blast
    show "\<forall>p. (p, fs_rootAgentId S) \<notin> ?E" using noroot fields(3) by simp
    show "\<forall>p. set (lookup_list (fs_directChildAgentIdsByParent S) p) = ?E `` {p}" using direct by blast
    show "set (fs_rootAgentIds S) = {a \<in> set (map fa_agentId (fs_agents S)). \<forall>p. (p, a) \<notin> ?E}" using roots fields(1) by simp
  qed (use ac known root fields in simp_all)
qed

lemma validated_relationships:
  assumes "validateDelegationForestSnapshot H J rootInput agentInputs relationshipInputs = Inr S"
  shows "set (fs_relationships S) = {r \<in> set relationshipInputs. active r}"
  using validate_InrD [OF assms] by (auto simp: build_snapshot_def Let_def)

section \<open>Properties\<close>

lemma snapshot_okD:
  assumes "forest_snapshot_ok S"
  shows "acyclic (links (fs_relationships S))"
    and "(p, c) \<in> links (fs_relationships S) \<Longrightarrow> (p', c) \<in> links (fs_relationships S) \<Longrightarrow> p = p'"
    and "links (fs_relationships S) \<subseteq> fa_agentId ` set (fs_agents S) \<times> fa_agentId ` set (fs_agents S)"
    and "distinct (map fa_agentId (fs_agents S))"
    and "set (lookup_list (fs_directChildAgentIdsByParent S) p) = links (fs_relationships S) `` {p}"
    and "set (fs_rootAgentIds S) = {a \<in> fa_agentId ` set (fs_agents S). \<forall>p. (p, a) \<notin> links (fs_relationships S)}"
  using assms unfolding forest_snapshot_ok_def Let_def by (blast, blast, simp, simp, blast, simp)

lemma root_exists:
  assumes "forest_snapshot_ok S" and "a \<in> fa_agentId ` set (fs_agents S)"
  shows "\<exists>r \<in> set (fs_rootAgentIds S). (r, a) \<in> (links (fs_relationships S))\<^sup>*"
proof -
  have "finite (links (fs_relationships S))" by (simp add: links_def)
  then have "wf (links (fs_relationships S))" using snapshot_okD(1) [OF assms(1)] by (rule finite_acyclic_wf)
  then show ?thesis using assms(2)
  proof (induction a rule: wf_induct_rule)
    case (less a)
    show ?case
    proof (cases "\<exists>p. (p, a) \<in> links (fs_relationships S)")
      case True
      then obtain p where p: "(p, a) \<in> links (fs_relationships S)" by blast
      then have "p \<in> fa_agentId ` set (fs_agents S)" using snapshot_okD(3) [OF assms(1)] by blast
      then show ?thesis using less.IH [OF p] p by (meson rtrancl.rtrancl_into_rtrancl)
    next
      case False
      then show ?thesis using less.prems snapshot_okD(6) [OF assms(1)] by auto
    qed
  qed
qed

lemma root_unique:
  assumes "forest_snapshot_ok S" and "(r, a) \<in> (links (fs_relationships S))\<^sup>*" "(r', a) \<in> (links (fs_relationships S))\<^sup>*"
    and "r \<in> set (fs_rootAgentIds S)" "r' \<in> set (fs_rootAgentIds S)"
  shows "r = r'"
proof -
  let ?E = "links (fs_relationships S)"
  have "single_valued (?E\<inverse>)" using snapshot_okD(2) [OF assms(1)] by (auto simp: single_valued_def)
  then have "(r, r') \<in> (?E\<inverse>)\<^sup>* \<or> (r', r) \<in> (?E\<inverse>)\<^sup>*"
    using assms(2,3) single_valued_confluent [of "?E\<inverse>" a r r'] by (simp add: rtrancl_converse)
  moreover have "\<And>p. (p, r) \<notin> ?E" "\<And>p. (p, r') \<notin> ?E" using assms(4,5) snapshot_okD(6) [OF assms(1)] by auto
  ultimately show ?thesis by (metis rtrancl_converse converse_iff rtranclE)
qed

text \<open>C17. A snapshot the validation returns is well formed: its relationships are active, their endpoints are
  agents of the snapshot, no agent has two parents, there is no cycle, the main agent exists and has no
  parent, ids, names (up to case and spaces) and edge ids are unique, and the index of direct children and
  the list of roots say exactly what the relationships say.\<close>

theorem validated_snapshot_well_formed:
  assumes "validateDelegationForestSnapshot H J rootInput agentInputs relationshipInputs = Inr S"
  shows "acyclic (links (fs_relationships S))
    \<and> (\<forall>p p' c. (p, c) \<in> links (fs_relationships S) \<longrightarrow> (p', c) \<in> links (fs_relationships S) \<longrightarrow> p = p')
    \<and> links (fs_relationships S) \<subseteq> fa_agentId ` set (fs_agents S) \<times> fa_agentId ` set (fs_agents S)
    \<and> (\<exists>a \<in> set (fs_agents S). fa_agentId a = fs_rootAgentId S \<and> fa_agentType a = type_knowbee)
    \<and> (\<forall>p. (p, fs_rootAgentId S) \<notin> links (fs_relationships S))
    \<and> distinct (map fa_agentId (fs_agents S)) \<and> distinct (map (\<lambda>a. normalizeAgentName (fa_agentName a)) (fs_agents S))
    \<and> distinct (map rl_edgeId (fs_relationships S)) \<and> (\<forall>r \<in> set (fs_relationships S). active r)
    \<and> (\<forall>p. set (lookup_list (fs_directChildAgentIdsByParent S) p) = links (fs_relationships S) `` {p})
    \<and> set (fs_rootAgentIds S) = {a \<in> fa_agentId ` set (fs_agents S). \<forall>p. (p, a) \<notin> links (fs_relationships S)}"
  using validated_snapshot_ok [OF assms] by (simp add: forest_snapshot_ok_def Let_def)

text \<open>In an accepted snapshot every agent descends, through the relationships, from exactly one of the agents
  listed as roots.\<close>

theorem agent_has_one_root:
  assumes "validateDelegationForestSnapshot H J rootInput agentInputs relationshipInputs = Inr S" and "a \<in> set (fs_agents S)"
  shows "\<exists>!r. r \<in> set (fs_rootAgentIds S) \<and> (r, fa_agentId a) \<in> (links (fs_relationships S))\<^sup>*"
  using root_exists [OF validated_snapshot_ok [OF assms(1)]] root_unique [OF validated_snapshot_ok [OF assms(1)]] assms(2)
  by (metis imageI)

text \<open>The search for cycles throws exactly when the relationships among the agents have a cycle.\<close>

theorem cycle_search_exact:
  assumes "fst ` set cs \<subseteq> set agentIds"
  shows "assertNoCycles agentIds cs = Inr () \<longleftrightarrow> acyclic {(p, c). c \<in> set (lookup_list cs p)}"
  using assertNoCycles_iff [OF assms] by (simp add: child_edges_def CYCLE_def)

lemma agent_of_iff:
  assumes "forest_snapshot_ok S"
  shows "agent_of S i = Some a \<longleftrightarrow> a \<in> set (fs_agents S) \<and> fa_agentId a = i"
proof
  assume "agent_of S i = Some a"
  then show "a \<in> set (fs_agents S) \<and> fa_agentId a = i" by (auto simp: agent_of_def dest: find_SomeD)
next
  assume a: "a \<in> set (fs_agents S) \<and> fa_agentId a = i"
  then obtain b where b: "agent_of S i = Some b" using find_NoneD [of "\<lambda>a. fa_agentId a = i" "fs_agents S" a]
    by (cases "agent_of S i") (auto simp: agent_of_def)
  then have "b \<in> set (fs_agents S)" "fa_agentId b = i" by (auto simp: agent_of_def dest: find_SomeD)
  then have "b = a" using a snapshot_okD(4) [OF assms] by (auto simp: distinct_map dest: inj_onD)
  then show "agent_of S i = Some a" using b by simp
qed

text \<open>What the policy of a sub-agent must say for a delegation to a child.\<close>

definition policy_allows :: "DelegationForestAgent \<Rightarrow> string \<Rightarrow> bool" where
  "policy_allows caller child \<longleftrightarrow> fa_agentType caller = type_knowbee
     \<or> (\<exists>policy. fa_delegationPolicy caller = Some policy \<and> dp_enabled policy \<and> dp_redelegationAllowed policy = Some True
          \<and> dp_directChildOnly policy = Some True
          \<and> (case dp_allowedChildAgentIds policy of None \<Rightarrow> True | Some allowed \<Rightarrow> child \<in> set allowed))"

lemma policy_denial_None: "policy_denial caller child = None \<longleftrightarrow> policy_allows caller child"
  by (cases "fa_agentType caller"; cases "fa_delegationPolicy caller")
    (auto simp: policy_denial_def policy_allows_def split: option.splits)

lemma authorized_iff:
  assumes "validateDelegationForestSnapshot H J rootInput agentInputs relationshipInputs = Inr S"
  shows "(\<exists>receipt. authorizeDelegationInForest H S fp callerId targetId = Inr receipt) \<longleftrightarrow>
     fp = fs_snapshotFingerprint S
     \<and> (\<exists>caller \<in> set (fs_agents S). fa_agentId caller = callerId \<and> fa_status caller = ag_enabled \<and> policy_allows caller targetId)
     \<and> (\<exists>target \<in> set (fs_agents S). fa_agentId target = targetId \<and> fa_status target = ag_enabled)
     \<and> (callerId, targetId) \<in> links (fs_relationships S)"
proof -
  have ok: "forest_snapshot_ok S" by (rule validated_snapshot_ok [OF assms])
  have known: "agent_of S i = None \<longleftrightarrow> (\<forall>a \<in> set (fs_agents S). fa_agentId a \<noteq> i)" for i
    by (auto simp: agent_of_def find_None_iff)
  have child: "t \<in> set (lookup_list (fs_directChildAgentIdsByParent S) c) \<longleftrightarrow> (c, t) \<in> links (fs_relationships S)" for c t
    using snapshot_okD(5) [OF ok, of c] by auto
  have same: "a = b" if "a \<in> set (fs_agents S)" "b \<in> set (fs_agents S)" "fa_agentId a = fa_agentId b" for a b
    using that snapshot_okD(4) [OF ok] by (auto simp: distinct_map dest: inj_onD)
  show ?thesis
  proof (cases "agent_of S callerId")
    case None
    then show ?thesis using known [of callerId] by (auto simp: authorizeDelegationInForest_def)
  next
    case c: (Some caller)
    then have caller: "caller \<in> set (fs_agents S)" "fa_agentId caller = callerId" using agent_of_iff [OF ok] by auto
    show ?thesis
    proof (cases "agent_of S targetId")
      case None
      then show ?thesis using known [of targetId] c by (auto simp: authorizeDelegationInForest_def)
    next
      case t: (Some target)
      then have target: "target \<in> set (fs_agents S)" "fa_agentId target = targetId" using agent_of_iff [OF ok] by auto
      have main: "(\<exists>receipt. authorizeDelegationInForest H S fp callerId targetId = Inr receipt) \<longleftrightarrow>
          fp = fs_snapshotFingerprint S \<and> fa_status caller = ag_enabled \<and> fa_status target = ag_enabled
          \<and> (callerId, targetId) \<in> links (fs_relationships S) \<and> policy_denial caller targetId = None"
        using c t caller target child by (auto simp: authorizeDelegationInForest_def split: option.splits)
      have the_caller: "(\<exists>x \<in> set (fs_agents S). fa_agentId x = callerId \<and> fa_status x = ag_enabled \<and> policy_allows x targetId)
          \<longleftrightarrow> fa_status caller = ag_enabled \<and> policy_allows caller targetId"
        using caller same by metis
      have the_target: "(\<exists>x \<in> set (fs_agents S). fa_agentId x = targetId \<and> fa_status x = ag_enabled) \<longleftrightarrow> fa_status target = ag_enabled"
        using target same by metis
      show ?thesis unfolding main the_caller the_target policy_denial_None by blast
    qed
  qed
qed

text \<open>C6. In an accepted snapshot a delegation is authorised exactly if the caller gives the snapshot's fingerprint,
  both agents are known and enabled, an active relationship makes the target a direct child of the caller, and
  the caller is the main agent or its policy allows delegating to this child.\<close>

theorem delegation_authorized_iff:
  assumes "validateDelegationForestSnapshot H J rootInput agentInputs relationshipInputs = Inr S"
  shows "(\<exists>receipt. authorizeDelegationInForest H S fp callerId targetId = Inr receipt) \<longleftrightarrow>
     fp = fs_snapshotFingerprint S
     \<and> (\<exists>caller \<in> set (fs_agents S). fa_agentId caller = callerId \<and> fa_status caller = ag_enabled \<and> policy_allows caller targetId)
     \<and> (\<exists>target \<in> set (fs_agents S). fa_agentId target = targetId \<and> fa_status target = ag_enabled)
     \<and> (callerId, targetId) \<in> links (fs_relationships S)"
  by (rule authorized_iff [OF assms])

lemma receipt_json_unique: "receipt_json fp c t = receipt_json fp' c' t' \<Longrightarrow> fp = fp' \<and> c = c' \<and> t = t'"
  using quote_unique [of t "[]" t' "[]"] by (auto simp: receipt_json_def dest!: quote_unique)

text \<open>Two authorisations that carry the same receipt id are for the same snapshot fingerprint, caller and
  target, unless the digests of their two different texts have the same first 24 digits.\<close>

theorem delegation_receipts_bind:
  assumes "authorizeDelegationInForest H S fp c t = Inr receipt" and "authorizeDelegationInForest H S' fp' c' t' = Inr receipt'"
    and "fr_authorizationReceiptId receipt = fr_authorizationReceiptId receipt'"
  shows "fp = fp' \<and> c = c' \<and> t = t'
    \<or> receipt_json fp c t \<noteq> receipt_json fp' c' t'
      \<and> take 24 (sha256 H (receipt_json fp c t)) = take 24 (sha256 H (receipt_json fp' c' t'))"
proof -
  have r: "fr_authorizationReceiptId rc = ''delegation-forest:'' @ take 24 (sha256 H (receipt_json f a b))"
    if "authorizeDelegationInForest H T f a b = Inr rc" for T f a b rc
    using that by (auto simp: authorizeDelegationInForest_def agent_of_def split: option.splits if_splits dest!: find_SomeD)
  have "take 24 (sha256 H (receipt_json fp c t)) = take 24 (sha256 H (receipt_json fp' c' t'))"
    using assms(3) unfolding r [OF assms(1)] r [OF assms(2)] by simp
  then show ?thesis using receipt_json_unique [of fp c t fp' c' t'] by blast
qed

section \<open>Examples\<close>

definition forest_agent :: "string \<Rightarrow> string \<Rightarrow> AgentEntityType \<Rightarrow> DelegationForestAgent" where
  "forest_agent i n ty = \<lparr>fa_agentId = i, fa_agentName = n, fa_agentType = ty, fa_status = ag_enabled,
     fa_delegationPolicy = (if ty = type_knowbee then None else
       Some \<lparr>dp_enabled = True, dp_maxParallelSessions = Num 1, dp_directChildOnly = Some True, dp_allowedChildAgentIds = Some [''b''],
         dp_resultReviewRequired = None, dp_aggregationMode = None, dp_redelegationAllowed = Some True, dp_escalationPolicy = None\<rparr>)\<rparr>"

definition forest_edge :: "string \<Rightarrow> string \<Rightarrow> AgentRelationship" where
  "forest_edge p c = \<lparr>rl_edgeId = p @ ''-'' @ c, rl_parentAgentId = p, rl_childAgentId = c, rl_status = rel_active,
     rl_sortOrder = Num 0, rl_createdAt = None, rl_updatedAt = None\<rparr>"

definition sample_validation :: "string + DelegationForestSnapshot" where
  "sample_validation = validateDelegationForestSnapshot plain_host (\<lambda>rt as rs. rt) ''m''
     [forest_agent '' b'' ''Helper'' type_sub_agent, forest_agent ''m'' ''Main'' type_knowbee, forest_agent ''a'' ''Worker '' type_sub_agent]
     [forest_edge ''a'' ''b'', forest_edge ''m'' ''a'']"

definition sample_snapshot :: DelegationForestSnapshot where
  "sample_snapshot = \<lparr>fs_rootAgentId = ''m'',
     fs_agents = [forest_agent ''a'' ''Worker'' type_sub_agent, forest_agent ''b'' ''Helper'' type_sub_agent, forest_agent ''m'' ''Main'' type_knowbee],
     fs_relationships = [forest_edge ''a'' ''b'', forest_edge ''m'' ''a''], fs_rootAgentIds = [''m''],
     fs_directChildAgentIdsByParent = [(''a'', [''b'']), (''m'', [''a''])], fs_snapshotFingerprint = ''sha256:m''\<rparr>"

lemma sample_agents:
  "mapM normalize_agent [forest_agent '' b'' ''Helper'' type_sub_agent, forest_agent ''m'' ''Main'' type_knowbee, forest_agent ''a'' ''Worker '' type_sub_agent]
     = Inr [forest_agent ''b'' ''Helper'' type_sub_agent, forest_agent ''m'' ''Main'' type_knowbee, forest_agent ''a'' ''Worker'' type_sub_agent]"
  by code_simp

lemma sample_names: "findAgentNameNamespaceConflict (map name_entry
    [forest_agent ''b'' ''Helper'' type_sub_agent, forest_agent ''m'' ''Main'' type_knowbee, forest_agent ''a'' ''Worker'' type_sub_agent]) = None"
  by code_simp

definition sample_map :: "(string \<times> DelegationForestAgent) list" where
  "sample_map = map (\<lambda>a. (fa_agentId a, a))
     [forest_agent ''b'' ''Helper'' type_sub_agent, forest_agent ''m'' ''Main'' type_knowbee, forest_agent ''a'' ''Worker'' type_sub_agent]"

lemma sample_map_built: "agent_map []
    [forest_agent ''b'' ''Helper'' type_sub_agent, forest_agent ''m'' ''Main'' type_knowbee, forest_agent ''a'' ''Worker'' type_sub_agent]
     = Inr sample_map"
  by (simp add: forest_agent_def sample_map_def)

definition sample_index :: forest_index where
  "sample_index = \<lparr>fi_edgeIds = [''a-b'', ''m-a''], fi_relationshipPairs = [pair_key (forest_edge ''a'' ''b''), pair_key (forest_edge ''m'' ''a'')],
     fi_parentByChild = [(''b'', ''a''), (''a'', ''m'')], fi_childrenByParent = [(''a'', [''b'']), (''m'', [''a''])]\<rparr>"

lemma sample_indexed: "index_relationships sample_map [forest_edge ''a'' ''b'', forest_edge ''m'' ''a''] empty_index = Inr sample_index"
proof -
  have v: "validateAgentRelationship (relationship_js (forest_edge p c)) = [] \<longleftrightarrow> \<not> blank (p @ ''-'' @ c) \<and> \<not> blank p \<and> \<not> blank c \<and> p \<noteq> c" for p c
    by (simp add: validate_typed_relationship) (simp add: forest_edge_def)
  have b: "\<not> blank ''a-b''" "\<not> blank ''m-a''" "\<not> blank ''a''" "\<not> blank ''b''" "\<not> blank ''m''" by (simp_all add: blank_iff js_ws_def)
  have e: "rl_edgeId (forest_edge p c) = p @ ''-'' @ c" "rl_parentAgentId (forest_edge p c) = p" "rl_childAgentId (forest_edge p c) = c" for p c
    by (simp_all add: forest_edge_def)
  have k: "map_of sample_map i \<noteq> None \<longleftrightarrow> i = ''b'' \<or> i = ''m'' \<or> i = ''a''" for i by (simp add: sample_map_def forest_agent_def)
  have p: "pair_key (forest_edge ''m'' ''a'') \<noteq> pair_key (forest_edge ''a'' ''b'')" by (simp add: pair_key_def e)
  show ?thesis
    using k [of "''a''"] k [of "''b''"] k [of "''m''"] p
    by (simp add: add_relationship_def v b e Let_def empty_index_def sample_index_def lookup_list_def set_add_def del: not_None_eq)
qed

lemma sample_acyclic: "assertNoCycles [''b'', ''m'', ''a''] [(''a'', [''b'']), (''m'', [''a''])] = Inr ()"
  by code_simp

lemma forest_sample_built: "build_snapshot plain_host (\<lambda>rt as rs. rt) ''m''
     [forest_agent ''b'' ''Helper'' type_sub_agent, forest_agent ''m'' ''Main'' type_knowbee, forest_agent ''a'' ''Worker'' type_sub_agent]
     sample_map [forest_edge ''a'' ''b'', forest_edge ''m'' ''a''] sample_index = sample_snapshot"
  by code_simp

lemma sample_evaluated: "sample_validation = Inr sample_snapshot"
proof -
  have root: "requireText (required_field ''Root agent ID'') ''m'' = Inr ''m''" by code_simp
  have act: "filter active [forest_edge ''a'' ''b'', forest_edge ''m'' ''a''] = [forest_edge ''a'' ''b'', forest_edge ''m'' ''a'']"
    by (simp add: forest_edge_def)
  have m: "map_of sample_map ''m'' = Some (forest_agent ''m'' ''Main'' type_knowbee)" "map fst sample_map = [''b'', ''m'', ''a'']"
    by (simp_all add: sample_map_def forest_agent_def)
  have ix: "map_of (fi_parentByChild sample_index) ''m'' = None" "fi_childrenByParent sample_index = [(''a'', [''b'']), (''m'', [''a''])]"
    by (simp_all add: sample_index_def)
  have k: "fa_agentType (forest_agent ''m'' ''Main'' type_knowbee) = type_knowbee" by (simp add: forest_agent_def)
  show ?thesis
    unfolding sample_validation_def validateDelegationForestSnapshot_def root sample_agents rbind_simps sample_map_built m k sample_names act
        sample_indexed ix sample_acyclic forest_sample_built Let_def by (simp add: k)
qed

lemma forest_sample_authorized: "\<exists>receipt. authorizeDelegationInForest plain_host sample_snapshot ''sha256:m'' ''a'' ''b'' = Inr receipt"
  by (simp add: authorizeDelegationInForest_def agent_of_def sample_snapshot_def forest_agent_def policy_denial_def lookup_list_def)

lemmas sample_validated = sample_evaluated [unfolded sample_validation_def]

theorem validated_snapshot_well_formed_witness:
  "(''m'', ''a'') \<in> links (fs_relationships sample_snapshot) \<and> acyclic (links (fs_relationships sample_snapshot))"
proof -
  have "(''m'', ''a'') \<in> links (fs_relationships sample_snapshot)" by (simp add: sample_snapshot_def links_def forest_edge_def)
  with validated_snapshot_well_formed [OF sample_validated] show ?thesis by blast
qed

theorem agent_has_one_root_witness:
  "\<exists>!r. r \<in> set (fs_rootAgentIds sample_snapshot)
     \<and> (r, fa_agentId (forest_agent ''b'' ''Helper'' type_sub_agent)) \<in> (links (fs_relationships sample_snapshot))\<^sup>*"
  by (rule agent_has_one_root [OF sample_validated]) (simp add: sample_snapshot_def)

theorem cycle_search_exact_witness:
  "\<not> acyclic {(p, c). c \<in> set (lookup_list [(''a'', [''b'']), (''b'', [''c'', ''a''])] p)}"
proof -
  have "assertNoCycles [''a'', ''b'', ''c''] [(''a'', [''b'']), (''b'', [''c'', ''a''])] \<noteq> Inr ()" by code_simp
  then show ?thesis using cycle_search_exact [of "[(''a'', [''b'']), (''b'', [''c'', ''a''])]" "[''a'', ''b'', ''c'']"] by simp
qed

theorem delegation_authorized_iff_witness:
  "\<exists>caller \<in> set (fs_agents sample_snapshot). fa_agentId caller = ''a'' \<and> policy_allows caller ''b''"
  using delegation_authorized_iff [OF sample_validated, where fp = "''sha256:m''" and callerId = "''a''" and targetId = "''b''"]
    forest_sample_authorized by blast

theorem delegation_receipts_bind_witness:
  "\<exists>receipt. authorizeDelegationInForest plain_host sample_snapshot ''sha256:m'' ''a'' ''b'' = Inr receipt \<and> ''b'' = ''b''"
proof -
  obtain receipt where r: "authorizeDelegationInForest plain_host sample_snapshot ''sha256:m'' ''a'' ''b'' = Inr receipt"
    using forest_sample_authorized by (elim exE)
  from delegation_receipts_bind [OF r r refl] r show ?thesis by (intro exI conjI) auto
qed

end
