(* ===== verification/Nested_Delegation.thy ===== *)
theory Nested_Delegation
  imports Delegation_Forest Agent_Hierarchy
begin

text \<open>
  Delegation by sub-agents: the transitions of an agent's status (\<open>orchestration/agent-lifecycle.ts\<close>),
  the eligibility of an agent for a task (\<open>orchestration/delegation-eligibility.ts\<close>) and the plan of a nested
  delegation with its budget of children, its depth limit and its authorisation in the forest
  (\<open>orchestration/nested-delegation.ts\<close>). The planner, which builds the tasks, is a parameter; of the
  registry the model has the fields these functions read.
\<close>

section \<open>Agent status\<close>

record AgentLifecycleTransitionDecision =
  lt_allowed :: bool
  lt_reasonCode :: string
  lt_fromStatus :: AgentStatus
  lt_toStatus :: AgentStatus

definition validateAgentLifecycleTransition :: "AgentStatus \<Rightarrow> AgentStatus \<Rightarrow> AgentLifecycleTransitionDecision" where
  "validateAgentLifecycleTransition fromStatus toStatus =
     (let allowed = (fromStatus \<noteq> ag_archived \<or> toStatus = ag_archived) in
      \<lparr>lt_allowed = allowed,
       lt_reasonCode = (if allowed then ''agent_lifecycle_transition_allowed'' else ''archived_agent_reactivation_forbidden''),
       lt_fromStatus = fromStatus, lt_toStatus = toStatus\<rparr>)"

definition assertAgentLifecycleTransition :: "AgentStatus \<Rightarrow> AgentStatus \<Rightarrow> string + unit" where
  "assertAgentLifecycleTransition fromStatus toStatus =
     (if lt_allowed (validateAgentLifecycleTransition fromStatus toStatus) then Inr ()
      else Inl (''Agent lifecycle transition '' @ agent_status_name fromStatus @ '' -> '' @ agent_status_name toStatus @ '' is forbidden.''))"

section \<open>Eligibility\<close>

record OwnerScope =
  ownerType :: string
  ownerId :: string

record PermissionProfile =
  allowExternalNetwork :: bool
  allowFilesystemWrite :: bool
  allowShellExecution :: bool
  allowScreenControl :: bool

record AgentRegistryEntry =
  re_agentId :: string
  re_status :: AgentStatus
  re_role :: string
  re_specialtyTags :: "string list"
  re_enabledSkillIds :: "string list"
  re_enabledMcpServerIds :: "string list"
  re_enabledToolNames :: "string list"
  re_permissionProfile :: PermissionProfile
  re_delegationEnabled :: bool
  re_memoryOwner :: OwnerScope
  re_memoryWriteScope :: OwnerScope
  re_memoryReadScopes :: "OwnerScope list"
  re_configAgentType :: AgentEntityType
  re_configAgentName :: "string option"
  re_delegation :: "DelegationPolicy option"

text \<open>\<open>required in PERMISSION_CAPABILITIES\<close>: the keys of the table, and those every object inherits.\<close>

definition PERMISSION_CAPABILITIES :: "string list" where
  "PERMISSION_CAPABILITIES = [''external_network'', ''filesystem_write'', ''shell_execution'', ''screen_control'']"

definition inherited_keys :: "string list" where
  "inherited_keys = [''constructor'', ''__defineGetter__'', ''__defineSetter__'', ''hasOwnProperty'', ''__lookupGetter__'',
     ''__lookupSetter__'', ''isPrototypeOf'', ''propertyIsEnumerable'', ''toString'', ''valueOf'', ''__proto__'', ''toLocaleString'']"

definition memoryPolicyIsIsolated :: "AgentRegistryEntry \<Rightarrow> bool" where
  "memoryPolicyIsIsolated agent =
     (let owns = (\<lambda>scope. ownerType scope = ''sub_agent'' \<and> ownerId scope = re_agentId agent)
      in owns (re_memoryOwner agent) \<and> owns (re_memoryWriteScope agent) \<and> list_all owns (re_memoryReadScopes agent))"

definition availableCapabilities :: "AgentRegistryEntry \<Rightarrow> string list" where
  "availableCapabilities agent =
     (let permission = re_permissionProfile agent in
      uniqueNonEmpty ([re_role agent] @ re_specialtyTags agent @ re_enabledSkillIds agent @ re_enabledMcpServerIds agent
        @ re_enabledToolNames agent
        @ [if allowExternalNetwork permission then ''external_network'' else [],
           if allowFilesystemWrite permission then ''filesystem_write'' else [],
           if allowShellExecution permission then ''shell_execution'' else [],
           if allowScreenControl permission then ''screen_control'' else []]))"

record DelegationEligibilityDecision =
  el_eligible :: bool
  el_stateTrace :: "string list"
  el_reasonCodes :: "string list"

definition missing_reason :: "string \<Rightarrow> string" where
  "missing_reason cap = (if cap \<in> set PERMISSION_CAPABILITIES \<or> cap \<in> set inherited_keys
     then ''permission_required'' else ''capability_denied'')"

definition evaluateDelegationEligibility :: "string list \<Rightarrow> AgentRegistryEntry \<Rightarrow> DelegationEligibilityDecision" where
  "evaluateDelegationEligibility requiredCapabilities agent =
     (let available = availableCapabilities agent;
          reasons = (if re_status agent \<noteq> ag_enabled then [''agent_disabled''] else [])
            @ (if \<not> re_delegationEnabled agent then [''delegation_disabled''] else [])
            @ (if \<not> memoryPolicyIsIsolated agent then [''memory_scope_violation''] else [])
            @ map missing_reason (filter (\<lambda>cap. cap \<notin> set available) (uniqueNonEmpty requiredCapabilities))
      in if reasons \<noteq> [] then \<lparr>el_eligible = False, el_stateTrace = [''candidate_loaded'', ''policy_evaluated'', ''rejected''],
           el_reasonCodes = uniqueNonEmpty reasons\<rparr>
         else \<lparr>el_eligible = True, el_stateTrace = [''candidate_loaded'', ''policy_evaluated'', ''eligible''],
           el_reasonCodes = [''delegation_policy_satisfied'']\<rparr>)"

section \<open>Budget and depth\<close>

definition DEFAULT_MAX_CHILDREN_PER_AGENT :: int where
  "DEFAULT_MAX_CHILDREN_PER_AGENT = 10"

definition NESTED_MAX_DEPTH :: int where
  "NESTED_MAX_DEPTH = 5"

definition normalizedPositiveInteger :: "number option \<Rightarrow> int \<Rightarrow> int" where
  "normalizedPositiveInteger v fallback =
     (case v of Some (Num q) \<Rightarrow> if q = 0 then max_safe_integer else if q < 0 then fallback else \<lfloor>q\<rfloor> | _ \<Rightarrow> fallback)"

definition normalizedDepth :: "number option \<Rightarrow> int" where
  "normalizedDepth v = (case v of Some (Num q) \<Rightarrow> if q < 0 then 0 else \<lfloor>q\<rfloor> | _ \<Rightarrow> 0)"

datatype budget_status = budget_ok | budget_shrunk | budget_blocked

record 's NestedSpawnBudgetDecision =
  bd_status :: budget_status
  bd_selectedTaskScopes :: "'s list"
  bd_skipped :: "(nat \<times> string) list"
  bd_requestedChildren :: nat
  bd_selectedChildren :: nat
  bd_remainingBudget :: "number option"
  bd_reasonCodes :: "string list"

fun spawn_loop :: "number \<Rightarrow> number \<Rightarrow> 's list \<Rightarrow> nat \<Rightarrow> 's list \<Rightarrow> (nat \<times> string) list \<Rightarrow> 's list \<times> (nat \<times> string) list" where
  "spawn_loop selectedLimit remaining [] index selected skipped = (selected, skipped)"
| "spawn_loop selectedLimit remaining (scope # scopes) index selected skipped =
     (if num_le selectedLimit (Num (of_nat (length selected)))
      then spawn_loop selectedLimit remaining scopes (index + 1) selected
        (skipped @ [(index, if num_le remaining (Num (of_nat (length selected)))
                            then ''nested_spawn_budget_exhausted'' else ''max_children_per_agent_exceeded'')])
      else spawn_loop selectedLimit remaining scopes (index + 1) (selected @ [scope]) skipped)"

definition remaining_budget :: "number option \<Rightarrow> number" where
  "remaining_budget v = (case v of None \<Rightarrow> Infinity | Some n \<Rightarrow> num_max (Num 0) (num_floor n))"

definition applyNestedSpawnBudget :: "'s list \<Rightarrow> number option \<Rightarrow> number option \<Rightarrow> 's NestedSpawnBudgetDecision" where
  "applyNestedSpawnBudget taskScopes maxChildrenPerAgent nestedSpawnBudgetRemaining =
     (let maxChildren = normalizedPositiveInteger maxChildrenPerAgent DEFAULT_MAX_CHILDREN_PER_AGENT;
          remaining = remaining_budget nestedSpawnBudgetRemaining;
          selectedLimit = num_min (Num (of_int maxChildren)) remaining;
          (selected, skipped) = spawn_loop selectedLimit remaining taskScopes 0 [] []
      in \<lparr>bd_status = (if skipped = [] then budget_ok else if selected \<noteq> [] then budget_shrunk else budget_blocked),
          bd_selectedTaskScopes = selected, bd_skipped = skipped,
          bd_requestedChildren = length taskScopes, bd_selectedChildren = length selected,
          bd_remainingBudget = (if nestedSpawnBudgetRemaining = None then None
             else Some (num_max (Num 0) (num_minus remaining (Num (of_nat (length selected)))))),
          bd_reasonCodes = js_set (map snd skipped)\<rparr>)"

text \<open>A sub-session with the id of its parent, as \<open>calculateSubSessionDepth\<close> reads it.\<close>

record SubSession =
  ss_subSessionId :: string
  ss_parentSubSessionId :: "string option"

definition sub_session_map :: "SubSession list \<Rightarrow> (string \<times> SubSession) list" where
  "sub_session_map subSessions = foldl (\<lambda>m s. AList.update (ss_subSessionId s) s m) [] subSessions"

definition parent_link :: "SubSession \<Rightarrow> string option" where
  "parent_link s = (case ss_parentSubSessionId s of None \<Rightarrow> None | Some p \<Rightarrow> if p = [] then None else Some p)"

function session_depth_loop :: "(string \<times> SubSession) list \<Rightarrow> string list \<Rightarrow> SubSession \<Rightarrow> nat \<Rightarrow> nat option" where
  "session_depth_loop byId seen cursor depth =
     (case parent_link cursor of
        None \<Rightarrow> Some depth
      | Some p \<Rightarrow> if ss_subSessionId cursor \<in> set seen then None
          else (case map_of byId p of
             None \<Rightarrow> Some depth
           | Some parent \<Rightarrow> session_depth_loop byId (set_add seen (ss_subSessionId cursor)) parent (depth + 1)))"
  by pat_completeness auto

termination session_depth_loop
proof (relation "measure (\<lambda>(byId, seen, cursor, depth).
    card ((ss_subSessionId \<circ> snd) ` set byId - set seen) + (if ss_subSessionId cursor \<in> (ss_subSessionId \<circ> snd) ` set byId then 0 else 1))")
  fix byId :: "(string \<times> SubSession) list" and seen :: "string list" and cursor parent :: SubSession and depth :: nat and p
  assume new: "ss_subSessionId cursor \<notin> set seen" and parent: "map_of byId p = Some parent"
  let ?ids = "(ss_subSessionId \<circ> snd) ` set byId"
  have p: "ss_subSessionId parent \<in> ?ids" using map_of_SomeD [OF parent] by force
  have "card (?ids - set (set_add seen (ss_subSessionId cursor))) < card (?ids - set seen)" if "ss_subSessionId cursor \<in> ?ids"
    using that new by (intro psubset_card_mono) auto
  moreover have "?ids - set (set_add seen (ss_subSessionId cursor)) = ?ids - set seen" if "ss_subSessionId cursor \<notin> ?ids"
    using that by auto
  ultimately show "((byId, set_add seen (ss_subSessionId cursor), parent, depth + 1), (byId, seen, cursor, depth))
      \<in> measure (\<lambda>(byId, seen, cursor, depth). card ((ss_subSessionId \<circ> snd) ` set byId - set seen)
          + (if ss_subSessionId cursor \<in> (ss_subSessionId \<circ> snd) ` set byId then 0 else 1))"
    using p by (cases "ss_subSessionId cursor \<in> ?ids") auto
qed simp

declare session_depth_loop.simps [simp del]

definition calculateSubSessionDepth :: "string \<Rightarrow> SubSession list \<Rightarrow> nat option" where
  "calculateSubSessionDepth subSessionId subSessions =
     (let byId = sub_session_map subSessions in
      case map_of byId subSessionId of None \<Rightarrow> None | Some target \<Rightarrow> session_depth_loop byId [] target 1)"

section \<open>Command requests\<close>

record ParentLinkage =
  lk_parentRunId :: "string option"
  lk_parentSessionId :: "string option"
  lk_parentSubSessionId :: "string option"
  lk_parentRequestId :: "string option"

record CommandRequest =
  cr_parentRunId :: string
  cr_parent :: "ParentLinkage option"

definition truthy_id :: "string option \<Rightarrow> bool" where
  "truthy_id x \<longleftrightarrow> x \<noteq> None \<and> x \<noteq> Some []"

definition isRootAgent :: "string option \<Rightarrow> string \<Rightarrow> bool" where
  "isRootAgent agentId rootId \<longleftrightarrow> \<not> truthy_id agentId \<or> agentId = Some rootId"

definition commandParentSubSessionId :: "CommandRequest \<Rightarrow> string option" where
  "commandParentSubSessionId command =
     (case cr_parent command of None \<Rightarrow> None
      | Some l \<Rightarrow> (case lk_parentSubSessionId l of None \<Rightarrow> None | Some v \<Rightarrow> if blank v then None else Some (js_trim v)))"

text \<open>The reason codes; the request is accepted when there are none.\<close>

definition validateNestedCommandRequest :: "CommandRequest \<Rightarrow> string option \<Rightarrow> string option \<Rightarrow> string option \<Rightarrow> string list" where
  "validateNestedCommandRequest command parentAgentId rootInput expectedParentSubSessionId =
     (let rootId = or_default rootInput DEFAULT_ROOT_AGENT_ID;
          parentSubSessionId = commandParentSubSessionId command
      in (if (\<not> isRootAgent parentAgentId rootId \<or> truthy_id expectedParentSubSessionId) \<and> parentSubSessionId = None
          then [''nested_parent_sub_session_required''] else [])
       @ (if truthy_id expectedParentSubSessionId \<and> parentSubSessionId \<noteq> None \<and> expectedParentSubSessionId \<noteq> parentSubSessionId
          then [''nested_parent_sub_session_mismatch''] else [])
       @ (case cr_parent command of None \<Rightarrow> []
          | Some l \<Rightarrow> if truthy_id (lk_parentRunId l) \<and> lk_parentRunId l \<noteq> Some (cr_parentRunId command)
              then [''nested_parent_run_mismatch''] else []))"

section \<open>The plan of a nested delegation\<close>

record 'x OrchestrationTask =
  ot_assignedAgentId :: "string option"
  ot_content :: 'x

record PlannerMetadata =
  pm_reasonCodes :: "string list"
  pm_fallbackReasonCodes :: "string list"

record 'x OrchestrationPlan =
  op_parentRunId :: string
  op_parentRequestId :: string
  op_delegatedTasks :: "'x OrchestrationTask list"
  op_schemaVersion :: nat
  op_parent :: "ParentLinkage option"
  op_plannerMetadata :: "PlannerMetadata option"
  op_content :: 'x

record RegistryHierarchy =
  rh_rootAgentId :: string
  rh_directChildrenByParent :: "(string \<times> string list) list"

record OrchestrationRegistrySnapshot =
  rg_agents :: "AgentRegistryEntry list"
  rg_hierarchy :: "RegistryHierarchy option"

text \<open>The planner module: the scope it makes from a request, and the plan with the reason codes it gives for
  the selected scopes. The inputs that are handed on unchanged are part of the function.\<close>

record ('s, 'x) planner =
  buildDefaultStructuredTaskScope :: "string \<Rightarrow> 's"
  buildOrchestrationPlan :: "string \<Rightarrow> string \<Rightarrow> string \<Rightarrow> 's list \<Rightarrow> string \<Rightarrow> 'x OrchestrationPlan \<times> string list"

record 's NestedInput =
  ni_parentRunId :: string
  ni_parentRequestId :: string
  ni_parentAgentId :: string
  ni_userRequest :: string
  ni_registrySnapshot :: OrchestrationRegistrySnapshot
  ni_parentSubSessionId :: "string option"
  ni_parentSubSessionDepth :: "number option"
  ni_taskScopes :: "'s list option"
  ni_maxDepth :: "number option"
  ni_maxChildrenPerAgent :: "number option"
  ni_nestedSpawnBudgetRemaining :: "number option"

datatype nested_status = nested_planned | nested_shrunk | nested_blocked

record ('s, 'x) NestedDelegationPlanResult =
  nr_ok :: bool
  nr_status :: nested_status
  nr_plan :: "'x OrchestrationPlan option"
  nr_parentAgentId :: string
  nr_parentSubSessionId :: "string option"
  nr_parentSubSessionDepth :: int
  nr_childDepth :: int
  nr_budget :: "'s NestedSpawnBudgetDecision"
  nr_reasonCodes :: "string list"
  nr_receiptIds :: "string list option"

definition rootAgentIdFor :: "OrchestrationRegistrySnapshot \<Rightarrow> string" where
  "rootAgentIdFor registry = (case rg_hierarchy registry of None \<Rightarrow> DEFAULT_ROOT_AGENT_ID | Some h \<Rightarrow> rh_rootAgentId h)"

definition attachNestedMetadata :: "'x OrchestrationPlan \<Rightarrow> string option \<Rightarrow> string list \<Rightarrow> 'x OrchestrationPlan" where
  "attachNestedMetadata plan parentSubSessionId reasonCodes =
     (let base = (case op_parent plan of None \<Rightarrow> \<lparr>lk_parentRunId = None, lk_parentSessionId = None,
                    lk_parentSubSessionId = None, lk_parentRequestId = None\<rparr> | Some l \<Rightarrow> l);
          parent = base\<lparr>lk_parentRunId := Some (op_parentRunId plan), lk_parentRequestId := Some (op_parentRequestId plan),
                    lk_parentSubSessionId := (if truthy_id parentSubSessionId then parentSubSessionId else lk_parentSubSessionId base)\<rparr>
      in plan\<lparr>op_schemaVersion := SUB_AGENT_CONTRACT_SCHEMA_VERSION, op_parent := Some parent,
           op_plannerMetadata := map_option (\<lambda>m. m\<lparr>pm_reasonCodes :=
             js_set (pm_reasonCodes m @ reasonCodes @ [''nested_delegation_policy_checked''])\<rparr>) (op_plannerMetadata plan)\<rparr>)"

definition blockedResult :: "'s NestedInput \<Rightarrow> int \<Rightarrow> 's NestedSpawnBudgetDecision \<Rightarrow> string list \<Rightarrow> ('s, 'x) NestedDelegationPlanResult" where
  "blockedResult input parentDepth budget reasonCodes =
     \<lparr>nr_ok = False, nr_status = nested_blocked, nr_plan = None, nr_parentAgentId = ni_parentAgentId input,
      nr_parentSubSessionId = (if truthy_id (ni_parentSubSessionId input) then ni_parentSubSessionId input else None),
      nr_parentSubSessionDepth = parentDepth, nr_childDepth = parentDepth + 1, nr_budget = budget,
      nr_reasonCodes = js_set reasonCodes, nr_receiptIds = None\<rparr>"

primrec registry_children :: "string \<Rightarrow> nat \<Rightarrow> string list \<Rightarrow> AgentRelationship list" where
  "registry_children parent index [] = []"
| "registry_children parent index (child # children) =
     \<lparr>rl_edgeId = ''registry:'' @ parent @ '':'' @ child, rl_parentAgentId = parent, rl_childAgentId = child,
      rl_status = rel_active, rl_sortOrder = Num (of_nat index), rl_createdAt = None, rl_updatedAt = None\<rparr>
     # registry_children parent (index + 1) children"

definition registry_relationships :: "OrchestrationRegistrySnapshot \<Rightarrow> AgentRelationship list" where
  "registry_relationships registry =
     concat (map (\<lambda>(parent, children). registry_children parent 0 children)
       (case rg_hierarchy registry of None \<Rightarrow> [] | Some h \<Rightarrow> rh_directChildrenByParent h))"

definition registry_agents :: "OrchestrationRegistrySnapshot \<Rightarrow> DelegationForestAgent list" where
  "registry_agents registry =
     \<lparr>fa_agentId = rootAgentIdFor registry, fa_agentName = ''Knowbee'', fa_agentType = type_knowbee, fa_status = ag_enabled,
      fa_delegationPolicy = None\<rparr>
     # map (\<lambda>agent. \<lparr>fa_agentId = re_agentId agent,
           fa_agentName = resolveAgentConfigAgentName (re_configAgentType agent) (re_configAgentName agent),
           fa_agentType = type_sub_agent, fa_status = re_status agent, fa_delegationPolicy = re_delegation agent\<rparr>)
         (filter (\<lambda>agent. re_agentId agent \<noteq> rootAgentIdFor registry) (rg_agents registry))"

definition delegationForestFromRegistry :: "host \<Rightarrow> stringify \<Rightarrow> OrchestrationRegistrySnapshot \<Rightarrow> string + DelegationForestSnapshot" where
  "delegationForestFromRegistry H J registry =
     validateDelegationForestSnapshot H J (rootAgentIdFor registry) (registry_agents registry) (registry_relationships registry)"

text \<open>The loop over the delegated tasks: the receipts, or the first denial.\<close>

fun authorize_tasks ::
  "host \<Rightarrow> DelegationForestSnapshot \<Rightarrow> string \<Rightarrow> 'x OrchestrationTask list \<Rightarrow> string list \<Rightarrow> DelegationForestDenialReason + string list" where
  "authorize_tasks H forest callerId [] receipts = Inr receipts"
| "authorize_tasks H forest callerId (task # tasks) receipts =
     (case ot_assignedAgentId task of
        None \<Rightarrow> authorize_tasks H forest callerId tasks receipts
      | Some assigned \<Rightarrow> if assigned = [] then authorize_tasks H forest callerId tasks receipts
          else (case authorizeDelegationInForest H forest (fs_snapshotFingerprint forest) callerId assigned of
              Inl reason \<Rightarrow> Inl reason
            | Inr receipt \<Rightarrow> authorize_tasks H forest callerId tasks (receipts @ [fr_authorizationReceiptId receipt])))"

fun denial_text :: "DelegationForestDenialReason \<Rightarrow> string" where
  "denial_text snapshot_fingerprint_mismatch = ''snapshot_fingerprint_mismatch''"
| "denial_text caller_unknown = ''caller_unknown''"
| "denial_text target_unknown = ''target_unknown''"
| "denial_text caller_inactive = ''caller_inactive''"
| "denial_text target_inactive = ''target_inactive''"
| "denial_text target_not_direct_child = ''target_not_direct_child''"
| "denial_text delegation_disabled = ''delegation_disabled''"
| "denial_text redelegation_denied = ''redelegation_denied''"
| "denial_text direct_child_policy_required = ''direct_child_policy_required''"
| "denial_text target_not_allowed = ''target_not_allowed''"

definition early_reasons :: "'s NestedInput \<Rightarrow> string \<Rightarrow> int \<Rightarrow> int \<Rightarrow> 's NestedSpawnBudgetDecision \<Rightarrow> string list" where
  "early_reasons input rootId childDepth limit budget =
     (if \<not> isRootAgent (Some (ni_parentAgentId input)) rootId \<and> \<not> truthy_id (ni_parentSubSessionId input)
      then [''nested_parent_sub_session_required''] else [])
     @ (if childDepth > limit then [''max_depth_exceeded''] else [])
     @ (if bd_status budget = budget_blocked then bd_reasonCodes budget else [])"

definition buildNestedDelegationPlan ::
  "host \<Rightarrow> stringify \<Rightarrow> ('s, 'x) planner \<Rightarrow> 's NestedInput \<Rightarrow> ('s, 'x) NestedDelegationPlanResult" where
  "buildNestedDelegationPlan H J pl input =
     (let rootId = rootAgentIdFor (ni_registrySnapshot input);
          parentDepth = normalizedDepth (ni_parentSubSessionDepth input);
          childDepth = parentDepth + 1;
          limit = normalizedPositiveInteger (ni_maxDepth input) NESTED_MAX_DEPTH;
          scopes = (case ni_taskScopes input of Some (s # ss) \<Rightarrow> s # ss
                    | _ \<Rightarrow> [buildDefaultStructuredTaskScope pl (ni_userRequest input)]);
          budget = applyNestedSpawnBudget scopes (ni_maxChildrenPerAgent input) (ni_nestedSpawnBudgetRemaining input);
          early = early_reasons input rootId childDepth limit budget
      in if early \<noteq> [] then blockedResult input parentDepth budget early
      else let (built, reasons) = buildOrchestrationPlan pl (ni_parentRunId input) (ni_parentRequestId input)
                   (ni_userRequest input) (bd_selectedTaskScopes budget) (ni_parentAgentId input);
          nestedReasons = [''nested_delegation_planned'']
            @ (if truthy_id (ni_parentSubSessionId input) then [''parent_sub_session_linked''] else [])
            @ (if bd_status budget = budget_shrunk then ''nested_plan_shrunk'' # bd_reasonCodes budget else []);
          plan = attachNestedMetadata built (ni_parentSubSessionId input) nestedReasons
      in if op_delegatedTasks plan = [] then
           blockedResult input parentDepth budget (''nested_delegation_no_direct_child_candidate''
             # (case op_plannerMetadata plan of None \<Rightarrow> [] | Some m \<Rightarrow> pm_reasonCodes m @ pm_fallbackReasonCodes m))
         else case delegationForestFromRegistry H J (ni_registrySnapshot input) of
           Inl e \<Rightarrow> blockedResult input parentDepth budget [''delegation_forest_invalid'']
         | Inr forest \<Rightarrow> (case authorize_tasks H forest (ni_parentAgentId input) (op_delegatedTasks plan) [] of
             Inl reason \<Rightarrow> blockedResult input parentDepth budget [denial_text reason]
           | Inr receipts \<Rightarrow>
               \<lparr>nr_ok = True, nr_status = (if bd_status budget = budget_shrunk then nested_shrunk else nested_planned),
                nr_plan = Some plan, nr_parentAgentId = ni_parentAgentId input,
                nr_parentSubSessionId = (if truthy_id (ni_parentSubSessionId input) then ni_parentSubSessionId input else None),
                nr_parentSubSessionDepth = parentDepth, nr_childDepth = childDepth, nr_budget = budget,
                nr_reasonCodes = js_set (reasons @ nestedReasons), nr_receiptIds = Some receipts\<rparr>))"

section \<open>The budget\<close>

lemma num_le_int_nat: "num_le (Num (of_int z)) (Num (of_nat n)) \<longleftrightarrow> z \<le> int n" "num_le (Num (of_nat n)) (Num (of_int z)) \<longleftrightarrow> int n \<le> z"
proof -
  have e: "(of_nat n :: rat) = of_int (int n)" by simp
  show "num_le (Num (of_int z)) (Num (of_nat n)) \<longleftrightarrow> z \<le> int n" "num_le (Num (of_nat n)) (Num (of_int z)) \<longleftrightarrow> int n \<le> z"
    unfolding e by (simp_all only: num_le_Num of_int_le_iff)
qed

lemma spawn_loop_take:
  assumes "0 \<le> z" "int (length selected) \<le> z"
  shows "fst (spawn_loop (Num (of_int z)) R ss i selected skipped) = selected @ take (nat z - length selected) ss
     \<and> map fst (snd (spawn_loop (Num (of_int z)) R ss i selected skipped))
        = map fst skipped @ [i + min (length ss) (nat z - length selected)..<i + length ss]"
  using assms(2)
proof (induction ss arbitrary: i selected skipped)
  case (Cons s ss)
  have full: "num_le (Num (of_int z)) (Num (of_nat (length selected))) \<longleftrightarrow> z \<le> int (length selected)"
    by (rule num_le_int_nat)
  show ?case
  proof (cases "z \<le> int (length selected)")
    case True
    then have none: "nat z - length selected = 0" by simp
    have "[i..<i + length (s # ss)] = i # [i + 1..<i + 1 + length ss]" by (simp add: upt_conv_Cons del: upt_Suc)
    moreover have "spawn_loop (Num (of_int z)) R (s # ss) i selected skipped = spawn_loop (Num (of_int z)) R ss (i + 1) selected
        (skipped @ [(i, if num_le R (Num (of_nat (length selected))) then ''nested_spawn_budget_exhausted'' else ''max_children_per_agent_exceeded'')])"
      unfolding spawn_loop.simps full if_P [OF True] by (rule refl)
    ultimately show ?thesis using Cons.IH [OF Cons.prems, where i = "i + 1"] none by (simp only: min_0R take_0 append_Nil2 add_0_right
        map_append list.map fst_conv append_assoc append_Cons append_Nil)
  next
    case False
    then have "nat z - length selected = Suc (nat z - Suc (length selected))" by simp
    moreover have "int (length (selected @ [s])) \<le> z" using False by simp
    moreover have "[i + min (length (s # ss)) (Suc k)..<i + length (s # ss)] = [i + 1 + min (length ss) k..<i + 1 + length ss]" for k
      by (simp del: upt_Suc)
    ultimately show ?thesis using False full Cons.IH [of "selected @ [s]" "i + 1" skipped] by (simp del: upt_Suc)
  qed
qed simp

lemma normalizedPositiveInteger_nonneg: "0 \<le> d \<Longrightarrow> 0 \<le> normalizedPositiveInteger v d"
  by (auto simp: normalizedPositiveInteger_def max_safe_integer_def split: option.splits number.splits)

lemma remaining_budget_cases:
  assumes "v \<noteq> Some NaN"
  obtains "remaining_budget v = Infinity" | z where "remaining_budget v = Num (of_int z)" "0 \<le> z"
proof (cases v)
  case (Some n)
  then show ?thesis
  proof (cases n)
    case (Num q)
    have "num_max (Num 0) (Num (of_int k)) = Num (of_int (max 0 k))" for k :: int by (simp add: max_def)
    then have "remaining_budget v = Num (of_int (max 0 \<lfloor>q\<rfloor>))"
      using Some Num by (simp add: remaining_budget_def del: num_max.simps of_int_max)
    then show ?thesis using that(2) [of "max 0 \<lfloor>q\<rfloor>"] by simp
  next
    case NegInfinity
    then have "remaining_budget v = Num (of_int 0)" using Some by (simp add: remaining_budget_def)
    then show ?thesis using that(2) [of 0] by simp
  qed (use Some that(1) assms in \<open>auto simp: remaining_budget_def\<close>)
qed (use that(1) in \<open>simp add: remaining_budget_def\<close>)

lemma spawn_limit:
  assumes "b \<noteq> Some NaN"
  shows "\<exists>z. num_min (Num (of_int (normalizedPositiveInteger m DEFAULT_MAX_CHILDREN_PER_AGENT))) (remaining_budget b) = Num (of_int z)
     \<and> 0 \<le> z \<and> z \<le> normalizedPositiveInteger m DEFAULT_MAX_CHILDREN_PER_AGENT \<and> num_le (Num (of_int z)) (remaining_budget b)"
proof -
  let ?c = "normalizedPositiveInteger m DEFAULT_MAX_CHILDREN_PER_AGENT"
  have c: "0 \<le> ?c" by (rule normalizedPositiveInteger_nonneg) (simp add: DEFAULT_MAX_CHILDREN_PER_AGENT_def)
  from assms show ?thesis
  proof (cases rule: remaining_budget_cases)
    case 1
    then show ?thesis using c by (intro exI [of _ ?c]) (simp add: num_le_def)
  next
    case (2 z)
    then show ?thesis using c by (intro exI [of _ "min ?c z"]) (simp add: min_def)
  qed
qed

text \<open>The budget of children: for a remaining budget that is a number, the selected scopes are the first of the
  requested ones, at most the children allowed per agent and at most the remaining budget; the skipped
  indices are exactly the others; something is skipped only when the limit is used up; and the budget reported
  back is the remaining one less the selected scopes.\<close>

theorem spawn_budget_bounds:
  assumes "b \<noteq> Some NaN" and "d = applyNestedSpawnBudget scopes m b"
  shows "bd_selectedTaskScopes d = take (length (bd_selectedTaskScopes d)) scopes
     \<and> int (length (bd_selectedTaskScopes d)) \<le> normalizedPositiveInteger m DEFAULT_MAX_CHILDREN_PER_AGENT
     \<and> num_le (Num (of_nat (length (bd_selectedTaskScopes d)))) (remaining_budget b)
     \<and> map fst (bd_skipped d) = [length (bd_selectedTaskScopes d)..<length scopes]
     \<and> (bd_skipped d = [] \<or> Num (of_nat (length (bd_selectedTaskScopes d)))
          = num_min (Num (of_int (normalizedPositiveInteger m DEFAULT_MAX_CHILDREN_PER_AGENT))) (remaining_budget b))
     \<and> (b = None \<or> bd_remainingBudget d = Some (num_minus (remaining_budget b) (Num (of_nat (length (bd_selectedTaskScopes d))))))"
proof -
  let ?c = "normalizedPositiveInteger m DEFAULT_MAX_CHILDREN_PER_AGENT"
  obtain z where z: "num_min (Num (of_int ?c)) (remaining_budget b) = Num (of_int z)" "0 \<le> z" "z \<le> ?c"
    "num_le (Num (of_int z)) (remaining_budget b)"
    using spawn_limit [OF assms(1)] by blast
  let ?l = "spawn_loop (Num (of_int z)) (remaining_budget b) scopes 0 [] []"
  note loop = spawn_loop_take [OF z(2), where selected = "[]" and ss = scopes and i = 0 and skipped = "[]" and R = "remaining_budget b"]
  have sel: "bd_selectedTaskScopes d = take (nat z) scopes" and sk: "bd_skipped d = snd ?l"
    using loop z(2) by (simp_all add: assms(2) applyNestedSpawnBudget_def z(1) Let_def split_def)
  have len: "length (bd_selectedTaskScopes d) = min (length scopes) (nat z)" by (simp add: sel)
  have idx: "map fst (bd_skipped d) = [min (length scopes) (nat z)..<length scopes]" using loop z(2) by (simp add: sk)
  have le: "int (min (length scopes) (nat z)) \<le> z" using z(2) by simp
  have "num_le (Num (of_nat (min (length scopes) (nat z)))) (Num (of_int z))"
    using le by (simp only: num_le_int_nat)
  then have within: "num_le (Num (of_nat (min (length scopes) (nat z)))) (remaining_budget b)" using z(4) num_le_trans by blast
  have full: "bd_skipped d = [] \<or> Num (of_nat (min (length scopes) (nat z))) = Num (of_int z)"
  proof (cases "length scopes \<le> nat z")
    case True
    then have "map fst (bd_skipped d) = []" using idx by simp
    then show ?thesis by simp
  next
    case False
    then have "int (min (length scopes) (nat z)) = z" using z(2) by simp
    then show ?thesis by (metis of_int_of_nat_eq)
  qed
  have "bd_remainingBudget d = Some (num_minus (remaining_budget b) (Num (of_nat (min (length scopes) (nat z)))))" if "b \<noteq> None"
  proof -
    have "bd_remainingBudget d = Some (num_max (Num 0) (num_minus (remaining_budget b) (Num (of_nat (min (length scopes) (nat z))))))"
      using that len by (simp add: assms(2) applyNestedSpawnBudget_def z(1) Let_def split_def)
    moreover from assms(1) have "num_max (Num 0) (num_minus (remaining_budget b) (Num (of_nat (min (length scopes) (nat z)))))
        = num_minus (remaining_budget b) (Num (of_nat (min (length scopes) (nat z))))"
      by (cases rule: remaining_budget_cases) (use within in \<open>auto simp: num_minus_def\<close>)
    ultimately show ?thesis by simp
  qed
  then have "b = None \<or> bd_remainingBudget d = Some (num_minus (remaining_budget b) (Num (of_nat (min (length scopes) (nat z)))))" by blast
  moreover have "bd_selectedTaskScopes d = take (length (bd_selectedTaskScopes d)) scopes" unfolding len sel by (simp add: min_def)
  moreover have "int (min (length scopes) (nat z)) \<le> ?c" using le z(3) by linarith
  ultimately show ?thesis using idx within full unfolding len z(1) by (intro conjI) simp_all
qed

section \<open>The depth of a sub-session\<close>

text \<open>The \<open>k\<close>-th ancestor of a sub-session: the parent links followed \<open>k\<close> times, as far as they are known.\<close>

primrec ancestor_session :: "(string \<times> SubSession) list \<Rightarrow> SubSession option \<Rightarrow> nat \<Rightarrow> SubSession option" where
  "ancestor_session byId start 0 = start"
| "ancestor_session byId start (Suc k) =
     (case ancestor_session byId start k of None \<Rightarrow> None
      | Some s \<Rightarrow> (case parent_link s of None \<Rightarrow> None | Some p \<Rightarrow> map_of byId p))"

lemma ancestor_session_shift:
  "ancestor_session byId start (j + k) = ancestor_session byId (ancestor_session byId start j) k"
  by (induction k) simp_all

definition keyed_sessions :: "(string \<times> SubSession) list \<Rightarrow> bool" where
  "keyed_sessions byId \<longleftrightarrow> (\<forall>k s. map_of byId k = Some s \<longrightarrow> ss_subSessionId s = k)"

lemma keyed_sub_session_map: "keyed_sessions (sub_session_map xs)"
proof -
  have step: "keyed_sessions m \<Longrightarrow> keyed_sessions (AList.update (ss_subSessionId s) s m)" for m s
    unfolding keyed_sessions_def update_conv' by simp
  have "keyed_sessions m \<Longrightarrow> keyed_sessions (foldl (\<lambda>m s. AList.update (ss_subSessionId s) s m) m xs)" for m
  proof (induction xs arbitrary: m)
    case (Cons x xs)
    then show ?case using step by simp
  qed simp
  moreover have "keyed_sessions []" by (simp add: keyed_sessions_def)
  ultimately show ?thesis unfolding sub_session_map_def by blast
qed

lemma ancestor_None: "ancestor_session byId None k = None"
  by (induction k) simp_all

lemma ancestor_cycle:
  assumes "ancestor_session byId start j = Some s" "ancestor_session byId start k = Some s" "j < k"
  shows "ancestor_session byId start n \<noteq> None"
proof (induction n rule: less_induct)
  case (less n)
  show ?case
  proof (cases "n \<le> k")
    case True
    then obtain i where "k = n + i" using le_Suc_ex by blast
    then show ?thesis using assms(2) ancestor_session_shift [of byId start n i]
      by (cases "ancestor_session byId start n") (auto simp: ancestor_None)
  next
    case False
    then obtain i where i: "n = k + i" using le_Suc_ex [of k n] by auto
    have "ancestor_session byId start n = ancestor_session byId start (j + i)"
      unfolding i ancestor_session_shift assms(1,2) by (rule refl)
    moreover have "j + i < n" using i assms(3) by simp
    ultimately show ?thesis using less.IH by simp
  qed
qed

lemma ancestor_None_mono: "ancestor_session byId start m = None \<Longrightarrow> m \<le> k \<Longrightarrow> ancestor_session byId start k = None"
  by (metis ancestor_None ancestor_session_shift le_Suc_ex)

lemma ancestor_end:
  assumes "ancestor_session byId start d \<noteq> None" "ancestor_session byId start (Suc d) = None"
  shows "(\<exists>k \<ge> d. n = k + 1 \<and> ancestor_session byId start k \<noteq> None \<and> ancestor_session byId start (k + 1) = None) \<longleftrightarrow> n = Suc d"
proof
  assume "\<exists>k \<ge> d. n = k + 1 \<and> ancestor_session byId start k \<noteq> None \<and> ancestor_session byId start (k + 1) = None"
  then obtain k where k: "d \<le> k" "n = k + 1" "ancestor_session byId start k \<noteq> None" by blast
  have "\<not> Suc d \<le> k" using ancestor_None_mono [OF assms(2), of k] k(3) by auto
  then show "n = Suc d" using k by simp
next
  assume "n = Suc d"
  then show "\<exists>k \<ge> d. n = k + 1 \<and> ancestor_session byId start k \<noteq> None \<and> ancestor_session byId start (k + 1) = None"
    using assms by (intro exI [of _ d]) simp
qed

lemma ancestor_keyed:
  assumes "keyed_sessions byId" "map_of byId (ss_subSessionId target) = Some target"
  shows "ancestor_session byId (Some target) j = Some s \<Longrightarrow> map_of byId (ss_subSessionId s) = Some s"
proof (cases j)
  case (Suc i)
  assume "ancestor_session byId (Some target) j = Some s"
  then obtain p where "map_of byId p = Some s" unfolding Suc by (auto split: option.splits)
  then show ?thesis using assms(1) by (auto simp: keyed_sessions_def)
qed (use assms(2) in auto)

lemma session_depth_loop_ancestors:
  assumes "keyed_sessions byId" and "map_of byId (ss_subSessionId target) = Some target"
  shows "ancestor_session byId (Some target) d = Some cursor \<Longrightarrow>
     set seen = {ss_subSessionId s | s j. j < d \<and> ancestor_session byId (Some target) j = Some s} \<Longrightarrow>
     session_depth_loop byId seen cursor (Suc d) = Some n \<longleftrightarrow>
     (\<exists>k \<ge> d. n = k + 1 \<and> ancestor_session byId (Some target) k \<noteq> None \<and> ancestor_session byId (Some target) (k + 1) = None)"
  using assms
proof (induction byId seen cursor "Suc d" arbitrary: d rule: session_depth_loop.induct)
  case (1 byId seen cursor)
  let ?anc = "ancestor_session byId (Some target)"
  note cursor = "1.prems"(1) and seen = "1.prems"(2) and keyed = "1.prems"(3,4)
  show ?case
  proof (cases "parent_link cursor")
    case None
    then have "?anc (Suc d) = None" using cursor by simp
    from ancestor_end [OF _ this] cursor None show ?thesis by (subst session_depth_loop.simps) auto
  next
    case (Some p)
    show ?thesis
    proof (cases "ss_subSessionId cursor \<in> set seen")
      case True
      then have "ss_subSessionId cursor \<in> {ss_subSessionId s | s j. j < d \<and> ?anc j = Some s}" by (simp only: seen)
      then have "\<exists>s j. ss_subSessionId cursor = ss_subSessionId s \<and> j < d \<and> ?anc j = Some s" by (simp only: mem_Collect_eq)
      then obtain s j where sj: "ss_subSessionId cursor = ss_subSessionId s \<and> j < d \<and> ?anc j = Some s" by (elim exE)
      note j = sj [THEN conjunct2, THEN conjunct1] sj [THEN conjunct2, THEN conjunct2] sj [THEN conjunct1, symmetric]
      have "map_of byId (ss_subSessionId s) = Some s" by (rule ancestor_keyed [OF keyed j(2)])
      moreover have "map_of byId (ss_subSessionId cursor) = Some cursor" by (rule ancestor_keyed [OF keyed cursor])
      ultimately have "s = cursor" unfolding j(3) by (rule option.inject [THEN iffD1, OF trans [OF sym]])
      then have "?anc k \<noteq> None" for k using ancestor_cycle [OF _ cursor j(1)] j(2) by simp
      moreover have "session_depth_loop byId seen cursor (Suc d) = None"
        using Some True by (subst session_depth_loop.simps) simp
      ultimately show ?thesis by (metis option.distinct(1))
    next
      case new: False
      show ?thesis
      proof (cases "map_of byId p")
        case None
        then have "?anc (Suc d) = None" using cursor Some by simp
        from ancestor_end [OF _ this] cursor None Some new show ?thesis by (subst session_depth_loop.simps) auto
      next
        case parent: (Some parent)
        then have next_anc: "?anc (Suc d) = Some parent" using cursor Some by simp
        have seen': "set (set_add seen (ss_subSessionId cursor)) = {ss_subSessionId s | s j. j < Suc d \<and> ?anc j = Some s}"
          unfolding set_set_add seen using cursor by (auto simp: less_Suc_eq)
        have "session_depth_loop byId seen cursor (Suc d) = session_depth_loop byId (set_add seen (ss_subSessionId cursor)) parent (Suc (Suc d))"
          using Some new parent by (subst session_depth_loop.simps) simp
        also have "\<dots> = Some n \<longleftrightarrow> (\<exists>k \<ge> Suc d. n = k + 1 \<and> ?anc k \<noteq> None \<and> ?anc (k + 1) = None)"
          using "1.hyps" [OF Some new parent _ next_anc seen' keyed] by simp
        also have "\<dots> \<longleftrightarrow> (\<exists>k \<ge> d. n = k + 1 \<and> ?anc k \<noteq> None \<and> ?anc (k + 1) = None)"
          using next_anc by (metis Suc_eq_plus1 Suc_leD le_antisym not_less_eq_eq option.distinct(1))
        finally show ?thesis .
      qed
    qed
  qed
qed

text \<open>The depth of a sub-session is the number of its ancestors among the given sub-sessions plus one (a parent
  that is not given ends the chain), and it is undefined exactly for an unknown sub-session and for one whose
  chain of parents never ends.\<close>

theorem sub_session_depth_exact:
  assumes "start = map_of (sub_session_map subSessions) subSessionId"
  shows "(calculateSubSessionDepth subSessionId subSessions = Some n \<longleftrightarrow>
      (\<exists>k. n = k + 1 \<and> ancestor_session (sub_session_map subSessions) start k \<noteq> None
        \<and> ancestor_session (sub_session_map subSessions) start (k + 1) = None))
    \<and> (calculateSubSessionDepth subSessionId subSessions = None \<longleftrightarrow>
      start = None \<or> (\<forall>k. ancestor_session (sub_session_map subSessions) start k \<noteq> None))"
proof -
  let ?m = "sub_session_map subSessions"
  have iff: "calculateSubSessionDepth subSessionId subSessions = Some n \<longleftrightarrow>
      (\<exists>k. n = k + 1 \<and> ancestor_session ?m start k \<noteq> None \<and> ancestor_session ?m start (k + 1) = None)" for n
  proof (cases start)
    case None
    then show ?thesis using assms by (simp add: calculateSubSessionDepth_def ancestor_None Let_def)
  next
    case (Some target)
    then have t: "map_of ?m subSessionId = Some target" using assms by simp
    then have "ss_subSessionId target = subSessionId" using keyed_sub_session_map by (auto simp: keyed_sessions_def)
    then show ?thesis using session_depth_loop_ancestors [OF keyed_sub_session_map, of subSessions target 0 target "[]" n] t
      by (simp add: calculateSubSessionDepth_def Some Let_def)
  qed
  have "(\<exists>n. calculateSubSessionDepth subSessionId subSessions = Some n) \<longleftrightarrow> start \<noteq> None \<and> (\<exists>k. ancestor_session ?m start k = None)"
  proof -
    have "\<exists>k. ancestor_session ?m start k \<noteq> None \<and> ancestor_session ?m start (Suc k) = None"
      if "start \<noteq> None" "ancestor_session ?m start k = None" for k
      using that by (induction k) auto
    moreover have "start \<noteq> None" if "ancestor_session ?m start k \<noteq> None" for k using that ancestor_None by metis
    ultimately show ?thesis unfolding iff by (metis Suc_eq_plus1)
  qed
  then show ?thesis using iff by (metis not_None_eq)
qed

section \<open>What an accepted plan delegates\<close>

lemma authorize_tasks_all:
  "authorize_tasks H forest callerId tasks receipts = Inr rs \<Longrightarrow> task \<in> set tasks \<Longrightarrow> ot_assignedAgentId task = Some t \<Longrightarrow> t \<noteq> []
     \<Longrightarrow> \<exists>receipt. authorizeDelegationInForest H forest (fs_snapshotFingerprint forest) callerId t = Inr receipt"
  by (induction H forest callerId tasks receipts rule: authorize_tasks.induct)
    (auto split: option.splits if_splits sum.splits)

lemma nested_plan_ok:
  assumes "R = buildNestedDelegationPlan H J pl input" and "nr_ok R"
  shows "\<exists>plan forest receipts budget. nr_plan R = Some plan \<and> op_delegatedTasks plan \<noteq> []
     \<and> delegationForestFromRegistry H J (ni_registrySnapshot input) = Inr forest
     \<and> authorize_tasks H forest (ni_parentAgentId input) (op_delegatedTasks plan) [] = Inr receipts
     \<and> nr_childDepth R = normalizedDepth (ni_parentSubSessionDepth input) + 1
     \<and> early_reasons input (rootAgentIdFor (ni_registrySnapshot input)) (normalizedDepth (ni_parentSubSessionDepth input) + 1)
          (normalizedPositiveInteger (ni_maxDepth input) NESTED_MAX_DEPTH) budget = []"
proof -
  define depth where "depth = normalizedDepth (ni_parentSubSessionDepth input)"
  define budget where "budget = applyNestedSpawnBudget
     (case ni_taskScopes input of Some (s # ss) \<Rightarrow> s # ss | _ \<Rightarrow> [buildDefaultStructuredTaskScope pl (ni_userRequest input)])
     (ni_maxChildrenPerAgent input) (ni_nestedSpawnBudgetRemaining input)"
  define early where "early = early_reasons input (rootAgentIdFor (ni_registrySnapshot input)) (depth + 1)
     (normalizedPositiveInteger (ni_maxDepth input) NESTED_MAX_DEPTH) budget"
  obtain built reasons where planned: "buildOrchestrationPlan pl (ni_parentRunId input) (ni_parentRequestId input)
     (ni_userRequest input) (bd_selectedTaskScopes budget) (ni_parentAgentId input) = (built, reasons)" by fastforce
  define nested where "nested = [''nested_delegation_planned'']
            @ (if truthy_id (ni_parentSubSessionId input) then [''parent_sub_session_linked''] else [])
            @ (if bd_status budget = budget_shrunk then ''nested_plan_shrunk'' # bd_reasonCodes budget else [])"
  define plan where "plan = attachNestedMetadata built (ni_parentSubSessionId input) nested"
  have R: "R = (if early \<noteq> [] then blockedResult input depth budget early
      else if op_delegatedTasks plan = [] then
           blockedResult input depth budget (''nested_delegation_no_direct_child_candidate''
             # (case op_plannerMetadata plan of None \<Rightarrow> [] | Some m \<Rightarrow> pm_reasonCodes m @ pm_fallbackReasonCodes m))
         else case delegationForestFromRegistry H J (ni_registrySnapshot input) of
           Inl e \<Rightarrow> blockedResult input depth budget [''delegation_forest_invalid'']
         | Inr forest \<Rightarrow> (case authorize_tasks H forest (ni_parentAgentId input) (op_delegatedTasks plan) [] of
             Inl reason \<Rightarrow> blockedResult input depth budget [denial_text reason]
           | Inr receipts \<Rightarrow>
               \<lparr>nr_ok = True, nr_status = (if bd_status budget = budget_shrunk then nested_shrunk else nested_planned),
                nr_plan = Some plan, nr_parentAgentId = ni_parentAgentId input,
                nr_parentSubSessionId = (if truthy_id (ni_parentSubSessionId input) then ni_parentSubSessionId input else None),
                nr_parentSubSessionDepth = depth, nr_childDepth = depth + 1, nr_budget = budget,
                nr_reasonCodes = js_set (reasons @ nested), nr_receiptIds = Some receipts\<rparr>))"
    unfolding assms(1) buildNestedDelegationPlan_def Let_def depth_def [symmetric] budget_def [symmetric] early_def [symmetric]
      planned prod.case nested_def [symmetric] plan_def [symmetric] by (rule refl)
  have blocked: "\<not> nr_ok (blockedResult input depth budget reasons :: ('a, 'b) NestedDelegationPlanResult)" for reasons
    by (simp add: blockedResult_def)
  have "early = []" using assms(2) blocked unfolding R by (auto split: if_splits)
  moreover have tasks: "op_delegatedTasks plan \<noteq> []" using assms(2) blocked \<open>early = []\<close> unfolding R by (auto split: if_splits)
  moreover obtain forest where forest: "delegationForestFromRegistry H J (ni_registrySnapshot input) = Inr forest"
    using assms(2) blocked \<open>early = []\<close> tasks unfolding R by (cases "delegationForestFromRegistry H J (ni_registrySnapshot input)") auto
  moreover obtain receipts where receipts: "authorize_tasks H forest (ni_parentAgentId input) (op_delegatedTasks plan) [] = Inr receipts"
    using assms(2) blocked \<open>early = []\<close> tasks forest unfolding R
    by (cases "authorize_tasks H forest (ni_parentAgentId input) (op_delegatedTasks plan) []") auto
  ultimately have "nr_plan R = Some plan" "nr_childDepth R = depth + 1" unfolding R by simp_all
  then show ?thesis
    using \<open>early = []\<close> tasks forest receipts unfolding early_def depth_def by blast
qed

text \<open>C7. When a nested delegation is planned, the sub-session is within the depth limit, a caller other than the
  main agent acts from a sub-session, and every delegated task that is assigned goes to an enabled agent which
  the registry has as a direct child of the enabled caller, and to which the caller's policy allows
  delegating. The registry forms a valid forest.\<close>

theorem nested_plan_authorized:
  assumes "nr_ok (buildNestedDelegationPlan H J pl input)"
  shows "\<exists>plan forest. nr_plan (buildNestedDelegationPlan H J pl input) = Some plan \<and> op_delegatedTasks plan \<noteq> []
     \<and> delegationForestFromRegistry H J (ni_registrySnapshot input) = Inr forest
     \<and> nr_childDepth (buildNestedDelegationPlan H J pl input) \<le> normalizedPositiveInteger (ni_maxDepth input) NESTED_MAX_DEPTH
     \<and> (isRootAgent (Some (ni_parentAgentId input)) (rootAgentIdFor (ni_registrySnapshot input)) \<or> truthy_id (ni_parentSubSessionId input))
     \<and> (\<forall>task \<in> set (op_delegatedTasks plan). \<forall>t. ot_assignedAgentId task = Some t \<longrightarrow> t \<noteq> [] \<longrightarrow>
          (\<exists>r \<in> set (registry_relationships (ni_registrySnapshot input)). rl_parentAgentId r = ni_parentAgentId input \<and> rl_childAgentId r = t)
          \<and> (\<exists>caller \<in> set (fs_agents forest). fa_agentId caller = ni_parentAgentId input \<and> fa_status caller = ag_enabled \<and> policy_allows caller t)
          \<and> (\<exists>target \<in> set (fs_agents forest). fa_agentId target = t \<and> fa_status target = ag_enabled))"
proof -
  from nested_plan_ok [OF refl assms] obtain plan forest receipts budget where
    plan: "nr_plan (buildNestedDelegationPlan H J pl input) = Some plan" "op_delegatedTasks plan \<noteq> []"
    and forest: "delegationForestFromRegistry H J (ni_registrySnapshot input) = Inr forest"
    and auth: "authorize_tasks H forest (ni_parentAgentId input) (op_delegatedTasks plan) [] = Inr receipts"
    and depth: "nr_childDepth (buildNestedDelegationPlan H J pl input) = normalizedDepth (ni_parentSubSessionDepth input) + 1"
    and early: "early_reasons input (rootAgentIdFor (ni_registrySnapshot input)) (normalizedDepth (ni_parentSubSessionDepth input) + 1)
          (normalizedPositiveInteger (ni_maxDepth input) NESTED_MAX_DEPTH) budget = []"
    by blast
  note validated = forest [unfolded delegationForestFromRegistry_def]
  have edges: "(p, c) \<in> links (fs_relationships forest) \<Longrightarrow> \<exists>r \<in> set (registry_relationships (ni_registrySnapshot input)).
      rl_parentAgentId r = p \<and> rl_childAgentId r = c" for p c
    using validated_relationships [OF validated] by (auto simp: links_def)
  have "(ni_parentAgentId input, t) \<in> links (fs_relationships forest)
      \<and> (\<exists>caller \<in> set (fs_agents forest). fa_agentId caller = ni_parentAgentId input \<and> fa_status caller = ag_enabled \<and> policy_allows caller t)
      \<and> (\<exists>target \<in> set (fs_agents forest). fa_agentId target = t \<and> fa_status target = ag_enabled)"
    if "task \<in> set (op_delegatedTasks plan)" "ot_assignedAgentId task = Some t" "t \<noteq> []" for task t
    using authorize_tasks_all [OF auth that] authorized_iff [OF validated] by blast
  moreover have "normalizedDepth (ni_parentSubSessionDepth input) + 1 \<le> normalizedPositiveInteger (ni_maxDepth input) NESTED_MAX_DEPTH"
    "isRootAgent (Some (ni_parentAgentId input)) (rootAgentIdFor (ni_registrySnapshot input)) \<or> truthy_id (ni_parentSubSessionId input)"
    using early by (auto simp: early_reasons_def split: if_splits)
  ultimately show ?thesis using plan forest depth edges by (intro exI [of _ plan] exI [of _ forest]) auto
qed

text \<open>An agent is eligible for a task exactly if it is enabled, allowed to receive delegations, keeps all its
  memory scopes to itself and has every required capability.\<close>

theorem eligible_iff:
  "el_eligible (evaluateDelegationEligibility requiredCapabilities agent) \<longleftrightarrow>
     re_status agent = ag_enabled \<and> re_delegationEnabled agent \<and> memoryPolicyIsIsolated agent
     \<and> (\<forall>cap \<in> set requiredCapabilities. blank cap \<or> js_trim cap \<in> set (availableCapabilities agent))"
  by (auto simp: evaluateDelegationEligibility_def Let_def filter_empty_conv set_uniqueNonEmpty)

text \<open>No run of accepted transitions leaves the archived status.\<close>

lemma archived_stays:
  "assertAgentLifecycleTransition ag_archived toStatus = Inr () \<longleftrightarrow> toStatus = ag_archived"
  "fromStatus \<noteq> ag_archived \<Longrightarrow> assertAgentLifecycleTransition fromStatus toStatus = Inr ()"
  by (simp_all add: assertAgentLifecycleTransition_def validateAgentLifecycleTransition_def Let_def)

section \<open>Examples\<close>

definition worker_entry :: AgentRegistryEntry where
  "worker_entry = \<lparr>re_agentId = ''w'', re_status = ag_enabled, re_role = ''writer'', re_specialtyTags = [], re_enabledSkillIds = [],
     re_enabledMcpServerIds = [], re_enabledToolNames = [''edit''],
     re_permissionProfile = \<lparr>allowExternalNetwork = False, allowFilesystemWrite = True, allowShellExecution = False, allowScreenControl = False\<rparr>,
     re_delegationEnabled = True, re_memoryOwner = \<lparr>ownerType = ''sub_agent'', ownerId = ''w''\<rparr>,
     re_memoryWriteScope = \<lparr>ownerType = ''sub_agent'', ownerId = ''w''\<rparr>, re_memoryReadScopes = [],
     re_configAgentType = type_sub_agent, re_configAgentName = Some ''Writer'', re_delegation = None\<rparr>"

definition small_registry :: OrchestrationRegistrySnapshot where
  "small_registry = \<lparr>rg_agents = [worker_entry],
     rg_hierarchy = Some \<lparr>rh_rootAgentId = ''m'', rh_directChildrenByParent = [(''m'', [''w''])]\<rparr>\<rparr>"

definition small_forest :: DelegationForestSnapshot where
  "small_forest = \<lparr>fs_rootAgentId = ''m'',
     fs_agents = [\<lparr>fa_agentId = ''m'', fa_agentName = ''Knowbee'', fa_agentType = type_knowbee, fa_status = ag_enabled, fa_delegationPolicy = None\<rparr>,
       \<lparr>fa_agentId = ''w'', fa_agentName = ''Writer'', fa_agentType = type_sub_agent, fa_status = ag_enabled, fa_delegationPolicy = None\<rparr>],
     fs_relationships = registry_children ''m'' 0 [''w''], fs_rootAgentIds = [''m''],
     fs_directChildAgentIdsByParent = [(''m'', [''w''])], fs_snapshotFingerprint = ''sha256:m''\<rparr>"

definition one_task :: "nat OrchestrationTask" where
  "one_task = \<lparr>ot_assignedAgentId = Some ''w'', ot_content = 1\<rparr>"

definition small_planner :: "(nat, nat) planner" where
  "small_planner = \<lparr>buildDefaultStructuredTaskScope = \<lambda>_. 0, buildOrchestrationPlan = \<lambda>run request text scopes parent.
     (\<lparr>op_parentRunId = run, op_parentRequestId = request, op_delegatedTasks = [one_task], op_schemaVersion = 1, op_parent = None,
       op_plannerMetadata = None, op_content = 0\<rparr>, [])\<rparr>"

definition small_input :: "nat NestedInput" where
  "small_input = \<lparr>ni_parentRunId = ''run'', ni_parentRequestId = ''req'', ni_parentAgentId = ''m'', ni_userRequest = ''write'',
     ni_registrySnapshot = small_registry, ni_parentSubSessionId = None, ni_parentSubSessionDepth = None, ni_taskScopes = Some [7, 8, 9],
     ni_maxDepth = None, ni_maxChildrenPerAgent = Some (Num 2), ni_nestedSpawnBudgetRemaining = Some (Num 5)\<rparr>"

theorem spawn_budget_bounds_witness:
  "length (bd_selectedTaskScopes (applyNestedSpawnBudget [7, 8, 9 :: nat] (Some (Num 2)) (Some (Num 5)))) \<le> 2
   \<and> bd_remainingBudget (applyNestedSpawnBudget [7, 8, 9 :: nat] (Some (Num 2)) (Some (Num 5))) = Some (Num 3)"
proof -
  have s: "bd_selectedTaskScopes (applyNestedSpawnBudget [7, 8, 9 :: nat] (Some (Num 2)) (Some (Num 5))) = [7, 8]"
    by (simp add: applyNestedSpawnBudget_def normalizedPositiveInteger_def remaining_budget_def Let_def)
  from spawn_budget_bounds [OF _ refl, of "Some (Num 5)" "[7, 8, 9 :: nat]" "Some (Num 2)"] show ?thesis
    by (simp add: s normalizedPositiveInteger_def remaining_budget_def)
qed

theorem sub_session_depth_exact_witness:
  "calculateSubSessionDepth ''b'' [\<lparr>ss_subSessionId = ''a'', ss_parentSubSessionId = Some ''x''\<rparr>,
     \<lparr>ss_subSessionId = ''b'', ss_parentSubSessionId = Some ''a''\<rparr>] = Some 2"
  using sub_session_depth_exact [OF refl, of "''b''" "[\<lparr>ss_subSessionId = ''a'', ss_parentSubSessionId = Some ''x''\<rparr>,
     \<lparr>ss_subSessionId = ''b'', ss_parentSubSessionId = Some ''a''\<rparr>]" 2]
  by (simp add: sub_session_map_def parent_link_def)

lemma small_agents: "mapM normalize_agent (registry_agents small_registry) = Inr (fs_agents small_forest)"
  by code_simp

lemma small_forest_built: "delegationForestFromRegistry plain_host (\<lambda>rt as rs. rt) small_registry = Inr small_forest"
proof -
  have root: "requireText (required_field ''Root agent ID'') (rootAgentIdFor small_registry) = Inr ''m''" by code_simp
  have ne: "registry_agents small_registry = [] \<longleftrightarrow> False" by (simp add: registry_agents_def)
  have m: "agent_map [] (fs_agents small_forest) = Inr (map (\<lambda>a. (fa_agentId a, a)) (fs_agents small_forest))"
    by (simp add: small_forest_def)
  have k: "(case map_of (map (\<lambda>a. (fa_agentId a, a)) (fs_agents small_forest)) ''m'' of None \<Rightarrow> True | Some a \<Rightarrow> fa_agentType a \<noteq> type_knowbee) \<longleftrightarrow> False"
    by (simp add: small_forest_def)
  have names: "findAgentNameNamespaceConflict (map name_entry (fs_agents small_forest)) = None" by code_simp
  have act: "filter active (registry_relationships small_registry) = registry_children ''m'' 0 [''w'']"
    by (simp add: registry_relationships_def small_registry_def)
  have v: "validateAgentRelationship (relationship_js \<lparr>rl_edgeId = ''registry:m:w'', rl_parentAgentId = ''m'', rl_childAgentId = ''w'',
      rl_status = rel_active, rl_sortOrder = Num 0, rl_createdAt = None, rl_updatedAt = None\<rparr>) = []"
    by (simp add: validate_typed_relationship blank_iff js_ws_def)
  have ix: "index_relationships (map (\<lambda>a. (fa_agentId a, a)) (fs_agents small_forest)) (registry_children ''m'' 0 [''w'']) empty_index
      = Inr \<lparr>fi_edgeIds = [''registry:m:w''], fi_relationshipPairs = [''m'' @ [CHR 0x00] @ ''w''], fi_parentByChild = [(''w'', ''m'')],
             fi_childrenByParent = [(''m'', [''w''])]\<rparr>"
    by (simp add: add_relationship_def v empty_index_def lookup_list_def set_add_def pair_key_def small_forest_def Let_def)
  have ac: "assertNoCycles (map fst (map (\<lambda>a. (fa_agentId a, a)) (fs_agents small_forest))) [(''m'', [''w''])] = Inr ()" by code_simp
  have top: "map_of [(''w'', ''m'')] ''m'' \<noteq> None \<longleftrightarrow> False" by simp
  have built: "build_snapshot plain_host (\<lambda>rt as rs. rt) ''m'' (fs_agents small_forest) (map (\<lambda>a. (fa_agentId a, a)) (fs_agents small_forest))
      (registry_children ''m'' 0 [''w'']) \<lparr>fi_edgeIds = [''registry:m:w''], fi_relationshipPairs = [''m'' @ [CHR 0x00] @ ''w''],
        fi_parentByChild = [(''w'', ''m'')], fi_childrenByParent = [(''m'', [''w''])]\<rparr> = small_forest"
    by code_simp
  show ?thesis
    unfolding delegationForestFromRegistry_def validateDelegationForestSnapshot_def root rbind_simps ne if_False small_agents m k names
      option.case act Let_def ix forest_index.select_convs top ac built by (rule refl)
qed

lemma small_plan_ok: "nr_ok (buildNestedDelegationPlan plain_host (\<lambda>rt as rs. rt) small_planner small_input)"
proof -
  have budget: "applyNestedSpawnBudget [7, 8, 9 :: nat] (Some (Num 2)) (Some (Num 5)) = \<lparr>bd_status = budget_shrunk,
     bd_selectedTaskScopes = [7, 8], bd_skipped = [(2, ''max_children_per_agent_exceeded'')], bd_requestedChildren = 3,
     bd_selectedChildren = 2, bd_remainingBudget = Some (Num 3), bd_reasonCodes = [''max_children_per_agent_exceeded'']\<rparr>"
    by (simp add: applyNestedSpawnBudget_def normalizedPositiveInteger_def remaining_budget_def js_set_def set_add_def Let_def)
  have auth: "\<exists>rs. authorize_tasks plain_host small_forest ''m'' [one_task] [] = Inr rs"
    by (simp add: one_task_def authorizeDelegationInForest_def agent_of_def small_forest_def lookup_list_def policy_denial_def)
  have input: "ni_registrySnapshot small_input = small_registry" "ni_taskScopes small_input = Some [7, 8, 9]"
    "ni_maxChildrenPerAgent small_input = Some (Num 2)" "ni_nestedSpawnBudgetRemaining small_input = Some (Num 5)"
    "ni_parentAgentId small_input = ''m''" "ni_parentSubSessionId small_input = None" "ni_parentSubSessionDepth small_input = None"
    "ni_maxDepth small_input = None" by (simp_all add: small_input_def)
  have root: "rootAgentIdFor small_registry = ''m''" by (simp add: rootAgentIdFor_def small_registry_def)
  have tasks: "op_delegatedTasks (attachNestedMetadata (fst (buildOrchestrationPlan small_planner a b c d e)) f g) = [one_task]" for a b c d e f g
    by (simp add: attachNestedMetadata_def small_planner_def Let_def)
  show ?thesis using auth
    by (auto simp: buildNestedDelegationPlan_def input root budget early_reasons_def isRootAgent_def normalizedDepth_def
        normalizedPositiveInteger_def NESTED_MAX_DEPTH_def tasks small_forest_built Let_def split_def)
qed

theorem nested_plan_authorized_witness:
  "\<exists>plan. nr_plan (buildNestedDelegationPlan plain_host (\<lambda>rt as rs. rt) small_planner small_input) = Some plan
     \<and> (\<exists>r \<in> set (registry_relationships small_registry). rl_parentAgentId r = ''m'')
     \<and> op_delegatedTasks plan \<noteq> []"
proof -
  have "\<exists>r \<in> set (registry_relationships small_registry). rl_parentAgentId r = ''m''"
    by (simp add: registry_relationships_def small_registry_def)
  then show ?thesis using nested_plan_authorized [OF small_plan_ok] by blast
qed

end
