(* ===== verification/Queue_Backpressure.thy ===== *)
theory Queue_Backpressure
  imports Prelude Machines
begin

text \<open>
  The bounded task queues of \<open>runs/queue-backpressure.ts\<close>. A queue keeps its number of running jobs
  and its waiting jobs; the code shares these objects by reference between the calls of \<open>runJob\<close>
  that are in progress, so the model has an explicit store of them (\<open>objects\<close>, addressed by
  numbers) and \<open>queueStates\<close> names the current object of a queue. A job in progress is suspended in
  \<open>runJob\<close> at its \<open>await\<close>; an event settles it (the task resolves or rejects, or the timer fires)
  and the rest of \<open>runJob\<close> runs. The promise a call returns is a ticket, counted from 0;
  \<open>settled\<close> lists the calls of \<open>resolve\<close> and \<open>reject\<close> in their order.
\<close>

section \<open>Budgets\<close>

datatype QueueName =
    fast_receipt | interactive_run | tool_execution | delivery | web_browser | memory_index | diagnostic | schedule_tick

definition QUEUE_NAMES :: "QueueName list" where
  "QUEUE_NAMES = [fast_receipt, interactive_run, tool_execution, delivery, web_browser, memory_index, diagnostic, schedule_tick]"

fun queue_text :: "QueueName \<Rightarrow> string" where
  "queue_text fast_receipt = ''fast_receipt''"
| "queue_text interactive_run = ''interactive_run''"
| "queue_text tool_execution = ''tool_execution''"
| "queue_text delivery = ''delivery''"
| "queue_text web_browser = ''web_browser''"
| "queue_text memory_index = ''memory_index''"
| "queue_text diagnostic = ''diagnostic''"
| "queue_text schedule_tick = ''schedule_tick''"

record QueueBudget =
  concurrency :: number
  timeoutMs :: number
  backoffMs :: number
  maxPending :: number

text \<open>\<open>Partial<QueueBudget>\<close>.\<close>

record PartialBudget =
  concurrency_override :: "number option"
  timeoutMs_override :: "number option"
  backoffMs_override :: "number option"
  maxPending_override :: "number option"

fun DEFAULT_QUEUE_BUDGETS :: "QueueName \<Rightarrow> QueueBudget" where
  "DEFAULT_QUEUE_BUDGETS fast_receipt = \<lparr>concurrency = Num 8, timeoutMs = Num 500, backoffMs = Num 0, maxPending = Num 100\<rparr>"
| "DEFAULT_QUEUE_BUDGETS interactive_run = \<lparr>concurrency = Num 2, timeoutMs = Num 120000, backoffMs = Num 500, maxPending = Num 50\<rparr>"
| "DEFAULT_QUEUE_BUDGETS tool_execution = \<lparr>concurrency = Num 4, timeoutMs = Num 60000, backoffMs = Num 1000, maxPending = Num 80\<rparr>"
| "DEFAULT_QUEUE_BUDGETS delivery = \<lparr>concurrency = Num 3, timeoutMs = Num 30000, backoffMs = Num 1500, maxPending = Num 100\<rparr>"
| "DEFAULT_QUEUE_BUDGETS web_browser = \<lparr>concurrency = Num 1, timeoutMs = Num 20000, backoffMs = Num 2000, maxPending = Num 10\<rparr>"
| "DEFAULT_QUEUE_BUDGETS memory_index = \<lparr>concurrency = Num 1, timeoutMs = Num 90000, backoffMs = Num 2000, maxPending = Num 500\<rparr>"
| "DEFAULT_QUEUE_BUDGETS diagnostic = \<lparr>concurrency = Num 1, timeoutMs = Num 30000, backoffMs = Num 1000, maxPending = Num 20\<rparr>"
| "DEFAULT_QUEUE_BUDGETS schedule_tick = \<lparr>concurrency = Num 2, timeoutMs = Num 30000, backoffMs = Num 1000, maxPending = Num 200\<rparr>"

text \<open>\<open>override?.x ?? base.x\<close>.\<close>

definition overridden :: "PartialBudget option \<Rightarrow> (PartialBudget \<Rightarrow> number option) \<Rightarrow> number \<Rightarrow> number" where
  "overridden override field base =
     (case override of None \<Rightarrow> base | Some ov \<Rightarrow> (case field ov of None \<Rightarrow> base | Some x \<Rightarrow> x))"

definition budgetFor :: "QueueName \<Rightarrow> PartialBudget option \<Rightarrow> QueueBudget" where
  "budgetFor queueName override =
     (let base = DEFAULT_QUEUE_BUDGETS queueName in
      \<lparr>concurrency = num_max (Num 1) (num_floor (overridden override concurrency_override (concurrency base))),
       timeoutMs = num_max (Num 1) (num_floor (overridden override timeoutMs_override (timeoutMs base))),
       backoffMs = num_max (Num 0) (num_floor (overridden override backoffMs_override (backoffMs base))),
       maxPending = num_max (Num 0) (num_floor (overridden override maxPending_override (maxPending base)))\<rparr>)"

section \<open>Jobs, queues and the process\<close>

datatype queue_code = queue_full | queue_timeout

datatype failure = QueueBackpressureError queue_code QueueName string | TaskError string

datatype 'v settlement = Resolved 'v | Rejected failure

record QueueJob =
  job_id :: string
  runId :: "string option"
  requestGroupId :: "string option"
  recoveryKey :: "string option"
  createdAt :: int
  ticket :: nat

record QueueState =
  running :: int
  pending :: "QueueJob list"

text \<open>A call of \<open>runJob\<close> at its \<open>await\<close>: the object its \<open>state\<close> refers to, and its arguments.\<close>

record ActiveJob =
  a_state :: nat
  a_queue :: QueueName
  a_budget :: QueueBudget
  a_job :: QueueJob

record RecoveryState =
  recovery_count :: nat
  updatedAt :: int

record QueueEvent =
  ev_queueName :: QueueName
  ev_eventKind :: string
  ev_actionTaken :: string
  ev_runId :: "string option"
  ev_requestGroupId :: "string option"
  ev_pendingCount :: nat
  ev_retryCount :: nat
  ev_recoveryKey :: "string option"
  ev_detail :: "(string \<times> string) list"

record 'v process =
  objects :: "nat \<Rightarrow> QueueState"
  nobjects :: nat
  queueStates :: "(QueueName \<times> nat) list"
  recoveryStates :: "(string \<times> RecoveryState) list"
  active :: "ActiveJob list"
  settled :: "(nat \<times> 'v settlement) list"
  tickets :: nat
  events :: "QueueEvent list"

definition empty_queue :: QueueState where
  "empty_queue = \<lparr>running = 0, pending = []\<rparr>"

definition start_process :: "'v process" where
  "start_process = \<lparr>objects = \<lambda>_. empty_queue, nobjects = 0, queueStates = [], recoveryStates = [], active = [],
     settled = [], tickets = 0, events = []\<rparr>"

text \<open>What the module imports: the redaction of log texts, and how a number is printed.\<close>

record queue_host =
  redactLogText :: "string \<Rightarrow> string"
  print_number :: "number \<Rightarrow> string"

section \<open>Operations\<close>

definition stateFor :: "QueueName \<Rightarrow> 'v process \<Rightarrow> nat \<times> 'v process" where
  "stateFor queueName w =
     (case map_of (queueStates w) queueName of
        Some i \<Rightarrow> (i, w)
      | None \<Rightarrow> (nobjects w, w\<lparr>objects := (objects w)(nobjects w := empty_queue), nobjects := nobjects w + 1,
                   queueStates := AList.update queueName (nobjects w) (queueStates w)\<rparr>))"

definition recoveryStateKey :: "QueueName \<Rightarrow> string \<Rightarrow> string" where
  "recoveryStateKey queueName key = queue_text queueName @ '':'' @ key"

text \<open>\<open>...(x ? { x } : {})\<close>: an empty string is dropped.\<close>

definition truthy_text :: "string option \<Rightarrow> string option" where
  "truthy_text x = (if x = Some [] then None else x)"

text \<open>The event is written by the database module; a failure of the write is swallowed.\<close>

definition safeRecordQueueEvent :: "QueueEvent \<Rightarrow> 'v process \<Rightarrow> 'v process" where
  "safeRecordQueueEvent e w =
     w\<lparr>events := events w @ [e\<lparr>ev_runId := truthy_text (ev_runId e), ev_requestGroupId := truthy_text (ev_requestGroupId e),
        ev_recoveryKey := truthy_text (ev_recoveryKey e)\<rparr>]\<rparr>"

definition recordQueueBackpressureEvent :: "QueueEvent \<Rightarrow> 'v process \<Rightarrow> 'v process" where
  "recordQueueBackpressureEvent = safeRecordQueueEvent"

definition job_event :: "QueueName \<Rightarrow> string \<Rightarrow> string \<Rightarrow> QueueJob \<Rightarrow> nat \<Rightarrow> (string \<times> string) list \<Rightarrow> QueueEvent" where
  "job_event queueName kind action job pendingCount detail =
     \<lparr>ev_queueName = queueName, ev_eventKind = kind, ev_actionTaken = action, ev_runId = runId job,
      ev_requestGroupId = requestGroupId job, ev_pendingCount = pendingCount, ev_retryCount = 0,
      ev_recoveryKey = recoveryKey job, ev_detail = detail\<rparr>"

definition set_object :: "nat \<Rightarrow> (QueueState \<Rightarrow> QueueState) \<Rightarrow> 'v process \<Rightarrow> 'v process" where
  "set_object i f w = w\<lparr>objects := (objects w)(i := f (objects w i))\<rparr>"

text \<open>\<open>runJob\<close> up to its \<open>await\<close>.\<close>

definition runJob :: "QueueName \<Rightarrow> QueueBudget \<Rightarrow> QueueJob \<Rightarrow> 'v process \<Rightarrow> 'v process" where
  "runJob queueName budget job w =
     (let (i, w) = stateFor queueName w;
          w = set_object i (\<lambda>s. s\<lparr>running := running s + 1\<rparr>) w;
          w = safeRecordQueueEvent (job_event queueName ''running'' ''dequeue'' job (length (pending (objects w i))) []) w
      in w\<lparr>active := active w @ [\<lparr>a_state = i, a_queue = queueName, a_budget = budget, a_job = job\<rparr>]\<rparr>)"

definition has_slot :: "int \<Rightarrow> QueueBudget \<Rightarrow> bool" where
  "has_slot n budget \<longleftrightarrow> num_lt (Num (of_int n)) (concurrency budget)"

text \<open>The loop of \<open>runNext\<close> over the object \<open>i\<close>.\<close>

function run_loop :: "QueueName \<Rightarrow> QueueBudget \<Rightarrow> nat \<Rightarrow> 'v process \<Rightarrow> 'v process" where
  "run_loop queueName budget i w =
     (if \<not> has_slot (running (objects w i)) budget then w
      else case pending (objects w i) of
        [] \<Rightarrow> w
      | job # rest \<Rightarrow> run_loop queueName budget i (runJob queueName budget job (set_object i (\<lambda>s. s\<lparr>pending := rest\<rparr>) w)))"
  by auto

termination run_loop
  by (relation "measure (\<lambda>(q, b, i, w). length (pending (objects w i)))")
    (auto simp: runJob_def stateFor_def set_object_def safeRecordQueueEvent_def empty_queue_def Let_def split: option.splits)

declare run_loop.simps [simp del]

definition runNext :: "QueueName \<Rightarrow> QueueBudget \<Rightarrow> 'v process \<Rightarrow> 'v process" where
  "runNext queueName budget w = (let (i, w) = stateFor queueName w in run_loop queueName budget i w)"

definition settle :: "nat \<Rightarrow> 'v settlement \<Rightarrow> 'v process \<Rightarrow> 'v process" where
  "settle t r w = w\<lparr>settled := settled w @ [(t, r)]\<rparr>"

fun failure_text :: "failure \<Rightarrow> string" where
  "failure_text (QueueBackpressureError code q message) = message"
| "failure_text (TaskError message) = message"

fun is_queue_timeout :: "failure \<Rightarrow> bool" where
  "is_queue_timeout (QueueBackpressureError code q message) = (code = queue_timeout)"
| "is_queue_timeout (TaskError message) = False"

text \<open>\<open>runJob\<close> after its \<open>await\<close>: the job is settled, its slot released, and waiting jobs are started.\<close>

definition finish_job :: "queue_host \<Rightarrow> ActiveJob \<Rightarrow> 'v settlement \<Rightarrow> 'v process \<Rightarrow> 'v process" where
  "finish_job H a r w =
     (let i = a_state a; job = a_job a; waiting = length (pending (objects w i));
          w = w\<lparr>active := remove1 a (active w)\<rparr>;
          w = (case r of
                 Resolved v \<Rightarrow> safeRecordQueueEvent (job_event (a_queue a) ''completed'' ''complete'' job waiting [])
                                (settle (ticket job) r w)
               | Rejected e \<Rightarrow> settle (ticket job) r
                   (safeRecordQueueEvent (job_event (a_queue a) (if is_queue_timeout e then ''timeout'' else ''failed'')
                      (if is_queue_timeout e then ''timeout'' else ''fail'') job waiting
                      [(''error'', redactLogText H (failure_text e))]) w));
          w = set_object i (\<lambda>s. s\<lparr>running := max 0 (running s - 1)\<rparr>) w
      in runNext (a_queue a) (a_budget a) w)"

definition timeout_failure :: "queue_host \<Rightarrow> ActiveJob \<Rightarrow> failure" where
  "timeout_failure H a = QueueBackpressureError queue_timeout (a_queue a)
     (queue_text (a_queue a) @ '' queue timeout after '' @ print_number H (timeoutMs (a_budget a)) @ ''ms'')"

text \<open>The input of \<open>enqueueBackpressureTask\<close> with what it reads: the time and a random identifier.\<close>

record EnqueueInput =
  in_queue :: QueueName
  in_runId :: "string option"
  in_requestGroupId :: "string option"
  in_recoveryKey :: "string option"
  in_budget :: "PartialBudget option"
  in_now :: int
  in_uuid :: string

definition new_job :: "EnqueueInput \<Rightarrow> nat \<Rightarrow> QueueJob" where
  "new_job input t = \<lparr>job_id = in_uuid input, runId = truthy_text (in_runId input),
     requestGroupId = truthy_text (in_requestGroupId input), recoveryKey = truthy_text (in_recoveryKey input),
     createdAt = in_now input, ticket = t\<rparr>"

definition queue_is_full :: "QueueBudget \<Rightarrow> QueueState \<Rightarrow> bool" where
  "queue_is_full budget s \<longleftrightarrow> num_le (concurrency budget) (Num (of_int (running s)))
     \<and> num_le (maxPending budget) (Num (of_nat (length (pending s))))"

definition enqueueBackpressureTask :: "EnqueueInput \<Rightarrow> 'v process \<Rightarrow> 'v process" where
  "enqueueBackpressureTask input w =
     (let q = in_queue input; budget = budgetFor q (in_budget input);
          (i, w) = stateFor q w; t = tickets w; w = w\<lparr>tickets := t + 1\<rparr>; job = new_job input t;
          s = objects w i
      in if queue_is_full budget s then
           settle t (Rejected (QueueBackpressureError queue_full q (queue_text q @ '' queue is full'')))
             (safeRecordQueueEvent (job_event q ''rejected'' ''queue_full'' job (length (pending s)) []) w)
         else
           let w = set_object i (\<lambda>s. s\<lparr>pending := pending s @ [job]\<rparr>) w;
               w = safeRecordQueueEvent (job_event q ''queued''
                     (if has_slot (running s) budget then ''run_immediately'' else ''wait'') job (length (pending s) + 1) []) w
           in runNext q budget w)"

record RecoveryInput =
  rec_queue :: QueueName
  rec_key :: string
  rec_runId :: "string option"
  rec_requestGroupId :: "string option"
  rec_reason :: "string option"

definition recovery_event :: "RecoveryInput \<Rightarrow> string \<Rightarrow> string \<Rightarrow> nat \<Rightarrow> (string \<times> string) list \<Rightarrow> QueueEvent" where
  "recovery_event input kind action n detail =
     \<lparr>ev_queueName = rec_queue input, ev_eventKind = kind, ev_actionTaken = action, ev_runId = rec_runId input,
      ev_requestGroupId = rec_requestGroupId input, ev_pendingCount = 0, ev_retryCount = n,
      ev_recoveryKey = Some (rec_key input), ev_detail = detail\<rparr>"

text \<open>The decision returned holds the new count; its other fields are constants and a message.\<close>

definition recordQueueRecoveryAttempt :: "RecoveryInput \<Rightarrow> int \<Rightarrow> 'v process \<Rightarrow> nat \<times> 'v process" where
  "recordQueueRecoveryAttempt input now w =
     (let key = recoveryStateKey (rec_queue input) (rec_key input);
          current = (case map_of (recoveryStates w) key of None \<Rightarrow> \<lparr>recovery_count = 0, updatedAt = 0\<rparr> | Some c \<Rightarrow> c);
          nextCount = recovery_count current + 1;
          w = w\<lparr>recoveryStates := AList.update key \<lparr>recovery_count = nextCount, updatedAt = now\<rparr> (recoveryStates w)\<rparr>
      in (nextCount, safeRecordQueueEvent (recovery_event input ''recovery_scheduled'' ''recovery_scheduled'' nextCount
            [(''reason'', case rec_reason input of None \<Rightarrow> ''recovery'' | Some r \<Rightarrow> r)]) w))"

definition resetQueueRecoveryAttempt :: "RecoveryInput \<Rightarrow> 'v process \<Rightarrow> 'v process" where
  "resetQueueRecoveryAttempt input w =
     safeRecordQueueEvent (recovery_event input ''reset'' ''reset_recovery_attempt'' 0 [])
       (w\<lparr>recoveryStates := AList.delete (recoveryStateKey (rec_queue input) (rec_key input)) (recoveryStates w)\<rparr>)"

datatype snapshot_status = ok | waiting | recovering

record QueueSnapshotItem =
  queueName :: QueueName
  snapshot_budget :: QueueBudget
  snapshot_running :: int
  snapshot_pending :: nat
  oldestPendingAgeMs :: int
  recoveryKeys :: nat
  status :: snapshot_status

definition snapshot_item :: "int \<Rightarrow> QueueName \<Rightarrow> 'v process \<Rightarrow> QueueSnapshotItem \<times> 'v process" where
  "snapshot_item now q w =
     (let (i, w) = stateFor q w; s = objects w i; budget = budgetFor q None; n = length (pending s);
          prefix = recoveryStateKey q []
      in (\<lparr>queueName = q, snapshot_budget = budget, snapshot_running = running s, snapshot_pending = n,
           oldestPendingAgeMs = (case pending s of [] \<Rightarrow> 0 | job # _ \<Rightarrow> if createdAt job = 0 then 0 else now - createdAt job),
           recoveryKeys = length (filter (\<lambda>key. take (length prefix) key = prefix) (map fst (recoveryStates w))),
           status = (if num_le (maxPending budget) (Num (of_nat n)) then recovering
                     else if 0 < n then waiting else ok)\<rparr>, w))"

primrec snapshot_items :: "int \<Rightarrow> QueueName list \<Rightarrow> 'v process \<Rightarrow> QueueSnapshotItem list \<times> 'v process" where
  "snapshot_items now [] w = ([], w)"
| "snapshot_items now (q # qs) w =
     (let (x, w) = snapshot_item now q w; (xs, w) = snapshot_items now qs w in (x # xs, w))"

definition buildQueueBackpressureSnapshot :: "int \<Rightarrow> 'v process \<Rightarrow> QueueSnapshotItem list \<times> 'v process" where
  "buildQueueBackpressureSnapshot now w = snapshot_items now QUEUE_NAMES w"

text \<open>The maps are emptied; jobs in progress keep their objects.\<close>

definition resetQueueBackpressureState :: "'v process \<Rightarrow> 'v process" where
  "resetQueueBackpressureState w = w\<lparr>queueStates := [], recoveryStates := []\<rparr>"

section \<open>The process as a machine\<close>

datatype 'v occurrence =
    Enqueue EnqueueInput
  | Settles nat "'v settlement"
  | TimesOut nat
  | RecoveryAttempt RecoveryInput int
  | RecoveryReset RecoveryInput
  | Snapshot int
  | ResetState

definition active_job :: "nat \<Rightarrow> 'v process \<Rightarrow> ActiveJob option" where
  "active_job t w = List.find (\<lambda>a. ticket (a_job a) = t) (active w)"

fun queue_step :: "queue_host \<Rightarrow> 'v process \<Rightarrow> 'v occurrence \<Rightarrow> 'v process option" where
  "queue_step H w (Enqueue input) = Some (enqueueBackpressureTask input w)"
| "queue_step H w (Settles t r) = (case active_job t w of None \<Rightarrow> None | Some a \<Rightarrow> Some (finish_job H a r w))"
| "queue_step H w (TimesOut t) =
     (case active_job t w of None \<Rightarrow> None | Some a \<Rightarrow> Some (finish_job H a (Rejected (timeout_failure H a)) w))"
| "queue_step H w (RecoveryAttempt input now) = Some (snd (recordQueueRecoveryAttempt input now w))"
| "queue_step H w (RecoveryReset input) = Some (resetQueueRecoveryAttempt input w)"
| "queue_step H w (Snapshot now) = Some (snd (buildQueueBackpressureSnapshot now w))"
| "queue_step H w ResetState = Some (resetQueueBackpressureState w)"

section \<open>Every ticket is in one place\<close>

text \<open>The tickets of the waiting jobs of all objects, of the jobs in progress and of the settled promises.\<close>

definition waiting_tickets :: "'v process \<Rightarrow> nat multiset" where
  "waiting_tickets w = (\<Sum>i<nobjects w. mset (map ticket (pending (objects w i))))"

definition all_tickets :: "'v process \<Rightarrow> nat multiset" where
  "all_tickets w = waiting_tickets w + mset (map (\<lambda>a. ticket (a_job a)) (active w)) + mset (map fst (settled w))"

definition slots :: "nat \<Rightarrow> 'v process \<Rightarrow> nat" where
  "slots i w = length (filter (\<lambda>a. a_state a = i) (active w))"

text \<open>A waiting job was enqueued after the jobs of its queue that are in progress and those before it.\<close>

definition first_come :: "nat \<Rightarrow> 'v process \<Rightarrow> bool" where
  "first_come i w \<longleftrightarrow> sorted_wrt (<) (map ticket (pending (objects w i)))
     \<and> (\<forall>a \<in> set (active w). a_state a = i \<longrightarrow> (\<forall>j \<in> set (pending (objects w i)). ticket (a_job a) < ticket j))"

definition process_ok :: "'v process \<Rightarrow> bool" where
  "process_ok w \<longleftrightarrow> all_tickets w = mset [0..<tickets w]
     \<and> distinct (map fst (queueStates w)) \<and> distinct (map snd (queueStates w))
     \<and> (\<forall>i \<in> set (map snd (queueStates w)). i < nobjects w)
     \<and> (\<forall>i < nobjects w. running (objects w i) = int (slots i w) \<and> first_come i w)
     \<and> (\<forall>a \<in> set (active w). a_state a < nobjects w
           \<and> (\<forall>q. map_of (queueStates w) q = Some (a_state a) \<longrightarrow> a_queue a = q))"

lemma waiting_tickets_set:
  assumes "i < nobjects w"
  shows "waiting_tickets (w\<lparr>objects := (objects w)(i := s)\<rparr>) + mset (map ticket (pending (objects w i)))
     = waiting_tickets w + mset (map ticket (pending s))"
proof -
  let ?f = "\<lambda>j. mset (map ticket (pending (((objects w)(i := s)) j)))"
  have i: "i \<in> {..<nobjects w}" using assms by simp
  have "sum ?f {..<nobjects w} = ?f i + sum ?f ({..<nobjects w} - {i})" by (rule sum.remove [OF _ i]) simp
  also have "sum ?f ({..<nobjects w} - {i}) = (\<Sum>j\<in>{..<nobjects w} - {i}. mset (map ticket (pending (objects w j))))"
    by (rule sum.cong) auto
  finally show ?thesis
    using sum.remove [OF _ i, of "\<lambda>j. mset (map ticket (pending (objects w j)))"] by (simp add: waiting_tickets_def ac_simps)
qed

lemma record_event_simps [simp]:
  "objects (safeRecordQueueEvent e w) = objects w" "nobjects (safeRecordQueueEvent e w) = nobjects w"
  "queueStates (safeRecordQueueEvent e w) = queueStates w" "active (safeRecordQueueEvent e w) = active w"
  "settled (safeRecordQueueEvent e w) = settled w" "tickets (safeRecordQueueEvent e w) = tickets w"
  "recoveryStates (safeRecordQueueEvent e w) = recoveryStates w"
  by (simp_all add: safeRecordQueueEvent_def)

text \<open>The invariants do not read the events or the recovery counts.\<close>

lemma process_ok_cong:
  assumes "objects w' = objects w" "nobjects w' = nobjects w" "queueStates w' = queueStates w" "active w' = active w"
    "settled w' = settled w" "tickets w' = tickets w"
  shows "process_ok w' = process_ok w"
  using assms by (simp add: process_ok_def all_tickets_def waiting_tickets_def slots_def first_come_def)

lemma stateFor_known: "map_of (queueStates w) q = Some i \<Longrightarrow> stateFor q w = (i, w)"
  by (simp add: stateFor_def)

lemma stateFor_ok:
  assumes "process_ok w" and "stateFor q w = (i, w')"
  shows "process_ok w'" "map_of (queueStates w') q = Some i"
proof -
  consider (known) "map_of (queueStates w) q = Some i" "w' = w"
    | (fresh) "map_of (queueStates w) q = None" "i = nobjects w"
      "w' = w\<lparr>objects := (objects w)(nobjects w := empty_queue), nobjects := nobjects w + 1,
              queueStates := AList.update q (nobjects w) (queueStates w)\<rparr>"
    using assms(2) by (auto simp: stateFor_def split: option.splits)
  then have "process_ok w' \<and> map_of (queueStates w') q = Some i"
  proof cases
    case known
    then show ?thesis using assms(1) by simp
  next
    case fresh
    then have new: "AList.update q (nobjects w) (queueStates w) = queueStates w @ [(q, nobjects w)]"
      by (intro update_new)
    have old: "process_ok w" by (rule assms(1))
    have "waiting_tickets w' = waiting_tickets w"
      by (simp add: waiting_tickets_def fresh empty_queue_def)
    moreover have "slots i w' = 0" using old by (auto simp: slots_def fresh process_ok_def filter_empty_conv)
    moreover have "q \<notin> set (map fst (queueStates w))" using fresh(1) by (simp add: map_of_eq_None_iff)
    ultimately show ?thesis using old
      by (auto simp: process_ok_def all_tickets_def slots_def first_come_def fresh new empty_queue_def less_Suc_eq map_add_def
          split: option.splits)
  qed
  then show "process_ok w'" "map_of (queueStates w') q = Some i" by auto
qed

lemma current_unique:
  assumes "process_ok w" "map_of (queueStates w) q = Some i" "map_of (queueStates w) q' = Some i"
  shows "q' = q"
  using assms by (metis map_of_SomeD process_ok_def eq_key_imp_eq_value inj_on_def distinct_map snd_conv prod.inject)

lemma current_less: "process_ok w \<Longrightarrow> map_of (queueStates w) q = Some i \<Longrightarrow> i < nobjects w"
  by (force simp: process_ok_def dest: map_of_SomeD)

lemma waiting_less:
  assumes "process_ok w" "i < nobjects w" "j \<in> set (pending (objects w i))"
  shows "ticket j < tickets w"
proof -
  have "waiting_tickets w = mset (map ticket (pending (objects w i)))
      + (\<Sum>k\<in>{..<nobjects w} - {i}. mset (map ticket (pending (objects w k))))"
    unfolding waiting_tickets_def using assms(2) by (intro sum.remove) auto
  then have "ticket j \<in># waiting_tickets w" using assms(3) by simp
  then have "ticket j \<in># mset [0..<tickets w]" using assms(1) unfolding process_ok_def all_tickets_def by (metis UnCI set_mset_union)
  then show ?thesis by simp
qed

lemma active_less:
  assumes "process_ok w" "a \<in> set (active w)"
  shows "ticket (a_job a) < tickets w"
proof -
  have "ticket (a_job a) \<in># mset (map (\<lambda>a. ticket (a_job a)) (active w))" using assms(2) by auto
  then have "ticket (a_job a) \<in># mset [0..<tickets w]" using assms(1) unfolding process_ok_def all_tickets_def by (metis UnCI set_mset_union)
  then show ?thesis by simp
qed

text \<open>One round of the loop: the first waiting job of the current object starts.\<close>

definition start_first :: "QueueName \<Rightarrow> QueueBudget \<Rightarrow> nat \<Rightarrow> QueueJob \<Rightarrow> QueueJob list \<Rightarrow> 'v process \<Rightarrow> 'v process" where
  "start_first q b i job rest w = runJob q b job (set_object i (\<lambda>s. s\<lparr>pending := rest\<rparr>) w)"

lemma queue_state_update: "s\<lparr>pending := p, running := r\<rparr> = \<lparr>running = r, pending = p\<rparr>" for s :: QueueState
  by (cases s) simp

lemma start_first_simps:
  assumes "map_of (queueStates w) q = Some i"
  shows "objects (start_first q b i job rest w) =
      (objects w)(i := \<lparr>running = running (objects w i) + 1, pending = rest\<rparr>)"
    "nobjects (start_first q b i job rest w) = nobjects w" "queueStates (start_first q b i job rest w) = queueStates w"
    "active (start_first q b i job rest w) = active w @ [\<lparr>a_state = i, a_queue = q, a_budget = b, a_job = job\<rparr>]"
    "settled (start_first q b i job rest w) = settled w" "tickets (start_first q b i job rest w) = tickets w"
  using assms by (simp_all add: start_first_def runJob_def stateFor_def set_object_def Let_def queue_state_update)

lemma start_first_ok:
  assumes ok: "process_ok w" and q: "map_of (queueStates w) q = Some i" and p: "pending (objects w i) = job # rest"
  shows "process_ok (start_first q b i job rest w)"
proof -
  let ?w = "start_first q b i job rest w"
  note simps = start_first_simps [OF q, of b job rest]
  have i: "i < nobjects w" by (rule current_less [OF ok q])
  have "waiting_tickets ?w + {#ticket job#} = waiting_tickets w"
    using waiting_tickets_set [OF i, of "\<lparr>running = running (objects w i) + 1, pending = rest\<rparr>"] p
    by (simp add: waiting_tickets_def simps)
  then have t: "all_tickets ?w = all_tickets w" by (simp add: all_tickets_def simps)
  have fc: "first_come i w" using ok i by (simp add: process_ok_def)
  have "\<And>q'. map_of (queueStates w) q' = Some i \<Longrightarrow> q = q'" using current_unique [OF ok q] by auto
  then show ?thesis using ok t i fc p
    by (auto simp: process_ok_def simps slots_def first_come_def)
qed

lemma run_loop_rule:
  assumes "map_of (queueStates w) q = Some i" and "P w"
    and step: "\<And>w job rest. map_of (queueStates w) q = Some i \<Longrightarrow> P w \<Longrightarrow> has_slot (running (objects w i)) b
      \<Longrightarrow> pending (objects w i) = job # rest \<Longrightarrow> P (start_first q b i job rest w)"
  shows "P (run_loop q b i w) \<and> map_of (queueStates (run_loop q b i w)) q = Some i"
  using assms
proof (induction q b i w rule: run_loop.induct)
  case (1 q b i w)
  show ?case
  proof (cases "has_slot (running (objects w i)) b \<and> pending (objects w i) \<noteq> []")
    case True
    then obtain job rest where p: "pending (objects w i) = job # rest" by (cases "pending (objects w i)") auto
    have "run_loop q b i w = run_loop q b i (start_first q b i job rest w)"
      using True p by (subst run_loop.simps) (simp add: start_first_def)
    moreover have "P (start_first q b i job rest w)" using "1.prems"(1,2) True p by (intro "1.prems"(3)) auto
    ultimately show ?thesis
      using "1.IH" [of job rest] True p "1.prems" start_first_simps(3) [of w q i b job rest] by (simp add: start_first_def)
  next
    case False
    then have "run_loop q b i w = w" by (subst run_loop.simps) (auto split: list.splits)
    then show ?thesis using "1.prems"(1,2) by simp
  qed
qed

lemma run_loop_exit: "\<not> has_slot (running (objects (run_loop q b i w) i)) b \<or> pending (objects (run_loop q b i w) i) = []"
proof (induction q b i w rule: run_loop.induct)
  case (1 q b i w)
  then show ?case by (subst run_loop.simps, subst (2) run_loop.simps) (auto split: list.splits)
qed

lemma runNext_ok: "process_ok w \<Longrightarrow> process_ok (runNext q b w)"
proof -
  assume ok: "process_ok w"
  obtain i w' where s: "stateFor q w = (i, w')" by fastforce
  have "process_ok (run_loop q b i w')"
    using run_loop_rule [of w' q i process_ok b] stateFor_ok [OF ok s] start_first_ok by blast
  then show ?thesis by (simp add: runNext_def s)
qed

lemma length_filter_remove1:
  "a \<in> set xs \<Longrightarrow> length (filter P xs) = (if P a then Suc (length (filter P (remove1 a xs))) else length (filter P (remove1 a xs)))"
  by (induction xs) auto

text \<open>A job in progress is settled and its slot released, before waiting jobs are started.\<close>

definition release_slot :: "ActiveJob \<Rightarrow> 'v settlement \<Rightarrow> QueueEvent list \<Rightarrow> 'v process \<Rightarrow> 'v process" where
  "release_slot a r evs w = w\<lparr>active := remove1 a (active w), settled := settled w @ [(ticket (a_job a), r)],
     events := evs, objects := (objects w)(a_state a := (objects w (a_state a))\<lparr>running := max 0 (running (objects w (a_state a)) - 1)\<rparr>)\<rparr>"

lemma finish_job_release: "\<exists>evs. finish_job H a r w = runNext (a_queue a) (a_budget a) (release_slot a r evs w)"
proof (cases r)
  case (Resolved v)
  then show ?thesis
    by (intro exI [of _ "events (safeRecordQueueEvent (job_event (a_queue a) ''completed'' ''complete'' (a_job a)
        (length (pending (objects w (a_state a)))) []) w)"])
      (simp add: finish_job_def release_slot_def set_object_def settle_def safeRecordQueueEvent_def Let_def)
next
  case (Rejected e)
  then show ?thesis
    by (intro exI [of _ "events (safeRecordQueueEvent (job_event (a_queue a) (if is_queue_timeout e then ''timeout'' else ''failed'')
        (if is_queue_timeout e then ''timeout'' else ''fail'') (a_job a) (length (pending (objects w (a_state a))))
        [(''error'', redactLogText H (failure_text e))]) w)"])
      (simp only: finish_job_def Let_def Rejected settlement.case;
        intro arg_cong [where f = "runNext (a_queue a) (a_budget a)"] process.equality;
        simp add: release_slot_def set_object_def settle_def safeRecordQueueEvent_def)
qed

lemma release_slot_ok:
  assumes ok: "process_ok w" and a: "a \<in> set (active w)"
  shows "process_ok (release_slot a r evs w)"
proof -
  let ?i = "a_state a" and ?w = "release_slot a r evs w"
  have i: "?i < nobjects w" using ok a by (simp add: process_ok_def)
  have "waiting_tickets ?w = waiting_tickets w"
    using waiting_tickets_set [OF i, of "(objects w ?i)\<lparr>running := max 0 (running (objects w ?i) - 1)\<rparr>"]
    by (simp add: waiting_tickets_def release_slot_def)
  moreover have "mset (active w) = add_mset a (mset (remove1 a (active w)))" using a by simp
  then have "mset (map (\<lambda>a. ticket (a_job a)) (active w)) = add_mset (ticket (a_job a)) (mset (map (\<lambda>a. ticket (a_job a)) (remove1 a (active w))))"
    by (simp only: mset_map image_mset_add_mset)
  ultimately have t: "all_tickets ?w = all_tickets w" by (simp add: all_tickets_def release_slot_def)
  have sl: "slots ?i w = Suc (slots ?i ?w)" "j \<noteq> ?i \<Longrightarrow> slots j ?w = slots j w" for j
    using length_filter_remove1 [OF a] by (simp_all add: slots_def release_slot_def)
  have sub: "b \<in> set (active ?w) \<Longrightarrow> b \<in> set (active w)" for b
    by (auto simp: release_slot_def dest: subsetD [OF set_remove1_subset])
  have same: "pending (objects ?w j) = pending (objects w j)" "running (objects ?w j) = (if j = ?i then max 0 (running (objects w ?i) - 1) else running (objects w j))"
    "nobjects ?w = nobjects w" "queueStates ?w = queueStates w" "tickets ?w = tickets w" for j
    by (simp_all add: release_slot_def)
  have "running (objects ?w j) = int (slots j ?w) \<and> first_come j ?w" if j: "j < nobjects w" for j
  proof -
    have "running (objects w j) = int (slots j w)" "first_come j w" using ok j by (auto simp: process_ok_def)
    then show ?thesis using sl(1) sl(2) [of j] sub unfolding first_come_def same by auto
  qed
  moreover have "a_state b < nobjects w \<and> (\<forall>q. map_of (queueStates w) q = Some (a_state b) \<longrightarrow> a_queue b = q)"
    if "b \<in> set (active ?w)" for b
    using ok sub [OF that] by (simp add: process_ok_def)
  ultimately show ?thesis using ok t by (simp add: process_ok_def same)
qed

text \<open>What \<open>enqueueBackpressureTask\<close> does once the object of the queue is known.\<close>

definition refuse :: "nat \<Rightarrow> failure \<Rightarrow> QueueEvent list \<Rightarrow> 'v process \<Rightarrow> 'v process" where
  "refuse t e evs w = w\<lparr>tickets := t + 1, settled := settled w @ [(t, Rejected e)], events := evs\<rparr>"

definition push :: "nat \<Rightarrow> QueueJob \<Rightarrow> QueueEvent list \<Rightarrow> 'v process \<Rightarrow> 'v process" where
  "push i job evs w = w\<lparr>tickets := tickets w + 1, objects := (objects w)(i := (objects w i)\<lparr>pending := pending (objects w i) @ [job]\<rparr>),
     events := evs\<rparr>"

lemma enqueue_cases:
  assumes "stateFor (in_queue input) w = (i, w')"
  shows "\<exists>evs. enqueueBackpressureTask input w =
     (if queue_is_full (budgetFor (in_queue input) (in_budget input)) (objects w' i)
      then refuse (tickets w') (QueueBackpressureError queue_full (in_queue input) (queue_text (in_queue input) @ '' queue is full'')) evs w'
      else runNext (in_queue input) (budgetFor (in_queue input) (in_budget input)) (push i (new_job input (tickets w')) evs w'))"
proof -
  let ?q = "in_queue input" and ?job = "new_job input (tickets w')" and ?s = "objects w' i"
  let ?b = "budgetFor ?q (in_budget input)"
  show ?thesis
  proof (cases "queue_is_full ?b ?s")
    case True
    then show ?thesis
      by (intro exI [of _ "events (safeRecordQueueEvent (job_event ?q ''rejected'' ''queue_full'' ?job (length (pending ?s)) []) w')"])
        (simp add: enqueueBackpressureTask_def assms Let_def refuse_def settle_def, rule process.equality;
          simp add: safeRecordQueueEvent_def)
  next
    case False
    then show ?thesis
      by (intro exI [of _ "events (safeRecordQueueEvent (job_event ?q ''queued''
            (if has_slot (running ?s) ?b then ''run_immediately'' else ''wait'') ?job (length (pending ?s) + 1) []) w')"])
        (simp only: enqueueBackpressureTask_def assms Let_def prod.case if_False process.simps;
          intro arg_cong [where f = "runNext ?q ?b"] process.equality; simp add: push_def set_object_def safeRecordQueueEvent_def)
  qed
qed

lemma mset_upt_Suc: "mset [0..<Suc n] = add_mset n (mset [0..<n])"
  by simp

lemma refuse_ok: "process_ok w \<Longrightarrow> process_ok (refuse (tickets w) e evs w)"
  by (simp add: process_ok_def refuse_def all_tickets_def waiting_tickets_def slots_def first_come_def)

lemma push_ok:
  assumes ok: "process_ok w" and i: "i < nobjects w" and t: "ticket job = tickets w"
  shows "process_ok (push i job evs w)"
proof -
  let ?w = "push i job evs w"
  have "waiting_tickets ?w = waiting_tickets w + {#tickets w#}"
    using waiting_tickets_set [OF i, of "(objects w i)\<lparr>pending := pending (objects w i) @ [job]\<rparr>"] t
    by (simp add: waiting_tickets_def push_def)
  then have "all_tickets ?w = mset [0..<tickets ?w]" using ok by (simp add: all_tickets_def push_def process_ok_def)
  moreover have "running (objects ?w k) = int (slots k ?w) \<and> first_come k ?w" if k: "k < nobjects w" for k
  proof -
    have "running (objects w k) = int (slots k w)" "first_come k w" using ok k by (auto simp: process_ok_def)
    then show ?thesis using waiting_less [OF ok k] active_less [OF ok] t
      by (auto simp: push_def slots_def first_come_def sorted_wrt_append)
  qed
  ultimately show ?thesis using ok by (simp add: process_ok_def push_def)
qed

lemma enqueue_ok: "process_ok w \<Longrightarrow> process_ok (enqueueBackpressureTask input w)"
proof -
  assume ok: "process_ok w"
  obtain i w' where s: "stateFor (in_queue input) w = (i, w')" by fastforce
  note st = stateFor_ok [OF ok s]
  have "ticket (new_job input t) = t" for t by (simp add: new_job_def)
  with enqueue_cases [OF s] show ?thesis
    by (auto simp: refuse_ok [OF st(1)] intro!: runNext_ok push_ok [OF st(1) current_less [OF st]])
qed

lemma active_jobD: "active_job t w = Some a \<Longrightarrow> a \<in> set (active w) \<and> ticket (a_job a) = t"
  by (auto simp: active_job_def dest: find_SomeD)

lemma finish_job_ok: "process_ok w \<Longrightarrow> a \<in> set (active w) \<Longrightarrow> process_ok (finish_job H a r w)"
  using finish_job_release [of H a r w] release_slot_ok runNext_ok by metis

lemma snapshot_items_ok: "process_ok w \<Longrightarrow> process_ok (snd (snapshot_items now qs w))"
proof (induction qs arbitrary: w)
  case (Cons q qs)
  obtain i w' where s: "stateFor q w = (i, w')" by fastforce
  have "process_ok (snd (snapshot_items now qs w'))" using Cons stateFor_ok [OF _ s] by blast
  then show ?case by (simp add: snapshot_item_def s Let_def split_def)
qed simp

lemma reset_ok: "process_ok w \<Longrightarrow> process_ok (resetQueueBackpressureState w)"
  by (simp add: process_ok_def resetQueueBackpressureState_def all_tickets_def waiting_tickets_def slots_def first_come_def)

lemma recovery_ok:
  "process_ok (snd (recordQueueRecoveryAttempt input now w)) = process_ok w" "process_ok (resetQueueRecoveryAttempt input w) = process_ok w"
  by (rule process_ok_cong; simp add: recordQueueRecoveryAttempt_def resetQueueRecoveryAttempt_def Let_def)+

lemma queue_step_ok: "process_ok w \<Longrightarrow> queue_step H w e = Some w' \<Longrightarrow> process_ok w'"
  by (cases e) (auto simp: enqueue_ok recovery_ok reset_ok snapshot_items_ok buildQueueBackpressureSnapshot_def
      finish_job_ok dest: active_jobD split: option.splits)

interpretation queues: invariant_machine "queue_step H :: 'v process \<Rightarrow> _" process_ok for H
  by unfold_locales (rule queue_step_ok)

lemma start_process_ok: "process_ok start_process"
  by (simp add: process_ok_def start_process_def all_tickets_def waiting_tickets_def)

lemma reachable_ok: "run_steps (queue_step H) start_process es = Some w \<Longrightarrow> process_ok w"
  using queues.run_inv [OF start_process_ok] .

section \<open>Bounds\<close>

definition budget_within :: "(QueueName \<Rightarrow> nat) \<Rightarrow> (QueueName \<Rightarrow> nat) \<Rightarrow> QueueName \<Rightarrow> QueueBudget \<Rightarrow> bool" where
  "budget_within C M q b \<longleftrightarrow> num_le (concurrency b) (Num (of_nat (C q))) \<and> num_le (maxPending b) (Num (of_nat (M q)))"

fun occurrence_within :: "(QueueName \<Rightarrow> nat) \<Rightarrow> (QueueName \<Rightarrow> nat) \<Rightarrow> 'v occurrence \<Rightarrow> bool" where
  "occurrence_within C M (Enqueue input) = budget_within C M (in_queue input) (budgetFor (in_queue input) (in_budget input))"
| "occurrence_within C M _ = True"

definition queue_within :: "(QueueName \<Rightarrow> nat) \<Rightarrow> (QueueName \<Rightarrow> nat) \<Rightarrow> QueueName \<Rightarrow> QueueState \<Rightarrow> bool" where
  "queue_within C M q s \<longleftrightarrow> running s \<le> int (C q) \<and> length (pending s) \<le> M q"

definition bounded :: "(QueueName \<Rightarrow> nat) \<Rightarrow> (QueueName \<Rightarrow> nat) \<Rightarrow> 'v process \<Rightarrow> bool" where
  "bounded C M w \<longleftrightarrow> (\<forall>q i. map_of (queueStates w) q = Some i \<longrightarrow> queue_within C M q (objects w i))
     \<and> (\<forall>a \<in> set (active w). num_le (concurrency (a_budget a)) (Num (of_nat (C (a_queue a)))))"

lemma slot_within: "has_slot n b \<Longrightarrow> num_le (concurrency b) (Num (of_nat c)) \<Longrightarrow> n + 1 \<le> int c"
proof -
  assume "has_slot n b" "num_le (concurrency b) (Num (of_nat c))"
  then have "num_lt (Num (of_int n)) (Num (of_nat c))"
    unfolding has_slot_def num_le_def using num_lt_trans [of "Num (of_int n)" "concurrency b" "Num (of_nat c)"] by auto
  then have "(of_int n :: rat) < of_int (int c)" by simp
  then show ?thesis by (simp only: of_int_less_iff)
qed

lemma stateFor_bounded:
  assumes "process_ok w" "bounded C M w" "stateFor q w = (i, w')"
  shows "bounded C M w'"
proof (cases "map_of (queueStates w) q")
  case None
  then have w': "w' = w\<lparr>objects := (objects w)(nobjects w := empty_queue), nobjects := nobjects w + 1,
              queueStates := queueStates w @ [(q, nobjects w)]\<rparr>"
    using assms(3) by (auto simp: stateFor_def update_new)
  have "queue_within C M q' (objects w' k)"
    if "map_of (queueStates w') q' = Some k" for q' k
  proof (cases "map_of (queueStates w) q'")
    case None
    then have "k = nobjects w" using that by (auto simp: w' map_add_def split: if_splits)
    then show ?thesis by (simp add: w' queue_within_def empty_queue_def)
  next
    case (Some l)
    then have "l = k" using that by (simp add: w' map_add_def)
    then show ?thesis using current_less [OF assms(1) Some] assms(2) Some by (simp add: w' bounded_def)
  qed
  moreover have "active w' = active w" by (simp add: w')
  ultimately show ?thesis using assms(2) unfolding bounded_def by auto
next
  case (Some k)
  then show ?thesis using assms by (simp add: stateFor_def)
qed

lemma start_first_bounded:
  assumes ok: "process_ok w" and q: "map_of (queueStates w) q = Some i"
    and others: "\<And>q' k. q' \<noteq> q \<Longrightarrow> map_of (queueStates w) q' = Some k \<Longrightarrow> queue_within C M q' (objects w k)"
    and act: "\<forall>a \<in> set (active w). num_le (concurrency (a_budget a)) (Num (of_nat (C (a_queue a))))"
    and b: "num_le (concurrency b) (Num (of_nat (C q)))" and slot: "has_slot (running (objects w i)) b"
    and rest: "length rest \<le> M q"
  shows "bounded C M (start_first q b i job rest w)"
proof -
  have "queue_within C M q \<lparr>running = running (objects w i) + 1, pending = rest\<rparr>"
    using slot_within [OF slot b] rest by (simp add: queue_within_def)
  moreover have "k \<noteq> i" if "q' \<noteq> q" "map_of (queueStates w) q' = Some k" for q' k
    using current_unique [OF ok q] that by auto
  moreover have "k = i" if "map_of (queueStates w) q = Some k" for k using that q by simp
  ultimately have "queue_within C M q' (((objects w)(i := \<lparr>running = running (objects w i) + 1, pending = rest\<rparr>)) k)"
    if "map_of (queueStates w) q' = Some k" for q' k
    using that others by (cases "q' = q") auto
  then show ?thesis using act b unfolding bounded_def start_first_simps [OF q] by auto
qed

lemma run_loop_bounded:
  assumes "process_ok w" "bounded C M w" "map_of (queueStates w) q = Some i" "num_le (concurrency b) (Num (of_nat (C q)))"
  shows "bounded C M (run_loop q b i w)"
proof -
  have "bounded C M (start_first q b i job rest w)"
    if "map_of (queueStates w) q = Some i" "process_ok w \<and> bounded C M w" "has_slot (running (objects w i)) b"
      "pending (objects w i) = job # rest" for w :: "'a process" and job rest
  proof (rule start_first_bounded)
    have "queue_within C M q (objects w i)" using that(1,2) by (simp add: bounded_def)
    then show "length rest \<le> M q" using that(4) by (simp add: queue_within_def)
  qed (use that assms(4) in \<open>auto simp: bounded_def\<close>)
  then show ?thesis
    using run_loop_rule [of w q i "\<lambda>w. process_ok w \<and> bounded C M w" b] assms start_first_ok by blast
qed

lemma runNext_bounded:
  assumes "process_ok w" "bounded C M w" "num_le (concurrency b) (Num (of_nat (C q)))"
  shows "bounded C M (runNext q b w)"
proof -
  obtain i w' where s: "stateFor q w = (i, w')" by fastforce
  show ?thesis unfolding runNext_def s prod.case Let_def
    using run_loop_bounded stateFor_ok [OF assms(1) s] stateFor_bounded [OF assms(1,2) s] assms(3) by blast
qed

lemma push_bounded:
  assumes ok: "process_ok w" and bd: "bounded C M w" and q: "map_of (queueStates w) q = Some i"
    and b: "budget_within C M q b" and free: "\<not> queue_is_full b (objects w i)" and t: "ticket job = tickets w"
  shows "bounded C M (runNext q b (push i job evs w))"
proof -
  let ?w = "push i job evs w" and ?s = "objects w i"
  have b1: "num_le (concurrency b) (Num (of_nat (C q)))" using b by (simp add: budget_within_def)
  have ok': "process_ok ?w" by (rule push_ok [OF ok current_less [OF ok q] t])
  have q': "map_of (queueStates ?w) q = Some i" using q by (simp add: push_def)
  have p: "pending (objects ?w i) = pending ?s @ [job]" and r: "running (objects ?w i) = running ?s" by (simp_all add: push_def)
  have s: "queue_within C M q ?s" using bd q by (simp add: bounded_def)
  have others: "queue_within C M x (objects ?w k)" if "x \<noteq> q" "map_of (queueStates ?w) x = Some k" for x k
    using that bd current_unique [OF ok q, of x] by (auto simp: push_def bounded_def)
  have act: "\<forall>a \<in> set (active ?w). num_le (concurrency (a_budget a)) (Num (of_nat (C (a_queue a))))"
    using bd by (simp add: push_def bounded_def)
  have next_eq: "runNext q b ?w = run_loop q b i ?w" by (simp add: runNext_def stateFor_known [OF q'])
  show ?thesis
  proof (cases "has_slot (running ?s) b")
    case True
    obtain j rest where jr: "pending ?s @ [job] = j # rest" by (cases "pending ?s") auto
    then have len: "length rest \<le> M q" using s by (cases "pending ?s") (auto simp: queue_within_def)
    have "run_loop q b i ?w = run_loop q b i (start_first q b i j rest ?w)"
      using True p r jr by (subst run_loop.simps) (simp add: start_first_def)
    moreover have "bounded C M (start_first q b i j rest ?w)"
      by (rule start_first_bounded [OF ok' q' others act b1]) (use True r len in auto)
    moreover have "process_ok (start_first q b i j rest ?w)" using start_first_ok [OF ok' q'] p jr by simp
    ultimately show ?thesis
      unfolding next_eq using run_loop_bounded b1 start_first_simps(3) [OF q'] q' by metis
  next
    case False
    have "num_le (concurrency b) (Num (of_int (running ?s)))"
      using False b1 num_not_lt [of "Num (of_int (running ?s))" "concurrency b"] by (auto simp: has_slot_def num_le_def)
    then have "\<not> num_le (maxPending b) (Num (of_nat (length (pending ?s))))" using free by (simp add: queue_is_full_def)
    then have "num_lt (Num (of_nat (length (pending ?s)))) (maxPending b)"
      using b num_not_lt [of "Num (of_nat (length (pending ?s)))" "maxPending b"] by (auto simp: budget_within_def num_le_def)
    then have "num_lt (Num (of_nat (length (pending ?s)))) (Num (of_nat (M q)))"
      using b num_lt_trans unfolding budget_within_def num_le_def by metis
    then have "length (pending ?s) < M q" by simp
    then have "queue_within C M q (objects ?w i)" using s p r by (simp add: queue_within_def)
    then have "bounded C M ?w" using others act q' unfolding bounded_def by (metis option.inject)
    then show ?thesis unfolding next_eq by (rule run_loop_bounded [where C = C and q = q, OF ok' _ q' b1])
  qed
qed

lemma release_slot_bounded:
  assumes ok: "process_ok w" and bd: "bounded C M w" and a: "a \<in> set (active w)"
  shows "bounded C M (release_slot a r evs w)"
proof -
  have sub: "b \<in> set (remove1 a (active w)) \<Longrightarrow> b \<in> set (active w)" for b by (rule subsetD [OF set_remove1_subset])
  have "queue_within C M q (objects (release_slot a r evs w) i)" if "map_of (queueStates w) q = Some i" for q i
  proof -
    have "queue_within C M q (objects w i)" using bd that by (simp add: bounded_def)
    then show ?thesis by (auto simp: release_slot_def queue_within_def)
  qed
  then show ?thesis using bd sub by (auto simp: bounded_def release_slot_def)
qed

lemma enqueue_bounded:
  assumes "process_ok w" "bounded C M w" "budget_within C M (in_queue input) (budgetFor (in_queue input) (in_budget input))"
  shows "bounded C M (enqueueBackpressureTask input w)"
proof -
  obtain i w' where s: "stateFor (in_queue input) w = (i, w')" by fastforce
  note st = stateFor_ok [OF assms(1) s] and bd = stateFor_bounded [OF assms(1,2) s]
  have t: "ticket (new_job input t) = t" for t by (simp add: new_job_def)
  have "bounded C M (refuse t e evs w')" for t e evs using bd by (simp add: refuse_def bounded_def)
  with enqueue_cases [OF s] show ?thesis
    using push_bounded [OF st(1) bd st(2) assms(3) _ t]
    by (cases "queue_is_full (budgetFor (in_queue input) (in_budget input)) (objects w' i)") auto
qed

lemma finish_job_bounded:
  assumes "process_ok w" "bounded C M w" "a \<in> set (active w)"
  shows "bounded C M (finish_job H a r w)"
proof -
  obtain evs where e: "finish_job H a r w = runNext (a_queue a) (a_budget a) (release_slot a r evs w)"
    using finish_job_release by blast
  have "num_le (concurrency (a_budget a)) (Num (of_nat (C (a_queue a))))" using assms by (simp add: bounded_def)
  then show ?thesis unfolding e
    by (rule runNext_bounded [OF release_slot_ok [OF assms(1,3)] release_slot_bounded [OF assms]])
qed

lemma snapshot_items_bounded: "process_ok w \<Longrightarrow> bounded C M w \<Longrightarrow> bounded C M (snd (snapshot_items now qs w))"
proof (induction qs arbitrary: w)
  case (Cons q qs)
  obtain i w' where s: "stateFor q w = (i, w')" by fastforce
  have "bounded C M (snd (snapshot_items now qs w'))"
    using Cons stateFor_ok [OF _ s] stateFor_bounded [OF _ _ s] by blast
  then show ?case by (simp add: snapshot_item_def s Let_def split_def)
qed simp

lemma other_steps_bounded:
  "bounded C M w \<Longrightarrow> bounded C M (snd (recordQueueRecoveryAttempt input now w))"
  "bounded C M w \<Longrightarrow> bounded C M (resetQueueRecoveryAttempt input w)"
  "bounded C M w \<Longrightarrow> bounded C M (resetQueueBackpressureState w)"
  by (simp_all add: bounded_def recordQueueRecoveryAttempt_def resetQueueRecoveryAttempt_def
      resetQueueBackpressureState_def Let_def)

lemma queue_step_bounded:
  assumes "process_ok w" "bounded C M w" "occurrence_within C M e" "queue_step H w e = Some w'"
  shows "bounded C M w'"
  using assms by (cases e) (auto simp: enqueue_bounded other_steps_bounded snapshot_items_bounded
      buildQueueBackpressureSnapshot_def finish_job_bounded dest: active_jobD split: option.splits)

interpretation bounded_queues: guarded_machine "queue_step H :: 'v process \<Rightarrow> _" "occurrence_within C M"
    "\<lambda>w. process_ok w \<and> bounded C M w" for H C M
  by unfold_locales (use queue_step_ok queue_step_bounded in blast)

section \<open>No idle slot while a job waits\<close>

text \<open>When every call for a queue passes the same budget, \<open>budgetFor q (ov q)\<close>.\<close>

fun uniform_occurrence :: "(QueueName \<Rightarrow> PartialBudget option) \<Rightarrow> 'v occurrence \<Rightarrow> bool" where
  "uniform_occurrence ov (Enqueue input) = (in_budget input = ov (in_queue input))"
| "uniform_occurrence ov _ = True"

definition queue_steady :: "QueueBudget \<Rightarrow> QueueState \<Rightarrow> bool" where
  "queue_steady b s \<longleftrightarrow> \<not> num_lt (concurrency b) (Num (of_int (running s))) \<and> (pending s \<noteq> [] \<longrightarrow> \<not> has_slot (running s) b)"

definition steady_but :: "QueueName option \<Rightarrow> (QueueName \<Rightarrow> PartialBudget option) \<Rightarrow> 'v process \<Rightarrow> bool" where
  "steady_but x ov w \<longleftrightarrow>
     (\<forall>q i. map_of (queueStates w) q = Some i \<longrightarrow>
        \<not> num_lt (concurrency (budgetFor q (ov q))) (Num (of_int (running (objects w i))))
        \<and> (Some q \<noteq> x \<longrightarrow> queue_steady (budgetFor q (ov q)) (objects w i)))
     \<and> (\<forall>a \<in> set (active w). a_budget a = budgetFor (a_queue a) (ov (a_queue a)))"

abbreviation "steady \<equiv> steady_but None"

lemma slot_keeps_limit: "has_slot n (budgetFor q ov) \<Longrightarrow> \<not> num_lt (concurrency (budgetFor q ov)) (Num (of_int (n + 1)))"
proof -
  define x where "x = overridden ov concurrency_override (concurrency (DEFAULT_QUEUE_BUDGETS q))"
  have c: "concurrency (budgetFor q ov) = num_max (Num 1) (num_floor x)" by (simp add: budgetFor_def x_def Let_def)
  have max: "num_max (Num 1) (Num (of_int f)) = Num (of_int (max 1 f))" for f :: int by (simp add: max_def)
  assume "has_slot n (budgetFor q ov)"
  then show ?thesis unfolding has_slot_def c
    by (cases x) (simp_all add: max del: num_max.simps of_int_max of_int_add, auto simp: max_def split: if_splits)
qed

lemma steady_butI:
  assumes "\<And>q i. map_of (queueStates w) q = Some i \<Longrightarrow>
      \<not> num_lt (concurrency (budgetFor q (ov q))) (Num (of_int (running (objects w i))))"
    and "\<And>q i. map_of (queueStates w) q = Some i \<Longrightarrow> Some q \<noteq> x \<Longrightarrow> pending (objects w i) \<noteq> [] \<Longrightarrow>
      \<not> has_slot (running (objects w i)) (budgetFor q (ov q))"
    and "\<And>a. a \<in> set (active w) \<Longrightarrow> a_budget a = budgetFor (a_queue a) (ov (a_queue a))"
  shows "steady_but x ov w"
  using assms by (auto simp: steady_but_def queue_steady_def)

lemma steady_butD:
  assumes "steady_but x ov w"
  shows "map_of (queueStates w) q = Some i \<Longrightarrow>
      \<not> num_lt (concurrency (budgetFor q (ov q))) (Num (of_int (running (objects w i))))"
    and "map_of (queueStates w) q = Some i \<Longrightarrow> Some q \<noteq> x \<Longrightarrow> pending (objects w i) \<noteq> [] \<Longrightarrow>
      \<not> has_slot (running (objects w i)) (budgetFor q (ov q))"
    and "a \<in> set (active w) \<Longrightarrow> a_budget a = budgetFor (a_queue a) (ov (a_queue a))"
  using assms by (auto simp: steady_but_def queue_steady_def)

lemma concurrency_not_zero: "concurrency (budgetFor q ov) = Num c \<Longrightarrow> 1 \<le> c"
proof -
  define x where "x = overridden ov concurrency_override (concurrency (DEFAULT_QUEUE_BUDGETS q))"
  have c: "concurrency (budgetFor q ov) = num_max (Num 1) (num_floor x)" by (simp add: budgetFor_def x_def Let_def)
  show "concurrency (budgetFor q ov) = Num c \<Longrightarrow> 1 \<le> c" unfolding c by (cases x) (auto split: if_splits)
qed

lemma concurrency_positive: "\<not> num_lt (concurrency (budgetFor q ov)) (Num 0)"
proof -
  define x where "x = overridden ov concurrency_override (concurrency (DEFAULT_QUEUE_BUDGETS q))"
  have c: "concurrency (budgetFor q ov) = num_max (Num 1) (num_floor x)" by (simp add: budgetFor_def x_def Let_def)
  show ?thesis unfolding c by (cases x) auto
qed

lemma stateFor_steady:
  assumes "process_ok w" "steady_but x ov w" "stateFor q w = (i, w')"
  shows "steady_but x ov w'"
proof (cases "map_of (queueStates w) q")
  case None
  then have w': "w' = w\<lparr>objects := (objects w)(nobjects w := empty_queue), nobjects := nobjects w + 1,
              queueStates := queueStates w @ [(q, nobjects w)]\<rparr>"
    using assms(3) by (auto simp: stateFor_def update_new)
  have old: "objects w' k = empty_queue \<or> map_of (queueStates w) q' = Some k \<and> objects w' k = objects w k"
    if "map_of (queueStates w') q' = Some k" for q' k
  proof (cases "map_of (queueStates w) q'")
    case None
    then have "k = nobjects w" using that by (auto simp: w' map_add_def split: if_splits)
    then show ?thesis by (simp add: w')
  next
    case (Some l)
    then have "l = k" using that by (simp add: w' map_add_def)
    then show ?thesis using current_less [OF assms(1) Some] Some by (simp add: w')
  qed
  show ?thesis
  proof (rule steady_butI)
    fix q' k assume k: "map_of (queueStates w') q' = Some k"
    show "\<not> num_lt (concurrency (budgetFor q' (ov q'))) (Num (of_int (running (objects w' k))))"
      using old [OF k] steady_butD(1) [OF assms(2), of q' k] concurrency_positive [of q' "ov q'"] by (auto simp: empty_queue_def)
    assume "Some q' \<noteq> x" "pending (objects w' k) \<noteq> []"
    then show "\<not> has_slot (running (objects w' k)) (budgetFor q' (ov q'))"
      using old [OF k] steady_butD(2) [OF assms(2), of q' k] by (auto simp: empty_queue_def)
  qed (use steady_butD(3) [OF assms(2)] w' in auto)
next
  case (Some k)
  then show ?thesis using assms by (simp add: stateFor_def)
qed

lemma start_first_steady:
  assumes ok: "process_ok w" and st: "steady_but (Some q) ov w" and q: "map_of (queueStates w) q = Some i"
    and slot: "has_slot (running (objects w i)) (budgetFor q (ov q))"
  shows "steady_but (Some q) ov (start_first q (budgetFor q (ov q)) i job rest w)"
proof (rule steady_butI)
  let ?w = "start_first q (budgetFor q (ov q)) i job rest w"
  note simps = start_first_simps [OF q]
  fix q' k assume "map_of (queueStates ?w) q' = Some k"
  then have k: "map_of (queueStates w) q' = Some k" by (simp add: simps)
  have same: "q' = q \<longleftrightarrow> k = i" using current_unique [OF ok q, of q'] k q by auto
  show "\<not> num_lt (concurrency (budgetFor q' (ov q'))) (Num (of_int (running (objects ?w k))))"
  proof (cases "q' = q")
    case True
    then show ?thesis using slot_keeps_limit [OF slot] same by (simp add: simps)
  next
    case False
    then show ?thesis using steady_butD(1) [OF st k] same by (simp add: simps)
  qed
  assume "Some q' \<noteq> Some q" "pending (objects ?w k) \<noteq> []"
  then show "\<not> has_slot (running (objects ?w k)) (budgetFor q' (ov q'))"
    using steady_butD(2) [OF st k] same by (simp add: simps)
next
  fix a assume "a \<in> set (active (start_first q (budgetFor q (ov q)) i job rest w))"
  then show "a_budget a = budgetFor (a_queue a) (ov (a_queue a))"
    using steady_butD(3) [OF st] by (auto simp: start_first_simps [OF q])
qed

lemma runNext_steady:
  assumes ok: "process_ok w" and st: "steady_but (Some q) ov w"
  shows "steady ov (runNext q (budgetFor q (ov q)) w)"
proof -
  let ?b = "budgetFor q (ov q)"
  obtain i w' where s: "stateFor q w = (i, w')" by fastforce
  let ?v = "run_loop q ?b i w'"
  have "process_ok ?v \<and> steady_but (Some q) ov ?v" and q: "map_of (queueStates ?v) q = Some i"
    using run_loop_rule [of w' q i "\<lambda>w. process_ok w \<and> steady_but (Some q) ov w" ?b] stateFor_ok [OF ok s]
      stateFor_steady [OF ok st s] start_first_ok start_first_steady by blast+
  then have st': "steady_but (Some q) ov ?v" by simp
  have "steady ov ?v"
  proof (rule steady_butI)
    fix q' k assume k: "map_of (queueStates ?v) q' = Some k"
    then show "\<not> num_lt (concurrency (budgetFor q' (ov q'))) (Num (of_int (running (objects ?v k))))"
      by (rule steady_butD(1) [OF st'])
    assume "pending (objects ?v k) \<noteq> []"
    then show "\<not> has_slot (running (objects ?v k)) (budgetFor q' (ov q'))"
      using steady_butD(2) [OF st' k] run_loop_exit [of q ?b i w'] k q by (cases "q' = q") auto
  qed (rule steady_butD(3) [OF st'])
  then show ?thesis by (simp add: runNext_def s)
qed

lemma steady_weaken: "steady_but None ov w \<Longrightarrow> steady_but x ov w"
  by (auto simp: steady_but_def)

lemma release_slot_steady:
  assumes ok: "process_ok w" and st: "steady ov w" and a: "a \<in> set (active w)"
  shows "steady_but (Some (a_queue a)) ov (release_slot a r evs w)"
proof (rule steady_butI)
  let ?w = "release_slot a r evs w"
  fix q k assume "map_of (queueStates ?w) q = Some k"
  then have k: "map_of (queueStates w) q = Some k" by (simp add: release_slot_def)
  have lim: "\<not> num_lt (concurrency (budgetFor q (ov q))) (Num (of_int (running (objects w k))))" by (rule steady_butD(1) [OF st k])
  show "\<not> num_lt (concurrency (budgetFor q (ov q))) (Num (of_int (running (objects ?w k))))"
  proof (cases "k = a_state a \<and> 0 < running (objects w k)")
    case True
    then have "num_lt (Num (of_int (running (objects ?w k)))) (Num (of_int (running (objects w k))))"
      by (auto simp: release_slot_def)
    then show ?thesis using lim num_lt_trans by blast
  next
    case False
    then show ?thesis using lim concurrency_positive [of q "ov q"] by (auto simp: release_slot_def max_def)
  qed
  assume "Some q \<noteq> Some (a_queue a)" "pending (objects ?w k) \<noteq> []"
  moreover from this have "k \<noteq> a_state a" using ok a k by (auto simp: process_ok_def)
  ultimately show "\<not> has_slot (running (objects ?w k)) (budgetFor q (ov q))"
    using steady_butD(2) [OF st k] by (simp add: release_slot_def)
next
  fix b assume "b \<in> set (active (release_slot a r evs w))"
  then have "b \<in> set (active w)" by (auto simp: release_slot_def dest: subsetD [OF set_remove1_subset])
  then show "a_budget b = budgetFor (a_queue b) (ov (a_queue b))" by (rule steady_butD(3) [OF st])
qed

lemma finish_job_steady:
  assumes "process_ok w" "steady ov w" "a \<in> set (active w)"
  shows "steady ov (finish_job H a r w)"
proof -
  obtain evs where e: "finish_job H a r w = runNext (a_queue a) (a_budget a) (release_slot a r evs w)"
    using finish_job_release by blast
  show ?thesis unfolding e steady_butD(3) [OF assms(2,3)]
    by (rule runNext_steady [OF release_slot_ok [OF assms(1,3)] release_slot_steady [OF assms]])
qed

lemma push_steady:
  assumes ok: "process_ok w" and st: "steady ov w" and q: "map_of (queueStates w) q = Some i"
  shows "steady_but (Some q) ov (push i job evs w)"
proof (rule steady_butI)
  fix q' k assume "map_of (queueStates (push i job evs w)) q' = Some k"
  then have k: "map_of (queueStates w) q' = Some k" by (simp add: push_def)
  show "\<not> num_lt (concurrency (budgetFor q' (ov q'))) (Num (of_int (running (objects (push i job evs w) k))))"
    using steady_butD(1) [OF st k] by (cases "k = i") (simp_all add: push_def)
  assume "Some q' \<noteq> Some q" "pending (objects (push i job evs w) k) \<noteq> []"
  moreover from this have "k \<noteq> i" using current_unique [OF ok q, of q'] k by auto
  ultimately show "\<not> has_slot (running (objects (push i job evs w) k)) (budgetFor q' (ov q'))"
    using steady_butD(2) [OF st k] by (simp add: push_def)
qed (use steady_butD(3) [OF st] in \<open>auto simp: push_def\<close>)

lemma enqueue_steady:
  assumes ok: "process_ok w" and st: "steady ov w" and u: "in_budget input = ov (in_queue input)"
  shows "steady ov (enqueueBackpressureTask input w)"
proof -
  obtain i w' where s: "stateFor (in_queue input) w = (i, w')" by fastforce
  note ok' = stateFor_ok [OF ok s] and st' = stateFor_steady [OF ok st s]
  have t: "ticket (new_job input t) = t" for t by (simp add: new_job_def)
  have "steady ov (refuse t e evs w')" for t e evs using st' by (simp add: refuse_def steady_but_def)
  moreover have "steady ov (runNext (in_queue input) (budgetFor (in_queue input) (ov (in_queue input))) (push i (new_job input (tickets w')) evs w'))" for evs
    by (rule runNext_steady [OF push_ok [OF ok'(1) current_less [OF ok'] t] push_steady [OF ok'(1) st' ok'(2)]])
  ultimately show ?thesis using enqueue_cases [OF s]
    by (cases "queue_is_full (budgetFor (in_queue input) (in_budget input)) (objects w' i)") (auto simp: u)
qed

lemma snapshot_items_steady: "process_ok w \<Longrightarrow> steady ov w \<Longrightarrow> steady ov (snd (snapshot_items now qs w))"
proof (induction qs arbitrary: w)
  case (Cons q qs)
  obtain i w' where s: "stateFor q w = (i, w')" by fastforce
  have "steady ov (snd (snapshot_items now qs w'))"
    using Cons stateFor_ok [OF _ s] stateFor_steady [OF _ _ s] by blast
  then show ?case by (simp add: snapshot_item_def s Let_def split_def)
qed simp

lemma other_steps_steady:
  "steady ov w \<Longrightarrow> steady ov (snd (recordQueueRecoveryAttempt input now w))"
  "steady ov w \<Longrightarrow> steady ov (resetQueueRecoveryAttempt input w)"
  "steady ov w \<Longrightarrow> steady ov (resetQueueBackpressureState w)"
  by (simp_all add: steady_but_def recordQueueRecoveryAttempt_def resetQueueRecoveryAttempt_def
      resetQueueBackpressureState_def Let_def)

lemma queue_step_steady:
  assumes "process_ok w" "steady ov w" "uniform_occurrence ov e" "queue_step H w e = Some w'"
  shows "steady ov w'"
  using assms by (cases e) (auto simp: enqueue_steady other_steps_steady snapshot_items_steady
      buildQueueBackpressureSnapshot_def finish_job_steady dest: active_jobD split: option.splits)

interpretation steady_queues: guarded_machine "queue_step H :: 'v process \<Rightarrow> _" "uniform_occurrence ov"
    "\<lambda>w. process_ok w \<and> steady ov w" for H ov
  by unfold_locales (use queue_step_ok queue_step_steady in blast)

section \<open>Properties\<close>

lemma start_process_bounded: "bounded C M start_process" and start_process_steady: "steady ov start_process"
  by (simp_all add: bounded_def steady_but_def start_process_def)

lemma run_loop_keeps_active:
  assumes "map_of (queueStates w) q = Some i" "x \<in> set (active w)"
  shows "x \<in> set (active (run_loop q b i w))"
  using run_loop_rule [of w q i "\<lambda>w. x \<in> set (active w)" b] assms by (auto simp: start_first_simps)

lemma finish_job_starts_first:
  assumes ok: "process_ok w" and a: "a \<in> set (active w)" and q: "map_of (queueStates w) q = Some (a_state a)"
    and p: "pending (objects w (a_state a)) = job # rest"
    and slot: "has_slot (running (objects w (a_state a)) - 1) (a_budget a)"
  shows "\<lparr>a_state = a_state a, a_queue = q, a_budget = a_budget a, a_job = job\<rparr> \<in> set (active (finish_job H a r w))"
proof -
  obtain evs where e: "finish_job H a r w = runNext (a_queue a) (a_budget a) (release_slot a r evs w)"
    using finish_job_release by blast
  let ?v = "release_slot a r evs w" and ?i = "a_state a"
  have i: "?i < nobjects w" "a_queue a = q" using ok a q by (auto simp: process_ok_def)
  have "0 < slots ?i w" using a by (auto simp: slots_def filter_empty_conv)
  then have "0 < running (objects w ?i)" using ok i by (simp add: process_ok_def)
  then have r: "running (objects ?v ?i) = running (objects w ?i) - 1" by (simp add: release_slot_def)
  have p': "pending (objects ?v ?i) = job # rest" using p by (simp add: release_slot_def)
  have q': "map_of (queueStates ?v) q = Some ?i" using q by (simp add: release_slot_def)
  have "finish_job H a r w = run_loop q (a_budget a) ?i ?v"
    unfolding e i runNext_def using stateFor_known [OF q'] by simp
  also have "\<dots> = run_loop q (a_budget a) ?i (start_first q (a_budget a) ?i job rest ?v)"
    using slot r p' by (subst run_loop.simps) (simp add: start_first_def)
  finally show ?thesis
    using run_loop_keeps_active [of "start_first q (a_budget a) ?i job rest ?v" q ?i
        "\<lparr>a_state = ?i, a_queue = q, a_budget = a_budget a, a_job = job\<rparr>" "a_budget a"]
    by (simp add: start_first_simps [OF q'] q')
qed

text \<open>C5. Whatever the sequence of calls, task results, timeouts, resets and snapshots: every promise handed out
  is in exactly one place, once (among the waiting jobs, in progress, or settled), so none is lost, run twice
  or settled twice; the running count of every queue is the number of its jobs in progress; and jobs start in
  the order of the calls.\<close>

theorem promises_in_one_place:
  assumes "run_steps (queue_step H) start_process es = Some w"
  shows "waiting_tickets w + mset (map (\<lambda>a. ticket (a_job a)) (active w)) + mset (map fst (settled w)) = mset [0..<tickets w]
     \<and> (\<forall>i < nobjects w. running (objects w i) = int (slots i w) \<and> first_come i w)"
  using reachable_ok [OF assms] by (simp add: process_ok_def all_tickets_def)

text \<open>C10. When the budgets of the calls for a queue allow at most \<open>C\<close> jobs at once and \<open>M\<close> waiting jobs, the queue
  never has more, also when different calls pass different budgets and a queue is refilled by the end of a
  job.\<close>

theorem queue_bounds:
  assumes "run_steps (queue_step H) start_process es = Some w" and "\<forall>e \<in> set es. occurrence_within C M e"
    and "map_of (queueStates w) q = Some i"
  shows "0 \<le> running (objects w i) \<and> running (objects w i) \<le> int (C q) \<and> length (pending (objects w i)) \<le> M q"
proof -
  have inv: "process_ok w \<and> bounded C M w"
    by (rule bounded_queues.admitted_run_inv [OF _ assms(2,1)]) (simp add: start_process_ok start_process_bounded)
  then have "queue_within C M q (objects w i)" using assms(3) by (simp add: bounded_def)
  moreover have "i < nobjects w" using inv current_less assms(3) by blast
  ultimately show ?thesis using inv by (simp add: process_ok_def queue_within_def)
qed

text \<open>C18. When all calls for a queue pass the same budget, a waiting job waits for a slot only: a job of the queue is
  in progress, and however that job ends (result, error or timeout), the job that waited longest starts.\<close>

theorem waiting_job_starts_next:
  assumes "run_steps (queue_step H) start_process es = Some w" and "\<forall>e \<in> set es. uniform_occurrence ov e"
    and "concurrency (budgetFor q (ov q)) \<noteq> NaN"
    and "map_of (queueStates w) q = Some i" and "pending (objects w i) = job # rest"
  shows "\<exists>a \<in> set (active w). a_state a = i \<and> (\<forall>j \<in> set rest. ticket job < ticket j)
     \<and> (\<forall>H' r. \<exists>b. \<lparr>a_state = i, a_queue = q, a_budget = b, a_job = job\<rparr> \<in> set (active (finish_job H' a r w)))"
proof -
  let ?b = "budgetFor q (ov q)" and ?n = "running (objects w i)"
  have "process_ok w \<and> steady ov w"
    by (rule steady_queues.admitted_run_inv [OF _ assms(2,1)]) (simp add: start_process_ok start_process_steady)
  then have ok: "process_ok w" and st: "steady ov w" by auto
  have i: "i < nobjects w" by (rule current_less [OF ok assms(4)])
  have full: "\<not> has_slot ?n ?b" using steady_butD(2) [OF st assms(4)] assms(5) by simp
  have "?n \<noteq> 0" using full concurrency_positive [of q "ov q"] assms(3)
    by (cases "concurrency ?b") (auto simp: has_slot_def dest: concurrency_not_zero)
  then have "0 < slots i w" using ok i by (simp add: process_ok_def)
  then obtain a where a: "a \<in> set (active w)" "a_state a = i" by (auto simp: slots_def filter_empty_conv)
  then have "a_queue a = q" using ok assms(4) by (auto simp: process_ok_def)
  then have b: "a_budget a = ?b" using steady_butD(3) [OF st a(1)] by simp
  have "\<not> num_lt (concurrency ?b) (Num (of_int ?n))" by (rule steady_butD(1) [OF st assms(4)])
  then have slot: "has_slot (running (objects w (a_state a)) - 1) (a_budget a)"
    using assms(3) unfolding b a(2) has_slot_def by (cases "concurrency ?b") auto
  have "\<lparr>a_state = i, a_queue = q, a_budget = ?b, a_job = job\<rparr> \<in> set (active (finish_job H' a r w))" for H' r
    using finish_job_starts_first [OF ok a(1) _ _ slot] assms(4,5) unfolding a(2) b by blast
  moreover have "\<forall>j \<in> set rest. ticket job < ticket j"
    using ok i assms(5) by (auto simp: process_ok_def first_come_def)
  ultimately show ?thesis using a by blast
qed

text \<open>C29. A job that has to wait runs under the budget of the job whose end starts it: the time limit passed with its
  own call is not kept (the job record has no field for it), whatever it was.\<close>

theorem waiting_job_loses_its_budget:
  assumes "run_steps (queue_step H) start_process es = Some w" and "a \<in> set (active w)"
    and "map_of (queueStates w) q = Some (a_state a)" and "pending (objects w (a_state a)) = job # rest"
    and "has_slot (running (objects w (a_state a)) - 1) (a_budget a)"
  shows "\<lparr>a_state = a_state a, a_queue = q, a_budget = a_budget a, a_job = job\<rparr> \<in> set (active (finish_job H' a r w))"
  using finish_job_starts_first [OF reachable_ok [OF assms(1)] assms(2-5)] .

section \<open>Examples\<close>

definition browser_call :: "PartialBudget option \<Rightarrow> EnqueueInput" where
  "browser_call ov = \<lparr>in_queue = web_browser, in_runId = Some ''run-1'', in_requestGroupId = None, in_recoveryKey = Some [],
     in_budget = ov, in_now = 1000, in_uuid = ''id''\<rparr>"

definition short_timeout :: PartialBudget where
  "short_timeout = \<lparr>concurrency_override = None, timeoutMs_override = Some (Num 5), backoffMs_override = None, maxPending_override = None\<rparr>"

definition plain_queue_host :: queue_host where
  "plain_queue_host = \<lparr>redactLogText = \<lambda>s. s, print_number = \<lambda>n. ''20000''\<rparr>"

text \<open>A page is loading, and a second call with a time limit of 5 milliseconds waits; the queue allows one job.\<close>

definition two_calls :: "PartialBudget option \<Rightarrow> nat occurrence list" where
  "two_calls ov = [Enqueue (browser_call None), Enqueue (browser_call ov)]"

definition browser_job :: "nat \<Rightarrow> QueueJob" where
  "browser_job t = new_job (browser_call None) t"

definition loading :: ActiveJob where
  "loading = \<lparr>a_state = 0, a_queue = web_browser, a_budget = budgetFor web_browser None, a_job = browser_job 0\<rparr>"

lemma two_calls_run:
  "\<exists>w. run_steps (queue_step plain_queue_host) start_process (two_calls ov) = Some w
     \<and> map_of (queueStates w) web_browser = Some 0 \<and> pending (objects w 0) = [browser_job 1]
     \<and> running (objects w 0) = 1 \<and> active w = [loading]" if "ov = None \<or> ov = Some short_timeout"
proof -
  have "case run_steps (queue_step plain_queue_host) start_process (two_calls ov) of None \<Rightarrow> False
     | Some w \<Rightarrow> map_of (queueStates w) web_browser = Some 0 \<and> pending (objects w 0) = [browser_job 1]
         \<and> running (objects w 0) = 1 \<and> active w = [loading]"
    using that by (elim disjE; hypsubst; code_simp)
  then show ?thesis by (auto split: option.splits)
qed

theorem promises_in_one_place_witness:
  "\<exists>w. run_steps (queue_step plain_queue_host) start_process (two_calls None) = Some w
     \<and> waiting_tickets w + mset (map (\<lambda>a. ticket (a_job a)) (active w)) + mset (map fst (settled w)) = mset [0..<tickets w]"
  using two_calls_run [of None] promises_in_one_place [of plain_queue_host "two_calls None"] by blast

theorem queue_bounds_witness:
  "\<exists>w. run_steps (queue_step plain_queue_host) start_process (two_calls None) = Some w
     \<and> running (objects w 0) \<le> int 1 \<and> length (pending (objects w 0)) \<le> (10::nat)"
proof -
  obtain w where w: "run_steps (queue_step plain_queue_host) start_process (two_calls None) = Some w"
    "map_of (queueStates w) web_browser = Some 0" using two_calls_run [of None] by blast
  have "\<forall>e \<in> set (two_calls None). occurrence_within (\<lambda>_. 1) (\<lambda>_. 10) e" by code_simp
  from queue_bounds [OF w(1) this w(2)] w(1) show ?thesis by blast
qed

theorem waiting_job_starts_next_witness:
  "\<exists>w. run_steps (queue_step plain_queue_host) start_process (two_calls None) = Some w
     \<and> (\<exists>a \<in> set (active w). a_state a = 0 \<and> (\<exists>b. \<lparr>a_state = 0, a_queue = web_browser, a_budget = b, a_job = browser_job 1\<rparr>
          \<in> set (active (finish_job plain_queue_host a (Resolved 7) w))))"
proof -
  obtain w where w: "run_steps (queue_step plain_queue_host) start_process (two_calls None) = Some w"
    "map_of (queueStates w) web_browser = Some 0" "pending (objects w 0) = [browser_job 1]" using two_calls_run [of None] by blast
  have u: "\<forall>e \<in> set (two_calls None). uniform_occurrence (\<lambda>_. None) e" by (simp add: two_calls_def browser_call_def)
  have n: "concurrency (budgetFor web_browser None) \<noteq> NaN" by (simp add: budgetFor_def overridden_def Let_def)
  from waiting_job_starts_next [OF w(1) u n w(2,3)] w(1) show ?thesis by blast
qed

theorem waiting_job_loses_its_budget_witness:
  "\<exists>w. run_steps (queue_step plain_queue_host) start_process (two_calls (Some short_timeout)) = Some w
     \<and> timeoutMs (budgetFor web_browser (Some short_timeout)) = Num 5 \<and> timeoutMs (a_budget loading) = Num 20000
     \<and> \<lparr>a_state = 0, a_queue = web_browser, a_budget = a_budget loading, a_job = browser_job 1\<rparr>
         \<in> set (active (finish_job plain_queue_host loading (Resolved 7) w))"
proof -
  obtain w where w: "run_steps (queue_step plain_queue_host) start_process (two_calls (Some short_timeout)) = Some w"
    "map_of (queueStates w) web_browser = Some 0" "pending (objects w 0) = [browser_job 1]" "running (objects w 0) = 1"
    "active w = [loading]" using two_calls_run [of "Some short_timeout"] by blast
  have l: "a_state loading = 0" "loading \<in> set (active w)" by (simp_all add: loading_def w)
  have s: "has_slot (1 - 1) (a_budget loading)" by (simp add: loading_def has_slot_def budgetFor_def overridden_def Let_def)
  have t: "timeoutMs (budgetFor web_browser (Some short_timeout)) = Num 5" "timeoutMs (a_budget loading) = Num 20000"
    by (simp_all add: short_timeout_def loading_def budgetFor_def overridden_def Let_def)
  show ?thesis
    using waiting_job_loses_its_budget [OF w(1) l(2), unfolded l(1), OF w(2,3), unfolded w(4), OF s, of plain_queue_host "Resolved 7"]
      w(1) t by blast
qed

end
