(* ===== verification/Js_Date.thy ===== *)
theory Js_Date
  imports Prelude
begin

text \<open>
  The calendar of JavaScript's \<open>Date\<close>: the proleptic Gregorian calendar on milliseconds since 1970,
  with the getters and setters the sources use. A local time zone is a fixed offset, so local
  getters and setters are these functions on the shifted time. The setters normalise what
  overflows, as \<open>MakeDay\<close> and \<open>MakeTime\<close> of the language do.
\<close>

section \<open>Days, months and years\<close>

definition leap :: "int \<Rightarrow> bool" where
  "leap y \<longleftrightarrow> y mod 4 = 0 \<and> (y mod 100 \<noteq> 0 \<or> y mod 400 = 0)"

text \<open>The number of the first day of a year, \<open>DayFromYear\<close> of the language definition.\<close>

definition day_from_year :: "int \<Rightarrow> int" where
  "day_from_year y = 365 * (y - 1970) + (y - 1969) div 4 - (y - 1901) div 100 + (y - 1601) div 400"

definition year_of_day :: "int \<Rightarrow> int" where
  "year_of_day d =
     (let e = 1970 + (400 * d) div 146097
      in if d < day_from_year e then e - 1 else if day_from_year (e + 1) \<le> d then e + 1 else e)"

definition month_start :: "bool \<Rightarrow> int \<Rightarrow> int" where
  "month_start lp m =
     (if m \<le> 0 then 0 else if m = 1 then 31
      else (if m = 2 then 59 else if m = 3 then 90 else if m = 4 then 120 else if m = 5 then 151
        else if m = 6 then 181 else if m = 7 then 212 else if m = 8 then 243 else if m = 9 then 273
        else if m = 10 then 304 else if m = 11 then 334 else 365) + (if lp then 1 else 0))"

definition month_of_day :: "int \<Rightarrow> int" where
  "month_of_day d =
     (let lp = leap (year_of_day d); n = d - day_from_year (year_of_day d)
      in if n < month_start lp 1 then 0 else if n < month_start lp 2 then 1 else if n < month_start lp 3 then 2
         else if n < month_start lp 4 then 3 else if n < month_start lp 5 then 4 else if n < month_start lp 6 then 5
         else if n < month_start lp 7 then 6 else if n < month_start lp 8 then 7 else if n < month_start lp 9 then 8
         else if n < month_start lp 10 then 9 else if n < month_start lp 11 then 10 else 11)"

definition makeDay :: "int \<Rightarrow> int \<Rightarrow> int \<Rightarrow> int" where
  "makeDay year month date =
     (let ym = year + month div 12
      in day_from_year ym + month_start (leap ym) (month mod 12) + date - 1)"

definition date_of_day :: "int \<Rightarrow> int" where
  "date_of_day d = d - makeDay (year_of_day d) (month_of_day d) 1 + 1"

section \<open>Getters and setters\<close>

definition ms_per_day :: int where "ms_per_day = 86400000"
definition ms_per_hour :: int where "ms_per_hour = 3600000"
definition ms_per_minute :: int where "ms_per_minute = 60000"

lemmas ms_units = ms_per_day_def ms_per_hour_def ms_per_minute_def

definition day_of :: "int \<Rightarrow> int" where "day_of t = t div ms_per_day"
definition getFullYear :: "int \<Rightarrow> int" where "getFullYear t = year_of_day (day_of t)"
definition getMonth :: "int \<Rightarrow> int" where "getMonth t = month_of_day (day_of t)"
definition getDate :: "int \<Rightarrow> int" where "getDate t = date_of_day (day_of t)"
definition getDay :: "int \<Rightarrow> int" where "getDay t = (day_of t + 4) mod 7"
definition getHours :: "int \<Rightarrow> int" where "getHours t = t mod ms_per_day div ms_per_hour"
definition getMinutes :: "int \<Rightarrow> int" where "getMinutes t = t mod ms_per_hour div ms_per_minute"
definition getSeconds :: "int \<Rightarrow> int" where "getSeconds t = t mod ms_per_minute div 1000"
definition getMilliseconds :: "int \<Rightarrow> int" where "getMilliseconds t = t mod 1000"

definition makeTime :: "int \<Rightarrow> int \<Rightarrow> int \<Rightarrow> int \<Rightarrow> int" where
  "makeTime h mi s ms = h * ms_per_hour + mi * ms_per_minute + s * 1000 + ms"

definition makeDate :: "int \<Rightarrow> int \<Rightarrow> int" where
  "makeDate day time = day * ms_per_day + time"

definition setFullYear :: "int \<Rightarrow> int \<Rightarrow> int" where
  "setFullYear y t = makeDate (makeDay y (getMonth t) (getDate t)) (t mod ms_per_day)"

definition setMonth :: "int \<Rightarrow> int \<Rightarrow> int" where
  "setMonth m t = makeDate (makeDay (getFullYear t) m (getDate t)) (t mod ms_per_day)"

definition setDate :: "int \<Rightarrow> int \<Rightarrow> int" where
  "setDate dt t = makeDate (makeDay (getFullYear t) (getMonth t) dt) (t mod ms_per_day)"

definition setHours :: "int \<Rightarrow> int \<Rightarrow> int" where
  "setHours h t = makeDate (day_of t) (makeTime h (getMinutes t) (getSeconds t) (getMilliseconds t))"

definition setMinutes :: "int \<Rightarrow> int \<Rightarrow> int" where
  "setMinutes m t = makeDate (day_of t) (makeTime (getHours t) m (getSeconds t) (getMilliseconds t))"

definition setSeconds :: "int \<Rightarrow> int \<Rightarrow> int" where
  "setSeconds s t = makeDate (day_of t) (makeTime (getHours t) (getMinutes t) s (getMilliseconds t))"

definition setMilliseconds :: "int \<Rightarrow> int \<Rightarrow> int" where
  "setMilliseconds ms t = makeDate (day_of t) (makeTime (getHours t) (getMinutes t) (getSeconds t) ms)"

section \<open>The calendar is a partition of the days\<close>

lemma div_brackets: "k * (z div k) \<le> z \<and> z \<le> k * (z div k) + k - 1" if "0 < k" for z k :: int
  using that pos_mod_bound [of k z] pos_mod_sign [of k z] mult_div_mod_eq [of k z] by linarith

lemma div_step: "(z + 1) div k = z div k + (if (z + 1) mod k = 0 then 1 else 0)" if "0 < k" for z k :: int
proof (cases "z mod k = k - 1")
  case True
  then have "z + 1 = k * (z div k) + k" using mult_div_mod_eq [of k z] by linarith
  then have "z + 1 = k * (z div k + 1)" by (simp add: distrib_left)
  then show ?thesis using that by simp
next
  case False
  then have b: "0 \<le> z mod k + 1" "z mod k + 1 < k" using that pos_mod_bound [of k z] pos_mod_sign [of k z] by linarith+
  have e: "z + 1 = k * (z div k) + (z mod k + 1)" using mult_div_mod_eq [of k z] by linarith
  have "(z + 1) div k = z div k" "(z + 1) mod k = z mod k + 1"
    by (rule int_div_pos_eq [OF e b]) (rule int_mod_pos_eq [OF e b])
  moreover have "0 \<le> z mod k" using that by (rule pos_mod_sign)
  ultimately show ?thesis by (simp only: if_not_P add_0_right)
qed

lemma year_div: "(y + 1 - c) div k = (y - c) div k + (if y mod k = 0 then 1 else 0)" if "0 < k" "(c - 1) mod k = 0"
  for y c k :: int
proof -
  have "(y - (c - 1)) mod k = y mod k" using mod_diff_right_eq [of y "c - 1" k] that by (simp only: diff_zero)
  moreover have "y - c + 1 = y - (c - 1)" "y + 1 - c = y - c + 1" by simp_all
  ultimately show ?thesis using div_step [of k "y - c"] that by (simp only:)
qed

lemma day_from_year_bounds:
  "400 * day_from_year y \<ge> 146097 * (y - 1970) - 700" "400 * day_from_year y \<le> 146097 * (y - 1970) + 600"
proof -
  define a b c where abc: "a = (y - 1969) div 4" "b = (y - 1901) div 100" "c = (y - 1601) div 400"
  have "4 * a \<le> y - 1969" "y - 1969 \<le> 4 * a + 3" "100 * b \<le> y - 1901" "y - 1901 \<le> 100 * b + 99"
    "400 * c \<le> y - 1601" "y - 1601 \<le> 400 * c + 399"
    using div_brackets [of 4 "y - 1969"] div_brackets [of 100 "y - 1901"] div_brackets [of 400 "y - 1601"] by (simp_all add: abc)
  moreover have "400 * day_from_year y = 146000 * (y - 1970) + 400 * a - 400 * b + 400 * c"
    by (simp add: day_from_year_def abc)
  ultimately show "400 * day_from_year y \<ge> 146097 * (y - 1970) - 700"
    and "400 * day_from_year y \<le> 146097 * (y - 1970) + 600" by simp_all
qed

lemma day_from_year_Suc: "day_from_year (y + 1) = day_from_year y + (if leap y then 366 else 365)"
proof -
  define a b c where abc: "a = (y - 1969) div 4" "b = (y - 1901) div 100" "c = (y - 1601) div 400"
  define p q r where "p = (y mod 4 = 0)" and "q = (y mod 100 = 0)" and "r = (y mod 400 = 0)"
  have "(y + 1 - 1969) div 4 = (y - 1969) div 4 + (if p then 1 else 0)"
    "(y + 1 - 1901) div 100 = (y - 1901) div 100 + (if q then 1 else 0)"
    "(y + 1 - 1601) div 400 = (y - 1601) div 400 + (if r then 1 else 0)"
    unfolding p_def q_def r_def by (rule year_div; simp)+
  then have "day_from_year (y + 1) = 365 * (y + 1 - 1970) + (a + (if p then 1 else 0))
      - (b + (if q then 1 else 0)) + (c + (if r then 1 else 0))"
    unfolding day_from_year_def abc by (simp only:)
  then have "day_from_year (y + 1) = day_from_year y + 365
      + (if p then 1 else 0) - (if q then 1 else 0) + (if r then 1 else 0)"
    unfolding day_from_year_def [of y] abc [symmetric] by simp
  moreover have "r \<Longrightarrow> q" "q \<Longrightarrow> p"
    unfolding p_def q_def r_def dvd_eq_mod_eq_0 [symmetric] by (erule dvd_trans [rotated]; simp)+
  moreover have "leap y \<longleftrightarrow> p \<and> (\<not> q \<or> r)" unfolding leap_def p_def q_def r_def by (rule refl)
  ultimately show ?thesis by (cases p; cases q; cases r) simp_all
qed

lemma year_of_day_bounds: "day_from_year (year_of_day d) \<le> d \<and> d < day_from_year (year_of_day d + 1)"
proof -
  define e where e: "e = 1970 + (400 * d) div 146097"
  have e1: "146097 * (e - 1970) \<le> 400 * d" "400 * d < 146097 * (e - 1970) + 146097" using div_brackets [of 146097 "400 * d"] by (simp_all add: e)
  note b = day_from_year_bounds [of e] day_from_year_bounds [of "e + 1"] day_from_year_bounds [of "e - 1"]
    day_from_year_bounds [of "e + 1 + 1"]
  show ?thesis
  proof (cases "d < day_from_year e")
    case True
    then have "year_of_day d = e - 1" by (simp add: year_of_day_def e)
    then show ?thesis using True b e1 by simp
  next
    case F: False
    show ?thesis
    proof (cases "day_from_year (e + 1) \<le> d")
      case True
      then have "year_of_day d = e + 1" using F by (simp add: year_of_day_def Let_def e)
      then show ?thesis using True b e1 by simp
    next
      case False
      then have "year_of_day d = e" using F by (simp add: year_of_day_def Let_def e)
      then show ?thesis using False F by simp
    qed
  qed
qed

text \<open>Months counted from year 0: the number of their first day.\<close>

definition month_day :: "int \<Rightarrow> int" where
  "month_day M = makeDay 0 M 1"

definition month_index :: "int \<Rightarrow> int" where
  "month_index d = 12 * year_of_day d + month_of_day d"

lemma makeDay_month_day: "makeDay y m dt = month_day (12 * y + m) + dt - 1"
proof -
  have "(12 * y + m) div 12 = y + m div 12" "(12 * y + m) mod 12 = m mod 12" by simp_all
  then show ?thesis by (simp add: month_day_def makeDay_def Let_def)
qed

lemma month_lengths:
  assumes "0 \<le> m" "m \<le> 10"
  shows "month_start lp (m + 1) - month_start lp m \<in> {28..31}"
proof -
  have "m \<in> {0..10}" using assms by simp
  also have "{0..10} = {0,1,2,3,4,5,6,7,8,9,10::int}" by (rule set_eqI) (auto; presburger)
  finally show ?thesis by (auto simp: month_start_def)
qed

lemma month_day_step: "month_day (M + 1) - month_day M \<in> {28..31}"
proof (cases "M mod 12 = 11")
  case True
  then have "(M + 1) mod 12 = 0" using mod_add_left_eq [of M 12 1] by simp
  moreover from this have "(M + 1) div 12 = M div 12 + 1" using div_step [of 12 M] by simp
  ultimately have "(M + 1) div 12 = M div 12 + 1" "(M + 1) mod 12 = 0" by auto
  then show ?thesis using True day_from_year_Suc [of "M div 12"]
    by (simp add: month_day_def makeDay_def Let_def month_start_def)
next
  case False
  then have m: "0 \<le> M mod 12" "M mod 12 \<le> 10" using pos_mod_bound [of 12 M] pos_mod_sign [of 12 M] by linarith+
  then have s: "(M + 1) mod 12 = M mod 12 + 1" using mod_add_left_eq [of M 12 1] by simp
  then have "(M + 1) div 12 = M div 12" using div_step [of 12 M] m by simp
  note this s m
  then show ?thesis using month_lengths [of "M mod 12" "leap (M div 12)"]
    by (simp add: month_day_def makeDay_def Let_def)
qed

lemma month_of_day_bounds: "0 \<le> month_of_day d \<and> month_of_day d \<le> 11"
  by (simp add: month_of_day_def Let_def)

lemma breakpoints:
  fixes s :: "int \<Rightarrow> int"
  assumes "0 \<le> n" "n < s 12" "s 0 = 0"
    and "m = (if n < s 1 then 0 else if n < s 2 then 1 else if n < s 3 then 2 else if n < s 4 then 3
      else if n < s 5 then 4 else if n < s 6 then 5 else if n < s 7 then 6 else if n < s 8 then 7
      else if n < s 9 then 8 else if n < s 10 then 9 else if n < s 11 then 10 else 11)"
  shows "s m \<le> n \<and> n < s (m + 1)"
  using assms by (simp split: if_split)

lemma month_index_bounds: "month_day (month_index d) \<le> d \<and> d < month_day (month_index d + 1)"
proof -
  let ?y = "year_of_day d" and ?m = "month_of_day d" and ?lp = "leap (year_of_day d)"
  have m: "0 \<le> ?m" "?m \<le> 11" using month_of_day_bounds by auto
  have idx: "month_day (month_index d) = day_from_year ?y + month_start ?lp ?m"
    using makeDay_month_day [of ?y ?m 1] m by (simp add: month_index_def makeDay_def Let_def)
  have next_month: "month_day (month_index d + 1) = day_from_year ?y + month_start ?lp (?m + 1)"
  proof (cases "?m = 11")
    case True
    then have "month_day (month_index d + 1) = day_from_year (?y + 1)"
      using makeDay_month_day [of ?y 12 1] by (simp add: month_index_def makeDay_def Let_def month_start_def algebra_simps)
    then show ?thesis using True by (simp add: day_from_year_Suc month_start_def)
  next
    case False
    then show ?thesis using makeDay_month_day [of ?y "?m + 1" 1] m
      by (simp add: month_index_def makeDay_def Let_def algebra_simps)
  qed
  define n where n: "n = d - day_from_year ?y"
  have "0 \<le> n" "n < month_start ?lp 12"
    using year_of_day_bounds [of d] day_from_year_Suc [of ?y] by (auto simp: n month_start_def)
  moreover have "month_start ?lp 0 = 0" by (simp add: month_start_def)
  moreover have "?m = (if n < month_start ?lp 1 then 0 else if n < month_start ?lp 2 then 1 else if n < month_start ?lp 3 then 2
         else if n < month_start ?lp 4 then 3 else if n < month_start ?lp 5 then 4 else if n < month_start ?lp 6 then 5
         else if n < month_start ?lp 7 then 6 else if n < month_start ?lp 8 then 7 else if n < month_start ?lp 9 then 8
         else if n < month_start ?lp 10 then 9 else if n < month_start ?lp 11 then 10 else 11)"
    by (simp add: month_of_day_def Let_def n)
  ultimately have "month_start ?lp ?m \<le> n \<and> n < month_start ?lp (?m + 1)"
    by (rule breakpoints)
  then show ?thesis unfolding idx next_month n by linarith
qed

lemma month_day_mono: "M < N \<Longrightarrow> month_day M < month_day N"
proof -
  have step: "month_day M < month_day (M + 1)" for M using month_day_step [of M] by simp
  have "month_day M < month_day (M + 1 + int k)" for k
  proof (induction k)
    case (Suc k)
    with step [of "M + 1 + int k"] show ?case by (simp add: algebra_simps)
  qed (use step in simp)
  moreover assume "M < N"
  then obtain k where "N = M + 1 + int k" using zle_iff_zadd [of "M + 1" N] by auto
  ultimately show "month_day M < month_day N" by simp
qed

lemma month_index_unique:
  assumes "month_day M \<le> d" and "d < month_day (M + 1)"
  shows "month_index d = M"
proof (rule ccontr)
  assume "month_index d \<noteq> M"
  then consider "M + 1 \<le> month_index d" | "month_index d + 1 \<le> M" by linarith
  then show False
  proof cases
    case 1
    then have "month_day (M + 1) \<le> month_day (month_index d)" using month_day_mono [of "M + 1" "month_index d"] by (cases "M + 1 = month_index d") auto
    then show ?thesis using assms month_index_bounds [of d] by linarith
  next
    case 2
    then have "month_day (month_index d + 1) \<le> month_day M" using month_day_mono [of "month_index d + 1" M] by (cases "month_index d + 1 = M") auto
    then show ?thesis using assms month_index_bounds [of d] by linarith
  qed
qed

lemma month_of_index: "month_of_day d = month_index d mod 12" and year_of_index: "year_of_day d = month_index d div 12"
  using month_of_day_bounds [of d] by (auto simp: month_index_def)

lemma date_of_index: "date_of_day d = d - month_day (month_index d) + 1"
  by (simp add: date_of_day_def makeDay_month_day month_index_def)

lemma date_of_day_bounds: "1 \<le> date_of_day d \<and> date_of_day d \<le> 31"
  using month_index_bounds [of d] month_day_step [of "month_index d"] by (auto simp: date_of_index)

lemma makeDay_of_day: "makeDay (year_of_day d) (month_of_day d) dt = month_day (month_index d) + dt - 1"
  by (simp add: makeDay_month_day month_index_def)

section \<open>Dates by their parts\<close>

lemma time_parts:
  "t = day_of t * 86400000 + getHours t * 3600000 + getMinutes t * 60000 + getSeconds t * 1000 + getMilliseconds t"
proof -
  define A B C where abc: "A = t mod 86400000" "B = t mod 3600000" "C = t mod 60000"
  have "t mod 86400000 mod 3600000 = t mod 3600000" "t mod 3600000 mod 60000 = t mod 60000" "t mod 60000 mod 1000 = t mod 1000"
    by (rule mod_mod_cancel; simp)+
  then have "A mod 3600000 = B" "B mod 60000 = C" "C mod 1000 = getMilliseconds t"
    unfolding abc getMilliseconds_def .
  moreover have "day_of t = t div 86400000" "getHours t = A div 3600000" "getMinutes t = B div 60000" "getSeconds t = C div 1000"
    unfolding abc day_of_def getHours_def getMinutes_def getSeconds_def ms_units by (rule refl)+
  ultimately have "t = 86400000 * day_of t + A" "A = 3600000 * getHours t + B" "B = 60000 * getMinutes t + C"
    "C = 1000 * getSeconds t + getMilliseconds t"
    using mult_div_mod_eq [of 86400000 t] mult_div_mod_eq [of 3600000 A] mult_div_mod_eq [of 60000 B] mult_div_mod_eq [of 1000 C]
    unfolding abc(1) [symmetric] by metis+
  then show ?thesis by linarith
qed

lemma hours_bounds: "0 \<le> getHours t" "getHours t \<le> 23"
  using pos_mod_bound [of 86400000 t] pos_mod_sign [of 86400000 t] div_brackets [of 3600000 "t mod 86400000"]
  by (simp_all add: getHours_def ms_units)

lemma minutes_bounds: "0 \<le> getMinutes t" "getMinutes t \<le> 59"
  using pos_mod_bound [of 3600000 t] pos_mod_sign [of 3600000 t] div_brackets [of 60000 "t mod 3600000"]
  by (simp_all add: getMinutes_def ms_units)

lemma seconds_bounds: "0 \<le> getSeconds t" "getSeconds t \<le> 59"
  using pos_mod_bound [of 60000 t] pos_mod_sign [of 60000 t] div_brackets [of 1000 "t mod 60000"]
  by (simp_all add: getSeconds_def ms_units)

lemma milliseconds_bounds: "0 \<le> getMilliseconds t" "getMilliseconds t \<le> 999"
  by (simp_all add: getMilliseconds_def)

lemmas part_bounds = hours_bounds minutes_bounds seconds_bounds milliseconds_bounds

lemma setMilliseconds_by: "setMilliseconds k t = t + (k - getMilliseconds t)"
  using time_parts [of t] by (simp add: setMilliseconds_def makeDate_def makeTime_def ms_units)

lemma setSeconds_by: "setSeconds k t = t + (k - getSeconds t) * 1000"
  using time_parts [of t] by (simp add: setSeconds_def makeDate_def makeTime_def ms_units left_diff_distrib)

lemma setMinutes_by: "setMinutes k t = t + (k - getMinutes t) * 60000"
  using time_parts [of t] by (simp add: setMinutes_def makeDate_def makeTime_def ms_units left_diff_distrib)

lemma setHours_by: "setHours k t = t + (k - getHours t) * 3600000"
  using time_parts [of t] by (simp add: setHours_def makeDate_def makeTime_def ms_units left_diff_distrib)

lemma day_split: "t = day_of t * 86400000 + t mod 86400000"
  using mult_div_mod_eq [of 86400000 t] by (simp add: day_of_def ms_units mult.commute)

lemma getDate_eq: "getDate t = day_of t - month_day (month_index (day_of t)) + 1"
  by (simp add: getDate_def date_of_index)

lemma setDate_by: "setDate k t = t + (k - getDate t) * 86400000"
  using day_split [of t]
  by (simp add: setDate_def makeDate_def getFullYear_def getMonth_def makeDay_of_day getDate_eq ms_units left_diff_distrib)

lemma day_of_shift: "0 \<le> r \<Longrightarrow> r < 86400000 \<Longrightarrow> day_of (d * 86400000 + r) = d"
  unfolding day_of_def ms_units by (rule int_div_pos_eq [of _ _ d r]) simp_all

lemma day_of_le: "d * 86400000 \<le> t \<Longrightarrow> d \<le> day_of t" and day_of_less: "t < d * 86400000 \<Longrightarrow> day_of t < d"
  using day_split [of t] pos_mod_bound [of 86400000 t] pos_mod_sign [of 86400000 t] by linarith+

text \<open>The hour counted from 1970, and moving to its start.\<close>

lemma hour_split: "t = (t div 3600000) * 3600000 + getMinutes t * 60000 + t mod 60000"
proof -
  define B where "B = t mod 3600000"
  have "B mod 60000 = t mod 60000" unfolding B_def by (rule mod_mod_cancel) simp
  then have "B = 60000 * (B div 60000) + t mod 60000" using mult_div_mod_eq [of 60000 B] by presburger
  moreover have "getMinutes t = B div 60000" unfolding B_def getMinutes_def ms_units by (rule refl)
  moreover have "t = 3600000 * (t div 3600000) + B" unfolding B_def by simp
  ultimately show ?thesis by linarith
qed

lemma hours_of_hour: "getHours t = (t div 3600000) mod 24" "day_of t = (t div 3600000) div 24"
proof -
  define h where "h = t div 3600000"
  have t: "t = h * 3600000 + t mod 3600000" unfolding h_def by simp
  have h: "h = h div 24 * 24 + h mod 24" by simp
  have b: "0 \<le> t mod 3600000" "t mod 3600000 < 3600000" "0 \<le> h mod 24" "h mod 24 < 24" by simp_all
  define r where "r = (h mod 24) * 3600000 + t mod 3600000"
  have r: "0 \<le> r" "r < 86400000" "t = 86400000 * (h div 24) + r" using t h b unfolding r_def by linarith+
  have "t div 86400000 = h div 24" "t mod 86400000 = r"
    by (rule int_div_pos_eq [OF r(3,1,2)]) (rule int_mod_pos_eq [OF r(3,1,2)])
  moreover have "r div 3600000 = h mod 24"
    by (rule int_div_pos_eq [of _ _ _ "t mod 3600000"]) (use b in \<open>simp_all add: r_def\<close>)
  ultimately show "getHours t = (t div 3600000) mod 24" "day_of t = (t div 3600000) div 24"
    unfolding getHours_def day_of_def ms_units h_def by simp_all
qed

lemma setMinutes_0: "setMinutes 0 t = (t div 3600000) * 3600000 + t mod 60000"
  using hour_split [of t] by (simp add: setMinutes_by)

lemma minute_of_day: "t mod 86400000 mod 60000 = t mod 60000" "t mod 3600000 mod 60000 = t mod 60000" for t :: int
  by (rule mod_mod_cancel; simp)+

end
