(* ===== verification/Cron.thy ===== *)
theory Cron
  imports Prelude Js_Date
begin

text \<open>
  The cron schedules of \<open>scheduler/cron.ts\<close>: the parser of the five fields, the search for the
  next run in the local time zone, which skips months, days and hours, and the search in a named
  time zone, which goes minute by minute. The local zone is a fixed offset (no change to summer
  time); what \<open>Intl.DateTimeFormat\<close> prints for a named zone is a parameter. A value of type
  \<open>cron_outcome\<close> is \<open>None\<close> when the code loops for ever (a range up to \<open>Infinity\<close>), else an error
  or a result.
\<close>

section \<open>Strings and numbers\<close>

type_synonym 'a cron_outcome = "(string + 'a) option"

definition throws :: "string \<Rightarrow> 'a cron_outcome" where "throws e = Some (Inl e)"
definition returns :: "'a \<Rightarrow> 'a cron_outcome" where "returns x = Some (Inr x)"

definition obind :: "'a cron_outcome \<Rightarrow> ('a \<Rightarrow> 'b cron_outcome) \<Rightarrow> 'b cron_outcome" where
  "obind m f = (case m of None \<Rightarrow> None | Some (Inl e) \<Rightarrow> Some (Inl e) | Some (Inr x) \<Rightarrow> f x)"

text \<open>\<open>s.split(c)\<close> for a separator of one character and \<open>s.split(/\s+/)\<close>.\<close>

fun split_on :: "char \<Rightarrow> string \<Rightarrow> string list" where
  "split_on c s = (case dropWhile (\<lambda>x. x \<noteq> c) s of
       [] \<Rightarrow> [s] | _ # r \<Rightarrow> takeWhile (\<lambda>x. x \<noteq> c) s # (if length r < length s then split_on c r else []))"

declare split_on.simps [simp del]

function split_spaces :: "string \<Rightarrow> string list" where
  "split_spaces s = (let r = dropWhile (\<lambda>x. \<not> js_ws x) s
     in if r = [] then [s] else takeWhile (\<lambda>x. \<not> js_ws x) s # split_spaces (dropWhile js_ws r))"
  by auto

lemma length_dropWhile_strict: "xs \<noteq> [] \<Longrightarrow> P (hd xs) \<Longrightarrow> length (dropWhile P xs) < length xs"
  by (cases xs) (auto intro: le_imp_less_Suc length_dropWhile_le)

termination split_spaces
proof (relation "measure length")
  fix s r :: string
  assume r: "r = dropWhile (\<lambda>x. \<not> js_ws x) s" and ne: "r \<noteq> []"
  then have "js_ws (hd r)" using hd_dropWhile [of "\<lambda>x. \<not> js_ws x" s] by auto
  with ne have "length (dropWhile js_ws r) < length r" by (rule length_dropWhile_strict)
  also have "length r \<le> length s" unfolding r by (rule length_dropWhile_le)
  finally show "(dropWhile js_ws r, s) \<in> measure length" by simp
qed simp

declare split_spaces.simps [simp del]

definition digit :: "char \<Rightarrow> bool" where
  "digit c \<longleftrightarrow> c \<in> set ''0123456789''"

text \<open>The value of a digit in a base up to 16, and of a string of digits.\<close>

definition radix_digit :: "char \<Rightarrow> nat" where
  "radix_digit c = (let n = (of_char c :: nat) in if n < 58 then n - 48 else if n < 71 then n - 55 else n - 87)"

definition digits_value :: "nat \<Rightarrow> string \<Rightarrow> nat" where
  "digits_value b s = foldl (\<lambda>v c. v * b + radix_digit c) 0 s"

text \<open>\<open>parseInt(s, 10)\<close>: \<open>None\<close> stands for \<open>NaN\<close>.\<close>

definition js_parseInt :: "string \<Rightarrow> int option" where
  "js_parseInt s =
     (let t = dropWhile js_ws s;
          negative = (t \<noteq> [] \<and> hd t = CHR ''-'');
          u = (if t \<noteq> [] \<and> hd t \<in> {CHR ''-'', CHR ''+''} then tl t else t);
          ds = takeWhile digit u
      in if ds = [] then None else Some (if negative then - int (digits_value 10 ds) else int (digits_value 10 ds)))"

text \<open>\<open>Number(s)\<close> of a string.\<close>

definition decimal_value :: "string \<Rightarrow> string \<Rightarrow> int \<Rightarrow> rat" where
  "decimal_value whole fraction exponent =
     (let e = exponent - int (length fraction); m = of_nat (digits_value 10 (whole @ fraction))
      in if 0 \<le> e then m * 10 ^ nat e else m / 10 ^ nat (- e))"

definition unsigned_decimal :: "string \<Rightarrow> number" where
  "unsigned_decimal s =
     (if s = ''Infinity'' then Infinity else
      let whole = takeWhile digit s; r = dropWhile digit s;
          dotted = (r \<noteq> [] \<and> hd r = CHR ''.'');
          fraction = (if dotted then takeWhile digit (tl r) else []);
          r2 = (if dotted then dropWhile digit (tl r) else r)
      in if whole = [] \<and> fraction = [] then NaN
         else if r2 = [] then Num (decimal_value whole fraction 0)
         else if hd r2 \<notin> {CHR ''e'', CHR ''E''} then NaN
         else let t = tl r2; signed = (t \<noteq> [] \<and> hd t \<in> {CHR ''-'', CHR ''+''}); ds = (if signed then tl t else t)
              in if ds = [] \<or> \<not> list_all digit ds then NaN
                 else Num (decimal_value whole fraction
                        (if signed \<and> hd t = CHR ''-'' then - int (digits_value 10 ds) else int (digits_value 10 ds))))"

definition radix_literal :: "nat \<Rightarrow> string \<Rightarrow> string \<Rightarrow> number" where
  "radix_literal b allowed ds =
     (if ds = [] \<or> \<not> list_all (\<lambda>c. c \<in> set allowed) ds then NaN else Num (of_nat (digits_value b ds)))"

definition js_Number :: "string \<Rightarrow> number" where
  "js_Number s =
     (let t = js_trim s
      in if t = [] then Num 0
         else if take 2 t \<in> {''0x'', ''0X''} then radix_literal 16 ''0123456789abcdefABCDEF'' (drop 2 t)
         else if take 2 t \<in> {''0o'', ''0O''} then radix_literal 8 ''01234567'' (drop 2 t)
         else if take 2 t \<in> {''0b'', ''0B''} then radix_literal 2 ''01'' (drop 2 t)
         else if hd t = CHR ''-'' then num_uminus (unsigned_decimal (tl t))
         else if hd t = CHR ''+'' then unsigned_decimal (tl t)
         else unsigned_decimal t)"

section \<open>The fields of an expression\<close>

text \<open>\<open>for (let i = lo; i <= hi; i += step) result.add(i)\<close>. The code has thrown when the step is
  not positive, the test here only makes the recursion total.\<close>

function steps_from :: "rat \<Rightarrow> rat \<Rightarrow> int \<Rightarrow> number list" where
  "steps_from i hi step = (if i \<le> hi \<and> 0 < step then Num i # steps_from (i + of_int step) hi step else [])"
  by auto

termination steps_from
proof (relation "measure (\<lambda>(i, hi, step). nat (\<lfloor>hi - i\<rfloor> + 1))")
  fix i hi :: rat and step :: int
  assume a: "i \<le> hi \<and> 0 < step"
  have "\<lfloor>hi - (i + of_int step)\<rfloor> = \<lfloor>hi - i\<rfloor> - step" by (simp add: diff_diff_eq [symmetric])
  moreover have "0 \<le> \<lfloor>hi - i\<rfloor>" using a by simp
  ultimately show "((i + of_int step, hi, step), (i, hi, step)) \<in> measure (\<lambda>(i, hi, step). nat (\<lfloor>hi - i\<rfloor> + 1))"
    using a by simp
qed simp

declare steps_from.simps [simp del]

text \<open>\<open>for (let i = a; i <= b; i++)\<close> on numbers that may be infinite: \<open>Infinity + 1\<close> is \<open>Infinity\<close>,
  so a loop that reaches an infinite bound does not end.\<close>

definition range_loop :: "number \<Rightarrow> number \<Rightarrow> number list option" where
  "range_loop a b =
     (if \<not> num_le a b then Some []
      else case (a, b) of (Num x, Num y) \<Rightarrow> Some (steps_from x y 1) | _ \<Rightarrow> None)"

definition parse_part :: "string \<Rightarrow> int \<Rightarrow> int \<Rightarrow> number list cron_outcome" where
  "parse_part part lo hi =
     (if part = ''*'' then returns (steps_from (of_int lo) (of_int hi) 1)
      else if take 2 part = ''*/'' then
        (case js_parseInt (drop 2 part) of
           None \<Rightarrow> throws (''Invalid cron step: '' @ part)
         | Some step \<Rightarrow> if step \<le> 0 then throws (''Invalid cron step: '' @ part)
             else returns (steps_from (of_int lo) (of_int hi) step))
      else if CHR ''-'' \<in> set part then
        (case map js_Number (split_on CHR ''-'' part) of
           a # b # _ \<Rightarrow>
             if a = NaN \<or> b = NaN then throws (''Invalid cron range: '' @ part)
             else (case range_loop a b of None \<Rightarrow> None | Some xs \<Rightarrow> returns xs)
         | _ \<Rightarrow> throws (''Invalid cron range: '' @ part))
      else (case js_parseInt part of
          None \<Rightarrow> throws (''Invalid cron value: '' @ part)
        | Some n \<Rightarrow> returns [Num (of_int n)]))"

primrec parse_parts :: "string list \<Rightarrow> int \<Rightarrow> int \<Rightarrow> number list \<Rightarrow> number list cron_outcome" where
  "parse_parts [] lo hi result = returns result"
| "parse_parts (part # parts) lo hi result =
     obind (parse_part part lo hi) (\<lambda>xs. parse_parts parts lo hi (foldl set_add result xs))"

definition parseField :: "string \<Rightarrow> int \<Rightarrow> int \<Rightarrow> number list cron_outcome" where
  "parseField field lo hi = parse_parts (split_on CHR '','' field) lo hi []"

record CronFields =
  minutes :: "number list"
  hours :: "number list"
  days :: "number list"
  months :: "number list"
  weekdays :: "number list"

definition quoted :: "string \<Rightarrow> string" where
  "quoted s = [CHR 0x22] @ s @ [CHR 0x22]"

definition parseCron :: "string \<Rightarrow> CronFields cron_outcome" where
  "parseCron expr =
     (case split_spaces (js_trim expr) of
        [m, h, d, mo, wd] \<Rightarrow>
          obind (parseField m 0 59) (\<lambda>ms.
          obind (parseField h 0 23) (\<lambda>hs.
          obind (parseField d 1 31) (\<lambda>ds.
          obind (parseField mo 1 12) (\<lambda>mos.
          obind (parseField wd 0 6) (\<lambda>wds.
            returns \<lparr>minutes = ms, hours = hs, days = ds, months = mos, weekdays = wds\<rparr>)))))
      | _ \<Rightarrow> throws (''Cron expression must have 5 fields: '' @ quoted expr))"

definition isValidCron :: "string \<Rightarrow> bool option" where
  "isValidCron expr = (case parseCron expr of None \<Rightarrow> None | Some (Inl e) \<Rightarrow> Some False | Some (Inr f) \<Rightarrow> Some True)"

text \<open>\<open>set.has(n)\<close> for a whole number.\<close>

definition has_int :: "number list \<Rightarrow> int \<Rightarrow> bool" where
  "has_int s n \<longleftrightarrow> Num (of_int n) \<in> set s"

section \<open>The search in the local zone\<close>

text \<open>Local times are milliseconds shifted by the offset of the zone; the search works on them.\<close>

definition next_month :: "int \<Rightarrow> int" where
  "next_month d = (let d = setMonth (getMonth d + 1) d; d = setDate 1 d; d = setHours 0 d in setMinutes 0 d)"

definition next_day :: "int \<Rightarrow> int" where
  "next_day d = (let d = setDate (getDate d + 1) d; d = setHours 0 d in setMinutes 0 d)"

definition next_hour :: "int \<Rightarrow> int" where
  "next_hour d = (let d = setHours (getHours d + 1) d in setMinutes 0 d)"

definition next_minute :: "int \<Rightarrow> int" where
  "next_minute d = setMinutes (getMinutes d + 1) d"

definition first_minute :: "int \<Rightarrow> int" where
  "first_minute from = (let d = setSeconds 0 from; d = setMilliseconds 0 d in setMinutes (getMinutes d + 1) d)"

definition search_limit :: "int \<Rightarrow> int" where
  "search_limit from = setFullYear (getFullYear from + 4) from"

lemma day_start: "setMinutes 0 (setHours 0 t) = day_of t * 86400000 + t mod 60000"
proof -
  define h where "h = setHours 0 t"
  have h: "h = day_of t * 86400000 + t mod 3600000"
  proof -
    define q where "q = t div 3600000"
    define s where "s = t mod 3600000"
    have "t = q * 3600000 + s" unfolding q_def s_def by simp
    moreover have "q = day_of t * 24 + getHours t" unfolding q_def by (simp add: hours_of_hour)
    ultimately have "t = (day_of t * 24 + getHours t) * 3600000 + s" by (simp only:)
    then show ?thesis unfolding h_def setHours_by s_def [symmetric] by (simp add: algebra_simps)
  qed
  define r where "r = t mod 3600000"
  have r: "0 \<le> r" "r < 3600000" unfolding r_def by simp_all
  have e: "h = 3600000 * (day_of t * 24) + r" unfolding h r_def by simp
  have "h div 3600000 = day_of t * 24" by (rule int_div_pos_eq [OF e r])
  moreover have "h mod 60000 = t mod 60000"
  proof -
    have "h mod 60000 = h mod 3600000 mod 60000" by (simp only: minute_of_day)
    also have "h mod 3600000 = r" by (rule int_mod_pos_eq [OF e r])
    finally show ?thesis unfolding r_def by (simp only: minute_of_day)
  qed
  ultimately show ?thesis unfolding h_def [symmetric] setMinutes_0 by simp
qed

lemma add_multiple_mod: "(a * k + t) mod m = t mod m" if "k mod m = 0" for a k t m :: int
  using that by (metis mod_add_left_eq mod_mult_right_eq mult_zero_right mod_0 add_0)

lemma day_of_add: "day_of (t + k * 86400000) = day_of t + k"
  unfolding day_of_def ms_units by (simp add: add.commute)

lemma setDate_day: "setDate k t = (month_day (month_index (day_of t)) + k - 1) * 86400000 + t mod 86400000"
  using day_split [of t] by (simp add: setDate_by getDate_eq algebra_simps)

lemma setMonth_day: "setMonth (getMonth t + 1) t = (month_day (month_index (day_of t) + 1) + getDate t - 1) * 86400000 + t mod 86400000"
  by (simp add: setMonth_def makeDate_def getFullYear_def getMonth_def makeDay_month_day month_index_def ms_units
      algebra_simps)

lemma day_of_day_start: "day_of (n * 86400000 + t mod 86400000) = n"
  by (rule day_of_shift) simp_all

lemma day_of_start: "day_of (n * 86400000) = n"
  using day_of_shift [of 0 n] by simp

lemma mod_day_start: "(n * 86400000 + t mod 86400000) mod 60000 = t mod 60000" for t :: int
  by (simp add: add_multiple_mod minute_of_day)

lemma next_hour_eq: "next_hour d = (d div 3600000 + 1) * 3600000 + d mod 60000"
proof -
  have e: "setHours (getHours d + 1) d = d + 3600000" by (simp add: setHours_by)
  have "(d + 3600000) div 3600000 = d div 3600000 + 1" by simp
  moreover have "(d + 3600000) mod 60000 = d mod 60000"
    using add_multiple_mod [of 3600000 60000 1 d] by (simp add: add.commute)
  ultimately show ?thesis unfolding next_hour_def Let_def e setMinutes_0 by simp
qed

lemma next_day_eq: "next_day d = (day_of d + 1) * 86400000 + d mod 60000"
proof -
  have e: "setDate (getDate d + 1) d = (day_of d + 1) * 86400000 + d mod 86400000"
    by (simp add: setDate_day getDate_eq)
  show ?thesis unfolding next_day_def Let_def day_start e day_of_day_start mod_day_start by (rule refl)
qed

definition skipped_month :: "int \<Rightarrow> int" where
  "skipped_month d = month_index (month_day (month_index (day_of d) + 1) + getDate d - 1)"

lemma next_month_eq: "next_month d = month_day (skipped_month d) * 86400000 + d mod 60000"
proof -
  define n where "n = month_day (month_index (day_of d) + 1) + getDate d - 1"
  have e: "setMonth (getMonth d + 1) d = n * 86400000 + d mod 86400000" unfolding n_def by (rule setMonth_day)
  have "setDate 1 (n * 86400000 + d mod 86400000) = month_day (month_index n) * 86400000 + d mod 86400000"
    unfolding setDate_day day_of_day_start by simp
  then show ?thesis unfolding next_month_def Let_def day_start e
    by (simp add: day_of_day_start mod_day_start skipped_month_def n_def)
qed

lemma next_minute_eq: "next_minute d = d + 60000"
  by (simp add: next_minute_def setMinutes_by)

lemma getDate_ge_1: "1 \<le> getDate d" and getDate_le_31: "getDate d \<le> 31"
  using date_of_day_bounds [of "day_of d"] by (simp_all add: getDate_def)

lemma month_index_ge: "M \<le> month_index n" if "month_day M \<le> n"
proof (rule ccontr)
  assume "\<not> ?thesis"
  then have "month_day (month_index n + 1) \<le> month_day M" using month_day_mono [of "month_index n + 1" M]
    by (cases "month_index n + 1 = M") auto
  then show False using month_index_bounds [of n] that by linarith
qed

lemma skipped_month_later: "month_index (day_of d) + 1 \<le> skipped_month d"
  unfolding skipped_month_def by (rule month_index_ge) (use getDate_ge_1 [of d] in simp)

lemma skipped_month_next: "getDate d \<le> 28 \<Longrightarrow> skipped_month d = month_index (day_of d) + 1"
  unfolding skipped_month_def
  using getDate_ge_1 [of d] month_day_step [of "month_index (day_of d) + 1"] by (intro month_index_unique) auto

lemma skips_forward: "d < next_minute d" "d < next_hour d" "d < next_day d" "d < next_month d"
proof -
  have s: "0 \<le> d mod 60000" by simp
  show "d < next_minute d" by (simp add: next_minute_eq)
  have "d < (d div 3600000 + 1) * 3600000" using div_brackets [of 3600000 d] by simp
  with s show "d < next_hour d" unfolding next_hour_eq by linarith
  have day: "d < (day_of d + 1) * 86400000" using day_split [of d] pos_mod_bound [of 86400000 d] by (simp add: distrib_right)
  with s show "d < next_day d" unfolding next_day_eq by linarith
  have "month_day (month_index (day_of d) + 1) \<le> month_day (skipped_month d)"
    using skipped_month_later [of d] month_day_mono by (metis order_le_less order_refl)
  then have "day_of d + 1 \<le> month_day (skipped_month d)" using month_index_bounds [of "day_of d"] by linarith
  then have "(day_of d + 1) * 86400000 \<le> month_day (skipped_month d) * 86400000" by simp
  with day s show "d < next_month d" unfolding next_month_eq by linarith
qed

function cron_search :: "CronFields \<Rightarrow> int \<Rightarrow> int \<Rightarrow> int option" where
  "cron_search f d limit =
     (if d < limit then
        if \<not> has_int (months f) (getMonth d + 1) then cron_search f (next_month d) limit
        else if \<not> has_int (days f) (getDate d) \<or> \<not> has_int (weekdays f) (getDay d) then cron_search f (next_day d) limit
        else if \<not> has_int (hours f) (getHours d) then cron_search f (next_hour d) limit
        else if \<not> has_int (minutes f) (getMinutes d) then cron_search f (next_minute d) limit
        else Some d
      else None)"
  by auto

termination cron_search
  by (relation "measure (\<lambda>(f, d, limit). nat (limit - d))") (use skips_forward in \<open>auto simp: algebra_simps\<close>)

declare cron_search.simps [simp del]

text \<open>\<open>getNextRun\<close>: \<open>utcOffset\<close> is the offset of the local zone in milliseconds.\<close>

definition no_run :: "string \<Rightarrow> string" where
  "no_run expr = ''No matching time found for cron: '' @ quoted expr"

definition getNextRun :: "int \<Rightarrow> string \<Rightarrow> int \<Rightarrow> int cron_outcome" where
  "getNextRun utcOffset expr from_time =
     obind (parseCron expr) (\<lambda>f.
       case cron_search f (first_minute (from_time + utcOffset)) (search_limit (from_time + utcOffset)) of
         Some d \<Rightarrow> returns (d - utcOffset)
       | None \<Rightarrow> throws (no_run expr))"

section \<open>The search in a named zone\<close>

record ZonedDateParts =
  year :: number
  month :: number
  day :: number
  hour :: number
  minute :: number
  weekday :: number

text \<open>\<open>new Date(Date.UTC(year, month - 1, day)).getUTCDay()\<close>: the arguments are truncated to whole
  numbers, a year from 0 to 99 is counted from 1900.\<close>

definition truncated :: "rat \<Rightarrow> int" where
  "truncated q = (if 0 \<le> q then \<lfloor>q\<rfloor> else \<lceil>q\<rceil>)"

fun utc_weekday :: "number \<Rightarrow> number \<Rightarrow> number \<Rightarrow> number" where
  "utc_weekday (Num y) (Num m) (Num d) =
     (let y = truncated y; y = (if 0 \<le> y \<and> y \<le> 99 then 1900 + y else y)
      in Num (of_int ((makeDay y (truncated (m - 1)) (truncated d) + 4) mod 7)))"
| "utc_weekday _ _ _ = NaN"

text \<open>What \<open>Intl.DateTimeFormat\<close> does is a parameter: \<open>formatToParts date timezone\<close> lists the types and
  values of the parts, \<open>supported timezone\<close> says that a formatter can be made for the zone.\<close>

record intl =
  formatToParts :: "int \<Rightarrow> string \<Rightarrow> (string \<times> string) list"
  supported :: "string \<Rightarrow> bool"
  resolvedTimeZone :: string

definition part_number :: "(string \<times> string) list \<Rightarrow> string \<Rightarrow> number" where
  "part_number values key = (case map_of values key of None \<Rightarrow> NaN | Some v \<Rightarrow> js_Number v)"

definition readZonedParts :: "intl \<Rightarrow> int \<Rightarrow> string \<Rightarrow> ZonedDateParts" where
  "readZonedParts I date timezone =
     (let values = foldl (\<lambda>vs (ty, v). if ty \<noteq> ''literal'' then AList.update ty v vs else vs) []
                     (formatToParts I date timezone);
          y = part_number values ''year''; m = part_number values ''month''; d = part_number values ''day''
      in \<lparr>year = y, month = m, day = d, hour = part_number values ''hour'',
          minute = part_number values ''minute'', weekday = utc_weekday y m d\<rparr>)"

definition matchesCronFields :: "CronFields \<Rightarrow> ZonedDateParts \<Rightarrow> bool" where
  "matchesCronFields f parts \<longleftrightarrow>
     month parts \<in> set (months f) \<and> day parts \<in> set (days f) \<and> weekday parts \<in> set (weekdays f)
     \<and> hour parts \<in> set (hours f) \<and> minute parts \<in> set (minutes f)"

definition isValidTimeZone :: "intl \<Rightarrow> string \<Rightarrow> bool" where
  "isValidTimeZone I timezone = supported I timezone"

text \<open>\<open>timezone?.trim() || fallback\<close>; an absent or empty name takes the fallback.\<close>

definition zone_candidate :: "string option \<Rightarrow> string \<Rightarrow> string" where
  "zone_candidate timezone fallback =
     (case timezone of None \<Rightarrow> fallback | Some t \<Rightarrow> if js_trim t = [] then fallback else js_trim t)"

definition normalizeScheduleTimezone :: "intl \<Rightarrow> string option \<Rightarrow> string \<Rightarrow> string" where
  "normalizeScheduleTimezone I timezone fallback =
     (let candidate = zone_candidate timezone fallback
      in if isValidTimeZone I candidate then candidate
         else if isValidTimeZone I fallback then fallback else ''UTC'')"

function minute_search :: "(int \<Rightarrow> bool) \<Rightarrow> int \<Rightarrow> int \<Rightarrow> int option" where
  "minute_search P cursor limit =
     (if cursor < limit then if P cursor then Some cursor else minute_search P (next_minute cursor) limit else None)"
  by auto

termination minute_search
  by (relation "measure (\<lambda>(P, cursor, limit). nat (limit - cursor))") (auto simp: next_minute_eq)

declare minute_search.simps [simp del]

definition getNextRunInTimezone :: "intl \<Rightarrow> string \<Rightarrow> int \<Rightarrow> string \<Rightarrow> int cron_outcome" where
  "getNextRunInTimezone I expr from_time timezone =
     (if \<not> isValidTimeZone I timezone then throws (''Invalid timezone: '' @ timezone)
      else obind (parseCron expr) (\<lambda>f.
        case minute_search (\<lambda>cursor. matchesCronFields f (readZonedParts I cursor timezone))
               (first_minute from_time) (search_limit from_time) of
          Some d \<Rightarrow> returns d
        | None \<Rightarrow> throws (no_run expr @ '' in timezone: '' @ timezone)))"

definition getNextRunForTimezone :: "intl \<Rightarrow> int \<Rightarrow> string \<Rightarrow> int \<Rightarrow> string option \<Rightarrow> int cron_outcome" where
  "getNextRunForTimezone I utcOffset expr from_time timezone =
     (case timezone of
        Some t \<Rightarrow> if js_trim t \<noteq> []
          then getNextRunInTimezone I expr from_time (normalizeScheduleTimezone I timezone (resolvedTimeZone I))
          else getNextRun utcOffset expr from_time
      | None \<Rightarrow> getNextRun utcOffset expr from_time)"

text \<open>The parts of a local time, as the search in the local zone reads them.\<close>

definition local_parts :: "int \<Rightarrow> ZonedDateParts" where
  "local_parts t = \<lparr>year = Num (of_int (getFullYear t)), month = Num (of_int (getMonth t + 1)),
     day = Num (of_int (getDate t)), hour = Num (of_int (getHours t)), minute = Num (of_int (getMinutes t)),
     weekday = Num (of_int (getDay t))\<rparr>"

definition runs_at :: "CronFields \<Rightarrow> int \<Rightarrow> bool" where
  "runs_at f t \<longleftrightarrow> matchesCronFields f (local_parts t)"

section \<open>The skipping search finds the first matching minute\<close>

lemma runs_at_iff: "runs_at f t \<longleftrightarrow> has_int (months f) (getMonth t + 1) \<and> has_int (days f) (getDate t)
    \<and> has_int (weekdays f) (getDay t) \<and> has_int (hours f) (getHours t) \<and> has_int (minutes f) (getMinutes t)"
  by (simp add: runs_at_def matchesCronFields_def local_parts_def has_int_def)

lemma minute_search_Some:
  "minute_search P c limit = Some r \<Longrightarrow> c \<le> r \<and> r < limit \<and> P r \<and> (r - c) mod 60000 = 0"
proof (induction P c limit rule: minute_search.induct)
  case (1 P c limit)
  show ?case
  proof (cases "P c")
    case True
    with "1.prems" show ?thesis by (subst (asm) minute_search.simps) (simp split: if_splits)
  next
    case False
    with "1.prems" have c: "c < limit" "minute_search P (next_minute c) limit = Some r"
      by (subst (asm) minute_search.simps; simp split: if_splits)+
    from "1.IH" [OF c(1) False c(2)] have "c \<le> r" "r < limit" "P r" "(r - (c + 60000)) mod 60000 = 0"
      by (auto simp: next_minute_eq)
    then show ?thesis by (simp add: diff_diff_eq [symmetric])
  qed
qed

lemma minute_search_before:
  "c \<le> t \<Longrightarrow> t < limit \<Longrightarrow> (t - c) mod 60000 = 0 \<Longrightarrow> P t \<Longrightarrow> \<exists>r. minute_search P c limit = Some r \<and> r \<le> t"
proof (induction P c limit rule: minute_search.induct)
  case (1 P c limit)
  show ?case
  proof (cases "P c")
    case True
    with "1.prems" show ?thesis by (subst minute_search.simps) simp
  next
    case False
    then have "t \<noteq> c" using "1.prems" by auto
    with "1.prems" have "60000 \<le> t - c" by (intro zdvd_imp_le) (auto simp: dvd_eq_mod_eq_0)
    moreover have "(t - (c + 60000)) mod 60000 = 0" using "1.prems" by (simp add: diff_diff_eq [symmetric])
    ultimately have "\<exists>r. minute_search P (next_minute c) limit = Some r \<and> r \<le> t"
      using "1.prems" False by (intro "1.IH") (auto simp: next_minute_eq)
    then show ?thesis using False "1.prems" by (subst minute_search.simps) simp
  qed
qed

text \<open>The result of the search minute by minute is the least matching minute before the limit.\<close>

definition least_run :: "(int \<Rightarrow> bool) \<Rightarrow> int \<Rightarrow> int \<Rightarrow> int \<Rightarrow> bool" where
  "least_run P c limit r \<longleftrightarrow> c \<le> r \<and> r < limit \<and> (r - c) mod 60000 = 0 \<and> P r
     \<and> (\<forall>t. c \<le> t \<and> t < r \<and> (t - c) mod 60000 = 0 \<longrightarrow> \<not> P t)"

lemma minute_search_iff: "minute_search P c limit = Some r \<longleftrightarrow> least_run P c limit r"
proof
  assume r: "minute_search P c limit = Some r"
  have "\<not> P t" if "c \<le> t" "t < r" "(t - c) mod 60000 = 0" for t
    using minute_search_Some [OF r] minute_search_before [of c t limit P] that r by force
  then show "least_run P c limit r" using minute_search_Some [OF r] by (simp add: least_run_def)
next
  assume l: "least_run P c limit r"
  then obtain r' where r': "minute_search P c limit = Some r'" "r' \<le> r"
    using minute_search_before [of c r limit P] by (auto simp: least_run_def)
  moreover have "\<not> r' < r" using minute_search_Some [OF r'(1)] l by (auto simp: least_run_def)
  ultimately show "minute_search P c limit = Some r" by simp
qed

lemma minute_search_None_iff:
  "minute_search P c limit = None \<longleftrightarrow> (\<forall>t. c \<le> t \<and> t < limit \<and> (t - c) mod 60000 = 0 \<longrightarrow> \<not> P t)"
  using minute_search_before [of c _ limit P] minute_search_Some [of P c limit] by (cases "minute_search P c limit") force+

lemma minute_search_skip:
  assumes "c + 60000 * int n = c'" and "\<And>t. c \<le> t \<Longrightarrow> t < c' \<Longrightarrow> (t - c) mod 60000 = 0 \<Longrightarrow> \<not> P t"
  shows "minute_search P c limit = minute_search P c' limit"
  using assms
proof (induction n arbitrary: c)
  case (Suc n)
  have no: "\<not> P t" if "c + 60000 \<le> t" "t < c'" "(t - (c + 60000)) mod 60000 = 0" for t
    using that Suc.prems(2) [of t] by (simp add: diff_diff_eq [symmetric])
  have "\<not> P c" using Suc.prems by simp
  then have "minute_search P c limit = (if c < limit then minute_search P (c + 60000) limit else None)"
    by (subst minute_search.simps) (simp add: next_minute_eq)
  moreover have "minute_search P (c + 60000) limit = minute_search P c' limit"
    by (rule Suc.IH) (use Suc.prems no in auto)
  moreover have "\<not> c < limit \<Longrightarrow> minute_search P c' limit = None"
    using Suc.prems(1) by (subst minute_search.simps) simp
  ultimately show ?case by simp
qed simp

text \<open>A search is on course when its date is at most 28 or its month is one of the expression.\<close>

definition on_course :: "CronFields \<Rightarrow> int \<Rightarrow> bool" where
  "on_course f d \<longleftrightarrow> d mod 60000 = 0 \<and> (getDate d \<le> 28 \<or> has_int (months f) (getMonth d + 1))"

lemma same_day: "day_of t = day_of d \<Longrightarrow> getMonth t = getMonth d \<and> getDate t = getDate d \<and> getDay t = getDay d"
  by (simp add: getMonth_def getDate_def getDay_def)

lemma month_matches_next_day:
  assumes "has_int (months f) (getMonth d + 1)" and "d' mod 60000 = 0" and "day_of d' = day_of d \<or> day_of d' = day_of d + 1"
  shows "on_course f d'"
proof (cases "day_of d' = day_of d")
  case True
  then show ?thesis using assms same_day [of d' d] by (simp add: on_course_def)
next
  case False
  with assms have d': "day_of d' = day_of d + 1" by simp
  show ?thesis
  proof (cases "day_of d' < month_day (month_index (day_of d) + 1)")
    case True
    then have "month_index (day_of d') = month_index (day_of d)"
      using month_index_bounds [of "day_of d"] d' by (intro month_index_unique) auto
    then show ?thesis using assms by (simp add: on_course_def getMonth_def month_of_index)
  next
    case False
    then have "day_of d' = month_day (month_index (day_of d) + 1)" using month_index_bounds [of "day_of d"] d' by simp
    moreover from this have "month_index (day_of d') = month_index (day_of d) + 1"
      using month_day_mono [of "month_index (day_of d) + 1" "month_index (day_of d) + 1 + 1"] by (intro month_index_unique) auto
    ultimately have "getDate d' = 1" by (simp add: getDate_eq)
    then show ?thesis using assms by (simp add: on_course_def)
  qed
qed

text \<open>A skip is sound when it goes forward by whole minutes past minutes that do not match, and stays on
  course.\<close>

definition sound_skip :: "CronFields \<Rightarrow> int \<Rightarrow> int \<Rightarrow> bool" where
  "sound_skip f d d' \<longleftrightarrow> d < d' \<and> (d' - d) mod 60000 = 0 \<and> on_course f d'
     \<and> (\<forall>t. d \<le> t \<and> t < d' \<and> (t - d) mod 60000 = 0 \<longrightarrow> \<not> runs_at f t)"

lemma aligned_diff: "d mod 60000 = 0 \<Longrightarrow> d' mod 60000 = 0 \<Longrightarrow> (d' - d) mod 60000 = 0" for d d' :: int
  by (simp add: mod_0_imp_dvd dvd_imp_mod_0 dvd_diff)

lemma aligned_iff: "c mod 60000 = 0 \<Longrightarrow> (t - c) mod 60000 = 0 \<longleftrightarrow> t mod 60000 = 0" for c t :: int
  by (simp add: dvd_eq_mod_eq_0 [symmetric] dvd_diff_left_iff)

lemma month_skip_sound:
  assumes "on_course f d" and "\<not> has_int (months f) (getMonth d + 1)"
  shows "sound_skip f d (next_month d)"
proof -
  let ?M = "month_index (day_of d)"
  have eq: "next_month d = month_day (?M + 1) * 86400000"
    using assms by (simp add: on_course_def next_month_eq skipped_month_next)
  have day: "day_of (next_month d) = month_day (?M + 1)" unfolding eq by (rule day_of_start)
  have "month_index (day_of (next_month d)) = ?M + 1"
    unfolding day using month_day_mono [of "?M + 1" "?M + 1 + 1"] by (intro month_index_unique) auto
  then have date: "getDate (next_month d) = 1" using day by (simp add: getDate_eq)
  have al: "next_month d mod 60000 = 0" unfolding eq using add_multiple_mod [of 86400000 60000 "month_day (?M + 1)" 0] by simp
  have "\<not> runs_at f t" if t: "d \<le> t" "t < next_month d" for t
  proof -
    have "day_of t < month_day (?M + 1)" using t unfolding eq by (intro day_of_less)
    moreover have "day_of d \<le> day_of t" using t unfolding day_of_def ms_units by (intro zdiv_mono1) auto
    ultimately have "month_index (day_of t) = ?M" using month_index_bounds [of "day_of d"] by (intro month_index_unique) auto
    then show ?thesis using assms(2) by (simp add: runs_at_iff getMonth_def month_of_index)
  qed
  then show ?thesis using skips_forward(4) [of d] date al assms(1) by (auto simp: sound_skip_def on_course_def intro: aligned_diff)
qed

lemma day_skip_sound:
  assumes "on_course f d" and "has_int (months f) (getMonth d + 1)"
    and "\<not> has_int (days f) (getDate d) \<or> \<not> has_int (weekdays f) (getDay d)"
  shows "sound_skip f d (next_day d)"
proof -
  have eq: "next_day d = (day_of d + 1) * 86400000" using assms by (simp add: on_course_def next_day_eq)
  have al: "next_day d mod 60000 = 0" unfolding eq using add_multiple_mod [of 86400000 60000 "day_of d + 1" 0] by simp
  have "day_of (next_day d) = day_of d + 1" unfolding eq by (rule day_of_start)
  then have "on_course f (next_day d)" using month_matches_next_day [OF assms(2) al] by simp
  moreover have "\<not> runs_at f t" if t: "d \<le> t" "t < next_day d" for t
  proof -
    have "day_of t < day_of d + 1" using t unfolding eq by (intro day_of_less)
    moreover have "day_of d \<le> day_of t" using t unfolding day_of_def ms_units by (intro zdiv_mono1) auto
    ultimately show ?thesis using same_day [of t d] assms(3) by (auto simp: runs_at_iff)
  qed
  ultimately show ?thesis using skips_forward(3) [of d] al assms(1) by (auto simp: sound_skip_def on_course_def intro: aligned_diff)
qed

lemma hour_skip_sound:
  assumes "on_course f d" and "has_int (months f) (getMonth d + 1)" and "\<not> has_int (hours f) (getHours d)"
  shows "sound_skip f d (next_hour d)"
proof -
  have eq: "next_hour d = (d div 3600000 + 1) * 3600000" using assms by (simp add: on_course_def next_hour_eq)
  have al: "next_hour d mod 60000 = 0" unfolding eq using add_multiple_mod [of 3600000 60000 "d div 3600000 + 1" 0] by simp
  have h: "next_hour d div 3600000 = d div 3600000 + 1" unfolding eq by simp
  have "day_of (next_hour d) = day_of d \<or> day_of (next_hour d) = day_of d + 1"
    using div_step [of 24 "d div 3600000"] by (simp add: hours_of_hour h)
  then have "on_course f (next_hour d)" by (rule month_matches_next_day [OF assms(2) al])
  moreover have "\<not> runs_at f t" if t: "d \<le> t" "t < next_hour d" for t
  proof -
    have "t div 3600000 < d div 3600000 + 1" using t div_brackets [of 3600000 t] unfolding eq by simp
    moreover have "d div 3600000 \<le> t div 3600000" using t by (intro zdiv_mono1) auto
    ultimately have "getHours t = getHours d" by (simp add: hours_of_hour)
    then show ?thesis using assms(3) by (simp add: runs_at_iff)
  qed
  ultimately show ?thesis using skips_forward(2) [of d] al assms(1) by (auto simp: sound_skip_def on_course_def intro: aligned_diff)
qed

lemma minute_skip_sound:
  assumes "on_course f d" and "has_int (months f) (getMonth d + 1)" and "\<not> has_int (minutes f) (getMinutes d)"
  shows "sound_skip f d (next_minute d)"
proof -
  have al: "next_minute d mod 60000 = 0" using assms by (simp add: next_minute_eq on_course_def)
  have "day_of (next_minute d) < day_of d + 1 + 1"
    using day_split [of d] pos_mod_bound [of 86400000 d] by (intro day_of_less) (simp add: next_minute_eq algebra_simps)
  moreover have "day_of d \<le> day_of (next_minute d)" unfolding day_of_def ms_units next_minute_eq by (intro zdiv_mono1) auto
  ultimately have "on_course f (next_minute d)" by (intro month_matches_next_day [OF assms(2) al]) auto
  moreover have "\<not> runs_at f t" if t: "d \<le> t" "t < next_minute d" "(t - d) mod 60000 = 0" for t
  proof -
    have "t - d = 0" using t mod_pos_pos_trivial [of "t - d" 60000] by (simp add: next_minute_eq)
    then show ?thesis using assms(3) by (simp add: runs_at_iff)
  qed
  ultimately show ?thesis using skips_forward(1) [of d] al assms(1) by (auto simp: sound_skip_def on_course_def intro: aligned_diff)
qed

lemma sound_skip_search: "sound_skip f d d' \<Longrightarrow> minute_search (runs_at f) d limit = minute_search (runs_at f) d' limit"
proof -
  assume s: "sound_skip f d d'"
  then have "d' - d = 60000 * ((d' - d) div 60000)" "0 \<le> (d' - d) div 60000" by (auto simp: sound_skip_def)
  then have "d + 60000 * int (nat ((d' - d) div 60000)) = d'" by simp
  then show ?thesis by (rule minute_search_skip) (use s in \<open>auto simp: sound_skip_def\<close>)
qed

lemma cron_search_minutes: "on_course f d \<Longrightarrow> cron_search f d limit = minute_search (runs_at f) d limit"
proof (induction f d limit rule: cron_search.induct)
  case (1 f d limit)
  have step: "cron_search f d' limit = minute_search (runs_at f) d limit"
    if "sound_skip f d d'" and "on_course f d' \<Longrightarrow> cron_search f d' limit = minute_search (runs_at f) d' limit" for d'
    using that sound_skip_search [of f d d' limit] by (simp add: sound_skip_def)
  consider "\<not> d < limit" | "d < limit" "\<not> has_int (months f) (getMonth d + 1)"
    | "d < limit" "has_int (months f) (getMonth d + 1)" "\<not> has_int (days f) (getDate d) \<or> \<not> has_int (weekdays f) (getDay d)"
    | "d < limit" "has_int (months f) (getMonth d + 1)" "\<not> (\<not> has_int (days f) (getDate d) \<or> \<not> has_int (weekdays f) (getDay d))"
      "\<not> has_int (hours f) (getHours d)"
    | "d < limit" "has_int (months f) (getMonth d + 1)" "\<not> (\<not> has_int (days f) (getDate d) \<or> \<not> has_int (weekdays f) (getDay d))"
      "has_int (hours f) (getHours d)" "\<not> has_int (minutes f) (getMinutes d)"
    | "d < limit" "runs_at f d" by (auto simp: runs_at_iff)
  then show ?case
  proof cases
    case 1
    then show ?thesis by (subst cron_search.simps, subst minute_search.simps) simp
  next
    case 2
    have "cron_search f (next_month d) limit = minute_search (runs_at f) d limit"
      by (rule step [OF month_skip_sound]) (use "1.IH"(1) 2 "1.prems" in auto)
    then show ?thesis using 2 by (subst cron_search.simps) simp
  next
    case 3
    have "cron_search f (next_day d) limit = minute_search (runs_at f) d limit"
      by (rule step [OF day_skip_sound]) (use "1.IH"(2) 3 "1.prems" in auto)
    then show ?thesis using 3 by (subst cron_search.simps) simp
  next
    case 4
    have "cron_search f (next_hour d) limit = minute_search (runs_at f) d limit"
      by (rule step [OF hour_skip_sound]) (use "1.IH"(3) 4 "1.prems" in auto)
    then show ?thesis using 4 by (subst cron_search.simps) simp
  next
    case 5
    have "cron_search f (next_minute d) limit = minute_search (runs_at f) d limit"
      by (rule step [OF minute_skip_sound]) (use "1.IH"(4) 5 "1.prems" in auto)
    then show ?thesis using 5 by (subst cron_search.simps) simp
  next
    case 6
    then show ?thesis by (subst cron_search.simps, subst minute_search.simps) (simp add: runs_at_iff)
  qed
qed

section \<open>Properties\<close>

lemma first_minute_eq: "first_minute t = (t div 60000 + 1) * 60000"
proof -
  define u where "u = setMilliseconds 0 (setSeconds 0 t)"
  define q s where qs: "q = t div 60000" "s = t mod 60000"
  have t: "t = q * 60000 + s" unfolding qs by simp
  have "s = getSeconds t * 1000 + getMilliseconds t"
    using mult_div_mod_eq [of 1000 "t mod 60000"] mod_mod_cancel [of 1000 60000 t]
    by (simp add: getSeconds_def getMilliseconds_def ms_units qs)
  moreover have "getMilliseconds (setSeconds 0 t) = getMilliseconds t"
    unfolding getMilliseconds_def setSeconds_by using add_multiple_mod [of 1000 1000 "0 - getSeconds t" t]
    by (simp add: algebra_simps)
  ultimately have "u = q * 60000" using t unfolding u_def setMilliseconds_by setSeconds_by by simp
  then show ?thesis unfolding first_minute_def Let_def u_def [symmetric] setMinutes_by qs by (simp add: algebra_simps)
qed

lemma first_minute_aligned: "first_minute t mod 60000 = 0"
  unfolding first_minute_eq by simp

lemma first_minute_later: "t < first_minute t" "first_minute t \<le> t + 60000"
  using div_brackets [of 60000 t] unfolding first_minute_eq by simp_all

lemma four_years: "day_from_year (y + 4) + month_start (leap (y + 4)) m \<le> day_from_year y + month_start (leap y) m + 1461"
proof -
  define b :: "bool \<Rightarrow> int" where "b p = (if p then 1 else 0)" for p
  have step: "day_from_year (x + 1) = day_from_year x + 365 + b (leap x)" for x by (simp add: day_from_year_Suc b_def)
  have "y + 4 = y + 1 + 1 + 1 + 1" by simp
  then have d: "day_from_year (y + 4) = day_from_year y + 1460
      + b (leap y) + b (leap (y + 1)) + b (leap (y + 1 + 1)) + b (leap (y + 1 + 1 + 1))"
    unfolding step [of "y + 1 + 1 + 1", folded \<open>y + 4 = y + 1 + 1 + 1 + 1\<close>] step [of "y + 1 + 1"] step [of "y + 1"] step [of y] by simp
  have m: "month_start True m \<le> month_start False m + 1" "month_start False m \<le> month_start True m"
    by (simp_all add: month_start_def)
  have e: "y mod 4 = 0 \<and> (y + 1) mod 4 \<noteq> 0 \<and> (y + 1 + 1) mod 4 \<noteq> 0 \<and> (y + 1 + 1 + 1) mod 4 \<noteq> 0
    \<or> y mod 4 \<noteq> 0 \<and> (y + 4) mod 4 \<noteq> 0 \<and> (y + 1) mod 4 \<noteq> 0 \<and> (y + 1 + 1) mod 4 \<noteq> 0
    \<or> y mod 4 \<noteq> 0 \<and> (y + 4) mod 4 \<noteq> 0 \<and> (y + 1) mod 4 \<noteq> 0 \<and> (y + 1 + 1 + 1) mod 4 \<noteq> 0
    \<or> y mod 4 \<noteq> 0 \<and> (y + 4) mod 4 \<noteq> 0 \<and> (y + 1 + 1) mod 4 \<noteq> 0 \<and> (y + 1 + 1 + 1) mod 4 \<noteq> 0"
    by presburger
  have q: "leap x \<Longrightarrow> x mod 4 = 0" for x by (simp add: leap_def)
  consider "y mod 4 = 0" "\<not> leap (y + 1)" "\<not> leap (y + 1 + 1)" "\<not> leap (y + 1 + 1 + 1)"
    | "\<not> leap y" "\<not> leap (y + 4)" "\<not> leap (y + 1)" "\<not> leap (y + 1 + 1)"
    | "\<not> leap y" "\<not> leap (y + 4)" "\<not> leap (y + 1)" "\<not> leap (y + 1 + 1 + 1)"
    | "\<not> leap y" "\<not> leap (y + 4)" "\<not> leap (y + 1 + 1)" "\<not> leap (y + 1 + 1 + 1)"
    using q e by blast
  then show ?thesis
  proof cases
    case 1
    then show ?thesis using d m by (cases "leap y"; cases "leap (y + 4)") (simp_all add: b_def)
  qed (use d m in \<open>auto simp: b_def\<close>)
qed

lemma search_limit_bound: "search_limit t \<le> t + 1461 * 86400000"
proof -
  let ?y = "getFullYear t" and ?m = "getMonth t"
  have m: "?m div 12 = 0" "?m mod 12 = ?m" using month_of_day_bounds [of "day_of t"] by (simp_all add: getMonth_def)
  have day: "day_of t = makeDay ?y ?m (getDate t)"
    by (simp add: getFullYear_def getMonth_def getDate_def date_of_day_def makeDay_def Let_def)
  have "makeDay (?y + 4) ?m (getDate t) \<le> makeDay ?y ?m (getDate t) + 1461"
    using four_years [of ?y ?m] by (simp add: makeDay_def Let_def m)
  then have "search_limit t \<le> (day_of t + 1461) * 86400000 + t mod 86400000"
    unfolding day search_limit_def setFullYear_def makeDate_def ms_units by simp
  then show ?thesis using day_split [of t] by (simp add: distrib_right)
qed

lemma cron_search_sound: "cron_search f d limit = Some r \<Longrightarrow> d \<le> r \<and> r < limit \<and> runs_at f r"
proof (induction f d limit rule: cron_search.induct)
  case (1 f d limit)
  note skips = skips_forward [of d]
  show ?case using "1.prems" "1.IH" skips
    by (subst (asm) cron_search.simps) (auto simp: runs_at_iff split: if_splits)
qed

lemma obind_returns: "obind m f = returns y \<longleftrightarrow> (\<exists>x. m = returns x \<and> f x = returns y)"
  by (auto simp: obind_def returns_def split: option.splits sum.splits)

lemma obind_of [simp]: "obind (returns x) f = f x" "obind (throws e) f = throws e"
  by (simp_all add: obind_def returns_def throws_def)

lemma returns_simps [simp]: "returns x = returns y \<longleftrightarrow> x = y" "throws e \<noteq> returns x" "returns x \<noteq> throws e" "throws e = throws e' \<longleftrightarrow> e = e'"
  by (auto simp: returns_def throws_def)

lemma getNextRun_returns:
  assumes "parseCron expr = returns f"
  shows "getNextRun off expr from_time = returns r \<longleftrightarrow>
     cron_search f (first_minute (from_time + off)) (search_limit (from_time + off)) = Some (r + off)"
  using assms by (auto simp: getNextRun_def split: option.splits)

text \<open>A run that \<open>getNextRun\<close> returns is later than the given time, less than 1461 days later,
  and its local time matches every field of the parsed expression. No condition on the expression or the time.\<close>

theorem getNextRun_bounds:
  assumes "getNextRun utcOffset expr from_time = returns r"
  shows "from_time < r \<and> r < from_time + 1461 * 86400000
     \<and> (\<exists>f. parseCron expr = returns f \<and> runs_at f (r + utcOffset))"
proof -
  obtain f where f: "parseCron expr = returns f" using assms by (auto simp: getNextRun_def obind_returns)
  then have "cron_search f (first_minute (from_time + utcOffset)) (search_limit (from_time + utcOffset)) = Some (r + utcOffset)"
    using assms by (simp add: getNextRun_returns)
  from cron_search_sound [OF this] f show ?thesis
    using first_minute_later [of "from_time + utcOffset"] search_limit_bound [of "from_time + utcOffset"] by auto
qed

text \<open>C11. When the search starts on a date of at most 28, or in a month the expression names, the search
  that skips months, days and hours returns the first matching minute after the given time and before the
  limit of four years, and it throws exactly when there is none.\<close>

theorem getNextRun_least:
  assumes "parseCron expr = returns f"
    and "getDate (first_minute (from_time + utcOffset)) \<le> 28
       \<or> has_int (months f) (getMonth (first_minute (from_time + utcOffset)) + 1)"
  shows "(getNextRun utcOffset expr from_time = returns r
      \<longleftrightarrow> least_run (runs_at f) (first_minute (from_time + utcOffset)) (search_limit (from_time + utcOffset)) (r + utcOffset))
    \<and> (getNextRun utcOffset expr from_time = throws (no_run expr)
      \<longleftrightarrow> (\<forall>t. first_minute (from_time + utcOffset) \<le> t \<and> t < search_limit (from_time + utcOffset) \<and> t mod 60000 = 0
             \<longrightarrow> \<not> runs_at f t))"
proof -
  let ?d = "first_minute (from_time + utcOffset)" and ?l = "search_limit (from_time + utcOffset)"
  have "on_course f ?d" using assms(2) by (simp add: on_course_def first_minute_aligned)
  then have search: "cron_search f ?d ?l = minute_search (runs_at f) ?d ?l" by (rule cron_search_minutes)
  then have "getNextRun utcOffset expr from_time = throws (no_run expr) \<longleftrightarrow> minute_search (runs_at f) ?d ?l = None"
    using assms(1) by (auto simp: getNextRun_def split: option.splits)
  moreover have "(t - ?d) mod 60000 = 0 \<longleftrightarrow> t mod 60000 = 0" for t
    by (rule aligned_iff [OF first_minute_aligned])
  ultimately show ?thesis
    by (simp add: getNextRun_returns [OF assms(1)] search minute_search_iff minute_search_None_iff)
qed

text \<open>An expression none of whose minutes is a minute of the hour never runs: \<open>getNextRun\<close> throws at
  every time. \<open>isValidCron\<close> does not check the range of a value and accepts such an expression.\<close>

theorem getNextRun_unreachable_minute:
  assumes "parseCron expr = returns f" and "\<And>m. 0 \<le> m \<Longrightarrow> m \<le> 59 \<Longrightarrow> \<not> has_int (minutes f) m"
  shows "getNextRun utcOffset expr from_time = throws (no_run expr) \<and> isValidCron expr = Some True"
proof -
  have "\<not> runs_at f t" for t using assms(2) [of "getMinutes t"] minutes_bounds [of t] by (simp add: runs_at_iff)
  then have "cron_search f d limit = None" for d limit
    using cron_search_sound [of f d limit] by (cases "cron_search f d limit") auto
  then have "getNextRun utcOffset expr from_time = throws (no_run expr)" using assms(1) by (simp add: getNextRun_def)
  moreover have "isValidCron expr = Some True" using assms(1) by (simp add: isValidCron_def returns_def)
  ultimately show ?thesis by simp
qed

text \<open>C28. When the search starts in a month the expression does not name, on a date the next month does not
  have, no result lies in the next month, whatever the expression: \<open>setMonth\<close> is called before
  \<open>setDate(1)\<close> and overflows into the month after. On January 31 a schedule for February 15 is set to
  next year.\<close>

theorem getNextRun_misses_month:
  assumes "parseCron expr = returns f" and "getNextRun utcOffset expr from_time = returns r"
    and "d = first_minute (from_time + utcOffset)" and "\<not> has_int (months f) (getMonth d + 1)"
    and "getDate d > month_day (month_index (day_of d) + 2) - month_day (month_index (day_of d) + 1)"
  shows "month_day (month_index (day_of d) + 2) * 86400000 \<le> r + utcOffset"
proof -
  let ?M = "month_index (day_of d)" and ?l = "search_limit (from_time + utcOffset)"
  have "cron_search f d ?l = Some (r + utcOffset)" using assms(1,2,3) by (simp add: getNextRun_returns)
  with assms(4) have "cron_search f (next_month d) ?l = Some (r + utcOffset)"
    by (subst (asm) cron_search.simps) (simp split: if_splits)
  then have "next_month d \<le> r + utcOffset" using cron_search_sound by blast
  moreover have "?M + 2 \<le> skipped_month d"
    unfolding skipped_month_def by (rule month_index_ge) (use assms(5) in simp)
  then have "month_day (?M + 2) \<le> month_day (skipped_month d)"
    using month_day_mono by (metis order_le_less order_refl)
  then have "month_day (?M + 2) * 86400000 \<le> next_month d" unfolding next_month_eq by (simp add: add_increasing2)
  ultimately show ?thesis by linarith
qed

text \<open>In a named zone the result is the first minute before the limit whose parts, as the formatter of
  the zone gives them, match the expression, and an unsupported zone has no result.\<close>

theorem getNextRunInTimezone_least:
  assumes "parseCron expr = returns f"
  shows "getNextRunInTimezone I expr from_time timezone = returns r
     \<longleftrightarrow> supported I timezone
       \<and> least_run (\<lambda>t. matchesCronFields f (readZonedParts I t timezone)) (first_minute from_time) (search_limit from_time) r"
  using assms by (auto simp: getNextRunInTimezone_def isValidTimeZone_def minute_search_iff [symmetric] split: option.splits)

section \<open>Examples\<close>

text \<open>Midnight of February 15, asked for at the start of January 31, 2025 (UTC); the run found is in 2026,
  although February 15, 2025 (\<open>1739577600000\<close>) matches.\<close>

definition february_fields :: CronFields where
  "february_fields = \<lparr>minutes = [Num 0], hours = [Num 0], days = [Num 15], months = [Num 2],
     weekdays = [Num 0, Num 1, Num 2, Num 3, Num 4, Num 5, Num 6]\<rparr>"

lemma february_parse: "parseCron ''0 0 15 2 *'' = returns february_fields"
  by code_simp

lemma february_run: "getNextRun 0 ''0 0 15 2 *'' 1738281600000 = returns 1771113600000"
  by code_simp

lemma february_missed: "runs_at february_fields 1739577600000"
  by code_simp

lemma february_start: "first_minute 1738281600000 = 1738281660000"
  by (simp add: first_minute_eq)

theorem getNextRun_bounds_witness:
  "\<exists>f. parseCron ''0 0 15 2 *'' = returns f \<and> runs_at f (1771113600000 + 0)"
  using getNextRun_bounds [OF february_run] by blast

theorem getNextRun_least_witness:
  "\<not> least_run (runs_at february_fields) (first_minute (1736899200000 + 0)) (search_limit (1736899200000 + 0)) (1771113600000 + 0)
   \<and> getNextRun 0 ''0 0 15 2 *'' 1736899200000 = returns 1739577600000"
proof -
  have d: "getDate (first_minute (1736899200000 + 0)) \<le> 28" by code_simp
  have r: "getNextRun 0 ''0 0 15 2 *'' 1736899200000 = returns 1739577600000" by code_simp
  show ?thesis
    using getNextRun_least [OF february_parse, of 1736899200000 0 1771113600000] d r by simp
qed

theorem getNextRun_unreachable_minute_witness:
  "getNextRun 0 ''99 * 1 1 *'' 0 = throws (no_run ''99 * 1 1 *'') \<and> isValidCron ''99 * 1 1 *'' = Some True"
proof -
  have "case parseCron ''99 * 1 1 *'' of Some (Inr f) \<Rightarrow> minutes f = [Num 99] | _ \<Rightarrow> False" by code_simp
  then obtain f where f: "parseCron ''99 * 1 1 *'' = returns f" "minutes f = [Num 99]"
    by (auto simp: returns_def split: option.splits sum.splits)
  show ?thesis by (rule getNextRun_unreachable_minute [OF f(1)]) (use f(2) in \<open>auto simp: has_int_def\<close>)
qed

theorem getNextRun_misses_month_witness:
  "month_day (month_index (day_of 1738281660000) + 2) * 86400000 \<le> 1771113600000 + 0
   \<and> getNextRun 0 ''0 0 15 2 *'' 1738281600000 = returns 1771113600000
   \<and> runs_at february_fields 1739577600000 \<and> (1738281600000::int) < 1739577600000 \<and> 1739577600000 < (1771113600000::int)"
proof -
  have "\<not> has_int (months february_fields) (getMonth 1738281660000 + 1)" by code_simp
  moreover have "getDate 1738281660000 > month_day (month_index (day_of 1738281660000) + 2)
      - month_day (month_index (day_of 1738281660000) + 1)" by code_simp
  moreover have "1738281660000 = first_minute (1738281600000 + 0)" by (simp add: february_start)
  ultimately show ?thesis
    using getNextRun_misses_month [OF february_parse february_run, of 1738281660000] february_run february_missed by simp
qed

text \<open>A formatter of a zone whose clock is always Coordinated Universal Time, on one day of January 2025.\<close>

definition january_zone :: intl where
  "january_zone = \<lparr>formatToParts = \<lambda>t zone. [(''month'', ''01''), (''literal'', ''/''), (''day'', ''31''), (''literal'', ''/''),
       (''year'', ''2025''), (''literal'', '', ''), (''hour'', if getHours t = 9 then ''09'' else ''00''), (''literal'', '':''),
       (''minute'', if getMinutes t = 5 then ''05'' else ''00'')],
     supported = \<lambda>zone. zone = ''UTC'', resolvedTimeZone = ''UTC''\<rparr>"

lemmas number_evaluation = js_Number_def js_trim_def js_ws_def unsigned_decimal_def digit_def decimal_value_def
  digits_value_def radix_digit_def Let_def

lemma january_numbers: "js_Number ''2025'' = Num 2025" "js_Number ''01'' = Num 1" "js_Number ''31'' = Num 31"
    "js_Number ''05'' = Num 5" "js_Number ''00'' = Num 0"
  by (simp_all add: number_evaluation)

lemma january_parts: "formatToParts january_zone 1738281900000 zone =
   [(''month'', ''01''), (''literal'', ''/''), (''day'', ''31''), (''literal'', ''/''), (''year'', ''2025''), (''literal'', '', ''),
    (''hour'', ''00''), (''literal'', '':''), (''minute'', ''05'')]"
  by (simp add: january_zone_def) code_simp

lemma january_weekday: "utc_weekday (Num 2025) (Num 1) (Num 31) = Num 5"
  by (simp add: truncated_def makeDay_def day_from_year_def month_start_def leap_def Let_def)

lemma january_zone_reads: "readZonedParts january_zone 1738281900000 zone =
   \<lparr>year = Num 2025, month = Num 1, day = Num 31, hour = Num 0, minute = Num 5, weekday = Num 5\<rparr>"
  by (simp add: readZonedParts_def january_parts part_number_def january_numbers january_weekday Let_def del: utc_weekday.simps)

lemma january_zone_matches:
  "case parseCron ''5 * * * 5'' of
     Some (Inr f) \<Rightarrow> matchesCronFields f \<lparr>year = Num 2025, month = Num 1, day = Num 31, hour = Num 0, minute = Num 5, weekday = Num 5\<rparr>
   | _ \<Rightarrow> False"
  by code_simp

theorem getNextRunInTimezone_least_witness:
  "getNextRunInTimezone january_zone ''5 * * * 5'' 1738281840000 ''UTC'' = returns 1738281900000"
proof -
  obtain f where f: "parseCron ''5 * * * 5'' = returns f"
    and m: "matchesCronFields f (readZonedParts january_zone 1738281900000 ''UTC'')"
    using january_zone_matches by (auto simp: january_zone_reads returns_def split: option.splits sum.splits)
  have start: "first_minute 1738281840000 = 1738281900000" by (simp add: first_minute_eq)
  have limit: "1738281900000 < search_limit 1738281840000" by code_simp
  have supp: "supported january_zone ''UTC''" by (simp add: january_zone_def)
  show ?thesis unfolding getNextRunInTimezone_least [OF f] least_run_def start
    using m limit supp by auto
qed

end
