(* ===== verification/Approval_Registry.thy ===== *)
theory Approval_Registry
  imports Canonical_Json Machines
begin

text \<open>
  The approvals of \<open>runs/approval-registry.ts\<close>: a tool that needs the user's consent asks for it with
  a row of the table \<open>approval_registry\<close>, the user decides, and the tool consumes the decision, which
  is bound to the run, the tool, a digest of the parameters, the agent and the operation. The table
  is the list of its rows in the order of insertion; the statements of the code are functions on it.
  The current time and random identifiers are arguments. Not modelled: the texts for users.
\<close>

section \<open>Data\<close>

datatype ApprovalRegistryStatus =
    ap_requested | ap_approved_once | ap_approved_run | ap_denied | ap_expired | ap_superseded | ap_consumed

datatype ApprovalDecision = allow_once | allow_run | deny

datatype ApprovalKind = kind_approval | screen_confirmation

datatype ApprovalDecisionReason =
    by_user | by_timeout | by_abort | by_system | late | already_consumed | was_superseded | scope_mismatch

fun decision_text :: "ApprovalDecision \<Rightarrow> string" where
  "decision_text allow_once = ''allow_once''"
| "decision_text allow_run = ''allow_run''"
| "decision_text deny = ''deny''"

record ApprovalOperationBinding =
  ob_operationId :: string
  ob_operationBindingHash :: string
  ob_continuationSchemaVersion :: int

text \<open>The column \<open>metadata_json\<close> holds the value parsed from its text.\<close>

record ApprovalRegistryRow =
  ar_id :: string
  ar_run_id :: string
  ar_request_group_id :: "string option"
  ar_channel :: string
  ar_channel_message_id :: "string option"
  ar_tool_name :: string
  ar_risk_level :: string
  ar_kind :: ApprovalKind
  ar_status :: ApprovalRegistryStatus
  ar_params_hash :: string
  ar_params_preview :: "string option"
  ar_requested_at :: int
  ar_expires_at :: "int option"
  ar_consumed_at :: "int option"
  ar_decision_at :: "int option"
  ar_decision_by :: "string option"
  ar_decision_source :: "string option"
  ar_superseded_by :: "string option"
  ar_metadata :: "json option"
  ar_operation_id :: "string option"
  ar_operation_binding_hash :: "string option"
  ar_continuation_schema_version :: "int option"
  ar_decision_actor_fingerprint :: "string option"
  ar_created_at :: int
  ar_updated_at :: int

type_synonym registry = "ApprovalRegistryRow list"

record CreateApprovalRegistryRequestInput =
  ci_id :: "string option"
  ci_runId :: string
  ci_requestGroupId :: "string option"
  ci_channel :: string
  ci_toolName :: string
  ci_riskLevel :: string
  ci_kind :: ApprovalKind
  ci_params :: json
  ci_authorizationParams :: json
  ci_expiresAt :: "int option"
  ci_channelMessageId :: "string option"
  ci_metadata :: "(string \<times> json) list option"
  ci_operationBinding :: "ApprovalOperationBinding option"
  ci_now :: "int option"
  ci_supersedePending :: "bool option"

record ApprovalRegistryDecisionResult =
  dr_accepted :: bool
  dr_status :: "ApprovalRegistryStatus option"
  dr_decision :: "ApprovalDecision option"
  dr_reason :: "ApprovalDecisionReason option"
  dr_row :: "ApprovalRegistryRow option"

record ApprovalConsumptionScope =
  sc_runId :: string
  sc_requestGroupId :: "string option"
  sc_toolName :: string
  sc_params :: json
  sc_authorizationParams :: json
  sc_agentId :: "string option"
  sc_operationBinding :: "ApprovalOperationBinding option"

datatype grant_source = from_approved | from_consumed_run

datatype ApprovalRegistryGrantAcquisition =
    Acquired ApprovalDecision string grant_source ApprovalRegistryRow
  | Not_acquired bool

section \<open>Digests\<close>

text \<open>\<open>stableStringify\<close> repeats \<open>canonicalize\<close>. The digest of \<open>undefined\<close> throws. The parameters that
  authorise are \<open>authorizationParams ?? params\<close>.\<close>

definition stableStringify :: "host \<Rightarrow> json \<Rightarrow> string option" where
  "stableStringify H value = canonicalize H value"

definition hashApprovalParams :: "host \<Rightarrow> json \<Rightarrow> string + string" where
  "hashApprovalParams H params =
     (case stableStringify H params of None \<Rightarrow> Inl ''ERR_INVALID_ARG_TYPE'' | Some t \<Rightarrow> Inr (sha256 H t))"

definition coalesce :: "json \<Rightarrow> json \<Rightarrow> json" where
  "coalesce a b = (if a = JUndefined \<or> a = JNull then b else a)"

definition hashApprovalDecisionActor :: "host \<Rightarrow> string \<Rightarrow> string \<Rightarrow> string" where
  "hashApprovalDecisionActor H channel actorId =
     ''sha256:'' @ sha256 H (undefined_as '''' (stableStringify H (JObject
       [(''schemaVersion'', JInt 1), (''channel'', JString (map lower_char (js_trim channel))), (''actorId'', JString actorId)])))"

definition safeJsonPreview :: "host \<Rightarrow> json \<Rightarrow> string option" where
  "safeJsonPreview H value = map_option (take 2000) (stableStringify H value)"

text \<open>What \<open>JSON.parse(JSON.stringify(value))\<close> keeps of a value.\<close>

fun stored :: "json \<Rightarrow> json" where
  "stored (JArray xs) = JArray (map (\<lambda>x. if x = JUndefined \<or> x = JFunction then JNull else stored x) xs)"
| "stored (JObject kvs) = JObject (map (\<lambda>(k, v). (k, stored v))
     (filter (\<lambda>(k, v). v \<noteq> JUndefined \<and> v \<noteq> JFunction) kvs))"
| "stored JNaN = JNull"
| "stored (JInfinity negative) = JNull"
| "stored (JNumber negative s e) = JNumber (negative \<and> s \<noteq> 0) s e"
| "stored (JDate t) = (case t of None \<Rightarrow> JNull | Some d \<Rightarrow> JString d)"
| "stored v = v"

definition parseApprovalMetadata :: "ApprovalRegistryRow \<Rightarrow> (string \<times> json) list" where
  "parseApprovalMetadata row = (case ar_metadata row of Some (JObject kvs) \<Rightarrow> kvs | _ \<Rightarrow> [])"

section \<open>Statements\<close>

definition sql_update :: "(ApprovalRegistryRow \<Rightarrow> bool) \<Rightarrow> (ApprovalRegistryRow \<Rightarrow> ApprovalRegistryRow) \<Rightarrow> registry \<Rightarrow> registry" where
  "sql_update P f db = map (\<lambda>r. if P r then f r else r) db"

definition getApprovalRegistryRow :: "string \<Rightarrow> registry \<Rightarrow> ApprovalRegistryRow option" where
  "getApprovalRegistryRow i db = List.find (\<lambda>r. ar_id r = i) db"

text \<open>\<open>ORDER BY created_at DESC, id DESC\<close> and the like.\<close>

definition newest_first :: "(ApprovalRegistryRow \<Rightarrow> int) \<Rightarrow> ApprovalRegistryRow \<Rightarrow> ApprovalRegistryRow \<Rightarrow> int" where
  "newest_first column a b = (if column a \<noteq> column b then column b - column a else codeUnitCompare (ar_id b) (ar_id a))"

definition first_row :: "registry \<Rightarrow> ApprovalRegistryRow option" where
  "first_row rows = (case sort_by (newest_first ar_created_at) rows of [] \<Rightarrow> None | r # _ \<Rightarrow> Some r)"

definition getLatestApprovalForRun :: "string \<Rightarrow> registry \<Rightarrow> ApprovalRegistryRow option" where
  "getLatestApprovalForRun runId db = first_row (filter (\<lambda>r. ar_run_id r = runId) db)"

definition getActiveApprovalForRun :: "string \<Rightarrow> registry \<Rightarrow> ApprovalRegistryRow option" where
  "getActiveApprovalForRun runId db = first_row (filter (\<lambda>r. ar_run_id r = runId \<and> ar_status r = ap_requested) db)"

definition findLatestApprovalByChannelMessage :: "string \<Rightarrow> string \<Rightarrow> registry \<Rightarrow> ApprovalRegistryRow option" where
  "findLatestApprovalByChannelMessage channel message db =
     first_row (filter (\<lambda>r. ar_channel r = channel \<and> ar_channel_message_id r = Some message) db)"

definition listRequestedApprovalsForChannelCallback ::
  "string \<Rightarrow> string \<Rightarrow> string \<Rightarrow> string \<Rightarrow> int \<Rightarrow> registry \<Rightarrow> registry" where
  "listRequestedApprovalsForChannelCallback runId channel message actor now db =
     sort_by (\<lambda>a b. newest_first ar_created_at b a)
       (filter (\<lambda>r. ar_run_id r = runId \<and> ar_channel r = channel \<and> ar_channel_message_id r = Some message
          \<and> ar_decision_actor_fingerprint r = Some actor \<and> ar_status r = ap_requested
          \<and> (case ar_expires_at r of None \<Rightarrow> True | Some t \<Rightarrow> now < t)) db)"

section \<open>Requests\<close>

definition new_row :: "host \<Rightarrow> string \<Rightarrow> int \<Rightarrow> string \<Rightarrow> CreateApprovalRegistryRequestInput \<Rightarrow> ApprovalRegistryRow" where
  "new_row H i now paramsHash input =
     \<lparr>ar_id = i, ar_run_id = ci_runId input, ar_request_group_id = ci_requestGroupId input, ar_channel = ci_channel input,
      ar_channel_message_id = ci_channelMessageId input, ar_tool_name = ci_toolName input,
      ar_risk_level = ci_riskLevel input, ar_kind = ci_kind input, ar_status = ap_requested,
      ar_params_hash = paramsHash, ar_params_preview = safeJsonPreview H (ci_params input), ar_requested_at = now,
      ar_expires_at = ci_expiresAt input, ar_consumed_at = None, ar_decision_at = None, ar_decision_by = None,
      ar_decision_source = None, ar_superseded_by = None,
      ar_metadata = map_option (\<lambda>kvs. stored (JObject kvs)) (ci_metadata input),
      ar_operation_id = map_option ob_operationId (ci_operationBinding input),
      ar_operation_binding_hash = map_option ob_operationBindingHash (ci_operationBinding input),
      ar_continuation_schema_version = map_option ob_continuationSchemaVersion (ci_operationBinding input),
      ar_decision_actor_fingerprint = None, ar_created_at = now, ar_updated_at = now\<rparr>"

definition supersede :: "string \<Rightarrow> int \<Rightarrow> string \<Rightarrow> string \<Rightarrow> registry \<Rightarrow> registry" where
  "supersede i now runId toolName db =
     sql_update (\<lambda>r. ar_run_id r = runId \<and> ar_tool_name r = toolName \<and> ar_status r = ap_requested)
       (\<lambda>r. r\<lparr>ar_status := ap_superseded, ar_superseded_by := Some i, ar_updated_at := now\<rparr>) db"

text \<open>\<open>clock\<close> and \<open>uuid\<close> are used where the input has no time or identifier. The two statements are
  not a transaction: when the insertion fails, the pending requests stay superseded.\<close>

definition request_time :: "int \<Rightarrow> CreateApprovalRegistryRequestInput \<Rightarrow> int" where
  "request_time clock input = (case ci_now input of None \<Rightarrow> clock | Some t \<Rightarrow> t)"

definition request_id :: "string \<Rightarrow> CreateApprovalRegistryRequestInput \<Rightarrow> string" where
  "request_id uuid input = (case ci_id input of None \<Rightarrow> uuid | Some i \<Rightarrow> i)"

definition createApprovalRegistryRequest ::
  "host \<Rightarrow> int \<Rightarrow> string \<Rightarrow> CreateApprovalRegistryRequestInput \<Rightarrow> registry \<Rightarrow> (string + ApprovalRegistryRow option) \<times> registry" where
  "createApprovalRegistryRequest H clock uuid input db =
     (let now = request_time clock input; i = request_id uuid input
      in case hashApprovalParams H (coalesce (ci_authorizationParams input) (ci_params input)) of
           Inl e \<Rightarrow> (Inl e, db)
         | Inr paramsHash \<Rightarrow>
             let db = (if ci_supersedePending input = Some False then db
                       else supersede i now (ci_runId input) (ci_toolName input) db)
             in if i \<in> ar_id ` set db then (Inl ''UNIQUE constraint failed: approval_registry.id'', db)
                else let db = db @ [new_row H i now paramsHash input] in (Inr (getApprovalRegistryRow i db), db))"

definition attachApprovalChannelMessage :: "string \<Rightarrow> string \<Rightarrow> int \<Rightarrow> registry \<Rightarrow> bool \<times> registry" where
  "attachApprovalChannelMessage approvalId message now db =
     (approvalId \<in> ar_id ` set db,
      sql_update (\<lambda>r. ar_id r = approvalId) (\<lambda>r. r\<lparr>ar_channel_message_id := Some message, ar_updated_at := now\<rparr>) db)"

definition attachApprovalChannelBinding :: "string \<Rightarrow> string \<Rightarrow> string \<Rightarrow> int \<Rightarrow> registry \<Rightarrow> bool \<times> registry" where
  "attachApprovalChannelBinding approvalId message actor now db =
     (length (filter (\<lambda>r. ar_id r = approvalId \<and> ar_status r = ap_requested) db) = 1,
      sql_update (\<lambda>r. ar_id r = approvalId \<and> ar_status r = ap_requested)
        (\<lambda>r. r\<lparr>ar_channel_message_id := Some message, ar_decision_actor_fingerprint := Some actor, ar_updated_at := now\<rparr>) db)"

section \<open>Decisions\<close>

definition expired_at :: "ApprovalRegistryRow \<Rightarrow> int \<Rightarrow> bool" where
  "expired_at row now \<longleftrightarrow> (case ar_expires_at row of None \<Rightarrow> False | Some t \<Rightarrow> t \<le> now)"

definition missing_row :: "ApprovalDecisionReason option \<Rightarrow> ApprovalRegistryDecisionResult" where
  "missing_row reason = \<lparr>dr_accepted = False, dr_status = None, dr_decision = None, dr_reason = reason, dr_row = None\<rparr>"

definition refused :: "ApprovalRegistryStatus \<Rightarrow> ApprovalDecisionReason option \<Rightarrow> ApprovalRegistryRow option \<Rightarrow> ApprovalRegistryDecisionResult" where
  "refused s reason row = \<lparr>dr_accepted = False, dr_status = Some s, dr_decision = None, dr_reason = reason, dr_row = row\<rparr>"

definition closed_reason :: "ApprovalRegistryStatus \<Rightarrow> ApprovalDecisionReason" where
  "closed_reason s = (if s = ap_consumed then already_consumed else if s = ap_superseded then was_superseded else late)"

definition time_out :: "(ApprovalRegistryStatus \<Rightarrow> bool) \<Rightarrow> string \<Rightarrow> int \<Rightarrow> registry \<Rightarrow> registry" where
  "time_out still_open i now db =
     sql_update (\<lambda>r. ar_id r = i \<and> still_open (ar_status r))
       (\<lambda>r. r\<lparr>ar_status := ap_expired, ar_decision_at := Some now, ar_decision_source := Some ''timeout'', ar_updated_at := now\<rparr>) db"

definition expireApprovalRegistryRequest :: "string \<Rightarrow> int \<Rightarrow> registry \<Rightarrow> ApprovalRegistryDecisionResult \<times> registry" where
  "expireApprovalRegistryRequest approvalId now db =
     (case getApprovalRegistryRow approvalId db of
        None \<Rightarrow> (missing_row (Some by_timeout), db)
      | Some row \<Rightarrow>
          if ar_status row \<noteq> ap_requested then (refused (ar_status row) None (Some row), db)
          else let db = time_out (\<lambda>s. s = ap_requested) approvalId now db
               in (refused ap_expired (Some by_timeout) (getApprovalRegistryRow approvalId db), db))"

fun decided_status :: "ApprovalDecision \<Rightarrow> ApprovalRegistryStatus" where
  "decided_status allow_run = ap_approved_run"
| "decided_status allow_once = ap_approved_once"
| "decided_status deny = ap_denied"

definition decide_row :: "ApprovalDecision \<Rightarrow> string option \<Rightarrow> string \<Rightarrow> int \<Rightarrow> json \<Rightarrow> ApprovalRegistryRow \<Rightarrow> ApprovalRegistryRow" where
  "decide_row d who source now metadata r = r\<lparr>ar_status := decided_status d, ar_decision_at := Some now, ar_decision_by := who,
     ar_decision_source := Some source, ar_metadata := Some metadata, ar_updated_at := now\<rparr>"

definition resolveApprovalRegistryDecision ::
  "string \<Rightarrow> ApprovalDecision \<Rightarrow> string option \<Rightarrow> string \<Rightarrow> int \<Rightarrow> registry \<Rightarrow> ApprovalRegistryDecisionResult \<times> registry" where
  "resolveApprovalRegistryDecision approvalId decision decisionBy decisionSource now db =
     (case getApprovalRegistryRow approvalId db of
        None \<Rightarrow> (missing_row None, db)
      | Some row \<Rightarrow>
          if expired_at row now \<and> ar_status row = ap_requested then
            let db = snd (expireApprovalRegistryRequest (ar_id row) now db)
            in (refused ap_expired (Some late) (getApprovalRegistryRow (ar_id row) db), db)
          else if ar_status row \<noteq> ap_requested then
            (refused (ar_status row) (Some (closed_reason (ar_status row))) (Some row), db)
          else
            let metadata = JObject (AList.update ''approvalDecision'' (JString (decision_text decision)) (parseApprovalMetadata row));
                db = sql_update (\<lambda>r. ar_id r = approvalId \<and> ar_status r = ap_requested)
                  (decide_row decision decisionBy decisionSource now metadata) db
            in (\<lparr>dr_accepted = True, dr_status = Some (decided_status decision), dr_decision = Some decision, dr_reason = None,
                 dr_row = getApprovalRegistryRow approvalId db\<rparr>, db))"

section \<open>Consumption\<close>

definition approved_agent :: "ApprovalRegistryRow \<Rightarrow> string option" where
  "approved_agent row = (case map_of (parseApprovalMetadata row) ''agentId'' of Some (JString a) \<Rightarrow> Some a | _ \<Rightarrow> None)"

definition expected_agent :: "ApprovalConsumptionScope \<Rightarrow> string option" where
  "expected_agent expected = (case sc_agentId expected of None \<Rightarrow> None | Some a \<Rightarrow> if js_trim a = [] then None else Some (js_trim a))"

definition scope_hash :: "host \<Rightarrow> ApprovalConsumptionScope \<Rightarrow> string + string" where
  "scope_hash H expected = hashApprovalParams H (coalesce (sc_authorizationParams expected) (sc_params expected))"

definition approvalScopeMatches :: "host \<Rightarrow> ApprovalRegistryRow \<Rightarrow> ApprovalConsumptionScope \<Rightarrow> string + bool" where
  "approvalScopeMatches H row expected =
     (if ar_run_id row \<noteq> sc_runId expected \<or> ar_tool_name row \<noteq> sc_toolName expected then Inr False
      else if ar_request_group_id row \<noteq> sc_requestGroupId expected then Inr False
      else rbind (scope_hash H expected) (\<lambda>h.
        if ar_params_hash row \<noteq> h then Inr False
        else if approved_agent row \<noteq> expected_agent expected then Inr False
        else let binding = sc_operationBinding expected
             in Inr (\<not> (ar_operation_id row \<noteq> map_option ob_operationId binding
                  \<or> ar_operation_binding_hash row \<noteq> map_option ob_operationBindingHash binding
                  \<or> ar_continuation_schema_version row \<noteq> map_option ob_continuationSchemaVersion binding))))"

definition is_approved :: "ApprovalRegistryStatus \<Rightarrow> bool" where
  "is_approved s \<longleftrightarrow> s = ap_approved_once \<or> s = ap_approved_run"

definition consume_row :: "int \<Rightarrow> ApprovalRegistryRow \<Rightarrow> ApprovalRegistryRow" where
  "consume_row now r = r\<lparr>ar_status := ap_consumed, ar_consumed_at := Some now, ar_updated_at := now\<rparr>"

definition consumeApprovalRegistryDecision ::
  "host \<Rightarrow> string \<Rightarrow> int \<Rightarrow> ApprovalConsumptionScope option \<Rightarrow> registry \<Rightarrow> (string + ApprovalRegistryDecisionResult) \<times> registry" where
  "consumeApprovalRegistryDecision H approvalId now expected db =
     (case getApprovalRegistryRow approvalId db of
        None \<Rightarrow> (Inr (missing_row None), db)
      | Some row \<Rightarrow>
          if expired_at row now \<and> (ar_status row = ap_requested \<or> is_approved (ar_status row)) then
            let db = time_out (\<lambda>s. s = ap_requested \<or> is_approved s) (ar_id row) now db
            in (Inr (refused ap_expired (Some late) (getApprovalRegistryRow (ar_id row) db)), db)
          else if \<not> is_approved (ar_status row) then
            (Inr (refused (ar_status row) (Some (closed_reason (ar_status row))) (Some row)), db)
          else case (case expected of None \<Rightarrow> Inr True | Some e \<Rightarrow> approvalScopeMatches H row e) of
              Inl e \<Rightarrow> (Inl e, db)
            | Inr False \<Rightarrow> (Inr (refused (ar_status row) (Some scope_mismatch) (Some row)), db)
            | Inr True \<Rightarrow>
                let db = sql_update (\<lambda>r. ar_id r = approvalId \<and> is_approved (ar_status r))
                  (consume_row now) db
                in (Inr \<lparr>dr_accepted = True, dr_status = Some ap_consumed,
                      dr_decision = Some (if ar_status row = ap_approved_run then allow_run else allow_once),
                      dr_reason = None, dr_row = getApprovalRegistryRow approvalId db\<rparr>, db))"

definition decided_for_run :: "ApprovalRegistryRow \<Rightarrow> bool" where
  "decided_for_run row \<longleftrightarrow> map_of (parseApprovalMetadata row) ''approvalDecision'' = Some (JString ''allow_run'')"

primrec acquire_loop ::
  "host \<Rightarrow> ApprovalConsumptionScope \<Rightarrow> int \<Rightarrow> bool \<Rightarrow> registry \<Rightarrow> registry \<Rightarrow> (string + ApprovalRegistryGrantAcquisition) \<times> registry" where
  "acquire_loop H expected now scopeMismatch [] db = (Inr (Not_acquired scopeMismatch), db)"
| "acquire_loop H expected now scopeMismatch (row # rows) db =
     (case approvalScopeMatches H row expected of
        Inl e \<Rightarrow> (Inl e, db)
      | Inr False \<Rightarrow> acquire_loop H expected now True rows db
      | Inr True \<Rightarrow>
          if expired_at row now then acquire_loop H expected now scopeMismatch rows db
          else if ar_status row = ap_consumed then
            if \<not> decided_for_run row then acquire_loop H expected now scopeMismatch rows db
            else (Inr (Acquired allow_run (ar_id row) from_consumed_run row), db)
          else case consumeApprovalRegistryDecision H (ar_id row) now (Some expected) db of
              (Inl e, db) \<Rightarrow> (Inl e, db)
            | (Inr consumed, db) \<Rightarrow> (case (dr_row consumed, dr_decision consumed) of
                (Some row', Some d) \<Rightarrow>
                  if \<not> dr_accepted consumed \<or> d \<noteq> allow_once \<and> d \<noteq> allow_run
                  then acquire_loop H expected now scopeMismatch rows db
                  else (Inr (Acquired d (ar_id row) from_approved row'), db)
              | _ \<Rightarrow> acquire_loop H expected now scopeMismatch rows db))"

text \<open>\<open>Not_acquired True\<close> is the reason \<open>approval_grant_scope_mismatch\<close>, \<open>Not_acquired False\<close>
  \<open>approval_grant_not_found\<close>.\<close>

definition candidate_rows :: "string option \<Rightarrow> string \<Rightarrow> string \<Rightarrow> registry \<Rightarrow> registry" where
  "candidate_rows requestGroup tool paramsHash db =
     sort_by (newest_first ar_updated_at)
       (filter (\<lambda>r. ar_request_group_id r = requestGroup \<and> ar_tool_name r = tool \<and> ar_params_hash r = paramsHash
          \<and> (is_approved (ar_status r) \<or> ar_status r = ap_consumed)) db)"

definition acquireApprovalRegistryGrant ::
  "host \<Rightarrow> ApprovalConsumptionScope \<Rightarrow> int \<Rightarrow> registry \<Rightarrow> (string + ApprovalRegistryGrantAcquisition) \<times> registry" where
  "acquireApprovalRegistryGrant H expected now db =
     (case scope_hash H expected of
        Inl e \<Rightarrow> (Inl e, db)
      | Inr paramsHash \<Rightarrow>
          acquire_loop H expected now False (candidate_rows (sc_requestGroupId expected) (sc_toolName expected) paramsHash db) db)"

section \<open>The registry as a machine\<close>

datatype registry_call =
    CreateRequest int string CreateApprovalRegistryRequestInput
  | AttachMessage string string int
  | AttachBinding string string string int
  | Expire string int
  | Resolve string ApprovalDecision "string option" string int
  | Consume string int "ApprovalConsumptionScope option"
  | Acquire ApprovalConsumptionScope int

fun call_registry :: "host \<Rightarrow> registry \<Rightarrow> registry_call \<Rightarrow> registry" where
  "call_registry H db (CreateRequest clock uuid input) = snd (createApprovalRegistryRequest H clock uuid input db)"
| "call_registry H db (AttachMessage i message now) = snd (attachApprovalChannelMessage i message now db)"
| "call_registry H db (AttachBinding i message actor now) = snd (attachApprovalChannelBinding i message actor now db)"
| "call_registry H db (Expire i now) = snd (expireApprovalRegistryRequest i now db)"
| "call_registry H db (Resolve i d by_whom source now) = snd (resolveApprovalRegistryDecision i d by_whom source now db)"
| "call_registry H db (Consume i now expected) = snd (consumeApprovalRegistryDecision H i now expected db)"
| "call_registry H db (Acquire expected now) = snd (acquireApprovalRegistryGrant H expected now db)"

definition registry_step :: "host \<Rightarrow> registry \<Rightarrow> registry_call \<Rightarrow> registry option" where
  "registry_step H db c = Some (call_registry H db c)"

definition registry_after :: "host \<Rightarrow> registry_call list \<Rightarrow> registry" where
  "registry_after H calls = foldl (call_registry H) [] calls"

text \<open>What a call lets its caller do: the approval, the decision and where it was taken from.\<close>

fun granted :: "host \<Rightarrow> registry \<Rightarrow> registry_call \<Rightarrow> (string \<times> ApprovalDecision \<times> grant_source) option" where
  "granted H db (Consume i now expected) =
     (case fst (consumeApprovalRegistryDecision H i now expected db) of
        Inr r \<Rightarrow> if dr_accepted r then map_option (\<lambda>d. (i, d, from_approved)) (dr_decision r) else None
      | Inl e \<Rightarrow> None)"
| "granted H db (Acquire expected now) =
     (case fst (acquireApprovalRegistryGrant H expected now db) of
        Inr (Acquired d i source row) \<Rightarrow> Some (i, d, source)
      | _ \<Rightarrow> None)"
| "granted H db _ = None"

primrec grants :: "host \<Rightarrow> registry \<Rightarrow> registry_call list \<Rightarrow> (string \<times> ApprovalDecision \<times> grant_source) list" where
  "grants H db [] = []"
| "grants H db (c # cs) = (case granted H db c of None \<Rightarrow> [] | Some g \<Rightarrow> [g]) @ grants H (call_registry H db c) cs"

section \<open>The life of an approval\<close>

datatype approval_event = Decided ApprovalDecision | TimedOut | Superseded | Used

fun approval_step :: "ApprovalRegistryStatus \<Rightarrow> approval_event \<Rightarrow> ApprovalRegistryStatus option" where
  "approval_step ap_requested (Decided d) = Some (decided_status d)"
| "approval_step ap_requested TimedOut = Some ap_expired"
| "approval_step ap_requested Superseded = Some ap_superseded"
| "approval_step ap_approved_once TimedOut = Some ap_expired"
| "approval_step ap_approved_run TimedOut = Some ap_expired"
| "approval_step ap_approved_once Used = Some ap_consumed"
| "approval_step ap_approved_run Used = Some ap_consumed"
| "approval_step _ _ = None"

definition approval_closed :: "ApprovalRegistryStatus \<Rightarrow> bool" where
  "approval_closed s \<longleftrightarrow> s \<in> {ap_denied, ap_expired, ap_superseded, ap_consumed}"

fun approval_rank :: "ApprovalRegistryStatus \<Rightarrow> nat" where
  "approval_rank ap_requested = 2"
| "approval_rank ap_approved_once = 1"
| "approval_rank ap_approved_run = 1"
| "approval_rank _ = 0"

fun_cases approval_stepE: "approval_step s e = Some t"

lemma decided_status_rank [simp]: "approval_rank (decided_status d) < 2" "\<not> approval_closed (decided_status d) \<longleftrightarrow> d \<noteq> deny"
  by (cases d; simp add: approval_closed_def)+

interpretation approval_life: ranked_machine approval_step approval_closed approval_rank
proof
  show "approval_step s e = None" if "approval_closed s" for s e
    using that by (cases e) (auto simp: approval_closed_def)
  show "approval_rank t < approval_rank s" if "approval_step s e = Some t" for s e t
    using that by (cases s; cases e) auto
qed

interpretation approval_live: live_machine approval_step approval_closed
proof
  show "\<exists>e t. approval_step s e = Some t" if "\<not> approval_closed s" for s
    using that by (cases s) (auto simp: approval_closed_def intro: exI [of _ TimedOut])
qed

section \<open>What a call does to a row\<close>

text \<open>The part of a row that no call changes.\<close>

definition same_request :: "ApprovalRegistryRow \<Rightarrow> ApprovalRegistryRow \<Rightarrow> bool" where
  "same_request r r' \<longleftrightarrow>
     ar_id r' = ar_id r \<and> ar_run_id r' = ar_run_id r \<and> ar_request_group_id r' = ar_request_group_id r
     \<and> ar_tool_name r' = ar_tool_name r \<and> ar_params_hash r' = ar_params_hash r \<and> ar_expires_at r' = ar_expires_at r
     \<and> ar_operation_id r' = ar_operation_id r \<and> ar_operation_binding_hash r' = ar_operation_binding_hash r
     \<and> ar_continuation_schema_version r' = ar_continuation_schema_version r \<and> approved_agent r' = approved_agent r"

definition recorded :: "ApprovalRegistryRow \<Rightarrow> ApprovalDecision \<Rightarrow> bool" where
  "recorded r d \<longleftrightarrow> map_of (parseApprovalMetadata r) ''approvalDecision'' = Some (JString (decision_text d))"

definition row_ok :: "ApprovalRegistryRow \<Rightarrow> bool" where
  "row_ok r \<longleftrightarrow> (case ar_status r of
     ap_approved_once \<Rightarrow> recorded r allow_once
   | ap_approved_run \<Rightarrow> recorded r allow_run
   | ap_consumed \<Rightarrow> recorded r allow_once \<or> recorded r allow_run
   | _ \<Rightarrow> True)"

definition evolves :: "ApprovalRegistryRow \<Rightarrow> ApprovalRegistryRow \<Rightarrow> bool" where
  "evolves r r' \<longleftrightarrow> same_request r r' \<and> (row_ok r \<longrightarrow> row_ok r')
     \<and> (ar_status r' = ar_status r \<and> parseApprovalMetadata r' = parseApprovalMetadata r
        \<or> (\<exists>e. approval_step (ar_status r) e = Some (ar_status r')
             \<and> (case e of Decided d \<Rightarrow> recorded r' d | _ \<Rightarrow> parseApprovalMetadata r' = parseApprovalMetadata r)))"

lemma decision_text_inj [simp]: "decision_text d = decision_text d' \<longleftrightarrow> d = d'"
  by (cases d; cases d') auto

lemma recorded_unique: "recorded r d \<Longrightarrow> recorded r d' \<Longrightarrow> d = d'"
  by (simp add: recorded_def)

lemma decided_for_run_recorded: "decided_for_run r \<longleftrightarrow> recorded r allow_run"
  by (simp add: decided_for_run_def recorded_def)

lemma same_request_refl [simp]: "same_request r r"
  by (simp add: same_request_def)

lemma same_request_trans: "same_request a b \<Longrightarrow> same_request b c \<Longrightarrow> same_request a c"
  by (simp add: same_request_def)

lemma evolves_refl [simp]: "evolves r r"
  by (simp add: evolves_def)

lemma evolves_id: "evolves r r' \<Longrightarrow> ar_id r' = ar_id r"
  by (simp add: evolves_def same_request_def)

definition rows_evolve :: "registry \<Rightarrow> registry \<Rightarrow> bool" where
  "rows_evolve db db' \<longleftrightarrow> (\<exists>f. db' = map f db \<and> (\<forall>r \<in> set db. evolves r (f r)))"

lemma rows_evolve_refl [simp]: "rows_evolve db db"
  unfolding rows_evolve_def by (intro exI [of _ "\<lambda>r. r"]) simp

lemma sql_update_evolves:
  assumes "\<And>r. r \<in> set db \<Longrightarrow> P r \<Longrightarrow> evolves r (f r)"
  shows "rows_evolve db (sql_update P f db)"
  unfolding rows_evolve_def sql_update_def
  using assms by (intro exI [of _ "\<lambda>r. if P r then f r else r"]) simp

text \<open>Changes of a status that follow the life of an approval and leave the rest to \<open>evolves\<close>.\<close>

lemma evolves_step:
  assumes "approval_step (ar_status r) e = Some (ar_status r')" and "same_request r r'" and "row_ok r \<Longrightarrow> row_ok r'"
    and "case e of Decided d \<Rightarrow> recorded r' d | _ \<Rightarrow> parseApprovalMetadata r' = parseApprovalMetadata r"
  shows "evolves r r'"
  using assms unfolding evolves_def by blast

lemma metadata_same: "ar_metadata r' = ar_metadata r \<Longrightarrow> parseApprovalMetadata r' = parseApprovalMetadata r \<and> approved_agent r' = approved_agent r"
  by (simp add: parseApprovalMetadata_def approved_agent_def)

lemma time_out_evolves:
  assumes "\<And>s. still_open s \<Longrightarrow> s = ap_requested \<or> is_approved s"
  shows "rows_evolve db (time_out still_open i now db)"
  unfolding time_out_def
proof (rule sql_update_evolves)
  fix r :: ApprovalRegistryRow
  let ?r = "r\<lparr>ar_status := ap_expired, ar_decision_at := Some now, ar_decision_source := Some ''timeout'', ar_updated_at := now\<rparr>"
  assume "r \<in> set db" and "ar_id r = i \<and> still_open (ar_status r)"
  then have s: "ar_status r = ap_requested \<or> is_approved (ar_status r)" using assms by blast
  have m: "parseApprovalMetadata ?r = parseApprovalMetadata r \<and> approved_agent ?r = approved_agent r" by (rule metadata_same) simp
  show "evolves r ?r"
    by (rule evolves_step [where e = TimedOut]) (use s m in \<open>auto simp: same_request_def row_ok_def is_approved_def\<close>)
qed

lemma supersede_evolves: "rows_evolve db (supersede i now runId tool db)"
  unfolding supersede_def
proof (rule sql_update_evolves)
  fix r :: ApprovalRegistryRow
  let ?r = "r\<lparr>ar_status := ap_superseded, ar_superseded_by := Some i, ar_updated_at := now\<rparr>"
  assume "ar_run_id r = runId \<and> ar_tool_name r = tool \<and> ar_status r = ap_requested"
  moreover have "parseApprovalMetadata ?r = parseApprovalMetadata r \<and> approved_agent ?r = approved_agent r" by (rule metadata_same) simp
  ultimately show "evolves r ?r"
    by (intro evolves_step [where e = Superseded]) (auto simp: same_request_def row_ok_def)
qed

lemma decide_row_evolves:
  assumes "ar_status r = ap_requested"
    and "metadata = JObject (AList.update ''approvalDecision'' (JString (decision_text d)) (parseApprovalMetadata r))"
  shows "evolves r (decide_row d who source now metadata r)"
proof -
  let ?r = "decide_row d who source now metadata r"
  have p: "parseApprovalMetadata ?r = AList.update ''approvalDecision'' (JString (decision_text d)) (parseApprovalMetadata r)"
    by (simp add: parseApprovalMetadata_def decide_row_def assms(2))
  have rec: "recorded ?r d" unfolding recorded_def p by (simp add: update_conv')
  have ag: "approved_agent ?r = approved_agent r" unfolding approved_agent_def p by (simp add: update_conv')
  show ?thesis
  proof (rule evolves_step [where e = "Decided d"])
    show "approval_step (ar_status r) (Decided d) = Some (ar_status ?r)" by (simp add: assms decide_row_def)
    show "same_request r ?r" using ag by (simp add: same_request_def decide_row_def)
    show "row_ok ?r" using rec by (cases d) (auto simp: row_ok_def decide_row_def)
  qed (use rec in simp)
qed

lemma consume_row_evolves:
  assumes "is_approved (ar_status r)"
  shows "evolves r (consume_row now r)"
proof -
  have m: "parseApprovalMetadata (consume_row now r) = parseApprovalMetadata r \<and> approved_agent (consume_row now r) = approved_agent r"
    by (rule metadata_same) (simp add: consume_row_def)
  show ?thesis
    by (rule evolves_step [where e = Used])
      (use assms m in \<open>auto simp: same_request_def row_ok_def is_approved_def consume_row_def recorded_def parseApprovalMetadata_def\<close>)
qed

section \<open>Rows by their id\<close>

abbreviation unique_ids :: "registry \<Rightarrow> bool" where
  "unique_ids db \<equiv> distinct (map ar_id db)"

lemma get_row_iff: "unique_ids db \<Longrightarrow> getApprovalRegistryRow i db = Some r \<longleftrightarrow> r \<in> set db \<and> ar_id r = i"
proof
  assume d: "unique_ids db" and r: "r \<in> set db \<and> ar_id r = i"
  then obtain r' where r': "getApprovalRegistryRow i db = Some r'"
    by (cases "getApprovalRegistryRow i db") (auto simp: getApprovalRegistryRow_def find_None_iff)
  then have "r' \<in> set db \<and> ar_id r' = i" unfolding getApprovalRegistryRow_def by (rule find_SomeD)
  with d r have "r' = r" by (auto simp: distinct_map dest: inj_onD)
  with r' show "getApprovalRegistryRow i db = Some r" by simp
qed (auto simp: getApprovalRegistryRow_def dest: find_SomeD)

lemma get_row_mem: "getApprovalRegistryRow i db = Some r \<Longrightarrow> r \<in> set db \<and> ar_id r = i"
  unfolding getApprovalRegistryRow_def by (rule find_SomeD)

lemma rows_evolve_ids: "rows_evolve db db' \<Longrightarrow> map ar_id db' = map ar_id db"
  by (auto simp: rows_evolve_def evolves_id)

text \<open>An update of the row found by its id, when the ids are unique.\<close>

lemma update_found:
  assumes "unique_ids db" and "getApprovalRegistryRow i db = Some row" and "P (ar_status row)"
    and "ar_id (f row) = i"
  shows "sql_update (\<lambda>r. ar_id r = i \<and> P (ar_status r)) f db = map (\<lambda>r. if r = row then f row else r) db"
    and "getApprovalRegistryRow i (sql_update (\<lambda>r. ar_id r = i \<and> P (ar_status r)) f db) = Some (f row)"
proof -
  have row: "row \<in> set db" "ar_id row = i" using get_row_mem [OF assms(2)] by simp_all
  have only: "ar_id r = i \<longleftrightarrow> r = row" if "r \<in> set db" for r
    using that row assms(1) by (auto simp: distinct_map dest: inj_onD)
  show e: "sql_update (\<lambda>r. ar_id r = i \<and> P (ar_status r)) f db = map (\<lambda>r. if r = row then f row else r) db"
    unfolding sql_update_def by (rule map_cong [OF refl]) (use only assms(3) in auto)
  have same: "map ar_id (map (\<lambda>r. if r = row then f row else r) db) = map ar_id db"
    using row(2) assms(4) by simp
  have "unique_ids (map (\<lambda>r. if r = row then f row else r) db)" unfolding same by (rule assms(1))
  then show "getApprovalRegistryRow i (sql_update (\<lambda>r. ar_id r = i \<and> P (ar_status r)) f db) = Some (f row)"
    unfolding e using row(1) assms(4) by (subst get_row_iff) (auto simp: image_iff)
qed

definition replace_row :: "ApprovalRegistryRow \<Rightarrow> ApprovalRegistryRow \<Rightarrow> registry \<Rightarrow> registry" where
  "replace_row row row' db = map (\<lambda>r. if r = row then row' else r) db"

lemma replace_row_evolves: "evolves row row' \<Longrightarrow> rows_evolve db (replace_row row row' db)"
  unfolding rows_evolve_def replace_row_def by (intro exI [of _ "\<lambda>r. if r = row then row' else r"]) simp

section \<open>Consumption\<close>

text \<open>A row is usable for a scope now when it matches and its decision still stands.\<close>

definition usable :: "host \<Rightarrow> ApprovalConsumptionScope option \<Rightarrow> int \<Rightarrow> ApprovalRegistryRow \<Rightarrow> bool" where
  "usable H expected now row \<longleftrightarrow> \<not> expired_at row now
     \<and> (case expected of None \<Rightarrow> True | Some e \<Rightarrow> approvalScopeMatches H row e = Inr True)"

definition standing_decision :: "ApprovalRegistryRow \<Rightarrow> ApprovalDecision" where
  "standing_decision row = (if ar_status row = ap_approved_run then allow_run else allow_once)"

lemma consume_usable:
  assumes "unique_ids db" and "row \<in> set db" and "usable H expected now row" and "is_approved (ar_status row)"
  shows "consumeApprovalRegistryDecision H (ar_id row) now expected db =
     (Inr \<lparr>dr_accepted = True, dr_status = Some ap_consumed, dr_decision = Some (standing_decision row), dr_reason = None,
        dr_row = Some (consume_row now row)\<rparr>, replace_row row (consume_row now row) db)"
proof -
  have get: "getApprovalRegistryRow (ar_id row) db = Some row" using assms(1,2) by (simp add: get_row_iff)
  note u = update_found [OF assms(1) get, where P = is_approved and f = "consume_row now", OF assms(4)]
  have i: "ar_id (consume_row now row) = ar_id row" by (simp add: consume_row_def)
  have g: "getApprovalRegistryRow (ar_id row) (replace_row row (consume_row now row) db) = Some (consume_row now row)"
    using u(2) [OF i] unfolding u(1) [OF i] replace_row_def .
  have "\<not> expired_at row now" and m: "(case expected of None \<Rightarrow> Inr True | Some e \<Rightarrow> approvalScopeMatches H row e) = Inr True"
    using assms(3) by (auto simp: usable_def split: option.splits)
  then show ?thesis
    unfolding consumeApprovalRegistryDecision_def get m Let_def
    using assms(4) m by (simp add: standing_decision_def g u(1) [OF i, folded replace_row_def])
qed

lemma consume_accepted:
  assumes "fst (consumeApprovalRegistryDecision H i now expected db) = Inr r" and "dr_accepted r"
  obtains row where "getApprovalRegistryRow i db = Some row" "usable H expected now row" "is_approved (ar_status row)"
proof -
  from assms obtain row where get: "getApprovalRegistryRow i db = Some row"
    by (auto simp: consumeApprovalRegistryDecision_def missing_row_def split: option.splits)
  with assms have "\<not> (expired_at row now \<and> (ar_status row = ap_requested \<or> is_approved (ar_status row)))"
    and a: "is_approved (ar_status row)"
    and m: "(case expected of None \<Rightarrow> Inr True | Some e \<Rightarrow> approvalScopeMatches H row e) = Inr True"
    by (auto simp: consumeApprovalRegistryDecision_def refused_def Let_def split: if_splits sum.splits bool.splits option.splits)
  with get show thesis by (intro that) (auto simp: usable_def split: option.splits)
qed

lemma consume_evolves:
  assumes "unique_ids db"
  shows "rows_evolve db (snd (consumeApprovalRegistryDecision H i now expected db))"
proof (cases "\<exists>row. getApprovalRegistryRow i db = Some row \<and> usable H expected now row \<and> is_approved (ar_status row)")
  case True
  then obtain row where "row \<in> set db" "ar_id row = i" "usable H expected now row" "is_approved (ar_status row)"
    using get_row_mem by blast
  then show ?thesis
    using consume_usable [OF assms, of row H expected now] by (auto intro: replace_row_evolves consume_row_evolves)
next
  case False
  have "rows_evolve db (time_out (\<lambda>s. s = ap_requested \<or> is_approved s) j now db)" for j
    by (rule time_out_evolves) simp
  moreover have "snd (consumeApprovalRegistryDecision H i now expected db) \<in> {db, time_out (\<lambda>s. s = ap_requested \<or> is_approved s) i now db}"
    using False by (auto simp: consumeApprovalRegistryDecision_def usable_def Let_def dest: get_row_mem
      split: option.splits if_splits sum.splits bool.splits)
  ultimately show ?thesis by auto
qed

section \<open>Acquisition\<close>

definition grantable :: "host \<Rightarrow> ApprovalConsumptionScope \<Rightarrow> int \<Rightarrow> ApprovalRegistryRow \<Rightarrow> bool" where
  "grantable H expected now row \<longleftrightarrow> usable H (Some expected) now row
     \<and> (is_approved (ar_status row) \<or> ar_status row = ap_consumed \<and> decided_for_run row)"

definition acquire_row :: "int \<Rightarrow> ApprovalRegistryRow \<Rightarrow> registry \<Rightarrow> ApprovalRegistryGrantAcquisition \<times> registry" where
  "acquire_row now row db =
     (if ar_status row = ap_consumed then (Acquired allow_run (ar_id row) from_consumed_run row, db)
      else (Acquired (standing_decision row) (ar_id row) from_approved (consume_row now row),
            replace_row row (consume_row now row) db))"

text \<open>The loop takes the first row of the list that can be granted.\<close>

lemma acquire_loop_eq:
  assumes "unique_ids db" and "set rows \<subseteq> set db"
    and "\<forall>row \<in> set rows. is_approved (ar_status row) \<or> ar_status row = ap_consumed" and "scope_hash H expected = Inr h"
  shows "acquire_loop H expected now m rows db =
     (case List.find (grantable H expected now) rows of
        None \<Rightarrow> (Inr (Not_acquired (m \<or> (\<exists>row \<in> set rows. approvalScopeMatches H row expected = Inr False))), db)
      | Some row \<Rightarrow> (Inr (fst (acquire_row now row db)), snd (acquire_row now row db)))"
  using assms(2,3)
proof (induction rows arbitrary: m)
  case (Cons row rows)
  have IH: "acquire_loop H expected now m' rows db =
     (case List.find (grantable H expected now) rows of
        None \<Rightarrow> (Inr (Not_acquired (m' \<or> (\<exists>row \<in> set rows. approvalScopeMatches H row expected = Inr False))), db)
      | Some row \<Rightarrow> (Inr (fst (acquire_row now row db)), snd (acquire_row now row db)))" for m'
    by (rule Cons.IH) (use Cons.prems in auto)
  obtain b where b: "approvalScopeMatches H row expected = Inr b"
    using assms(4) by atomize_elim (simp add: approvalScopeMatches_def Let_def, blast)
  show ?case
  proof (cases "grantable H expected now row")
    case True
    then have u: "usable H (Some expected) now row" and e: "\<not> expired_at row now" and m: "approvalScopeMatches H row expected = Inr True"
      by (auto simp: grantable_def usable_def)
    show ?thesis
    proof (cases "ar_status row = ap_consumed")
      case True
      with \<open>grantable H expected now row\<close> have "decided_for_run row" by (auto simp: grantable_def is_approved_def)
      with True e m \<open>grantable H expected now row\<close> show ?thesis by (simp add: acquire_row_def)
    next
      case False
      then have "is_approved (ar_status row)" using Cons.prems by auto
      with consume_usable [OF assms(1) _ u] Cons.prems(1) False e m \<open>grantable H expected now row\<close> show ?thesis
        by (auto simp: acquire_row_def standing_decision_def)
    qed
  next
    case False
    then have "b \<Longrightarrow> \<not> expired_at row now \<Longrightarrow> ar_status row = ap_consumed \<and> \<not> decided_for_run row"
      using b Cons.prems(2) by (auto simp: grantable_def usable_def)
    then show ?thesis using False b by (cases b) (auto simp: IH split: option.splits)
  qed
qed simp

lemma scope_matches_iff: "approvalScopeMatches H row e = Inr True \<longleftrightarrow>
     ar_run_id row = sc_runId e \<and> ar_tool_name row = sc_toolName e \<and> ar_request_group_id row = sc_requestGroupId e
     \<and> scope_hash H e = Inr (ar_params_hash row) \<and> approved_agent row = expected_agent e
     \<and> ar_operation_id row = map_option ob_operationId (sc_operationBinding e)
     \<and> ar_operation_binding_hash row = map_option ob_operationBindingHash (sc_operationBinding e)
     \<and> ar_continuation_schema_version row = map_option ob_continuationSchemaVersion (sc_operationBinding e)"
  by (cases "scope_hash H e") (auto simp: approvalScopeMatches_def Let_def split: if_splits)

lemma acquire_eq:
  assumes "unique_ids db" and "scope_hash H expected = Inr h"
  shows "acquireApprovalRegistryGrant H expected now db =
     (case List.find (grantable H expected now) (candidate_rows (sc_requestGroupId expected) (sc_toolName expected) h db) of
        None \<Rightarrow> (Inr (Not_acquired (\<exists>row \<in> set (candidate_rows (sc_requestGroupId expected) (sc_toolName expected) h db).
                  approvalScopeMatches H row expected = Inr False)), db)
      | Some row \<Rightarrow> (Inr (fst (acquire_row now row db)), snd (acquire_row now row db)))"
  unfolding acquireApprovalRegistryGrant_def assms(2)
  by (subst acquire_loop_eq [OF assms(1) _ _ assms(2)]) (auto simp: candidate_rows_def split: option.splits)

lemma acquire_grantedE:
  assumes "unique_ids db" and "fst (acquireApprovalRegistryGrant H expected now db) = Inr (Acquired d i source row)"
  obtains row0 where "row0 \<in> set db" "grantable H expected now row0"
    "acquireApprovalRegistryGrant H expected now db = (Inr (fst (acquire_row now row0 db)), snd (acquire_row now row0 db))"
proof -
  obtain h where h: "scope_hash H expected = Inr h"
    using assms(2) by (cases "scope_hash H expected") (auto simp: acquireApprovalRegistryGrant_def)
  let ?c = "candidate_rows (sc_requestGroupId expected) (sc_toolName expected) h db"
  obtain row0 where r: "List.find (grantable H expected now) ?c = Some row0"
    using assms(2) by (cases "List.find (grantable H expected now) ?c") (auto simp: acquire_eq [OF assms(1) h])
  then have "row0 \<in> set ?c \<and> grantable H expected now row0" by (rule find_SomeD)
  then have "row0 \<in> set db" "grantable H expected now row0" by (auto simp: candidate_rows_def)
  then show thesis by (rule that) (simp add: acquire_eq [OF assms(1) h] r)
qed

lemma acquire_state:
  assumes "unique_ids db"
  obtains "snd (acquireApprovalRegistryGrant H expected now db) = db"
  | row where "row \<in> set db" "is_approved (ar_status row)"
      "snd (acquireApprovalRegistryGrant H expected now db) = replace_row row (consume_row now row) db"
proof (cases "scope_hash H expected")
  case (Inl e)
  then show thesis by (intro that(1)) (simp add: acquireApprovalRegistryGrant_def)
next
  case (Inr h)
  let ?c = "candidate_rows (sc_requestGroupId expected) (sc_toolName expected) h db"
  show thesis
  proof (cases "List.find (grantable H expected now) ?c")
    case None
    then show thesis by (intro that(1)) (simp add: acquire_eq [OF assms Inr])
  next
    case (Some row)
    then have "row \<in> set ?c \<and> grantable H expected now row" by (rule find_SomeD)
    then have "row \<in> set db" "is_approved (ar_status row) \<or> ar_status row = ap_consumed"
      by (auto simp: candidate_rows_def)
    then show thesis using that(1) that(2) [of row] Some
      by (cases "ar_status row = ap_consumed") (auto simp: acquire_eq [OF assms Inr] acquire_row_def is_approved_def)
  qed
qed

section \<open>What a call does to the registry\<close>

lemma expire_evolves: "rows_evolve db (snd (expireApprovalRegistryRequest i now db))"
  using time_out_evolves [of "\<lambda>s. s = ap_requested" db i now]
  by (auto simp: expireApprovalRegistryRequest_def Let_def split: option.splits)

lemma resolve_evolves:
  assumes "unique_ids db"
  shows "rows_evolve db (snd (resolveApprovalRegistryDecision i d who source now db))"
proof (cases "getApprovalRegistryRow i db")
  case (Some row)
  let ?m = "JObject (AList.update ''approvalDecision'' (JString (decision_text d)) (parseApprovalMetadata row))"
  have only: "r = row" if "r \<in> set db" "ar_id r = i" for r
    using that Some assms by (simp add: get_row_iff) (auto simp: distinct_map dest: inj_onD)
  have "rows_evolve db (sql_update (\<lambda>r. ar_id r = i \<and> ar_status r = ap_requested) (decide_row d who source now ?m) db)"
    by (rule sql_update_evolves) (use only decide_row_evolves in blast)
  then show ?thesis
    using expire_evolves [of db "ar_id row" now] Some by (auto simp: resolveApprovalRegistryDecision_def Let_def)
qed (simp add: resolveApprovalRegistryDecision_def)

text \<open>The columns about the channel are not part of the request.\<close>

lemma unchanged_evolves:
  assumes "same_request r r'" and "ar_status r' = ar_status r" and "ar_metadata r' = ar_metadata r"
  shows "evolves r r'"
proof -
  have m: "parseApprovalMetadata r' = parseApprovalMetadata r" using metadata_same [OF assms(3)] ..
  have "row_ok r' = row_ok r" unfolding row_ok_def recorded_def m assms(2) by (rule refl)
  with assms m show ?thesis by (simp add: evolves_def)
qed

lemma attach_evolves:
  "rows_evolve db (snd (attachApprovalChannelMessage i message now db))"
  "rows_evolve db (snd (attachApprovalChannelBinding i message actor now db))"
  unfolding attachApprovalChannelMessage_def attachApprovalChannelBinding_def snd_conv
  by (rule sql_update_evolves, rule unchanged_evolves,
      simp_all add: same_request_def parseApprovalMetadata_def approved_agent_def)+

definition asked :: "host \<Rightarrow> CreateApprovalRegistryRequestInput \<Rightarrow> string + string" where
  "asked H input = hashApprovalParams H (coalesce (ci_authorizationParams input) (ci_params input))"

lemma create_rows:
  obtains "rows_evolve db (snd (createApprovalRegistryRequest H clock uuid input db))"
  | db' h where "rows_evolve db db'" "asked H input = Inr h" "request_id uuid input \<notin> ar_id ` set db"
      "snd (createApprovalRegistryRequest H clock uuid input db)
        = db' @ [new_row H (request_id uuid input) (request_time clock input) h input]"
proof -
  let ?i = "request_id uuid input" and ?t = "request_time clock input"
  let ?db = "if ci_supersedePending input = Some False then db else supersede ?i ?t (ci_runId input) (ci_toolName input) db"
  have e: "rows_evolve db ?db" by (simp add: supersede_evolves)
  show thesis
  proof (cases "asked H input")
    case (Inl x)
    then show thesis by (intro that(1)) (simp add: createApprovalRegistryRequest_def asked_def Let_def)
  next
    case (Inr h)
    have ids: "ar_id ` set ?db = ar_id ` set db" using rows_evolve_ids [OF e] by (metis set_map)
    have s: "snd (createApprovalRegistryRequest H clock uuid input db)
        = (if ?i \<in> ar_id ` set db then ?db else ?db @ [new_row H ?i ?t h input])"
      using Inr ids unfolding createApprovalRegistryRequest_def asked_def Let_def by (simp del: if_split)
    show thesis
    proof (cases "?i \<in> ar_id ` set db")
      case True
      then show thesis using s e by (intro that(1)) simp
    next
      case False
      then show thesis using s e Inr by (intro that(2)) simp_all
    qed
  qed
qed

lemma call_rows:
  assumes "unique_ids db"
  obtains "rows_evolve db (call_registry H db c)"
  | clock uuid input db' h where "c = CreateRequest clock uuid input" "rows_evolve db db'" "asked H input = Inr h"
      "request_id uuid input \<notin> ar_id ` set db"
      "call_registry H db c = db' @ [new_row H (request_id uuid input) (request_time clock input) h input]"
proof (cases c)
  case (CreateRequest clock uuid input)
  then show thesis using create_rows [of db H clock uuid input] that by (metis call_registry.simps(1))
next
  case (Acquire expected now)
  have "rows_evolve db (snd (acquireApprovalRegistryGrant H expected now db))"
    by (rule acquire_state [OF assms, of H expected now]) (auto intro: replace_row_evolves consume_row_evolves)
  then show thesis using Acquire by (intro that(1)) simp
qed (use that(1) attach_evolves expire_evolves resolve_evolves consume_evolves assms in auto)

section \<open>Invariant\<close>

definition registry_ok :: "registry \<Rightarrow> bool" where
  "registry_ok db \<longleftrightarrow> unique_ids db \<and> (\<forall>r \<in> set db. row_ok r)"

lemma new_row_simps [simp]: "ar_id (new_row H i now h input) = i" "ar_status (new_row H i now h input) = ap_requested"
  by (simp_all add: new_row_def)

lemma call_registry_ok:
  assumes "registry_ok db"
  shows "registry_ok (call_registry H db c)"
proof -
  have evolve: "registry_ok db'" if "rows_evolve db db'" for db'
    using that assms rows_evolve_ids [OF that] unfolding registry_ok_def by (auto simp: rows_evolve_def evolves_def)
  have "unique_ids db" using assms by (simp add: registry_ok_def)
  then show ?thesis
  proof (cases rule: call_rows [of db H c])
    case 1
    then show ?thesis by (rule evolve)
  next
    case (2 clock uuid input db' h)
    have "ar_id ` set db' = ar_id ` set db" using rows_evolve_ids [OF 2(2)] by (metis set_map)
    then show ?thesis using evolve [OF 2(2)] 2(4,5) by (auto simp: registry_ok_def row_ok_def)
  qed
qed

interpretation registry: invariant_machine "registry_step H" registry_ok for H
  by unfold_locales (auto simp: registry_step_def call_registry_ok)

lemma run_registry: "run_steps (registry_step H) db calls = Some (foldl (call_registry H) db calls)"
  by (induction calls arbitrary: db) (auto simp: registry_step_def)

lemma registry_after_ok: "registry_ok (registry_after H calls)"
  using registry.run_inv [of "[]" H calls] by (simp add: run_registry registry_after_def registry_ok_def)

lemma registry_after_snoc [simp]: "registry_after H (calls @ [c]) = call_registry H (registry_after H calls) c"
  by (simp add: registry_after_def)

lemma registry_after_append: "registry_after H (calls @ later) = foldl (call_registry H) (registry_after H calls) later"
  by (simp add: registry_after_def)

text \<open>Every row has its successor after a call.\<close>

lemma call_successor:
  assumes "registry_ok db" and "r \<in> set db"
  obtains r' where "r' \<in> set (call_registry H db c)" "evolves r r'"
proof -
  have r: "\<exists>r' \<in> set db'. evolves r r'" if "rows_evolve db db'" for db' using that assms(2) by (auto simp: rows_evolve_def)
  have "unique_ids db" using assms(1) by (simp add: registry_ok_def)
  then have "\<exists>r' \<in> set (call_registry H db c). evolves r r'"
    by (cases rule: call_rows [of db H c]) (use r in fastforce)+
  then show thesis using that by blast
qed

lemma evolves_closed: "evolves r r' \<Longrightarrow> approval_closed (ar_status r) \<Longrightarrow>
    ar_status r' = ar_status r \<and> parseApprovalMetadata r' = parseApprovalMetadata r"
  by (auto simp: evolves_def approval_life.terminal_stuck)

text \<open>The statuses a row takes are a run of the life of an approval.\<close>

lemma run_successor:
  assumes "registry_ok db" and "r \<in> set db"
  shows "\<exists>r' evs. r' \<in> set (foldl (call_registry H) db calls) \<and> same_request r r'
     \<and> run_steps approval_step (ar_status r) evs = Some (ar_status r')"
  using assms
proof (induction calls arbitrary: db r)
  case Nil
  then show ?case by (intro exI [of _ r] exI [of _ "[]"]) simp
next
  case (Cons c calls)
  obtain r1 where r1: "r1 \<in> set (call_registry H db c)" "evolves r r1" using call_successor [OF Cons.prems] .
  obtain r' evs where r': "r' \<in> set (foldl (call_registry H) (call_registry H db c) calls)" "same_request r1 r'"
    "run_steps approval_step (ar_status r1) evs = Some (ar_status r')"
    using Cons.IH [OF call_registry_ok [OF Cons.prems(1)] r1(1)] by blast
  have "\<exists>evs. run_steps approval_step (ar_status r) evs = Some (ar_status r')"
    using r1(2) r'(3) unfolding evolves_def by (metis run_steps.simps(2) option.simps(5))
  then show ?case using r' r1(2) same_request_trans by (auto simp: evolves_def)
qed

section \<open>Grants\<close>

text \<open>The scope and the time a call asks for.\<close>

fun call_scope :: "registry_call \<Rightarrow> (ApprovalConsumptionScope \<times> int) option" where
  "call_scope (Consume i now (Some expected)) = Some (expected, now)"
| "call_scope (Acquire expected now) = Some (expected, now)"
| "call_scope _ = None"

lemma granted_cases:
  assumes "registry_ok db" and "granted H db c = Some (i, d, source)"
  obtains row now where "source = from_approved" "row \<in> set db" "ar_id row = i" "is_approved (ar_status row)" "d = standing_decision row"
      "call_registry H db c = replace_row row (consume_row now row) db"
      "\<And>e t. call_scope c = Some (e, t) \<Longrightarrow> usable H (Some e) t row"
  | row where "source = from_consumed_run" "row \<in> set db" "ar_id row = i" "ar_status row = ap_consumed" "recorded row allow_run"
      "d = allow_run" "call_registry H db c = db"
      "\<And>e t. call_scope c = Some (e, t) \<Longrightarrow> usable H (Some e) t row"
proof -
  have u: "unique_ids db" using assms(1) by (simp add: registry_ok_def)
  show thesis
  proof (cases c)
    case (Consume j now expected)
    then obtain r where r: "fst (consumeApprovalRegistryDecision H j now expected db) = Inr r" "dr_accepted r"
      "dr_decision r = Some d" "i = j" "source = from_approved"
      using assms(2) by (auto split: sum.splits if_splits)
    obtain row where row: "getApprovalRegistryRow j db = Some row" "usable H expected now row" "is_approved (ar_status row)"
      using r(1,2) by (rule consume_accepted)
    then have m: "row \<in> set db" "ar_id row = j" using get_row_mem by blast+
    show thesis
      using consume_usable [OF u m(1) row(2,3)] r m row Consume by (intro that(1) [of row now]) (auto elim!: call_scope.elims)
  next
    case (Acquire expected now)
    then obtain row1 where a: "fst (acquireApprovalRegistryGrant H expected now db) = Inr (Acquired d i source row1)"
      using assms(2) by (auto split: sum.splits ApprovalRegistryGrantAcquisition.splits)
    obtain row where row: "row \<in> set db" "grantable H expected now row"
      "acquireApprovalRegistryGrant H expected now db = (Inr (fst (acquire_row now row db)), snd (acquire_row now row db))"
      using u a by (rule acquire_grantedE)
    have ne: "usable H (Some e) t row" if "call_scope c = Some (e, t)" for e t
      using that row(2) Acquire by (auto simp: grantable_def)
    show thesis
    proof (cases "ar_status row = ap_consumed")
      case True
      then show thesis using a row Acquire ne that(2) [of row]
        by (auto simp: acquire_row_def grantable_def is_approved_def decided_for_run_recorded)
    next
      case False
      then show thesis using a row Acquire ne that(1) [of row now] by (auto simp: acquire_row_def grantable_def)
    qed
  qed (use assms(2) in auto)
qed

definition spent :: "string \<Rightarrow> ApprovalDecision \<Rightarrow> registry \<Rightarrow> bool" where
  "spent i d db \<longleftrightarrow> (\<exists>r \<in> set db. ar_id r = i \<and> ar_status r = ap_consumed \<and> recorded r d)"

lemma spent_stays:
  assumes "registry_ok db" and "spent i d db"
  shows "spent i d (call_registry H db c)"
proof -
  obtain r where r: "r \<in> set db" "ar_id r = i" "ar_status r = ap_consumed" "recorded r d"
    using assms(2) by (auto simp: spent_def)
  obtain r' where "r' \<in> set (call_registry H db c)" "evolves r r'" using call_successor [OF assms(1) r(1)] .
  then show ?thesis using r evolves_closed [of r r'] evolves_id [of r r'] by (auto simp: spent_def approval_closed_def recorded_def)
qed

lemma granted_spends:
  assumes "registry_ok db" and "granted H db c = Some (i, d, source)"
  shows "spent i d (call_registry H db c)"
  using assms
proof (cases rule: granted_cases)
  case (1 row now)
  have r: "recorded row d" using 1(2,4,5) assms(1)
    by (auto simp: registry_ok_def row_ok_def is_approved_def standing_decision_def split: ApprovalRegistryStatus.splits)
  have "consume_row now row \<in> set (call_registry H db c)" using 1(2,6) by (auto simp: replace_row_def image_iff)
  moreover have "recorded (consume_row now row) d" using r by (simp add: recorded_def parseApprovalMetadata_def consume_row_def)
  ultimately show ?thesis using 1(3) by (auto simp: spent_def consume_row_def intro!: bexI [of _ "consume_row now row"])
qed (auto simp: spent_def)

lemma same_id_row: "registry_ok db \<Longrightarrow> r \<in> set db \<Longrightarrow> r' \<in> set db \<Longrightarrow> ar_id r = ar_id r' \<Longrightarrow> r = r'"
  by (auto simp: registry_ok_def distinct_map dest: inj_onD)

text \<open>A spent approval is granted again only when it was given for the run, and never from the approved state.\<close>

lemma spent_granted:
  assumes "registry_ok db" and "spent i d db" and "granted H db c = Some (i, d', source)"
  shows "source = from_consumed_run \<and> d' = allow_run \<and> d = allow_run"
proof -
  obtain r where r: "r \<in> set db" "ar_id r = i" "ar_status r = ap_consumed" "recorded r d"
    using assms(2) by (auto simp: spent_def)
  show ?thesis
    using assms(1,3)
  proof (cases rule: granted_cases)
    case (1 row now)
    then have "row = r" using same_id_row [OF assms(1) 1(2) r(1)] r(2) by simp
    then show ?thesis using 1(4) r(3) by (simp add: is_approved_def)
  next
    case (2 row)
    then have "row = r" using same_id_row [OF assms(1) 2(2) r(1)] r(2) by simp
    then show ?thesis using 2 r(4) recorded_unique by blast
  qed
qed

lemma spent_grants:
  assumes "registry_ok db" and "spent i d db" and "(i, d', source) \<in> set (grants H db calls)"
  shows "source = from_consumed_run \<and> d' = allow_run \<and> d = allow_run"
  using assms
proof (induction calls arbitrary: db)
  case (Cons c calls)
  from Cons.prems(3) consider "granted H db c = Some (i, d', source)" | "(i, d', source) \<in> set (grants H (call_registry H db c) calls)"
    by (auto split: option.splits)
  then show ?case
  proof cases
    case 1
    then show ?thesis using spent_granted [OF Cons.prems(1,2)] by blast
  next
    case 2
    then show ?thesis using Cons.IH call_registry_ok [OF Cons.prems(1)] spent_stays [OF Cons.prems(1,2)] by blast
  qed
qed simp

lemma grants_once:
  assumes "registry_ok db"
  shows "length (filter (\<lambda>(j, d, source). j = i \<and> source = from_approved) (grants H db calls)) \<le> 1
     \<and> ((i, allow_once, source) \<in> set (grants H db calls) \<longrightarrow>
          filter (\<lambda>(j, d, source). j = i) (grants H db calls) = [(i, allow_once, from_approved)])"
  using assms
proof (induction calls arbitrary: db)
  case (Cons c calls)
  let ?db = "call_registry H db c" and ?gs = "grants H (call_registry H db c) calls"
  have IH: "length (filter (\<lambda>(j, d, source). j = i \<and> source = from_approved) ?gs) \<le> 1
     \<and> ((i, allow_once, source) \<in> set ?gs \<longrightarrow> filter (\<lambda>(j, d, source). j = i) ?gs = [(i, allow_once, from_approved)])"
    by (rule Cons.IH) (rule call_registry_ok [OF Cons.prems])
  show ?case
  proof (cases "\<exists>d s. granted H db c = Some (i, d, s)")
    case False
    then have same: "filter (\<lambda>(j, d, source). j = i) (grants H db (c # calls)) = filter (\<lambda>(j, d, source). j = i) ?gs"
      "filter (\<lambda>(j, d, source). j = i \<and> source = from_approved) (grants H db (c # calls))
        = filter (\<lambda>(j, d, source). j = i \<and> source = from_approved) ?gs"
      "(i, allow_once, source) \<in> set (grants H db (c # calls)) \<longleftrightarrow> (i, allow_once, source) \<in> set ?gs"
      by (cases "granted H db c"; force)+
    show ?thesis unfolding same by (rule IH)
  next
    case True
    then obtain d s where g: "granted H db c = Some (i, d, s)" by blast
    have later: "source' = from_consumed_run \<and> d' = allow_run \<and> d = allow_run" if "(i, d', source') \<in> set ?gs" for d' source'
      using spent_grants [OF call_registry_ok [OF Cons.prems] granted_spends [OF Cons.prems g] that] .
    then have none: "filter (\<lambda>(j, d, source). j = i \<and> source = from_approved) ?gs = []"
      by (force simp: filter_empty_conv)
    have once: "d = allow_once \<Longrightarrow> filter (\<lambda>(j, d, source). j = i) ?gs = [] \<and> s = from_approved"
      using later granted_cases [OF Cons.prems g] by (force simp: filter_empty_conv)
    show ?thesis using g none once later by (cases d) (auto simp: filter_empty_conv)
  qed
qed simp

section \<open>Where a row comes from\<close>

lemma sql_updateE:
  assumes "r' \<in> set (sql_update P f db)"
  obtains "r' \<in> set db" "\<not> P r'" | r where "r \<in> set db" "P r" "r' = f r"
  using assms by (auto simp: sql_update_def split: if_splits)

lemma expire_approved: "r' \<in> set (snd (expireApprovalRegistryRequest i now db)) \<Longrightarrow> is_approved (ar_status r') \<Longrightarrow> r' \<in> set db"
  by (auto simp: expireApprovalRegistryRequest_def time_out_def is_approved_def Let_def elim!: sql_updateE split: option.splits if_splits)

lemma resolve_approved:
  assumes "unique_ids db" and "r' \<in> set (snd (resolveApprovalRegistryDecision i d who source now db))" and "is_approved (ar_status r')"
  shows "r' \<in> set db \<or> (ar_id r' = i \<and> ar_status r' = decided_status d
    \<and> (\<exists>r \<in> set db. ar_id r = i \<and> \<not> expired_at r now))"
proof (cases "getApprovalRegistryRow i db")
  case (Some row)
  then have row: "row \<in> set db" "ar_id row = i" using get_row_mem by blast+
  show ?thesis
  proof (cases "expired_at row now \<and> ar_status row = ap_requested \<or> ar_status row \<noteq> ap_requested")
    case True
    then have "snd (resolveApprovalRegistryDecision i d who source now db) \<in> {snd (expireApprovalRegistryRequest (ar_id row) now db), db}"
      using Some by (auto simp: resolveApprovalRegistryDecision_def Let_def)
    then show ?thesis using assms(2,3) expire_approved by auto
  next
    case False
    then obtain metadata where "snd (resolveApprovalRegistryDecision i d who source now db)
        = sql_update (\<lambda>r. ar_id r = i \<and> ar_status r = ap_requested) (decide_row d who source now metadata) db"
      using Some by (auto simp: resolveApprovalRegistryDecision_def Let_def)
    then show ?thesis using assms(2) False row by (auto elim!: sql_updateE simp: decide_row_def)
  qed
qed (use assms(2) in \<open>simp add: resolveApprovalRegistryDecision_def\<close>)

lemma consume_approved:
  assumes "unique_ids db" and "r' \<in> set (snd (consumeApprovalRegistryDecision H i now expected db))" and "is_approved (ar_status r')"
  shows "r' \<in> set db"
proof (cases "\<exists>row. getApprovalRegistryRow i db = Some row \<and> usable H expected now row \<and> is_approved (ar_status row)")
  case True
  then obtain row where "row \<in> set db" "ar_id row = i" "usable H expected now row" "is_approved (ar_status row)"
    using get_row_mem by blast
  then show ?thesis
    using consume_usable [OF assms(1), of row H expected now] assms(2,3)
    by (auto simp: replace_row_def consume_row_def is_approved_def split: if_splits)
next
  case False
  then have "snd (consumeApprovalRegistryDecision H i now expected db) \<in> {db, time_out (\<lambda>s. s = ap_requested \<or> is_approved s) i now db}"
    by (auto simp: consumeApprovalRegistryDecision_def usable_def Let_def dest: get_row_mem
      split: option.splits if_splits sum.splits bool.splits)
  then show ?thesis using assms(2,3) by (auto simp: time_out_def is_approved_def elim!: sql_updateE)
qed

lemma create_approved:
  assumes "r' \<in> set (snd (createApprovalRegistryRequest H clock uuid input db))" and "is_approved (ar_status r')"
  shows "r' \<in> set db"
  using assms
  by (auto simp: createApprovalRegistryRequest_def supersede_def is_approved_def Let_def elim!: sql_updateE
    split: sum.splits if_splits)

lemma decided_status_inj: "decided_status d = decided_status d' \<longleftrightarrow> d = d'"
  by (cases d; cases d') auto

lemma decided_approved: "is_approved (decided_status d) \<longleftrightarrow> d \<noteq> deny"
  by (cases d) (auto simp: is_approved_def)

lemma step_to_approved: "approval_step s e = Some t \<Longrightarrow> is_approved t \<Longrightarrow> s = ap_requested \<and> (\<exists>d. e = Decided d \<and> t = decided_status d)"
  by (cases s; cases e) (auto simp: is_approved_def)

lemma step_to_consumed: "approval_step s e = Some ap_consumed \<Longrightarrow> is_approved s \<and> e = Used"
  by (cases s; cases e) (auto simp: is_approved_def elim: decided_status.elims)

lemma step_decided: "approval_step s (Decided d) = Some t \<Longrightarrow> s = ap_requested"
  by (cases s) auto

lemma evolves_old:
  assumes "evolves r r'" and "ar_status r \<noteq> ap_requested"
  shows "parseApprovalMetadata r' = parseApprovalMetadata r"
  using assms step_decided unfolding evolves_def by (fastforce split: approval_event.splits)

lemma evolves_new:
  assumes "evolves r r'" and "is_approved (ar_status r') \<or> ar_status r' = ap_consumed"
    and "\<not> (is_approved (ar_status r) \<or> ar_status r = ap_consumed)"
  shows "is_approved (ar_status r') \<and> (\<exists>d. recorded r' d \<and> ar_status r' = decided_status d)"
proof -
  have "ar_status r' \<noteq> ar_status r" using assms(2,3) by auto
  then obtain e where e: "approval_step (ar_status r) e = Some (ar_status r')"
    "case e of Decided d \<Rightarrow> recorded r' d | _ \<Rightarrow> parseApprovalMetadata r' = parseApprovalMetadata r"
    using assms(1) unfolding evolves_def by blast
  have a: "is_approved (ar_status r')" using e(1) assms(2,3) step_to_consumed by metis
  from step_to_approved [OF e(1) a] e(2) a show ?thesis by auto
qed

text \<open>A row becomes approved only by a decision, and not after its time.\<close>

lemma newly_approved:
  assumes "unique_ids db" and "r' \<in> set (call_registry H db c)" and "is_approved (ar_status r')"
  shows "(\<exists>r \<in> set db. ar_id r = ar_id r' \<and> is_approved (ar_status r))
     \<or> (\<exists>d who source t. c = Resolve (ar_id r') d who source t \<and> ar_status r' = decided_status d
          \<and> (\<exists>r \<in> set db. ar_id r = ar_id r' \<and> \<not> expired_at r t))"
proof (cases c)
  case (AttachMessage i message now)
  then show ?thesis using assms by (auto simp: attachApprovalChannelMessage_def elim!: sql_updateE)
next
  case (AttachBinding i message actor now)
  then show ?thesis using assms by (auto simp: attachApprovalChannelBinding_def elim!: sql_updateE)
next
  case (Resolve i d who source now)
  then show ?thesis using resolve_approved [OF assms(1), of r' i d who source now] assms(2,3) by auto
next
  case (Acquire expected now)
  show ?thesis
    by (rule acquire_state [OF assms(1), of H expected now])
      (use Acquire assms(2,3) in \<open>auto simp: replace_row_def consume_row_def is_approved_def split: if_splits\<close>)
next
  case (CreateRequest clock uuid input)
  then have "r' \<in> set db" using create_approved [of r' H clock uuid input db] assms(2,3) by simp
  then show ?thesis using assms(3) by blast
next
  case (Expire i now)
  then have "r' \<in> set db" using expire_approved [of r' i now db] assms(2,3) by simp
  then show ?thesis using assms(3) by blast
next
  case (Consume i now expected)
  then have "r' \<in> set db" using consume_approved [OF assms(1), of r' H i now expected] assms(2,3) by simp
  then show ?thesis using assms(3) by blast
qed

definition decided_in :: "registry_call list \<Rightarrow> ApprovalRegistryRow \<Rightarrow> bool" where
  "decided_in calls r \<longleftrightarrow> (\<exists>before d who source t later.
     calls = before @ Resolve (ar_id r) d who source t # later \<and> recorded r d \<and> d \<noteq> deny \<and> \<not> expired_at r t)"

lemma decided_in_snoc: "decided_in calls r \<Longrightarrow> decided_in (calls @ [c]) r"
  unfolding decided_in_def by (metis append_Cons append_assoc)

lemma decided_in_same: "decided_in calls r \<Longrightarrow> same_request r r' \<Longrightarrow> (\<And>d. recorded r d \<Longrightarrow> recorded r' d) \<Longrightarrow> decided_in calls r'"
  unfolding decided_in_def same_request_def expired_at_def by metis

definition row_origin :: "host \<Rightarrow> registry_call list \<Rightarrow> ApprovalRegistryRow \<Rightarrow> bool" where
  "row_origin H calls r \<longleftrightarrow> (\<exists>before clock uuid input later h.
     calls = before @ CreateRequest clock uuid input # later \<and> asked H input = Inr h
     \<and> same_request (new_row H (request_id uuid input) (request_time clock input) h input) r
     \<and> (is_approved (ar_status r) \<or> ar_status r = ap_consumed \<longrightarrow> decided_in later r))"

lemma row_has_origin: "r \<in> set (registry_after H calls) \<Longrightarrow> row_origin H calls r"
proof (induction calls arbitrary: r rule: rev_induct)
  case Nil
  then show ?case by (simp add: registry_after_def)
next
  case (snoc c calls)
  let ?db = "registry_after H calls"
  have ok: "registry_ok ?db" by (rule registry_after_ok)
  then have u: "unique_ids ?db" by (simp add: registry_ok_def)
  have in_call: "r \<in> set (call_registry H ?db c)" using snoc.prems by simp
  have step: "row_origin H (calls @ [c]) r" if r0: "r0 \<in> set ?db" and ev: "evolves r0 r" for r0
  proof -
    obtain before clock uuid input later h where o: "calls = before @ CreateRequest clock uuid input # later" "asked H input = Inr h"
      "same_request (new_row H (request_id uuid input) (request_time clock input) h input) r0"
      "is_approved (ar_status r0) \<or> ar_status r0 = ap_consumed \<Longrightarrow> decided_in later r0"
      using snoc.IH [OF r0] unfolding row_origin_def by blast
    have sr: "same_request r0 r" using ev by (simp add: evolves_def)
    have "decided_in (later @ [c]) r" if st: "is_approved (ar_status r) \<or> ar_status r = ap_consumed"
    proof (cases "is_approved (ar_status r0) \<or> ar_status r0 = ap_consumed")
      case True
      then have "parseApprovalMetadata r = parseApprovalMetadata r0"
        by (intro evolves_old [OF ev]) (auto simp: is_approved_def)
      then have "\<And>d. recorded r0 d \<Longrightarrow> recorded r d" by (simp add: recorded_def)
      then show ?thesis using o(4) True sr decided_in_snoc decided_in_same by blast
    next
      case False
      then obtain d0 where new: "is_approved (ar_status r)" "recorded r d0" "ar_status r = decided_status d0"
        using evolves_new [OF ev st] by blast
      obtain d who source t where d: "c = Resolve (ar_id r) d who source t" "ar_status r = decided_status d"
        and ne: "\<exists>r1 \<in> set ?db. ar_id r1 = ar_id r \<and> \<not> expired_at r1 t"
        using newly_approved [OF u in_call new(1)] False same_id_row [OF ok r0] evolves_id [OF ev] by metis
      have "\<not> expired_at r t" using ne same_id_row [OF ok r0] evolves_id [OF ev] sr by (metis expired_at_def same_request_def)
      moreover have "recorded r d" using new(2,3) d(2) decided_status_inj by simp
      moreover have "d \<noteq> deny" using new(1) d(2) by (simp add: decided_approved)
      ultimately show ?thesis using d(1) unfolding decided_in_def by blast
    qed
    then show ?thesis
      unfolding row_origin_def using o(1,2) same_request_trans [OF o(3) sr] by (metis append_Cons append_assoc)
  qed
  show ?case
    using u
  proof (cases rule: call_rows [of ?db H c])
    case 1
    then show ?thesis using in_call step by (auto simp: rows_evolve_def)
  next
    case (2 clock uuid input db' h)
    consider "r \<in> set db'" | "r = new_row H (request_id uuid input) (request_time clock input) h input" using in_call 2(5) by auto
    then show ?thesis
    proof cases
      case 1
      then show ?thesis using 2(2) step by (auto simp: rows_evolve_def)
    next
      case new: 2
      have "calls @ [c] = calls @ CreateRequest clock uuid input # []" using 2(1) by simp
      moreover have "same_request (new_row H (request_id uuid input) (request_time clock input) h input) r" using new by simp
      moreover have "\<not> (is_approved (ar_status r) \<or> ar_status r = ap_consumed)" using new by (simp add: is_approved_def)
      ultimately show ?thesis unfolding row_origin_def using 2(3) by blast
    qed
  qed
qed

section \<open>One pending request per run and tool\<close>

fun superseding :: "registry_call \<Rightarrow> bool" where
  "superseding (CreateRequest clock uuid input) = (ci_supersedePending input \<noteq> Some False)"
| "superseding _ = True"

definition one_pending :: "registry \<Rightarrow> bool" where
  "one_pending db \<longleftrightarrow> (\<forall>r \<in> set db. \<forall>r' \<in> set db. ar_status r = ap_requested \<longrightarrow> ar_status r' = ap_requested
     \<longrightarrow> ar_run_id r = ar_run_id r' \<longrightarrow> ar_tool_name r = ar_tool_name r' \<longrightarrow> r = r')"

lemma step_not_requested: "approval_step s e \<noteq> Some ap_requested"
  by (cases s; cases e) (auto elim: decided_status.elims)

lemma evolves_requested: "evolves r r' \<Longrightarrow> ar_status r' = ap_requested \<Longrightarrow> ar_status r = ap_requested"
  using step_not_requested unfolding evolves_def by metis

lemma evolve_one_pending:
  assumes "rows_evolve db db'" and "one_pending db"
  shows "one_pending db'"
proof -
  obtain f where f: "db' = map f db" "\<forall>r \<in> set db. evolves r (f r)" using assms(1) by (auto simp: rows_evolve_def)
  have "f r = f r'" if "r \<in> set db" "r' \<in> set db" "ar_status (f r) = ap_requested" "ar_status (f r') = ap_requested"
    "ar_run_id (f r) = ar_run_id (f r')" "ar_tool_name (f r) = ar_tool_name (f r')" for r r'
  proof -
    have e: "evolves r (f r)" "evolves r' (f r')" using f(2) that(1,2) by auto
    then have "ar_status r = ap_requested" "ar_status r' = ap_requested" using evolves_requested that(3,4) by blast+
    moreover have "ar_run_id r = ar_run_id r'" "ar_tool_name r = ar_tool_name r'"
      using e that(5,6) by (auto simp: evolves_def same_request_def)
    ultimately have "r = r'" using assms(2) that(1,2) unfolding one_pending_def by blast
    then show ?thesis by simp
  qed
  then show ?thesis unfolding one_pending_def f(1) by auto
qed

lemma create_supersedes:
  assumes "ci_supersedePending input \<noteq> Some False"
  shows "snd (createApprovalRegistryRequest H clock uuid input db) \<in>
     {db, supersede (request_id uuid input) (request_time clock input) (ci_runId input) (ci_toolName input) db}
   \<or> (\<exists>h. snd (createApprovalRegistryRequest H clock uuid input db) =
        supersede (request_id uuid input) (request_time clock input) (ci_runId input) (ci_toolName input) db
          @ [new_row H (request_id uuid input) (request_time clock input) h input])"
  using assms by (auto simp: createApprovalRegistryRequest_def Let_def split: sum.splits)

lemma supersede_none_pending:
  "r \<in> set (supersede i now runId tool db) \<Longrightarrow> ar_run_id r = runId \<Longrightarrow> ar_tool_name r = tool \<Longrightarrow> ar_status r \<noteq> ap_requested"
  unfolding supersede_def by (elim sql_updateE) auto

lemma one_pending_snoc:
  assumes "one_pending db" and "\<And>r. r \<in> set db \<Longrightarrow> ar_run_id r = ar_run_id n \<Longrightarrow> ar_tool_name r = ar_tool_name n \<Longrightarrow> ar_status r \<noteq> ap_requested"
  shows "one_pending (db @ [n])"
  unfolding one_pending_def
proof (intro ballI impI)
  fix r r'
  assume m: "r \<in> set (db @ [n])" "r' \<in> set (db @ [n])" and st: "ar_status r = ap_requested" "ar_status r' = ap_requested"
    and eq: "ar_run_id r = ar_run_id r'" "ar_tool_name r = ar_tool_name r'"
  have "r = n" if "r' = n" using that m(1) st(1) eq assms(2) [of r] by auto
  moreover have "r' = n" if "r = n" using that m(2) st(2) eq assms(2) [of r'] by auto
  moreover have "r = r'" if "r \<in> set db" "r' \<in> set db" using that st eq assms(1) unfolding one_pending_def by blast
  moreover have "r = n \<or> r \<in> set db" "r' = n \<or> r' \<in> set db" using m by auto
  ultimately show "r = r'" by blast
qed

lemma call_one_pending:
  assumes "registry_ok db" and "one_pending db" and "superseding c"
  shows "one_pending (call_registry H db c)"
proof (cases "\<exists>clock uuid input. c = CreateRequest clock uuid input")
  case True
  then obtain clock uuid input where c: "c = CreateRequest clock uuid input" by blast
  let ?s = "supersede (request_id uuid input) (request_time clock input) (ci_runId input) (ci_toolName input) db"
  have s: "one_pending ?s" by (rule evolve_one_pending [OF supersede_evolves assms(2)])
  consider "call_registry H db c = db" | "call_registry H db c = ?s"
    | h where "call_registry H db c = ?s @ [new_row H (request_id uuid input) (request_time clock input) h input]"
    using create_supersedes [of input H clock uuid db] assms(3) c by auto
  then show ?thesis
  proof cases
    case (3 h)
    have "ar_run_id (new_row H i t h input) = ci_runId input" "ar_tool_name (new_row H i t h input) = ci_toolName input" for i t
      by (simp_all add: new_row_def)
    then show ?thesis unfolding 3 by (intro one_pending_snoc [OF s]) (use supersede_none_pending in simp)
  qed (use s assms(2) in simp_all)
next
  case False
  have "unique_ids db" using assms(1) by (simp add: registry_ok_def)
  then have "rows_evolve db (call_registry H db c)" by (cases rule: call_rows [of db H c]) (use False in auto)
  then show ?thesis using assms(2) by (rule evolve_one_pending)
qed

interpretation pending: guarded_machine "registry_step H" superseding "\<lambda>db. registry_ok db \<and> one_pending db" for H
  by unfold_locales (auto simp: registry_step_def call_registry_ok call_one_pending)

section \<open>Properties\<close>

text \<open>C8. Whatever is called, an approval is consumed at most once, and one that was given for a single use lets
  exactly one call through, ever; only a decision for the whole run can be taken up again.\<close>

theorem approval_used_once:
  assumes "gs = grants H [] calls"
  shows "length (filter (\<lambda>(j, d, source). j = i \<and> source = from_approved) gs) \<le> 1
     \<and> ((i, allow_once, source) \<in> set gs \<longrightarrow> filter (\<lambda>(j, d, source). j = i) gs = [(i, allow_once, from_approved)])"
  unfolding assms by (rule grants_once) (simp add: registry_ok_def)

definition request_agent :: "CreateApprovalRegistryRequestInput \<Rightarrow> string option" where
  "request_agent input = (case map_option (\<lambda>kvs. stored (JObject kvs)) (ci_metadata input) of
     Some (JObject kvs) \<Rightarrow> (case map_of kvs ''agentId'' of Some (JString a) \<Rightarrow> Some a | _ \<Rightarrow> None) | _ \<Rightarrow> None)"

lemma request_agent_row: "approved_agent (new_row H i now h input) = request_agent input"
  by (simp add: approved_agent_def parseApprovalMetadata_def new_row_def request_agent_def split: option.splits)

lemma same_binding:
  fixes a b :: "ApprovalOperationBinding option"
  assumes "map_option ob_operationId a = map_option ob_operationId b"
    and "map_option ob_operationBindingHash a = map_option ob_operationBindingHash b"
    and "map_option ob_continuationSchemaVersion a = map_option ob_continuationSchemaVersion b"
  shows "a = b"
  using assms by (cases a; cases b) (auto simp: ApprovalOperationBinding.equality)

lemma granted_recorded:
  assumes "registry_ok db" and "granted H db c = Some (i, d, source)"
  obtains row where "row \<in> set db" "ar_id row = i" "is_approved (ar_status row) \<or> ar_status row = ap_consumed" "recorded row d"
    "\<And>e t. call_scope c = Some (e, t) \<Longrightarrow> usable H (Some e) t row"
  using assms
proof (cases rule: granted_cases)
  case (1 row now)
  have "recorded row d" using 1(2,4,5) assms(1)
    by (auto simp: registry_ok_def row_ok_def is_approved_def standing_decision_def split: ApprovalRegistryStatus.splits)
  then show thesis using that 1 by blast
qed (use that in blast)

text \<open>C9. Every use of an approval rests on a decision of that approval to allow it, made before its time ran out, of
  a request made before for the same run, group, tool, agent and operation and for parameters whose canonical
  text has the same digest, and it happens before its time has run out.\<close>

theorem grant_rests_on_decision:
  assumes "granted H (registry_after H calls) c = Some (i, d, source)" and "call_scope c = Some (expected, now)"
  shows "\<exists>before clock uuid input between who src t later.
     calls = before @ CreateRequest clock uuid input # between @ Resolve i d who src t # later \<and> d \<noteq> deny
     \<and> request_id uuid input = i \<and> ci_runId input = sc_runId expected \<and> ci_toolName input = sc_toolName expected
     \<and> ci_requestGroupId input = sc_requestGroupId expected \<and> request_agent input = expected_agent expected
     \<and> ci_operationBinding input = sc_operationBinding expected
     \<and> (\<exists>x y. stableStringify H (coalesce (ci_authorizationParams input) (ci_params input)) = Some x
          \<and> stableStringify H (coalesce (sc_authorizationParams expected) (sc_params expected)) = Some y \<and> sha256 H x = sha256 H y)
     \<and> (case ci_expiresAt input of None \<Rightarrow> True | Some e \<Rightarrow> t < e \<and> now < e)"
proof -
  obtain row where row: "row \<in> set (registry_after H calls)" "ar_id row = i"
    "is_approved (ar_status row) \<or> ar_status row = ap_consumed" "recorded row d" "usable H (Some expected) now row"
    using granted_recorded [OF registry_after_ok assms(1)] assms(2) by metis
  from row_has_origin [OF row(1)] row(3) obtain before clock uuid input later h where
    o: "calls = before @ CreateRequest clock uuid input # later" "asked H input = Inr h"
      "same_request (new_row H (request_id uuid input) (request_time clock input) h input) row" "decided_in later row"
    unfolding row_origin_def by blast
  from o(4) obtain between d' who src t later' where
    d: "later = between @ Resolve (ar_id row) d' who src t # later'" "recorded row d'" "d' \<noteq> deny" "\<not> expired_at row t"
    unfolding decided_in_def by blast
  have "d' = d" using d(2) row(4) by (rule recorded_unique)
  have m: "approvalScopeMatches H row expected = Inr True" "\<not> expired_at row now" using row(5) by (simp_all add: usable_def)
  have same: "ar_id row = request_id uuid input" "ar_run_id row = ci_runId input" "ar_tool_name row = ci_toolName input"
    "ar_request_group_id row = ci_requestGroupId input" "ar_params_hash row = h" "ar_expires_at row = ci_expiresAt input"
    "ar_operation_id row = map_option ob_operationId (ci_operationBinding input)"
    "ar_operation_binding_hash row = map_option ob_operationBindingHash (ci_operationBinding input)"
    "ar_continuation_schema_version row = map_option ob_continuationSchemaVersion (ci_operationBinding input)"
    "approved_agent row = request_agent input"
    using o(3) by (simp_all add: same_request_def request_agent_row) (simp_all add: new_row_def)
  note match = m(1) [unfolded scope_matches_iff]
  have "ci_operationBinding input = sc_operationBinding expected"
    using match same(7-9) by (intro same_binding) auto
  moreover have "\<exists>x y. stableStringify H (coalesce (ci_authorizationParams input) (ci_params input)) = Some x
      \<and> stableStringify H (coalesce (sc_authorizationParams expected) (sc_params expected)) = Some y \<and> sha256 H x = sha256 H y"
    using match o(2) same(5) by (auto simp: asked_def scope_hash_def hashApprovalParams_def split: option.splits)
  moreover have "case ci_expiresAt input of None \<Rightarrow> True | Some e \<Rightarrow> t < e \<and> now < e"
    using m(2) d(4) same(6) by (auto simp: expired_at_def split: option.splits)
  moreover have "calls = before @ CreateRequest clock uuid input # between @ Resolve i d who src t # later'"
    using o(1) d(1) row(2) \<open>d' = d\<close> by simp
  moreover have "d \<noteq> deny" "request_id uuid input = i" "ci_runId input = sc_runId expected" "ci_toolName input = sc_toolName expected"
    "ci_requestGroupId input = sc_requestGroupId expected" "request_agent input = expected_agent expected"
    using match same d(3) \<open>d' = d\<close> row(2) by simp_all
  ultimately show ?thesis by blast
qed

text \<open>C30. The registry refines the life of an approval: whatever is called, a row of the table keeps its request and
  moves along the life of an approval, in at most two steps, and never once it is closed.\<close>

theorem approval_life_refined:
  assumes "r \<in> set (registry_after H calls)"
  shows "\<exists>r' evs. r' \<in> set (registry_after H (calls @ later_calls)) \<and> same_request r r'
     \<and> run_steps approval_step (ar_status r) evs = Some (ar_status r') \<and> length evs \<le> approval_rank (ar_status r)
     \<and> (approval_closed (ar_status r) \<longrightarrow> ar_status r' = ar_status r)"
proof -
  obtain r' evs where r': "r' \<in> set (foldl (call_registry H) (registry_after H calls) later_calls)" "same_request r r'"
    and run: "run_steps approval_step (ar_status r) evs = Some (ar_status r')"
    using run_successor [OF registry_after_ok assms] by blast
  have "length evs \<le> approval_rank (ar_status r)" using run by (rule approval_life.run_length_bound)
  moreover have "approval_closed (ar_status r) \<longrightarrow> ar_status r' = ar_status r"
    using approval_life.terminal_run [OF _ run] by blast
  ultimately show ?thesis using r' run unfolding registry_after_append by blast
qed

text \<open>A grant can be acquired exactly if some row of the table matches the scope, is not expired and either stands
  approved or was consumed under a decision for the whole run.\<close>

theorem acquire_exact:
  assumes "db = registry_after H calls" and "scope_hash H expected = Inr h"
  shows "(\<exists>d i source row. fst (acquireApprovalRegistryGrant H expected now db) = Inr (Acquired d i source row))
     \<longleftrightarrow> (\<exists>row \<in> set db. approvalScopeMatches H row expected = Inr True \<and> \<not> expired_at row now
           \<and> (is_approved (ar_status row) \<or> ar_status row = ap_consumed \<and> decided_for_run row))"
proof -
  let ?c = "candidate_rows (sc_requestGroupId expected) (sc_toolName expected) h db"
  have u: "unique_ids db" using registry_after_ok [of H calls] assms(1) by (simp add: registry_ok_def)
  have "(\<exists>d i source row. fst (acquireApprovalRegistryGrant H expected now db) = Inr (Acquired d i source row))
      \<longleftrightarrow> (\<exists>row. List.find (grantable H expected now) ?c = Some row)"
    unfolding acquire_eq [OF u assms(2)] by (auto simp: acquire_row_def split: option.splits)
  also have "\<dots> \<longleftrightarrow> (\<exists>row \<in> set ?c. grantable H expected now row)"
    by (metis find_NoneD find_SomeD not_None_eq)
  also have "\<dots> \<longleftrightarrow> (\<exists>row \<in> set db. grantable H expected now row)"
    using assms(2) by (auto simp: candidate_rows_def grantable_def usable_def scope_matches_iff)
  finally show ?thesis by (auto simp: grantable_def usable_def)
qed

text \<open>While every request supersedes the pending ones, a run has at most one pending request for a tool.\<close>

theorem one_pending_request:
  assumes "\<forall>c \<in> set calls. superseding c" and "r \<in> set (registry_after H calls)" "r' \<in> set (registry_after H calls)"
    and "ar_status r = ap_requested" "ar_status r' = ap_requested" "ar_run_id r = ar_run_id r'" "ar_tool_name r = ar_tool_name r'"
  shows "r = r'"
proof -
  have "registry_ok (registry_after H calls) \<and> one_pending (registry_after H calls)"
    by (rule pending.admitted_run_inv [OF _ assms(1)])
      (simp_all add: run_registry registry_after_def registry_ok_def one_pending_def)
  then show ?thesis using assms(2-) unfolding one_pending_def by blast
qed

section \<open>Examples\<close>

definition mail_request :: CreateApprovalRegistryRequestInput where
  "mail_request = \<lparr>ci_id = Some ''a1'', ci_runId = ''run'', ci_requestGroupId = Some ''group'', ci_channel = ''webui'',
     ci_toolName = ''mail'', ci_riskLevel = ''moderate'', ci_kind = kind_approval, ci_params = JObject [(''to'', JString ''x'')],
     ci_authorizationParams = JUndefined, ci_expiresAt = Some 100, ci_channelMessageId = None,
     ci_metadata = Some [(''agentId'', JString ''agent''), (''auditId'', JUndefined)], ci_operationBinding = None,
     ci_now = None, ci_supersedePending = None\<rparr>"

definition mail_scope :: ApprovalConsumptionScope where
  "mail_scope = \<lparr>sc_runId = ''run'', sc_requestGroupId = Some ''group'', sc_toolName = ''mail'',
     sc_params = JObject [(''cc'', JUndefined), (''to'', JString ''x'')], sc_authorizationParams = JNull,
     sc_agentId = Some '' agent '', sc_operationBinding = None\<rparr>"

definition mail_calls :: "ApprovalDecision \<Rightarrow> registry_call list" where
  "mail_calls d = [CreateRequest 1 ''u'' mail_request, Resolve ''a1'' d (Some ''user'') ''web'' 2]"

lemma mail_granted:
  "granted plain_host (registry_after plain_host (mail_calls allow_once)) (Acquire mail_scope 50) = Some (''a1'', allow_once, from_approved)"
  by code_simp

lemma mail_grants:
  "grants plain_host [] (mail_calls allow_once @ [Acquire mail_scope 50, Consume ''a1'' 51 None, Acquire mail_scope 52])
     = [(''a1'', allow_once, from_approved)]"
  by code_simp

theorem approval_used_once_witness:
  "\<exists>gs. gs = grants plain_host [] (mail_calls allow_once @ [Acquire mail_scope 50, Consume ''a1'' 51 None, Acquire mail_scope 52])
     \<and> filter (\<lambda>(j, d, source). j = ''a1'') gs = [(''a1'', allow_once, from_approved)]"
  using approval_used_once [OF refl, of "''a1''" plain_host "mail_calls allow_once @ [Acquire mail_scope 50, Consume ''a1'' 51 None, Acquire mail_scope 52]" from_approved]
  by (simp add: mail_grants)

theorem grant_rests_on_decision_witness:
  "\<exists>before clock uuid input between who src t rest.
     mail_calls allow_once = before @ CreateRequest clock uuid input # between @ Resolve ''a1'' allow_once who src t # rest
     \<and> ci_runId input = sc_runId mail_scope \<and> (case ci_expiresAt input of None \<Rightarrow> True | Some e \<Rightarrow> t < e \<and> 50 < e)"
proof -
  have "call_scope (Acquire mail_scope 50) = Some (mail_scope, 50)" by simp
  from grant_rests_on_decision [OF mail_granted this] show ?thesis by blast
qed

lemma mail_row: "\<exists>r \<in> set (registry_after plain_host (mail_calls d)). ar_status r = decided_status d"
  by (cases d; simp; code_simp)

theorem approval_life_refined_witness:
  "\<exists>r' evs. r' \<in> set (registry_after plain_host (mail_calls allow_once @ [Expire ''a1'' 60, Consume ''a1'' 200 None]))
     \<and> run_steps approval_step ap_approved_once evs = Some (ar_status r') \<and> length evs \<le> 1"
proof -
  obtain r where r: "r \<in> set (registry_after plain_host (mail_calls allow_once))" "ar_status r = ap_approved_once"
    using mail_row [of allow_once] by auto
  from approval_life_refined [OF r(1), of "[Expire ''a1'' 60, Consume ''a1'' 200 None]"] r(2) show ?thesis by auto
qed

lemma mail_hash: "\<exists>h. scope_hash plain_host mail_scope = Inr h"
  by (simp add: scope_hash_def hashApprovalParams_def stableStringify_def coalesce_def mail_scope_def)

theorem acquire_exact_witness:
  "\<exists>row \<in> set (registry_after plain_host (mail_calls allow_once)).
     approvalScopeMatches plain_host row mail_scope = Inr True \<and> \<not> expired_at row 50"
proof -
  obtain h where h: "scope_hash plain_host mail_scope = Inr h" using mail_hash by blast
  have "\<exists>d i source row. fst (acquireApprovalRegistryGrant plain_host mail_scope 50 (registry_after plain_host (mail_calls allow_once)))
      = Inr (Acquired d i source row)"
    using mail_granted by (auto split: sum.splits ApprovalRegistryGrantAcquisition.splits)
  then show ?thesis using acquire_exact [OF refl h, where calls = "mail_calls allow_once" and now = 50] by blast
qed

definition second_request :: CreateApprovalRegistryRequestInput where
  "second_request = mail_request\<lparr>ci_id := Some ''a2''\<rparr>"

definition two_requests :: "registry_call list" where
  "two_requests = [CreateRequest 1 ''u'' mail_request, CreateRequest 3 ''v'' second_request]"

lemma two_requests_ids: "map ar_id (registry_after plain_host two_requests) = [''a1'', ''a2'']"
  by code_simp

theorem one_pending_request_witness:
  "\<exists>r \<in> set (registry_after plain_host two_requests). \<exists>r' \<in> set (registry_after plain_host two_requests).
     ar_id r \<noteq> ar_id r' \<and> (ar_status r \<noteq> ap_requested \<or> ar_status r' \<noteq> ap_requested \<or> ar_run_id r \<noteq> ar_run_id r' \<or> ar_tool_name r \<noteq> ar_tool_name r')"
proof -
  let ?db = "registry_after plain_host two_requests"
  have s: "\<forall>c \<in> set two_requests. superseding c" by (simp add: two_requests_def mail_request_def second_request_def)
  obtain r where r: "r \<in> set ?db" "ar_id r = ''a1''" using two_requests_ids by (metis list.set_intros(1) in_set_conv_nth nth_map length_map nth_mem)
  obtain r' where r': "r' \<in> set ?db" "ar_id r' = ''a2''"
    using two_requests_ids by (metis list.set_intros in_set_conv_nth nth_map length_map nth_mem)
  show ?thesis using one_pending_request [OF s r(1) r'(1)] r r' by (intro bexI [OF _ r(1)] bexI [OF _ r'(1)]) auto
qed

end
