(* ===== verification/Recovery_Strategy.thy ===== *)
theory Recovery_Strategy
  imports Canonical_Json
begin

text \<open>
  What happens after a failure: \<open>runs/execution-policy.ts\<close> and \<open>runs/terminal-failure-guard.ts\<close> decide
  whether a reason may end the work, \<open>runs/recovery-strategy-ledger.ts\<close> remembers the strategies that
  were tried, \<open>runs/recovery-controller.ts\<close> picks the next alternative. A strategy is identified by the
  JSON text of an object. The snapshot of the execution policy
  is a constant of the program and is left out.
\<close>

section \<open>Reasons\<close>

datatype TerminalFailureReason =
    no_safe_alternative | privacy_or_permission_boundary | permission_required | out_of_scope
  | external_system_unavailable_without_alternative | cancelled_by_user | explicit_user_limit_reached
  | manual_approval_required

datatype NonTerminalRecoveryReason =
    model_timeout | boundary_timeout | tool_failed | path_not_found | target_busy | rate_limited | queue_backpressure
  | count_signal_observed | same_strategy_rejected | strategy_change_required | missing_input | verification_failed

definition TERMINAL_FAILURE_REASONS :: "TerminalFailureReason list" where
  "TERMINAL_FAILURE_REASONS = [no_safe_alternative, privacy_or_permission_boundary, permission_required, out_of_scope,
     external_system_unavailable_without_alternative, cancelled_by_user, explicit_user_limit_reached, manual_approval_required]"

definition NON_TERMINAL_RECOVERY_REASONS :: "NonTerminalRecoveryReason list" where
  "NON_TERMINAL_RECOVERY_REASONS = [model_timeout, boundary_timeout, tool_failed, path_not_found, target_busy, rate_limited,
     queue_backpressure, count_signal_observed, same_strategy_rejected, strategy_change_required, missing_input,
     verification_failed]"

fun terminal_text :: "TerminalFailureReason \<Rightarrow> string" where
  "terminal_text no_safe_alternative = ''no_safe_alternative''"
| "terminal_text privacy_or_permission_boundary = ''privacy_or_permission_boundary''"
| "terminal_text permission_required = ''permission_required''"
| "terminal_text out_of_scope = ''out_of_scope''"
| "terminal_text external_system_unavailable_without_alternative = ''external_system_unavailable_without_alternative''"
| "terminal_text cancelled_by_user = ''cancelled_by_user''"
| "terminal_text explicit_user_limit_reached = ''explicit_user_limit_reached''"
| "terminal_text manual_approval_required = ''manual_approval_required''"

fun recovery_text :: "NonTerminalRecoveryReason \<Rightarrow> string" where
  "recovery_text model_timeout = ''model_timeout''"
| "recovery_text boundary_timeout = ''boundary_timeout''"
| "recovery_text tool_failed = ''tool_failed''"
| "recovery_text path_not_found = ''path_not_found''"
| "recovery_text target_busy = ''target_busy''"
| "recovery_text rate_limited = ''rate_limited''"
| "recovery_text queue_backpressure = ''queue_backpressure''"
| "recovery_text count_signal_observed = ''count_signal_observed''"
| "recovery_text same_strategy_rejected = ''same_strategy_rejected''"
| "recovery_text strategy_change_required = ''strategy_change_required''"
| "recovery_text missing_input = ''missing_input''"
| "recovery_text verification_failed = ''verification_failed''"

definition COUNT_BASED_FAILURE_SIGNAL_REASONS :: "string list" where
  "COUNT_BASED_FAILURE_SIGNAL_REASONS = [''retry_exhausted'', ''max_attempts_reached'', ''retry_budget_exhausted'',
     ''delegation_turns_exhausted'', ''too_many_failures'']"

definition boundaryTimeoutReasonSet :: "string list" where
  "boundaryTimeoutReasonSet = [''boundary_timeout'', ''queue_timeout'', ''external_tool_timeout'', ''approval_timeout'',
     ''network_timeout'']"

definition isTerminalFailureReason :: "string \<Rightarrow> TerminalFailureReason option" where
  "isTerminalFailureReason reason = List.find (\<lambda>r. terminal_text r = reason) TERMINAL_FAILURE_REASONS"

definition isCountBasedFailureSignalReason :: "string \<Rightarrow> bool" where
  "isCountBasedFailureSignalReason reason \<longleftrightarrow> reason \<in> set COUNT_BASED_FAILURE_SIGNAL_REASONS"

datatype FailureReasonNormalizationResult =
    Terminal TerminalFailureReason
  | RecoverySignal NonTerminalRecoveryReason string

definition normalizeFailureReason :: "string \<Rightarrow> bool \<Rightarrow> FailureReasonNormalizationResult" where
  "normalizeFailureReason raw explicitUserLimit =
     (let reason = js_trim raw
      in if isCountBasedFailureSignalReason reason then
           if explicitUserLimit then Terminal explicit_user_limit_reached else RecoverySignal count_signal_observed reason
         else if reason \<in> set boundaryTimeoutReasonSet then RecoverySignal boundary_timeout reason
         else case List.find (\<lambda>r. recovery_text r = reason) NON_TERMINAL_RECOVERY_REASONS of
             Some r \<Rightarrow> RecoverySignal r reason
           | None \<Rightarrow>
               if reason = ''cancelled'' \<or> reason = ''user_cancelled'' then Terminal cancelled_by_user
               else case isTerminalFailureReason reason of
                   Some t \<Rightarrow> Terminal t
                 | None \<Rightarrow> RecoverySignal strategy_change_required (if reason \<noteq> [] then reason else ''unknown''))"

text \<open>The decision of the guard: the terminal reason, or the recovery signal that takes its place.\<close>

definition guardTerminalFailure :: "string \<Rightarrow> bool \<Rightarrow> (NonTerminalRecoveryReason \<times> string) + TerminalFailureReason" where
  "guardTerminalFailure reason explicitUserLimit =
     (case normalizeFailureReason reason explicitUserLimit of Terminal t \<Rightarrow> Inr t | RecoverySignal r original \<Rightarrow> Inl (r, original))"

definition assertTerminalFailureAllowed :: "string \<Rightarrow> bool \<Rightarrow> string + TerminalFailureReason" where
  "assertTerminalFailureAllowed reason explicitUserLimit =
     (case guardTerminalFailure reason explicitUserLimit of
        Inr t \<Rightarrow> Inr t
      | Inl (r, original) \<Rightarrow> Inl (''terminal failure rejected: '' @ original @ '' -> '' @ recovery_text r))"

section \<open>The ledger of strategies\<close>

record RecoveryStrategyKey =
  rk_targetRoute :: string
  rk_targetAgentId :: "string option"
  rk_executorId :: "string option"
  rk_toolIds :: "string list"
  rk_sourceIds :: "string list option"
  rk_inputShapeHash :: string
  rk_promptContextHash :: "string option"
  rk_normalizedTaskHash :: string
  rk_decompositionHash :: "string option"
  rk_workingDirectory :: "string option"
  rk_fileTargets :: "string list"
  rk_permissionProfile :: string
  rk_userConfirmationState :: "string option"
  rk_executionOrderHash :: string
  rk_verificationMethod :: string

record RecoveryStrategyAttempt =
  sa_attemptId :: "string option"
  sa_scopeId :: string
  sa_key :: RecoveryStrategyKey
  sa_reason :: string
  sa_accepted :: "bool option"
  sa_createdAt :: int

type_synonym RecoveryStrategyLedger = "RecoveryStrategyAttempt list"

definition createRecoveryStrategyLedger :: "RecoveryStrategyAttempt list \<Rightarrow> RecoveryStrategyLedger" where
  "createRecoveryStrategyLedger attempts = attempts"

definition strategy_executor :: "RecoveryStrategyKey \<Rightarrow> string" where
  "strategy_executor key = nullish (rk_executorId key) (nullish (rk_targetAgentId key) (rk_targetRoute key))"

definition strategy_object :: "RecoveryStrategyKey \<Rightarrow> json" where
  "strategy_object key = JObject
     [(''executor'', JString (strategy_executor key)),
      (''targetRoute'', JString (rk_targetRoute key)),
      (''targetAgentId'', JString (nullish (rk_targetAgentId key) [])),
      (''toolOrSourceIds'', JArray (map JString (sort (rk_toolIds key @ nullish (rk_sourceIds key) [])))),
      (''promptContextHash'', JString (nullish (rk_promptContextHash key) (rk_inputShapeHash key))),
      (''decompositionHash'', JString (nullish (rk_decompositionHash key) (rk_normalizedTaskHash key))),
      (''workingDirectory'', JString (nullish (rk_workingDirectory key) [])),
      (''fileTargets'', JArray (map JString (sort (rk_fileTargets key)))),
      (''permissionOrUserConfirmation'', JString (rk_permissionProfile key @ '':'' @ nullish (rk_userConfirmationState key) [])),
      (''executionOrderHash'', JString (rk_executionOrderHash key)),
      (''verificationMethod'', JString (rk_verificationMethod key))]"

definition recoveryStrategyFingerprint :: "RecoveryStrategyKey \<Rightarrow> string" where
  "recoveryStrategyFingerprint key = undefined_as '''' (stringify (strategy_object key))"

definition hasRecoveryStrategyAttempt :: "RecoveryStrategyLedger \<Rightarrow> string \<Rightarrow> RecoveryStrategyKey \<Rightarrow> bool" where
  "hasRecoveryStrategyAttempt ledger scopeId key =
     (let fp = recoveryStrategyFingerprint key
      in list_ex (\<lambda>attempt. sa_scopeId attempt = scopeId \<and> recoveryStrategyFingerprint (sa_key attempt) = fp) ledger)"

text \<open>The first component is \<open>accepted\<close>; a refusal has the reason \<open>same_strategy_rejected\<close>.\<close>

definition recordRecoveryStrategyAttempt ::
  "RecoveryStrategyLedger \<Rightarrow> string \<Rightarrow> RecoveryStrategyKey \<Rightarrow> string \<Rightarrow> int \<Rightarrow> bool \<times> RecoveryStrategyLedger" where
  "recordRecoveryStrategyAttempt ledger scopeId key reason now =
     (if hasRecoveryStrategyAttempt ledger scopeId key then (False, ledger)
      else (True, ledger @ [\<lparr>sa_attemptId = None, sa_scopeId = scopeId, sa_key = key, sa_reason = reason,
        sa_accepted = None, sa_createdAt = now\<rparr>]))"

section \<open>The controller\<close>

datatype ChangedDimension =
    dim_target | dim_tool | dim_input_shape | dim_path | dim_permission | dim_execution_order | dim_task_split
  | dim_verification | dim_fallback_route

record RecoveryAlternative =
  ra_alternativeId :: string
  ra_title :: string
  ra_changedDimension :: ChangedDimension
  ra_description :: string

fun dimension_text :: "ChangedDimension \<Rightarrow> string" where
  "dimension_text dim_target = ''target''"
| "dimension_text dim_tool = ''tool''"
| "dimension_text dim_input_shape = ''input_shape''"
| "dimension_text dim_path = ''path''"
| "dimension_text dim_permission = ''permission''"
| "dimension_text dim_execution_order = ''execution_order''"
| "dimension_text dim_task_split = ''task_split''"
| "dimension_text dim_verification = ''verification''"
| "dimension_text dim_fallback_route = ''fallback_route''"

definition rerouted :: "RecoveryStrategyKey \<Rightarrow> ChangedDimension \<Rightarrow> string \<Rightarrow> RecoveryStrategyKey" where
  "rerouted base d tag = base\<lparr>
     rk_targetRoute := rk_targetRoute base @ '':'' @ dimension_text d @ '':'' @ tag,
     rk_executorId := Some (strategy_executor base @ '':'' @ tag)\<rparr>"

fun strategy_key :: "RecoveryStrategyKey \<Rightarrow> ChangedDimension \<Rightarrow> string \<Rightarrow> RecoveryStrategyKey" where
  "strategy_key base dim_target tag = rerouted base dim_target tag"
| "strategy_key base dim_fallback_route tag = rerouted base dim_fallback_route tag"
| "strategy_key base dim_path tag = rerouted base dim_path tag"
| "strategy_key base dim_tool tag = base\<lparr>
     rk_toolIds := rk_toolIds base @ [tag],
     rk_sourceIds := Some (nullish (rk_sourceIds base) [] @ [tag])\<rparr>"
| "strategy_key base dim_input_shape tag = base\<lparr>
     rk_inputShapeHash := rk_inputShapeHash base @ '':'' @ tag,
     rk_promptContextHash := Some (nullish (rk_promptContextHash base) (rk_inputShapeHash base) @ '':'' @ tag)\<rparr>"
| "strategy_key base dim_permission tag = base\<lparr>
     rk_permissionProfile := rk_permissionProfile base @ '':'' @ tag,
     rk_userConfirmationState := Some (nullish (rk_userConfirmationState base) ''none'' @ '':'' @ tag)\<rparr>"
| "strategy_key base dim_execution_order tag = base\<lparr>
     rk_executionOrderHash := rk_executionOrderHash base @ '':'' @ tag\<rparr>"
| "strategy_key base dim_task_split tag = base\<lparr>
     rk_normalizedTaskHash := rk_normalizedTaskHash base @ '':'' @ tag,
     rk_decompositionHash := Some (nullish (rk_decompositionHash base) (rk_normalizedTaskHash base) @ '':'' @ tag)\<rparr>"
| "strategy_key base dim_verification tag = base\<lparr>
     rk_verificationMethod := rk_verificationMethod base @ '':'' @ tag\<rparr>"

definition strategyKeyForAlternative :: "RecoveryStrategyKey \<Rightarrow> RecoveryAlternative \<Rightarrow> RecoveryStrategyKey" where
  "strategyKeyForAlternative base alternative =
     strategy_key base (ra_changedDimension alternative) (ra_alternativeId alternative)"

datatype RecoveryControllerDecision =
    Cancelled
  | WaitingForUser TerminalFailureReason
  | StrategySelected NonTerminalRecoveryReason RecoveryAlternative RecoveryStrategyKey
  | NoSafeAlternative TerminalFailureReason "NonTerminalRecoveryReason option"

text \<open>The input of \<open>chooseRecoveryAlternative\<close> without the ledger.\<close>

record RecoveryRequest =
  rq_safeAlternatives :: "RecoveryAlternative list"
  rq_scopeId :: string
  rq_failureReason :: string
  rq_baseStrategyKey :: RecoveryStrategyKey
  rq_explicitUserLimit :: bool
  rq_cancelled :: bool
  rq_now :: int

primrec choose_loop ::
  "RecoveryRequest \<Rightarrow> NonTerminalRecoveryReason \<Rightarrow> RecoveryAlternative list \<Rightarrow> RecoveryStrategyLedger
     \<Rightarrow> RecoveryControllerDecision \<times> RecoveryStrategyLedger" where
  "choose_loop rq reason [] ledger = (NoSafeAlternative no_safe_alternative (Some reason), ledger)"
| "choose_loop rq reason (alternative # alternatives) ledger =
     (let key = strategyKeyForAlternative (rq_baseStrategyKey rq) alternative;
          (accepted, ledger) = recordRecoveryStrategyAttempt ledger (rq_scopeId rq) key (recovery_text reason) (rq_now rq)
      in if accepted then (StrategySelected reason alternative key, ledger)
         else choose_loop rq reason alternatives ledger)"

definition chooseRecoveryAlternative ::
  "RecoveryRequest \<Rightarrow> RecoveryStrategyLedger \<Rightarrow> RecoveryControllerDecision \<times> RecoveryStrategyLedger" where
  "chooseRecoveryAlternative rq ledger =
     (if rq_cancelled rq then (Cancelled, ledger)
      else case normalizeFailureReason (rq_failureReason rq) (rq_explicitUserLimit rq) of
        Terminal t \<Rightarrow>
          if t = privacy_or_permission_boundary \<or> t = permission_required \<or> t = manual_approval_required
          then (WaitingForUser t, ledger)
          else (NoSafeAlternative
                 (if t = out_of_scope \<or> t = external_system_unavailable_without_alternative \<or> t = no_safe_alternative
                  then t else no_safe_alternative) None, ledger)
      | RecoverySignal reason original \<Rightarrow> choose_loop rq reason (rq_safeAlternatives rq) ledger)"

section \<open>Which reasons end the work\<close>

lemma terminal_text_inj: "terminal_text a = terminal_text b \<longleftrightarrow> a = b"
  by (cases a; cases b) simp_all

lemma isTerminal_iff: "isTerminalFailureReason reason = Some t \<longleftrightarrow> reason = terminal_text t"
proof
  assume "reason = terminal_text t"
  then show "isTerminalFailureReason reason = Some t"
    by (cases t) (simp_all add: isTerminalFailureReason_def TERMINAL_FAILURE_REASONS_def)
qed (auto simp: isTerminalFailureReason_def dest: find_SomeD)

text \<open>No terminal text is a count signal, a timeout or a recovery reason.\<close>

lemma terminal_text_not_count: "\<not> isCountBasedFailureSignalReason (terminal_text t)"
  by (cases t) (simp_all add: isCountBasedFailureSignalReason_def COUNT_BASED_FAILURE_SIGNAL_REASONS_def)

lemma terminal_text_not_timeout: "terminal_text t \<notin> set boundaryTimeoutReasonSet"
  by (cases t) (simp_all add: boundaryTimeoutReasonSet_def)

lemma terminal_text_not_recovery: "recovery_text r \<noteq> terminal_text t"
  by (cases t; cases r) simp_all

lemma terminal_text_not_cancelled: "terminal_text t \<noteq> ''cancelled'' \<and> terminal_text t \<noteq> ''user_cancelled''"
  by (cases t) simp_all

lemma cancelled_not_signal:
  assumes "x = ''cancelled'' \<or> x = ''user_cancelled''"
  shows "\<not> isCountBasedFailureSignalReason x" "x \<notin> set boundaryTimeoutReasonSet" "recovery_text r \<noteq> x"
proof -
  show "\<not> isCountBasedFailureSignalReason x" "x \<notin> set boundaryTimeoutReasonSet"
    using assms
    by (auto simp: isCountBasedFailureSignalReason_def COUNT_BASED_FAILURE_SIGNAL_REASONS_def boundaryTimeoutReasonSet_def)
  show "recovery_text r \<noteq> x"
    using assms by (cases r) auto
qed

lemma recovery_text_not_terminal: "List.find (\<lambda>r. recovery_text r = terminal_text t) NON_TERMINAL_RECOVERY_REASONS = None"
  by (simp add: find_None_iff terminal_text_not_recovery)

section \<open>Strategies and their texts\<close>

lemma normal_strategy: "normal (strategy_object key)"
  by (auto simp: strategy_object_def list_all_iff map_eq_Cons_conv)

lemma strategy_text: "recoveryStrategyFingerprint key = flat (strategy_object key)"
  by (simp add: recoveryStrategyFingerprint_def strategy_object_def comp_def)

text \<open>Equal texts mean equal objects: the encoding is uniquely decodable.\<close>

lemma fingerprint_eq_iff: "recoveryStrategyFingerprint k = recoveryStrategyFingerprint k' \<longleftrightarrow> strategy_object k = strategy_object k'"
  using flat_unique [OF normal_strategy [of k] normal_strategy [of k'], of "[]" "[]"]
  by (auto simp: strategy_text delimited_def)

lemma map_JString_inj: "map JString xs = map JString ys \<longleftrightarrow> xs = ys"
  by (rule inj_map_eq_map) (auto intro: injI)

lemma strategy_object_eq_iff: "strategy_object k = strategy_object k' \<longleftrightarrow>
     strategy_executor k = strategy_executor k' \<and> rk_targetRoute k = rk_targetRoute k'
     \<and> nullish (rk_targetAgentId k) [] = nullish (rk_targetAgentId k') []
     \<and> sort (rk_toolIds k @ nullish (rk_sourceIds k) []) = sort (rk_toolIds k' @ nullish (rk_sourceIds k') [])
     \<and> nullish (rk_promptContextHash k) (rk_inputShapeHash k) = nullish (rk_promptContextHash k') (rk_inputShapeHash k')
     \<and> nullish (rk_decompositionHash k) (rk_normalizedTaskHash k) = nullish (rk_decompositionHash k') (rk_normalizedTaskHash k')
     \<and> nullish (rk_workingDirectory k) [] = nullish (rk_workingDirectory k') []
     \<and> sort (rk_fileTargets k) = sort (rk_fileTargets k')
     \<and> rk_permissionProfile k @ '':'' @ nullish (rk_userConfirmationState k) []
        = rk_permissionProfile k' @ '':'' @ nullish (rk_userConfirmationState k') []
     \<and> rk_executionOrderHash k = rk_executionOrderHash k' \<and> rk_verificationMethod k = rk_verificationMethod k'"
  by (simp add: strategy_object_def map_JString_inj)

lemma sort_eq_mset: "sort xs = sort ys \<longleftrightarrow> mset xs = mset ys" for xs ys :: "string list"
  by (metis mset_sort properties_for_sort sorted_sort)

lemma executor_rerouted [simp]: "strategy_executor (rerouted base d tag) = strategy_executor base @ '':'' @ tag"
  by (simp add: strategy_executor_def rerouted_def)

lemma mset_twice: "{#a, a#} = {#b, b#} \<longleftrightarrow> a = b"
  by (metis add_mset_eq_singleton_iff insert_DiffM insert_noteq_member set_mset_add_mset_insert
        set_mset_single singletonI insert_iff add_mset_add_single set_mset_empty empty_iff)

lemma text_twice:
  assumes "a @ m @ a = b @ m @ b"
  shows "a = b"
proof -
  have "length (a @ m @ a) = length (b @ m @ b)"
    using assms by (rule arg_cong)
  then have "length a = length b"
    by simp
  then show ?thesis
    using assms by simp
qed

text \<open>An alternative is identified by its dimension and its id: no two of them make the same strategy.\<close>

lemma alternative_text_eq:
  "strategy_object (strategy_key base d t) = strategy_object (strategy_key base d' t') \<longleftrightarrow> d = d' \<and> t = t'"
proof
  assume e: "strategy_object (strategy_key base d t) = strategy_object (strategy_key base d' t')"
  note parts = e [unfolded strategy_object_eq_iff sort_eq_mset]
  show "d = d' \<and> t = t'"
  proof (cases "d = dim_permission \<and> d' = dim_permission")
    case True
    then show ?thesis
      using parts text_twice [of t "'':'' @ nullish (rk_userConfirmationState base) ''none'' @ '':''" t']
      by simp
  next
    case False
    then show ?thesis
      using parts by (cases d; cases d'; simp add: rerouted_def strategy_executor_def mset_twice)
  qed
qed simp

section \<open>What a failure leads to\<close>

lemma normalize_terminal_iff: "normalizeFailureReason reason limit = Terminal t \<longleftrightarrow>
     js_trim reason = terminal_text t
     \<or> (js_trim reason = ''cancelled'' \<or> js_trim reason = ''user_cancelled'') \<and> t = cancelled_by_user
     \<or> isCountBasedFailureSignalReason (js_trim reason) \<and> limit \<and> t = explicit_user_limit_reached"
  (is "_ \<longleftrightarrow> ?named \<or> ?cancelled \<or> ?limited")
proof
  assume n: "normalizeFailureReason reason limit = Terminal t"
  consider "isCountBasedFailureSignalReason (js_trim reason)"
    | "\<not> isCountBasedFailureSignalReason (js_trim reason)" "js_trim reason \<notin> set boundaryTimeoutReasonSet"
    using n by (auto simp: normalizeFailureReason_def Let_def split: if_splits)
  then show "?named \<or> ?cancelled \<or> ?limited"
    using n by cases (auto simp: normalizeFailureReason_def Let_def isTerminal_iff split: if_splits option.splits)
next
  assume "?named \<or> ?cancelled \<or> ?limited"
  then consider ?named | ?cancelled | ?limited
    by blast
  then show "normalizeFailureReason reason limit = Terminal t"
  proof cases
    case 1
    then have "isTerminalFailureReason (js_trim reason) = Some t"
      by (simp add: isTerminal_iff)
    then show ?thesis
      using 1 by (simp add: normalizeFailureReason_def terminal_text_not_count terminal_text_not_timeout
          recovery_text_not_terminal terminal_text_not_cancelled)
  next
    case 2
    then have "List.find (\<lambda>r. recovery_text r = js_trim reason) NON_TERMINAL_RECOVERY_REASONS = None"
      using cancelled_not_signal(3) by (fastforce simp: find_None_iff)
    then show ?thesis
      using 2 cancelled_not_signal(1,2) [of "js_trim reason"] by (auto simp: normalizeFailureReason_def)
  next
    case 3
    then show ?thesis
      by (simp add: normalizeFailureReason_def)
  qed
qed

text \<open>The scope and the text of every attempt in the ledger.\<close>

definition attempted :: "RecoveryStrategyLedger \<Rightarrow> (string \<times> string) list" where
  "attempted ledger = map (\<lambda>a. (sa_scopeId a, recoveryStrategyFingerprint (sa_key a))) ledger"

text \<open>The strategies of a scope that the ledger remembers.\<close>

definition tried :: "RecoveryStrategyLedger \<Rightarrow> string \<Rightarrow> string set" where
  "tried ledger scope = {f. (scope, f) \<in> set (attempted ledger)}"

definition attempt_of :: "string \<Rightarrow> RecoveryStrategyKey \<Rightarrow> string \<Rightarrow> int \<Rightarrow> RecoveryStrategyAttempt" where
  "attempt_of scope key reason now = \<lparr>sa_attemptId = None, sa_scopeId = scope, sa_key = key, sa_reason = reason,
     sa_accepted = None, sa_createdAt = now\<rparr>"

definition offered_text :: "RecoveryStrategyKey \<Rightarrow> RecoveryAlternative \<Rightarrow> string" where
  "offered_text base a = recoveryStrategyFingerprint (strategyKeyForAlternative base a)"

lemma attempted_append [simp]: "attempted (l @ [attempt_of scope key r now]) =
    attempted l @ [(scope, recoveryStrategyFingerprint key)]"
  by (simp add: attempted_def attempt_of_def)

lemma tried_attempted: "f \<in> tried ledger scope \<longleftrightarrow> (scope, f) \<in> set (attempted ledger)"
  by (simp add: tried_def)

lemma has_attempt_iff: "hasRecoveryStrategyAttempt ledger scope key \<longleftrightarrow> recoveryStrategyFingerprint key \<in> tried ledger scope"
  by (auto simp: hasRecoveryStrategyAttempt_def tried_def attempted_def list_ex_iff Let_def image_iff)

lemma tried_append: "tried (ledger @ [attempt_of scope key r now]) scope' =
     tried ledger scope' \<union> (if scope' = scope then {recoveryStrategyFingerprint key} else {})"
  by (auto simp: tried_attempted)

text \<open>The loop takes the first alternative that was not tried.\<close>

definition first_untried :: "RecoveryRequest \<Rightarrow> RecoveryStrategyLedger \<Rightarrow> RecoveryAlternative option" where
  "first_untried rq ledger = List.find (\<lambda>a. offered_text (rq_baseStrategyKey rq) a \<notin> tried ledger (rq_scopeId rq))
     (rq_safeAlternatives rq)"

lemma choose_loop_eq: "choose_loop rq r as ledger =
     (case List.find (\<lambda>a. offered_text (rq_baseStrategyKey rq) a \<notin> tried ledger (rq_scopeId rq)) as of
        None \<Rightarrow> (NoSafeAlternative no_safe_alternative (Some r), ledger)
      | Some a \<Rightarrow> (StrategySelected r a (strategyKeyForAlternative (rq_baseStrategyKey rq) a),
          ledger @ [attempt_of (rq_scopeId rq) (strategyKeyForAlternative (rq_baseStrategyKey rq) a) (recovery_text r) (rq_now rq)]))"
  by (induction as) (simp_all add: recordRecoveryStrategyAttempt_def has_attempt_iff offered_text_def attempt_of_def Let_def)

lemma choose_signal:
  assumes "\<not> rq_cancelled rq" "normalizeFailureReason (rq_failureReason rq) (rq_explicitUserLimit rq) = RecoverySignal r x"
  shows "chooseRecoveryAlternative rq ledger =
     (case first_untried rq ledger of
        None \<Rightarrow> (NoSafeAlternative no_safe_alternative (Some r), ledger)
      | Some a \<Rightarrow> (StrategySelected r a (strategyKeyForAlternative (rq_baseStrategyKey rq) a),
          ledger @ [attempt_of (rq_scopeId rq) (strategyKeyForAlternative (rq_baseStrategyKey rq) a) (recovery_text r) (rq_now rq)]))"
  using assms by (simp add: chooseRecoveryAlternative_def choose_loop_eq first_untried_def)

lemma choose_unsignalled:
  assumes "rq_cancelled rq \<or> (\<exists>t. normalizeFailureReason (rq_failureReason rq) (rq_explicitUserLimit rq) = Terminal t)"
  shows "\<exists>d. chooseRecoveryAlternative rq ledger = (d, ledger) \<and> (\<forall>r a k. d \<noteq> StrategySelected r a k)
     \<and> (\<forall>t r. d \<noteq> NoSafeAlternative t (Some r))"
  using assms by (auto simp: chooseRecoveryAlternative_def)

lemma request_cases:
  obtains (unsignalled) "rq_cancelled rq \<or> (\<exists>t. normalizeFailureReason (rq_failureReason rq) (rq_explicitUserLimit rq) = Terminal t)"
  | (signal) r x where "\<not> rq_cancelled rq"
      "normalizeFailureReason (rq_failureReason rq) (rq_explicitUserLimit rq) = RecoverySignal r x"
  by (cases "normalizeFailureReason (rq_failureReason rq) (rq_explicitUserLimit rq)") auto

section \<open>A sequence of requests\<close>

text \<open>
  Requests made one after the other with the ledger of one answer passed to the next, as the tests of the controller
  do. The one production caller, \<open>topology/graph-execution-runner.ts\<close>, starts each request with an empty ledger
  and asks once per node, so there the memory of the ledger is not used.
\<close>

primrec choose_all ::
  "RecoveryRequest list \<Rightarrow> RecoveryStrategyLedger \<Rightarrow> RecoveryControllerDecision list \<times> RecoveryStrategyLedger" where
  "choose_all [] ledger = ([], ledger)"
| "choose_all (rq # rqs) ledger =
     (let (d, l) = chooseRecoveryAlternative rq ledger; (ds, l') = choose_all rqs l in (d # ds, l'))"

primrec selected :: "RecoveryControllerDecision \<Rightarrow> bool" where
  "selected Cancelled = False"
| "selected (WaitingForUser t) = False"
| "selected (StrategySelected r a k) = True"
| "selected (NoSafeAlternative t r) = False"

text \<open>The scopes and texts of the strategies that were selected, in order.\<close>

fun selections :: "RecoveryRequest list \<Rightarrow> RecoveryControllerDecision list \<Rightarrow> (string \<times> string) list" where
  "selections (rq # rqs) (StrategySelected r a k # ds) = (rq_scopeId rq, recoveryStrategyFingerprint k) # selections rqs ds"
| "selections (rq # rqs) (d # ds) = selections rqs ds"
| "selections _ _ = []"

lemma first_untriedD:
  assumes "first_untried rq ledger = Some a"
  shows "a \<in> set (rq_safeAlternatives rq)" "offered_text (rq_baseStrategyKey rq) a \<notin> tried ledger (rq_scopeId rq)"
  using find_SomeD [OF assms [unfolded first_untried_def]] by auto

lemma first_untried_None_iff: "first_untried rq ledger = None \<longleftrightarrow>
     (\<forall>a\<in>set (rq_safeAlternatives rq). offered_text (rq_baseStrategyKey rq) a \<in> tried ledger (rq_scopeId rq))"
  by (auto simp: first_untried_def find_None_iff)

lemma choose_cases:
  obtains (unchanged) d where "chooseRecoveryAlternative rq ledger = (d, ledger)" "\<not> selected d"
  | (chosen) r a where "first_untried rq ledger = Some a"
      "chooseRecoveryAlternative rq ledger =
        (StrategySelected r a (strategyKeyForAlternative (rq_baseStrategyKey rq) a),
         ledger @ [attempt_of (rq_scopeId rq) (strategyKeyForAlternative (rq_baseStrategyKey rq) a) (recovery_text r) (rq_now rq)])"
proof (rule request_cases [of rq])
  assume "rq_cancelled rq \<or> (\<exists>t. normalizeFailureReason (rq_failureReason rq) (rq_explicitUserLimit rq) = Terminal t)"
  from choose_unsignalled [OF this, of ledger] obtain d
    where "chooseRecoveryAlternative rq ledger = (d, ledger)" "\<forall>r a k. d \<noteq> StrategySelected r a k"
    by blast
  then show thesis
    by (cases d) (auto intro: unchanged)
next
  fix r x
  assume "\<not> rq_cancelled rq" "normalizeFailureReason (rq_failureReason rq) (rq_explicitUserLimit rq) = RecoverySignal r x"
  from choose_signal [OF this, of ledger] show thesis
    by (cases "first_untried rq ledger") (auto intro: unchanged chosen)
qed

lemma selections_unselected [simp]: "\<not> selected d \<Longrightarrow> selections (rq # rqs) (d # ds) = selections rqs ds"
  by (cases d) simp_all

lemma choose_all_attempted:
  "choose_all rqs ledger = (ds, l) \<Longrightarrow> attempted l = attempted ledger @ selections rqs ds
     \<and> distinct (selections rqs ds) \<and> set (selections rqs ds) \<inter> set (attempted ledger) = {}"
proof (induction rqs arbitrary: ledger ds)
  case (Cons rq rqs)
  show ?case
  proof (cases rule: choose_cases [of rq ledger])
    case (unchanged d)
    then obtain ds' where *: "ds = d # ds'" "choose_all rqs ledger = (ds', l)"
      using Cons.prems by (auto split: prod.splits)
    show ?thesis
      using Cons.IH [OF *(2)] unchanged(2) by (simp add: *(1))
  next
    case (chosen r a)
    obtain ds' where *: "ds = StrategySelected r a (strategyKeyForAlternative (rq_baseStrategyKey rq) a) # ds'"
      "choose_all rqs (ledger @ [attempt_of (rq_scopeId rq) (strategyKeyForAlternative (rq_baseStrategyKey rq) a)
         (recovery_text r) (rq_now rq)]) = (ds', l)"
      using Cons.prems chosen(2) by (auto split: prod.splits)
    show ?thesis
      using Cons.IH [OF *(2)] first_untriedD(2) [OF chosen(1)] by (auto simp: *(1) tried_attempted offered_text_def)
  qed
qed simp

text \<open>Requests that differ in their reason and time only, and whose reason is a recovery signal.\<close>

definition repeated_request :: "string \<Rightarrow> RecoveryStrategyKey \<Rightarrow> RecoveryAlternative list \<Rightarrow> RecoveryRequest \<Rightarrow> bool" where
  "repeated_request scope base alternatives rq \<longleftrightarrow>
     rq_scopeId rq = scope \<and> rq_baseStrategyKey rq = base \<and> rq_safeAlternatives rq = alternatives \<and> \<not> rq_cancelled rq
     \<and> (case normalizeFailureReason (rq_failureReason rq) (rq_explicitUserLimit rq) of Terminal t \<Rightarrow> False | RecoverySignal r x \<Rightarrow> True)"

primrec exhausted :: "RecoveryControllerDecision \<Rightarrow> bool" where
  "exhausted Cancelled = False"
| "exhausted (WaitingForUser t) = False"
| "exhausted (StrategySelected r a k) = False"
| "exhausted (NoSafeAlternative t r) = (t = no_safe_alternative \<and> r \<noteq> None)"

definition untried :: "RecoveryStrategyKey \<Rightarrow> RecoveryAlternative list \<Rightarrow> RecoveryStrategyLedger \<Rightarrow> string \<Rightarrow> string set" where
  "untried base alternatives ledger scope = offered_text base ` set alternatives - tried ledger scope"

lemma finite_untried [simp]: "finite (untried base alternatives ledger scope)"
  by (simp add: untried_def)

lemma offered_text_eq: "offered_text base a = offered_text base b \<longleftrightarrow>
     ra_changedDimension a = ra_changedDimension b \<and> ra_alternativeId a = ra_alternativeId b"
  by (simp add: offered_text_def strategyKeyForAlternative_def fingerprint_eq_iff alternative_text_eq)

lemma card_offered: "card (offered_text base ` set as) =
     card ((\<lambda>a. (ra_changedDimension a, ra_alternativeId a)) ` set as)"
proof -
  have "(\<lambda>(d, t). recoveryStrategyFingerprint (strategy_key base d t)) `
      (\<lambda>a. (ra_changedDimension a, ra_alternativeId a)) ` set as = offered_text base ` set as"
    by (simp add: image_image offered_text_def strategyKeyForAlternative_def)
  moreover have "inj (\<lambda>(d, t). recoveryStrategyFingerprint (strategy_key base d t))"
    by (auto simp: fingerprint_eq_iff alternative_text_eq intro!: injI)
  ultimately show ?thesis
    using card_image [OF inj_on_subset [OF _ subset_UNIV]] by metis
qed

lemma repeated_step:
  assumes "repeated_request scope base alternatives rq"
  shows "\<exists>d l. chooseRecoveryAlternative rq ledger = (d, l)
    \<and> (if untried base alternatives ledger scope = {} then exhausted d \<and> l = ledger
       else selected d \<and> Suc (card (untried base alternatives l scope)) = card (untried base alternatives ledger scope))"
proof -
  obtain r x where signal: "\<not> rq_cancelled rq"
      "normalizeFailureReason (rq_failureReason rq) (rq_explicitUserLimit rq) = RecoverySignal r x"
    and same: "rq_scopeId rq = scope" "rq_baseStrategyKey rq = base" "rq_safeAlternatives rq = alternatives"
    using assms by (auto simp: repeated_request_def split: FailureReasonNormalizationResult.splits)
  show ?thesis
  proof (cases "first_untried rq ledger")
    case None
    then have "untried base alternatives ledger scope = {}"
      by (auto simp: first_untried_None_iff untried_def same)
    then show ?thesis
      by (simp add: choose_signal [OF signal] None)
  next
    case (Some a)
    let ?f = "offered_text base a"
    let ?l = "ledger @ [attempt_of scope (strategyKeyForAlternative base a) (recovery_text r) (rq_now rq)]"
    have f: "?f \<in> untried base alternatives ledger scope"
      using first_untriedD [OF Some] by (simp add: untried_def same)
    have "untried base alternatives ?l scope = untried base alternatives ledger scope - {?f}"
      by (auto simp: untried_def tried_append offered_text_def)
    then have "Suc (card (untried base alternatives ?l scope)) = card (untried base alternatives ledger scope)"
      using f card_Suc_Diff1 [OF finite_untried f] by simp
    then show ?thesis
      using f by (auto simp: choose_signal [OF signal] Some same)
  qed
qed

lemma repeated_choices:
  assumes "\<forall>rq\<in>set rqs. repeated_request scope base alternatives rq" "i < length rqs"
  shows "(if i < card (untried base alternatives ledger scope) then selected (fst (choose_all rqs ledger) ! i)
     else exhausted (fst (choose_all rqs ledger) ! i))"
  using assms
proof (induction rqs arbitrary: ledger i)
  case (Cons rq rqs)
  obtain d l where step: "chooseRecoveryAlternative rq ledger = (d, l)"
    "if untried base alternatives ledger scope = {} then exhausted d \<and> l = ledger
     else selected d \<and> Suc (card (untried base alternatives l scope)) = card (untried base alternatives ledger scope)"
    using repeated_step [of scope base alternatives rq ledger] Cons.prems by auto
  show ?case
  proof (cases i)
    case 0
    then show ?thesis
      using step by (auto simp: card_gt_0_iff split: prod.splits if_splits)
  next
    case (Suc j)
    then show ?thesis
      using Cons.IH [of j l] Cons.prems step by (auto split: prod.splits if_splits)
  qed
qed simp

section \<open>Properties\<close>

text \<open>C33. The guard lets a reason end the work exactly if, trimmed, it is the text of that terminal
  reason, or says that the user cancelled, or is a count signal under a limit the user set. No timeout,
  no failed tool and no exhausted retry count ends the work by itself.\<close>

theorem work_ends_only_for_terminal_reason:
  "assertTerminalFailureAllowed reason limit = Inr t \<longleftrightarrow>
     js_trim reason = terminal_text t
     \<or> (js_trim reason = ''cancelled'' \<or> js_trim reason = ''user_cancelled'') \<and> t = cancelled_by_user
     \<or> isCountBasedFailureSignalReason (js_trim reason) \<and> limit \<and> t = explicit_user_limit_reached"
  by (auto simp: assertTerminalFailureAllowed_def guardTerminalFailure_def normalize_terminal_iff [symmetric]
      split: FailureReasonNormalizationResult.splits)

text \<open>C31. Whatever requests are made one after the other with the ledger passed on, no strategy is selected twice in a scope: the
  selected ones differ from each other and from all that the ledger remembered, and the ledger remembers
  exactly the old ones and the selected ones, in order.\<close>

theorem strategies_never_repeated:
  "case choose_all rqs ledger of (decisions, ledger') \<Rightarrow>
     distinct (selections rqs decisions) \<and> set (selections rqs decisions) \<inter> set (attempted ledger) = {}
     \<and> attempted ledger' = attempted ledger @ selections rqs decisions"
  using choose_all_attempted [of rqs ledger] by (auto split: prod.splits)

text \<open>C32. Recovery comes to an end: when a scope starts with nothing tried and keeps asking with the same
  base strategy and the same alternatives, as many requests get a strategy as there are alternatives with
  different dimension or id, and every later one is told that no safe alternative is left. Differently
  phrased alternatives with the same dimension and id count once, and two that differ in either are
  never confused.\<close>

theorem recovery_tries_each_once:
  assumes "\<forall>rq\<in>set rqs. repeated_request scope base alternatives rq"
    and "\<forall>a\<in>set ledger. sa_scopeId a \<noteq> scope" and "i < length rqs"
  shows "if i < card ((\<lambda>a. (ra_changedDimension a, ra_alternativeId a)) ` set alternatives)
    then selected (fst (choose_all rqs ledger) ! i) else exhausted (fst (choose_all rqs ledger) ! i)"
proof -
  have "tried ledger scope = {}"
    using assms(2) by (auto simp: tried_def attempted_def)
  then show ?thesis
    using repeated_choices [OF assms(1,3), of ledger] by (simp add: untried_def card_offered)
qed

text \<open>One request: the first alternative that was not tried in the scope is selected, none is left
  exactly if all were tried.\<close>

theorem first_untried_selected:
  "(fst (chooseRecoveryAlternative rq ledger) = StrategySelected r a k \<longleftrightarrow>
     \<not> rq_cancelled rq \<and> (\<exists>x. normalizeFailureReason (rq_failureReason rq) (rq_explicitUserLimit rq) = RecoverySignal r x)
     \<and> k = strategyKeyForAlternative (rq_baseStrategyKey rq) a
     \<and> List.find (\<lambda>b. \<not> hasRecoveryStrategyAttempt ledger (rq_scopeId rq) (strategyKeyForAlternative (rq_baseStrategyKey rq) b))
         (rq_safeAlternatives rq) = Some a)
   \<and> (fst (chooseRecoveryAlternative rq ledger) = NoSafeAlternative no_safe_alternative (Some r) \<longleftrightarrow>
     \<not> rq_cancelled rq \<and> (\<exists>x. normalizeFailureReason (rq_failureReason rq) (rq_explicitUserLimit rq) = RecoverySignal r x)
     \<and> (\<forall>b\<in>set (rq_safeAlternatives rq).
         hasRecoveryStrategyAttempt ledger (rq_scopeId rq) (strategyKeyForAlternative (rq_baseStrategyKey rq) b)))"
proof -
  have find: "List.find (\<lambda>b. \<not> hasRecoveryStrategyAttempt ledger (rq_scopeId rq) (strategyKeyForAlternative (rq_baseStrategyKey rq) b))
       (rq_safeAlternatives rq) = first_untried rq ledger"
    by (simp add: first_untried_def has_attempt_iff offered_text_def)
  have every: "(\<forall>b\<in>set (rq_safeAlternatives rq).
         hasRecoveryStrategyAttempt ledger (rq_scopeId rq) (strategyKeyForAlternative (rq_baseStrategyKey rq) b))
       \<longleftrightarrow> first_untried rq ledger = None"
    by (simp add: first_untried_None_iff has_attempt_iff offered_text_def)
  show ?thesis
  proof (cases rule: request_cases [of rq])
    case unsignalled
    then show ?thesis
      using choose_unsignalled [OF unsignalled, of ledger] by auto
  next
    case (signal r' x)
    then show ?thesis
      unfolding find every by (cases "first_untried rq ledger") (auto simp: choose_signal [OF signal])
  qed
qed

section \<open>A scope with two alternatives\<close>

definition sample_base :: RecoveryStrategyKey where
  "sample_base = \<lparr>rk_targetRoute = ''child'', rk_targetAgentId = None, rk_executorId = None, rk_toolIds = [],
     rk_sourceIds = None, rk_inputShapeHash = ''i'', rk_promptContextHash = None, rk_normalizedTaskHash = ''n'',
     rk_decompositionHash = None, rk_workingDirectory = None, rk_fileTargets = [], rk_permissionProfile = ''default'',
     rk_userConfirmationState = None, rk_executionOrderHash = ''o'', rk_verificationMethod = ''v''\<rparr>"

definition sample_alternatives :: "RecoveryAlternative list" where
  "sample_alternatives =
     [\<lparr>ra_alternativeId = ''a'', ra_title = ''A'', ra_changedDimension = dim_target, ra_description = []\<rparr>,
      \<lparr>ra_alternativeId = ''b'', ra_title = ''B'', ra_changedDimension = dim_tool, ra_description = []\<rparr>,
      \<lparr>ra_alternativeId = ''a'', ra_title = ''again'', ra_changedDimension = dim_target, ra_description = []\<rparr>]"

definition sample_request :: "string \<Rightarrow> RecoveryRequest" where
  "sample_request reason = \<lparr>rq_safeAlternatives = sample_alternatives, rq_scopeId = ''n1'', rq_failureReason = reason,
     rq_baseStrategyKey = sample_base, rq_explicitUserLimit = False, rq_cancelled = False, rq_now = 0\<rparr>"

lemma sample_repeated: "repeated_request ''n1'' sample_base sample_alternatives (sample_request ''tool_failed'')"
  "repeated_request ''n1'' sample_base sample_alternatives (sample_request ''retry_exhausted'')"
  by (code_simp, code_simp)

lemma recovery_tries_each_once_witness:
  "exhausted (fst (choose_all [sample_request ''tool_failed'', sample_request ''retry_exhausted'', sample_request ''tool_failed''] []) ! 2)"
proof -
  have "card ((\<lambda>a. (ra_changedDimension a, ra_alternativeId a)) ` set sample_alternatives) = 2"
    by (simp add: sample_alternatives_def card_insert_if)
  then show ?thesis
    using recovery_tries_each_once [of "[sample_request ''tool_failed'', sample_request ''retry_exhausted'', sample_request ''tool_failed'']"
        "''n1''" sample_base sample_alternatives "[]" 2] sample_repeated by simp
qed

end
