(* ===== verification/Work_Order.thy ===== *)
theory Work_Order
  imports Canonical_Json
begin

text \<open>
  Work orders of a compiled topology: the types of \<open>contracts/enterprise-topology.ts\<close> and
  \<open>topology/compiler.ts\<close>, and from \<open>topology-runtime/\<close> the construction of a work order, the permissions
  that remain for it at a node, the capability policy they give and the preflight of its authority rules
  (\<open>work-order.ts\<close>, \<open>permission-checker.ts\<close>, \<open>authority-checker.ts\<close>). A \<open>Record\<close> of the snapshot is a map; of
  the snapshot and of a node contract only the parts that the modelled code reads are kept. The copies that
  \<open>structuredClone\<close> and the spreads make are equal values.
\<close>

section \<open>Data\<close>

datatype WorkOrderTargetType = tt_node | tt_enterprise_tool | tt_enterprise_system | tt_position | tt_person | tt_org_unit

record WorkOrderTarget =
  tg_type :: WorkOrderTargetType
  tg_id :: string

record WorkOrderScope =
  sc_included :: "string list"
  sc_excluded :: "string list"

datatype SuccessCriterionValidationKind = vk_manual | vk_schema | vk_evidence | vk_tool | vk_policy

record WorkOrderSuccessCriterion =
  cr_criterionId :: string
  cr_description :: string
  cr_required :: bool
  cr_validationKind :: SuccessCriterionValidationKind
  cr_metadata :: "json option"

datatype ScopeRisk = risk_low | risk_medium | risk_high | risk_critical | risk_unknown

record PermissionScope =
  ps_allowedToolIds :: "string list"
  ps_allowedSystemIds :: "string list"
  ps_dataDomainIds :: "string list"
  ps_riskLevel :: "ScopeRisk option"

datatype ApproverType = approver_position | approver_person | approver_org_unit

record Approver =
  ap_entityType :: ApproverType
  ap_id :: string

record AuthorityScope =
  au_requiredAuthorityRuleIds :: "string list"
  au_approvalRequired :: bool
  au_approvedBy :: "Approver list option"

datatype EnterpriseTimestamp = At_time int | At_text string

record BuildWorkOrderInput =
  wo_workOrderId :: string
  wo_topologyRunId :: string
  wo_parentWorkOrderId :: "string option"
  wo_fromNodeId :: string
  wo_to :: WorkOrderTarget
  wo_objective :: string
  wo_scope :: WorkOrderScope
  wo_input :: json
  wo_expectedOutputSchema :: json
  wo_successCriteria :: "WorkOrderSuccessCriterion list"
  wo_permissionScope :: PermissionScope
  wo_authorityScope :: AuthorityScope
  wo_failureReportRequired :: bool
  wo_delegationPath :: "string list"
  wo_createdAt :: EnterpriseTimestamp

record WorkOrder = BuildWorkOrderInput +
  wo_schemaVersion :: nat

definition ENTERPRISE_TOPOLOGY_SCHEMA_VERSION :: nat where
  "ENTERPRISE_TOPOLOGY_SCHEMA_VERSION = 1"

definition buildWorkOrder :: "BuildWorkOrderInput \<Rightarrow> WorkOrder" where
  "buildWorkOrder input = BuildWorkOrderInput.extend input (WorkOrder.fields ENTERPRISE_TOPOLOGY_SCHEMA_VERSION)"

record FailurePolicy =
  fp_failureReportRequired :: bool
  fp_allowPartialSuccess :: bool
  fp_fallbackNodeIds :: "string list"

record RecoveryPolicy =
  rp_retryAllowed :: bool
  rp_redelegationAllowed :: bool
  rp_fallbackAllowed :: bool
  rp_partialSuccessAllowed :: bool

record NodeContract =
  nc_id :: string
  nc_name :: string
  nc_children :: "string list"
  nc_allowedToolIds :: "string list"
  nc_allowedSystemIds :: "string list"
  nc_failurePolicy :: "FailurePolicy option"
  nc_recoveryPolicy :: "RecoveryPolicy option"

record CompiledNode =
  cn_id :: string
  cn_name :: string
  cn_parentNodeIds :: "string list"
  cn_childNodeIds :: "string list"
  cn_allowedToolIds :: "string list"
  cn_allowedSystemIds :: "string list"

datatype NodeToolType = read_only_tool | write_tool | external_action_tool | analysis_tool | unknown_tool

record CompiledTool =
  ct_id :: string
  ct_name :: string
  ct_toolType :: NodeToolType
  ct_systemId :: "string option"

record CompiledSystem =
  cs_id :: string
  cs_name :: string
  cs_dataDomainIds :: "string list"

record CompiledDelegationScope =
  ds_nodeId :: string
  ds_directChildNodeIds :: "string list"
  ds_descendantNodeIds :: "string list"
  ds_maxDepth :: nat

record CompiledToolScope =
  ts_nodeId :: string
  ts_allowedToolIds :: "string list"
  ts_declaredToolIds :: "string list"
  ts_effectiveToolIds :: "string list"
  ts_allowedSystemIds :: "string list"
  ts_declaredSystemIds :: "string list"
  ts_backingSystemIds :: "string list"
  ts_effectiveSystemIds :: "string list"
  ts_declaredDataDomainIds :: "string list"
  ts_effectiveDataDomainIds :: "string list"
  ts_toolRelationIds :: "string list"
  ts_systemRelationIds :: "string list"

record CompiledTopologySnapshot =
  nodeIndex :: "string \<rightharpoonup> CompiledNode"
  toolIndex :: "string \<rightharpoonup> CompiledTool"
  systemIndex :: "string \<rightharpoonup> CompiledSystem"
  treeEdges :: "string \<rightharpoonup> string list"
  delegationScopeMap :: "string \<rightharpoonup> CompiledDelegationScope"
  toolScopeIndex :: "string \<rightharpoonup> CompiledToolScope"

text \<open>Unknown children are dropped.\<close>

definition getCompiledChildCandidates :: "CompiledTopologySnapshot \<Rightarrow> string \<Rightarrow> CompiledNode list" where
  "getCompiledChildCandidates snapshot nodeId =
     List.map_filter (nodeIndex snapshot) (nullish (treeEdges snapshot nodeId) [])"

section \<open>Permissions\<close>

record EffectiveWorkOrderPermissionScope =
  ep_allowedToolIds :: "string list"
  ep_allowedSystemIds :: "string list"
  ep_dataDomainIds :: "string list"
  ep_riskLevel :: "ScopeRisk option"
  ep_removedToolIds :: "string list"
  ep_removedSystemIds :: "string list"
  ep_removedDataDomainIds :: "string list"
  ep_reasonCodes :: "string list"

definition intersectStable :: "string list \<Rightarrow> string list \<Rightarrow> string list" where
  "intersectStable left right = filter (\<lambda>v. v \<in> set right) left"

definition dataDomainIdsForSystems :: "CompiledTopologySnapshot \<Rightarrow> string list \<Rightarrow> string list" where
  "dataDomainIdsForSystems snapshot systemIds =
     foldl (\<lambda>result systemId. case systemIndex snapshot systemId of
         None \<Rightarrow> result
       | Some system \<Rightarrow> foldl (\<lambda>result d. if d \<in> set result then result else result @ [d]) result (cs_dataDomainIds system))
       [] systemIds"

definition node_tools :: "CompiledTopologySnapshot \<Rightarrow> NodeContract \<Rightarrow> string list" where
  "node_tools snapshot node = nullish (map_option ts_effectiveToolIds (toolScopeIndex snapshot (nc_id node))) (nc_allowedToolIds node)"

definition node_systems :: "CompiledTopologySnapshot \<Rightarrow> NodeContract \<Rightarrow> string list" where
  "node_systems snapshot node =
     nullish (map_option ts_effectiveSystemIds (toolScopeIndex snapshot (nc_id node))) (nc_allowedSystemIds node)"

definition node_domains :: "CompiledTopologySnapshot \<Rightarrow> NodeContract \<Rightarrow> string list" where
  "node_domains snapshot node =
     nullish (map_option ts_effectiveDataDomainIds (toolScopeIndex snapshot (nc_id node)))
       (dataDomainIdsForSystems snapshot (node_systems snapshot node))"

definition not_in :: "string list \<Rightarrow> string list \<Rightarrow> string list" where
  "not_in kept xs = filter (\<lambda>x. x \<notin> set kept) xs"

definition deriveEffectiveWorkOrderPermissionScope ::
  "WorkOrder \<Rightarrow> NodeContract \<Rightarrow> CompiledTopologySnapshot \<Rightarrow> EffectiveWorkOrderPermissionScope" where
  "deriveEffectiveWorkOrderPermissionScope workOrder node snapshot =
     (let scope = wo_permissionScope workOrder;
          tools = intersectStable (ps_allowedToolIds scope) (node_tools snapshot node);
          systems = intersectStable (ps_allowedSystemIds scope) (node_systems snapshot node);
          domains = intersectStable (ps_dataDomainIds scope) (node_domains snapshot node);
          removedTools = not_in tools (ps_allowedToolIds scope);
          removedSystems = not_in systems (ps_allowedSystemIds scope);
          removedDomains = not_in domains (ps_dataDomainIds scope)
      in \<lparr>ep_allowedToolIds = tools, ep_allowedSystemIds = systems, ep_dataDomainIds = domains,
          ep_riskLevel = ps_riskLevel scope, ep_removedToolIds = removedTools, ep_removedSystemIds = removedSystems,
          ep_removedDataDomainIds = removedDomains,
          ep_reasonCodes = [''permission_scope_narrowed_to_node_contract'']
            @ (if toolScopeIndex snapshot (nc_id node) \<noteq> None then [''permission_scope_narrowed_to_compiled_tool_scope''] else [])
            @ (if removedTools \<noteq> [] then [''work_order_tool_scope_reduced''] else [])
            @ (if removedSystems \<noteq> [] then [''work_order_system_scope_reduced''] else [])
            @ (if removedDomains \<noteq> [] then [''work_order_data_domain_scope_reduced''] else [])\<rparr>)"

record NodeRuntimePermissionDecision =
  pd_allowed :: bool
  pd_reasonCode :: string
  pd_missingToolIds :: "string list"
  pd_missingSystemIds :: "string list"
  pd_missingDataDomainIds :: "string list"
  pd_effectivePermissionScope :: EffectiveWorkOrderPermissionScope
  pd_reasonCodes :: "string list"

definition checkNodeRuntimePermission ::
  "WorkOrder \<Rightarrow> NodeContract \<Rightarrow> CompiledTopologySnapshot \<Rightarrow> NodeRuntimePermissionDecision" where
  "checkNodeRuntimePermission workOrder node snapshot =
     (let effective = deriveEffectiveWorkOrderPermissionScope workOrder node snapshot;
          denied = ep_removedToolIds effective \<noteq> [] \<or> ep_removedSystemIds effective \<noteq> []
            \<or> ep_removedDataDomainIds effective \<noteq> []
      in \<lparr>pd_allowed = (\<not> denied),
          pd_reasonCode = (if denied then ''permission_scope_denied'' else ''permission_scope_allowed''),
          pd_missingToolIds = ep_removedToolIds effective, pd_missingSystemIds = ep_removedSystemIds effective,
          pd_missingDataDomainIds = ep_removedDataDomainIds effective, pd_effectivePermissionScope = effective,
          pd_reasonCodes = ep_reasonCodes effective
            @ [if denied then ''node_runtime_permission_denied'' else ''node_runtime_permission_allowed'']\<rparr>)"

section \<open>Authority\<close>

record WorkOrderAuthorityPreflightInput =
  pf_grantedAuthorityRuleIds :: "string list option"
  pf_deniedAuthorityRuleIds :: "string list option"
  pf_approvedBy :: "Approver list option"

datatype AuthorityStatus = authority_not_required | authority_approved | authority_denied

record WorkOrderAuthorityDecision =
  ad_status :: AuthorityStatus
  ad_allowed :: bool
  ad_reasonCode :: string
  ad_requiredAuthorityRuleIds :: "string list"
  ad_grantedAuthorityRuleIds :: "string list"
  ad_deniedAuthorityRuleIds :: "string list"
  ad_missingAuthorityRuleIds :: "string list"
  ad_approvedBy :: "Approver list"

text \<open>The default value \<open>{}\<close> of the second parameter.\<close>

definition no_preflight :: WorkOrderAuthorityPreflightInput where
  "no_preflight = \<lparr>pf_grantedAuthorityRuleIds = None, pf_deniedAuthorityRuleIds = None, pf_approvedBy = None\<rparr>"

definition evaluateWorkOrderAuthorityPreflight ::
  "WorkOrder \<Rightarrow> WorkOrderAuthorityPreflightInput option \<Rightarrow> WorkOrderAuthorityDecision" where
  "evaluateWorkOrderAuthorityPreflight workOrder preflight =
     (let input = nullish preflight no_preflight;
          required = au_requiredAuthorityRuleIds (wo_authorityScope workOrder);
          granted = nullish (pf_grantedAuthorityRuleIds input) [];
          denied = nullish (pf_deniedAuthorityRuleIds input) [];
          missing = not_in granted required;
          approvedBy = nullish (pf_approvedBy input) (nullish (au_approvedBy (wo_authorityScope workOrder)) []);
          approval = au_approvalRequired (wo_authorityScope workOrder);
          decision = (\<lambda>allowed status reason. \<lparr>ad_status = status, ad_allowed = allowed, ad_reasonCode = reason,
            ad_requiredAuthorityRuleIds = required, ad_grantedAuthorityRuleIds = granted, ad_deniedAuthorityRuleIds = denied,
            ad_missingAuthorityRuleIds = missing, ad_approvedBy = approvedBy\<rparr>)
      in if denied \<noteq> [] then decision False authority_denied ''authority_rule_denied''
         else if missing \<noteq> [] then decision False authority_denied ''required_authority_rule_missing''
         else if approval \<and> approvedBy = [] then decision False authority_denied ''approval_required_without_approver''
         else if approval then decision True authority_approved ''authority_preflight_approved''
         else decision True authority_not_required ''authority_preflight_not_required'')"

text \<open>A decision made before is used when no preflight is given.\<close>

definition checkNodeRuntimeAuthority ::
  "WorkOrder \<Rightarrow> WorkOrderAuthorityPreflightInput option \<Rightarrow> WorkOrderAuthorityDecision option \<Rightarrow> WorkOrderAuthorityDecision" where
  "checkNodeRuntimeAuthority workOrder preflight decision =
     (case (preflight, decision) of
        (None, Some d) \<Rightarrow> d
      | _ \<Rightarrow> evaluateWorkOrderAuthorityPreflight workOrder preflight)"

section \<open>The capability policy\<close>

datatype CapabilityRiskLevel = cap_safe | cap_moderate | cap_external | cap_sensitive | cap_dangerous

record SkillMcpAllowlist =
  al_enabledSkillIds :: "string list"
  al_enabledMcpServerIds :: "string list"
  al_enabledToolNames :: "string list"
  al_disabledToolNames :: "string list"
  al_secretScopeId :: "string option"

record CapabilityProfile =
  cp_profileId :: string
  cp_riskCeiling :: CapabilityRiskLevel
  cp_approvalRequiredFrom :: CapabilityRiskLevel
  cp_allowExternalNetwork :: bool
  cp_allowFilesystemWrite :: bool
  cp_allowShellExecution :: bool
  cp_allowScreenControl :: bool
  cp_allowedPaths :: "string list"

record CapabilityRateLimit =
  rl_maxConcurrentCalls :: number
  rl_maxCallsPerMinute :: "number option"

record CapabilityPolicy =
  cy_permissionProfile :: CapabilityProfile
  cy_skillMcpAllowlist :: SkillMcpAllowlist
  cy_rateLimit :: CapabilityRateLimit

fun riskLevelToCapabilityRisk :: "ScopeRisk option \<Rightarrow> CapabilityRiskLevel" where
  "riskLevelToCapabilityRisk (Some risk_low) = cap_safe"
| "riskLevelToCapabilityRisk (Some risk_medium) = cap_moderate"
| "riskLevelToCapabilityRisk (Some risk_high) = cap_sensitive"
| "riskLevelToCapabilityRisk (Some risk_critical) = cap_dangerous"
| "riskLevelToCapabilityRisk (Some risk_unknown) = cap_moderate"
| "riskLevelToCapabilityRisk None = cap_moderate"

definition of_base :: "'b option \<Rightarrow> ('b \<Rightarrow> 'a) \<Rightarrow> 'a \<Rightarrow> 'a" where
  "of_base base f otherwise = (case base of None \<Rightarrow> otherwise | Some b \<Rightarrow> f b)"

definition deriveWorkOrderCapabilityPolicy ::
  "WorkOrder \<Rightarrow> EffectiveWorkOrderPermissionScope \<Rightarrow> CapabilityPolicy option \<Rightarrow> CapabilityPolicy" where
  "deriveWorkOrderCapabilityPolicy workOrder effective basePolicy =
     (let profile = map_option cy_permissionProfile basePolicy; allow = map_option cy_skillMcpAllowlist basePolicy;
          rate = map_option cy_rateLimit basePolicy
      in \<lparr>cy_permissionProfile =
            \<lparr>cp_profileId = of_base profile cp_profileId (''permission:'' @ wo_workOrderId workOrder),
             cp_riskCeiling = riskLevelToCapabilityRisk (ep_riskLevel effective),
             cp_approvalRequiredFrom = (if au_approvalRequired (wo_authorityScope workOrder) then cap_safe
               else of_base profile cp_approvalRequiredFrom cap_dangerous),
             cp_allowExternalNetwork = of_base profile cp_allowExternalNetwork False,
             cp_allowFilesystemWrite = of_base profile cp_allowFilesystemWrite False,
             cp_allowShellExecution = of_base profile cp_allowShellExecution False,
             cp_allowScreenControl = of_base profile cp_allowScreenControl False,
             cp_allowedPaths = of_base profile cp_allowedPaths []\<rparr>,
          cy_skillMcpAllowlist =
            \<lparr>al_enabledSkillIds = of_base allow al_enabledSkillIds [],
             al_enabledMcpServerIds = of_base allow al_enabledMcpServerIds [],
             al_enabledToolNames = js_set (of_base allow al_enabledToolNames []
               @ ep_allowedToolIds effective @ ep_allowedSystemIds effective),
             al_disabledToolNames = js_set (of_base allow al_disabledToolNames []
               @ ep_removedToolIds effective @ ep_removedSystemIds effective),
             al_secretScopeId = of_base allow al_secretScopeId None\<rparr>,
          cy_rateLimit = \<lparr>rl_maxConcurrentCalls = of_base rate rl_maxConcurrentCalls (Num 1),
            rl_maxCallsPerMinute = of_base rate rl_maxCallsPerMinute None\<rparr>\<rparr>)"

section \<open>What remains of the permissions\<close>

lemma set_intersectStable [simp]: "set (intersectStable xs ys) = set xs \<inter> set ys"
  by (auto simp: intersectStable_def)

lemma set_not_in [simp]: "set (not_in ks xs) = set xs - set ks"
  by (auto simp: not_in_def)

lemma not_in_Nil_iff: "not_in ks xs = [] \<longleftrightarrow> set xs \<subseteq> set ks"
  by (auto simp: not_in_def filter_empty_conv)

lemma effective_sets:
  "set (ep_allowedToolIds (deriveEffectiveWorkOrderPermissionScope w n s)) =
     set (ps_allowedToolIds (wo_permissionScope w)) \<inter> set (node_tools s n)"
  "set (ep_allowedSystemIds (deriveEffectiveWorkOrderPermissionScope w n s)) =
     set (ps_allowedSystemIds (wo_permissionScope w)) \<inter> set (node_systems s n)"
  "set (ep_dataDomainIds (deriveEffectiveWorkOrderPermissionScope w n s)) =
     set (ps_dataDomainIds (wo_permissionScope w)) \<inter> set (node_domains s n)"
  "set (ep_removedToolIds (deriveEffectiveWorkOrderPermissionScope w n s)) =
     set (ps_allowedToolIds (wo_permissionScope w)) - set (node_tools s n)"
  "set (ep_removedSystemIds (deriveEffectiveWorkOrderPermissionScope w n s)) =
     set (ps_allowedSystemIds (wo_permissionScope w)) - set (node_systems s n)"
  "set (ep_removedDataDomainIds (deriveEffectiveWorkOrderPermissionScope w n s)) =
     set (ps_dataDomainIds (wo_permissionScope w)) - set (node_domains s n)"
  by (auto simp: deriveEffectiveWorkOrderPermissionScope_def Let_def)

lemma permission_allowed_iff: "pd_allowed (checkNodeRuntimePermission w n s) \<longleftrightarrow>
     set (ps_allowedToolIds (wo_permissionScope w)) \<subseteq> set (node_tools s n)
     \<and> set (ps_allowedSystemIds (wo_permissionScope w)) \<subseteq> set (node_systems s n)
     \<and> set (ps_dataDomainIds (wo_permissionScope w)) \<subseteq> set (node_domains s n)"
proof -
  let ?e = "deriveEffectiveWorkOrderPermissionScope w n s"
  have "pd_allowed (checkNodeRuntimePermission w n s) \<longleftrightarrow>
     set (ep_removedToolIds ?e) = {} \<and> set (ep_removedSystemIds ?e) = {} \<and> set (ep_removedDataDomainIds ?e) = {}"
    by (auto simp: checkNodeRuntimePermission_def Let_def)
  then show ?thesis
    unfolding effective_sets by blast
qed

lemma dedup_loop: "set (foldl (\<lambda>result d. if d \<in> set result then result else result @ [d]) result ds) = set result \<union> set ds"
  by (induction ds arbitrary: result) auto

lemma dataDomainIdsForSystems_iff: "d \<in> set (dataDomainIdsForSystems s ids) \<longleftrightarrow>
     (\<exists>i\<in>set ids. \<exists>system. systemIndex s i = Some system \<and> d \<in> set (cs_dataDomainIds system))"
proof -
  have "d \<in> set (foldl (\<lambda>result systemId. case systemIndex s systemId of None \<Rightarrow> result
       | Some system \<Rightarrow> foldl (\<lambda>result d. if d \<in> set result then result else result @ [d]) result (cs_dataDomainIds system)) r ids)
     \<longleftrightarrow> d \<in> set r \<or> (\<exists>i\<in>set ids. \<exists>system. systemIndex s i = Some system \<and> d \<in> set (cs_dataDomainIds system))" for r
    by (induction ids arbitrary: r) (auto simp: dedup_loop split: option.splits)
  then show ?thesis
    by (simp add: dataDomainIdsForSystems_def)
qed

lemma set_candidates: "n \<in> set (getCompiledChildCandidates s p) \<longleftrightarrow>
     (\<exists>ids i. treeEdges s p = Some ids \<and> i \<in> set ids \<and> nodeIndex s i = Some n)"
  by (auto simp: getCompiledChildCandidates_def nullish_def map_filter_def image_iff split: option.splits) force+

lemma preflight_fields [simp]:
  "ad_missingAuthorityRuleIds (evaluateWorkOrderAuthorityPreflight w p) =
     not_in (nullish (pf_grantedAuthorityRuleIds (nullish p no_preflight)) []) (au_requiredAuthorityRuleIds (wo_authorityScope w))"
  "ad_approvedBy (evaluateWorkOrderAuthorityPreflight w p) =
     nullish (pf_approvedBy (nullish p no_preflight)) (nullish (au_approvedBy (wo_authorityScope w)) [])"
  by (simp_all add: evaluateWorkOrderAuthorityPreflight_def Let_def)

lemma preflight_allowed_iff: "ad_allowed (evaluateWorkOrderAuthorityPreflight w p) \<longleftrightarrow>
     nullish (pf_deniedAuthorityRuleIds (nullish p no_preflight)) [] = []
     \<and> set (au_requiredAuthorityRuleIds (wo_authorityScope w)) \<subseteq> set (nullish (pf_grantedAuthorityRuleIds (nullish p no_preflight)) [])
     \<and> (au_approvalRequired (wo_authorityScope w) \<longrightarrow>
          nullish (pf_approvedBy (nullish p no_preflight)) (nullish (au_approvedBy (wo_authorityScope w)) []) \<noteq> [])"
  by (auto simp: evaluateWorkOrderAuthorityPreflight_def Let_def not_in_Nil_iff)

end
