(* ===== verification/Node_Delegation.thy ===== *)
theory Node_Delegation
  imports Machines Work_Order
begin

text \<open>
  What a node may do with a work order: pass parts of it on to its direct children
  (\<open>topology-runtime/delegation-planner.ts\<close>) and call tools (\<open>topology-runtime/tool-planner.ts\<close>). The
  messages of the issues are constants and are left out; the reading of the clock for the n-th planned
  child is a parameter.
\<close>

section \<open>Delegation to children\<close>

definition DEFAULT_TOPOLOGY_RUNTIME_MAX_DELEGATION_DEPTH :: int where
  "DEFAULT_TOPOLOGY_RUNTIME_MAX_DELEGATION_DEPTH = 5"

datatype DelegationPlanStatus = dp_planned | dp_partial | dp_blocked | dp_skipped

datatype DelegationPlanIssueCode =
    parent_node_missing | child_node_missing | no_direct_child_candidates | grandchild_direct_delegation_forbidden
  | not_direct_child | max_delegation_depth_exceeded

fun plan_issue_text :: "DelegationPlanIssueCode \<Rightarrow> string" where
  "plan_issue_text parent_node_missing = ''parent_node_missing''"
| "plan_issue_text child_node_missing = ''child_node_missing''"
| "plan_issue_text no_direct_child_candidates = ''no_direct_child_candidates''"
| "plan_issue_text grandchild_direct_delegation_forbidden = ''grandchild_direct_delegation_forbidden''"
| "plan_issue_text not_direct_child = ''not_direct_child''"
| "plan_issue_text max_delegation_depth_exceeded = ''max_delegation_depth_exceeded''"

record DelegationPlanIssue =
  di_code :: DelegationPlanIssueCode
  di_parentNodeId :: string
  di_childNodeId :: "string option"

record ChildDelegationCandidate =
  dc_parentNodeId :: string
  dc_childNode :: CompiledNode
  dc_delegationDepth :: nat
  dc_reasonCodes :: "string list"

record PlannedChildWorkOrder =
  pw_parentNodeId :: string
  pw_childNodeId :: string
  pw_childNode :: CompiledNode
  pw_workOrder :: WorkOrder
  pw_delegationDepth :: nat
  pw_reasonCodes :: "string list"

record DelegationPlan =
  dp_ok :: bool
  dp_status :: DelegationPlanStatus
  dp_parentNodeId :: string
  dp_parentWorkOrderId :: string
  dp_parentDelegationDepth :: nat
  dp_childDelegationDepth :: nat
  dp_maxDelegationDepth :: int
  dp_directChildCandidates :: "ChildDelegationCandidate list"
  dp_childWorkOrders :: "PlannedChildWorkOrder list"
  dp_skippedIssues :: "DelegationPlanIssue list"
  dp_reasonCodes :: "string list"

record PlanChildDelegationInput =
  pi_compiledTopologySnapshot :: CompiledTopologySnapshot
  pi_parentWorkOrder :: WorkOrder
  pi_parentNodeId :: "string option"
  pi_targetChildNodeIds :: "string list option"
  pi_maxDelegationDepth :: "number option"
  pi_childObjectiveByNodeId :: "string \<rightharpoonup> string"
  pi_childInputByNodeId :: "string \<rightharpoonup> json"
  pi_childWorkOrderIdByNodeId :: "string \<rightharpoonup> string"
  pi_now :: "nat \<Rightarrow> int"

text \<open>\<open>item.startsWith("node:")\<close>, and \<open>lastIndexOf\<close>, absent for -1.\<close>

definition is_node_id :: "string \<Rightarrow> bool" where
  "is_node_id item \<longleftrightarrow> take 5 item = ''node:''"

definition lastIndexOf :: "'a list \<Rightarrow> 'a \<Rightarrow> nat option" where
  "lastIndexOf xs x = (if x \<in> set xs then Some (length xs - Suc (length (takeWhile (\<lambda>y. y \<noteq> x) (rev xs)))) else None)"

text \<open>Subtraction of natural numbers stops at 0, as \<open>Math.max(0, a - b)\<close> does.\<close>

definition calculateWorkOrderDelegationDepth :: "'a BuildWorkOrderInput_scheme \<Rightarrow> nat" where
  "calculateWorkOrderDelegationDepth workOrder =
     (let nodePath = filter is_node_id (wo_delegationPath workOrder);
          target = tg_id (wo_to workOrder)
      in case lastIndexOf nodePath target of
           None \<Rightarrow> length nodePath - 1
         | Some targetIndex \<Rightarrow>
             targetIndex - (if length nodePath > 1 \<and> hd nodePath \<noteq> target then 1 else 0))"

definition listDirectChildDelegationCandidates ::
  "CompiledTopologySnapshot \<Rightarrow> string \<Rightarrow> WorkOrder \<Rightarrow> ChildDelegationCandidate list" where
  "listDirectChildDelegationCandidates snapshot parentNodeId parentWorkOrder =
     map (\<lambda>childNode. \<lparr>dc_parentNodeId = parentNodeId, dc_childNode = childNode,
         dc_delegationDepth = calculateWorkOrderDelegationDepth parentWorkOrder + 1,
         dc_reasonCodes = [''compiled_direct_child_candidate'', ''parent_node:'' @ parentNodeId, ''child_node:'' @ cn_id childNode]\<rparr>)
       (getCompiledChildCandidates snapshot parentNodeId)"

definition id_char :: "char \<Rightarrow> bool" where
  "id_char c = (let n = of_char c :: nat in
     65 \<le> n \<and> n \<le> 90 \<or> 97 \<le> n \<and> n \<le> 122 \<or> 48 \<le> n \<and> n \<le> 57 \<or> c = CHR '':'' \<or> c = CHR ''_'' \<or> c = CHR ''-'')"

definition buildChildWorkOrderId :: "WorkOrder \<Rightarrow> string \<Rightarrow> string" where
  "buildChildWorkOrderId parentWorkOrder childNodeId =
     wo_workOrderId parentWorkOrder @ '':child:'' @ map (\<lambda>c. if id_char c then c else CHR ''_'') childNodeId"

definition narrowPermissionScopeToChild :: "PermissionScope \<Rightarrow> CompiledNode \<Rightarrow> PermissionScope" where
  "narrowPermissionScopeToChild scope childNode =
     \<lparr>ps_allowedToolIds = filter (\<lambda>t. t \<in> set (cn_allowedToolIds childNode)) (ps_allowedToolIds scope),
      ps_allowedSystemIds = filter (\<lambda>t. t \<in> set (cn_allowedSystemIds childNode)) (ps_allowedSystemIds scope),
      ps_dataDomainIds = ps_dataDomainIds scope, ps_riskLevel = ps_riskLevel scope\<rparr>"

definition appendDelegationPath :: "string list \<Rightarrow> string \<Rightarrow> string list" where
  "appendDelegationPath path childNodeId =
     (if path \<noteq> [] \<and> last path = childNodeId then path else path @ [childNodeId])"

definition isDescendantButNotDirect :: "CompiledTopologySnapshot \<Rightarrow> string \<Rightarrow> string \<Rightarrow> bool" where
  "isDescendantButNotDirect snapshot parentNodeId childNodeId =
     (case delegationScopeMap snapshot parentNodeId of
        None \<Rightarrow> False
      | Some scope \<Rightarrow> childNodeId \<in> set (ds_descendantNodeIds scope) \<and> childNodeId \<notin> set (ds_directChildNodeIds scope))"

definition normalizedMaxDelegationDepth :: "number option \<Rightarrow> int" where
  "normalizedMaxDelegationDepth value =
     (case value of
        Some (Num q) \<Rightarrow> if q < 0 then DEFAULT_TOPOLOGY_RUNTIME_MAX_DELEGATION_DEPTH else \<lfloor>q\<rfloor>
      | _ \<Rightarrow> DEFAULT_TOPOLOGY_RUNTIME_MAX_DELEGATION_DEPTH)"

definition buildChildWorkOrder ::
  "WorkOrder \<Rightarrow> string \<Rightarrow> CompiledNode \<Rightarrow> string option \<Rightarrow> json option \<Rightarrow> string option \<Rightarrow> EnterpriseTimestamp \<Rightarrow> WorkOrder" where
  "buildChildWorkOrder parent parentNodeId childNode objective childInput workOrderId createdAt =
     buildWorkOrder
       \<lparr>wo_workOrderId = nullish workOrderId (buildChildWorkOrderId parent (cn_id childNode)),
        wo_topologyRunId = wo_topologyRunId parent,
        wo_parentWorkOrderId = Some (wo_workOrderId parent),
        wo_fromNodeId = parentNodeId,
        wo_to = \<lparr>tg_type = tt_node, tg_id = cn_id childNode\<rparr>,
        wo_objective = nullish objective (wo_objective parent),
        wo_scope = wo_scope parent,
        wo_input = nullish childInput (wo_input parent),
        wo_expectedOutputSchema = wo_expectedOutputSchema parent,
        wo_successCriteria = wo_successCriteria parent,
        wo_permissionScope = narrowPermissionScopeToChild (wo_permissionScope parent) childNode,
        wo_authorityScope = wo_authorityScope parent,
        wo_failureReportRequired = wo_failureReportRequired parent,
        wo_delegationPath = appendDelegationPath (wo_delegationPath parent) (cn_id childNode),
        wo_createdAt = createdAt\<rparr>"

text \<open>Whether a requested child may get a work order: the node, or the issue that stops it.\<close>

definition admit_child ::
  "CompiledTopologySnapshot \<Rightarrow> string \<Rightarrow> string list \<Rightarrow> nat \<Rightarrow> int \<Rightarrow> string \<Rightarrow> DelegationPlanIssueCode + CompiledNode" where
  "admit_child snapshot parentNodeId directChildIds childDepth maxDepth childNodeId =
     (case nodeIndex snapshot childNodeId of
        None \<Rightarrow> Inl child_node_missing
      | Some childNode \<Rightarrow>
          if childNodeId \<notin> set directChildIds then
            Inl (if isDescendantButNotDirect snapshot parentNodeId childNodeId
                 then grandchild_direct_delegation_forbidden else not_direct_child)
          else if int childDepth > maxDepth then Inl max_delegation_depth_exceeded
          else Inr childNode)"

text \<open>The work order of an admitted child; \<open>n\<close> children were planned before.\<close>

definition planned_child :: "PlanChildDelegationInput \<Rightarrow> string \<Rightarrow> nat \<Rightarrow> nat \<Rightarrow> string \<Rightarrow> CompiledNode \<Rightarrow> PlannedChildWorkOrder" where
  "planned_child input parentNodeId childDepth n childNodeId childNode =
     (let parent = pi_parentWorkOrder input;
          workOrder = buildChildWorkOrder parent parentNodeId childNode (pi_childObjectiveByNodeId input childNodeId)
            (pi_childInputByNodeId input childNodeId) (pi_childWorkOrderIdByNodeId input childNodeId) (At_time (pi_now input n))
      in \<lparr>pw_parentNodeId = parentNodeId, pw_childNodeId = childNodeId, pw_childNode = childNode,
          pw_workOrder = workOrder, pw_delegationDepth = childDepth,
          pw_reasonCodes = [''child_work_order_planned'', ''parent_work_order:'' @ wo_workOrderId parent,
            ''child_work_order:'' @ wo_workOrderId workOrder]\<rparr>)"

text \<open>The loop over the requested children.\<close>

primrec plan_children ::
  "PlanChildDelegationInput \<Rightarrow> string \<Rightarrow> string list \<Rightarrow> nat \<Rightarrow> int \<Rightarrow> nat \<Rightarrow> string list
     \<Rightarrow> PlannedChildWorkOrder list \<times> DelegationPlanIssue list" where
  "plan_children input parentNodeId directChildIds childDepth maxDepth n [] = ([], [])"
| "plan_children input parentNodeId directChildIds childDepth maxDepth n (childNodeId # rest) =
     (case admit_child (pi_compiledTopologySnapshot input) parentNodeId directChildIds childDepth maxDepth childNodeId of
        Inl code \<Rightarrow>
          (let (planned, skipped) = plan_children input parentNodeId directChildIds childDepth maxDepth n rest
           in (planned, \<lparr>di_code = code, di_parentNodeId = parentNodeId, di_childNodeId = Some childNodeId\<rparr> # skipped))
      | Inr childNode \<Rightarrow>
          (let (planned, skipped) = plan_children input parentNodeId directChildIds childDepth maxDepth (Suc n) rest
           in (planned_child input parentNodeId childDepth n childNodeId childNode # planned, skipped)))"

definition finalizePlan ::
  "DelegationPlanStatus \<Rightarrow> string \<Rightarrow> WorkOrder \<Rightarrow> nat \<Rightarrow> nat \<Rightarrow> int \<Rightarrow> ChildDelegationCandidate list
     \<Rightarrow> PlannedChildWorkOrder list \<Rightarrow> DelegationPlanIssue list \<Rightarrow> string list \<Rightarrow> DelegationPlan" where
  "finalizePlan statusWhenNoChild parentNodeId parentWorkOrder parentDepth childDepth maxDepth candidates planned skipped reasonCodes =
     (let status = (if planned \<noteq> [] \<and> skipped \<noteq> [] then dp_partial
          else if planned \<noteq> [] then dp_planned else statusWhenNoChild)
      in \<lparr>dp_ok = (planned \<noteq> [] \<or> status = dp_skipped), dp_status = status, dp_parentNodeId = parentNodeId,
          dp_parentWorkOrderId = wo_workOrderId parentWorkOrder, dp_parentDelegationDepth = parentDepth,
          dp_childDelegationDepth = childDepth, dp_maxDelegationDepth = maxDepth, dp_directChildCandidates = candidates,
          dp_childWorkOrders = planned, dp_skippedIssues = skipped, dp_reasonCodes = js_set reasonCodes\<rparr>)"

definition planChildDelegation :: "PlanChildDelegationInput \<Rightarrow> DelegationPlan" where
  "planChildDelegation input =
     (let snapshot = pi_compiledTopologySnapshot input;
          parent = pi_parentWorkOrder input;
          parentNodeId = nullish (pi_parentNodeId input) (tg_id (wo_to parent));
          parentDepth = calculateWorkOrderDelegationDepth parent;
          childDepth = parentDepth + 1;
          maxDepth = normalizedMaxDelegationDepth (pi_maxDelegationDepth input);
          issue = (\<lambda>code. \<lparr>di_code = code, di_parentNodeId = parentNodeId, di_childNodeId = None\<rparr>)
      in if nodeIndex snapshot parentNodeId = None then
           finalizePlan dp_blocked parentNodeId parent parentDepth childDepth maxDepth [] [] [issue parent_node_missing]
             [''parent_node_missing'']
         else
           (let candidates = listDirectChildDelegationCandidates snapshot parentNodeId parent;
                directChildIds = js_set (map (\<lambda>c. cn_id (dc_childNode c)) candidates);
                requested = nullish (pi_targetChildNodeIds input) (map (\<lambda>c. cn_id (dc_childNode c)) candidates)
            in if requested = [] then
                 finalizePlan dp_skipped parentNodeId parent parentDepth childDepth maxDepth candidates []
                   [issue no_direct_child_candidates] [''no_direct_child_candidates'']
               else
                 (let (planned, skipped) = plan_children input parentNodeId directChildIds childDepth maxDepth 0 requested
                  in finalizePlan dp_blocked parentNodeId parent parentDepth childDepth maxDepth candidates planned skipped
                       ([''compiled_direct_child_delegation_checked'']
                        @ (if planned \<noteq> [] then [''child_work_orders_planned''] else [])
                        @ map (\<lambda>i. plan_issue_text (di_code i)) skipped))))"

section \<open>Calls of tools\<close>

datatype NodeToolPlanStatus = tp_planned | tp_partial | tp_blocked | tp_skipped
datatype NodeToolApprovalStatus = approval_not_required | approval_approved | approval_denied | approval_missing
datatype ToolApproval = tool_approved | tool_denied

datatype NodeToolPlanIssueCode =
    tool_not_found | enterprise_system_not_executable_tool | tool_permission_denied
  | backing_system_permission_denied | tool_approval_required | tool_approval_denied

fun tool_issue_text :: "NodeToolPlanIssueCode \<Rightarrow> string" where
  "tool_issue_text tool_not_found = ''tool_not_found''"
| "tool_issue_text enterprise_system_not_executable_tool = ''enterprise_system_not_executable_tool''"
| "tool_issue_text tool_permission_denied = ''tool_permission_denied''"
| "tool_issue_text backing_system_permission_denied = ''backing_system_permission_denied''"
| "tool_issue_text tool_approval_required = ''tool_approval_required''"
| "tool_issue_text tool_approval_denied = ''tool_approval_denied''"

record NodeToolRequest =
  tr_toolId :: string
  tr_input :: "json option"
  tr_timeoutMs :: "number option"

record NodeToolPlanIssue =
  ti_code :: NodeToolPlanIssueCode
  ti_toolId :: string
  ti_systemId :: "string option"

record PlannedNodeToolCall =
  pt_toolId :: string
  pt_dispatcherToolName :: string
  pt_tool :: CompiledTool
  pt_input :: json
  pt_timeoutMs :: "number option"
  pt_approvalRequired :: bool
  pt_approvalStatus :: NodeToolApprovalStatus
  pt_fallbackNodeIds :: "string list"
  pt_reasonCodes :: "string list"

record NodeAllowedToolResolution =
  na_nodeId :: string
  na_allowedToolIds :: "string list"
  na_allowedSystemIds :: "string list"
  na_declaredToolIds :: "string list"
  na_declaredSystemIds :: "string list"
  na_effectiveToolIds :: "string list"
  na_effectiveSystemIds :: "string list"
  na_removedToolIds :: "string list"
  na_removedSystemIds :: "string list"
  na_reasonCodes :: "string list"

record NodeToolExecutionPlan =
  te_ok :: bool
  te_status :: NodeToolPlanStatus
  te_nodeId :: string
  te_workOrderId :: string
  te_allowed :: NodeAllowedToolResolution
  te_toolCalls :: "PlannedNodeToolCall list"
  te_blocked :: "NodeToolPlanIssue list"
  te_reasonCodes :: "string list"

record PlanNodeToolExecutionInput =
  ti_compiledTopologySnapshot :: CompiledTopologySnapshot
  ti_nodeContractSnapshot :: NodeContract
  ti_workOrder :: WorkOrder
  ti_toolRequests :: "NodeToolRequest list option"
  ti_defaultTimeoutMs :: "number option"
  ti_dispatcherToolNameByToolId :: "string \<rightharpoonup> string"
  ti_approvalDecisionsByToolId :: "string \<rightharpoonup> ToolApproval"

fun isApprovalRequiredToolType :: "NodeToolType \<Rightarrow> bool" where
  "isApprovalRequiredToolType write_tool = True"
| "isApprovalRequiredToolType external_action_tool = True"
| "isApprovalRequiredToolType unknown_tool = True"
| "isApprovalRequiredToolType read_only_tool = False"
| "isApprovalRequiredToolType analysis_tool = False"

fun tool_type_text :: "NodeToolType \<Rightarrow> string" where
  "tool_type_text read_only_tool = ''read_only''"
| "tool_type_text write_tool = ''write''"
| "tool_type_text external_action_tool = ''external_action''"
| "tool_type_text analysis_tool = ''analysis''"
| "tool_type_text unknown_tool = ''unknown''"

definition approvalStatusForTool :: "ToolApproval option \<Rightarrow> bool \<Rightarrow> NodeToolApprovalStatus" where
  "approvalStatusForTool decision approvalRequired =
     (if \<not> approvalRequired then approval_not_required
      else case decision of
          Some tool_approved \<Rightarrow> approval_approved
        | Some tool_denied \<Rightarrow> approval_denied
        | None \<Rightarrow> approval_missing)"

text \<open>The intersection of this file also drops repetitions.\<close>

definition intersectOnce :: "string list \<Rightarrow> string list \<Rightarrow> string list" where
  "intersectOnce left right = filter (\<lambda>item. item \<in> set right) (js_set left)"

definition resolveAllowedNodeTools :: "CompiledTopologySnapshot \<Rightarrow> NodeContract \<Rightarrow> WorkOrder \<Rightarrow> NodeAllowedToolResolution" where
  "resolveAllowedNodeTools snapshot node workOrder =
     (let toolScope = toolScopeIndex snapshot (nc_id node); scope = wo_permissionScope workOrder;
          effectiveTools = node_tools snapshot node; effectiveSystems = node_systems snapshot node;
          tools = intersectOnce (ps_allowedToolIds scope) effectiveTools;
          systems = intersectOnce (ps_allowedSystemIds scope) effectiveSystems
      in \<lparr>na_nodeId = nc_id node, na_allowedToolIds = tools, na_allowedSystemIds = systems,
          na_declaredToolIds = nullish (map_option ts_declaredToolIds toolScope) (nc_allowedToolIds node),
          na_declaredSystemIds = nullish (map_option ts_declaredSystemIds toolScope) (nc_allowedSystemIds node),
          na_effectiveToolIds = effectiveTools, na_effectiveSystemIds = effectiveSystems,
          na_removedToolIds = not_in tools (ps_allowedToolIds scope),
          na_removedSystemIds = not_in systems (ps_allowedSystemIds scope),
          na_reasonCodes = [''compiled_tool_scope_resolved'', ''work_order_permission_scope_intersected'']
            @ (if toolScope \<noteq> None then [''compiled_tool_scope_index_used''] else [])\<rparr>)"

definition plan_tool_request ::
  "PlanNodeToolExecutionInput \<Rightarrow> NodeAllowedToolResolution \<Rightarrow> NodeToolRequest \<Rightarrow> NodeToolPlanIssue + PlannedNodeToolCall" where
  "plan_tool_request input allowed request =
     (let snapshot = ti_compiledTopologySnapshot input; toolId = tr_toolId request;
          issue = (\<lambda>code system. Inl \<lparr>ti_code = code, ti_toolId = toolId, ti_systemId = system\<rparr>)
      in case toolIndex snapshot toolId of
           None \<Rightarrow> issue (if systemIndex snapshot toolId \<noteq> None then enterprise_system_not_executable_tool else tool_not_found) None
         | Some tool \<Rightarrow>
             if toolId \<notin> set (na_allowedToolIds allowed) then issue tool_permission_denied (ct_systemId tool)
             else if (case ct_systemId tool of None \<Rightarrow> False | Some system \<Rightarrow> system \<notin> set (na_allowedSystemIds allowed))
             then issue backing_system_permission_denied (ct_systemId tool)
             else
               (let approvalRequired = isApprovalRequiredToolType (ct_toolType tool);
                    approvalStatus = approvalStatusForTool (ti_approvalDecisionsByToolId input toolId) approvalRequired
                in if approvalStatus = approval_denied then issue tool_approval_denied (ct_systemId tool)
                   else if approvalStatus = approval_missing then issue tool_approval_required (ct_systemId tool)
                   else Inr
                     \<lparr>pt_toolId = toolId,
                      pt_dispatcherToolName = nullish (ti_dispatcherToolNameByToolId input toolId) toolId,
                      pt_tool = tool,
                      pt_input = nullish (tr_input request) (wo_input (ti_workOrder input)),
                      pt_timeoutMs = (case tr_timeoutMs request of None \<Rightarrow> ti_defaultTimeoutMs input | Some t \<Rightarrow> Some t),
                      pt_approvalRequired = approvalRequired, pt_approvalStatus = approvalStatus,
                      pt_fallbackNodeIds = nullish (map_option fp_fallbackNodeIds (nc_failurePolicy (ti_nodeContractSnapshot input))) [],
                      pt_reasonCodes = [''node_tool_call_planned'', ''tool_type:'' @ tool_type_text (ct_toolType tool),
                        if approvalRequired then ''tool_approval_policy_required'' else ''tool_approval_policy_not_required'',
                        ''node_retry_policy_unbounded'']\<rparr>))"

definition planNodeToolExecution :: "PlanNodeToolExecutionInput \<Rightarrow> NodeToolExecutionPlan" where
  "planNodeToolExecution input =
     (let allowed = resolveAllowedNodeTools (ti_compiledTopologySnapshot input) (ti_nodeContractSnapshot input) (ti_workOrder input);
          requested = nullish (ti_toolRequests input)
            (map (\<lambda>t. \<lparr>tr_toolId = t, tr_input = None, tr_timeoutMs = None\<rparr>) (na_allowedToolIds allowed));
          results = map (plan_tool_request input allowed) requested;
          calls = List.map_filter (\<lambda>r. case r of Inl _ \<Rightarrow> None | Inr call \<Rightarrow> Some call) results;
          blocked = List.map_filter (\<lambda>r. case r of Inl issue \<Rightarrow> Some issue | Inr _ \<Rightarrow> None) results;
          status = (if calls \<noteq> [] \<and> blocked \<noteq> [] then tp_partial else if calls \<noteq> [] then tp_planned
            else if blocked \<noteq> [] then tp_blocked else tp_skipped)
      in \<lparr>te_ok = (calls \<noteq> [] \<or> status = tp_skipped), te_status = status,
          te_nodeId = nc_id (ti_nodeContractSnapshot input), te_workOrderId = wo_workOrderId (ti_workOrder input),
          te_allowed = allowed, te_toolCalls = calls, te_blocked = blocked,
          te_reasonCodes = na_reasonCodes allowed @ (if calls \<noteq> [] then [''node_tool_execution_planned''] else [])
            @ map (\<lambda>i. tool_issue_text (ti_code i)) blocked\<rparr>)"

section \<open>What is planned\<close>

lemma js_set_mem [simp]: "x \<in> set (js_set xs) \<longleftrightarrow> x \<in> set xs"
  by (simp add: set_js_set)

lemma finalizePlan_children [simp]: "dp_childWorkOrders (finalizePlan st p w pd cd md cs planned skipped rs) = planned"
  by (simp add: finalizePlan_def Let_def)

lemma plan_children_Cons: "fst (plan_children input p ids d m n (x # xs)) =
     (case admit_child (pi_compiledTopologySnapshot input) p ids d m x of
        Inl code \<Rightarrow> fst (plan_children input p ids d m n xs)
      | Inr node \<Rightarrow> planned_child input p d n x node # fst (plan_children input p ids d m (Suc n) xs))"
  by (simp split: sum.splits prod.splits)

lemma planned_child_id [simp]: "pw_childNodeId (planned_child input p d n x node) = x"
  by (simp add: planned_child_def Let_def)

lemma plan_children_sound:
  assumes "c \<in> set (fst (plan_children input p ids d m n xs))"
  shows "\<exists>k x node. x \<in> set xs \<and> admit_child (pi_compiledTopologySnapshot input) p ids d m x = Inr node
     \<and> c = planned_child input p d k x node"
  using assms
proof (induction xs arbitrary: n)
  case (Cons x xs)
  then show ?case
    unfolding plan_children_Cons by (cases "admit_child (pi_compiledTopologySnapshot input) p ids d m x") (auto; blast)+
qed simp

lemma plan_children_complete:
  assumes "x \<in> set xs" "admit_child (pi_compiledTopologySnapshot input) p ids d m x = Inr node"
  shows "\<exists>c\<in>set (fst (plan_children input p ids d m n xs)). pw_childNodeId c = x"
  using assms
proof (induction xs arbitrary: n)
  case (Cons y xs)
  then show ?case
    unfolding plan_children_Cons by (cases "admit_child (pi_compiledTopologySnapshot input) p ids d m y") auto
qed simp

text \<open>The children of a node in the snapshot.\<close>

definition direct_child :: "CompiledTopologySnapshot \<Rightarrow> string \<Rightarrow> string \<Rightarrow> bool" where
  "direct_child s p i \<longleftrightarrow> i \<in> (\<lambda>n. cn_id n) ` set (getCompiledChildCandidates s p)"

definition plan_parent :: "PlanChildDelegationInput \<Rightarrow> string" where
  "plan_parent input = nullish (pi_parentNodeId input) (tg_id (wo_to (pi_parentWorkOrder input)))"

definition plan_requested :: "PlanChildDelegationInput \<Rightarrow> string list" where
  "plan_requested input = nullish (pi_targetChildNodeIds input)
     (map (\<lambda>n. cn_id n) (getCompiledChildCandidates (pi_compiledTopologySnapshot input) (plan_parent input)))"

definition plan_admits :: "PlanChildDelegationInput \<Rightarrow> string \<Rightarrow> DelegationPlanIssueCode + CompiledNode" where
  "plan_admits input x = admit_child (pi_compiledTopologySnapshot input) (plan_parent input)
     (js_set (map (\<lambda>n. cn_id n) (getCompiledChildCandidates (pi_compiledTopologySnapshot input) (plan_parent input))))
     (calculateWorkOrderDelegationDepth (pi_parentWorkOrder input) + 1)
     (normalizedMaxDelegationDepth (pi_maxDelegationDepth input)) x"

lemma candidate_ids: "map (\<lambda>c. cn_id (dc_childNode c)) (listDirectChildDelegationCandidates s p w) =
    map (\<lambda>n. cn_id n) (getCompiledChildCandidates s p)"
  by (simp add: listDirectChildDelegationCandidates_def)

lemma planned_children: "dp_childWorkOrders (planChildDelegation input) =
    (if nodeIndex (pi_compiledTopologySnapshot input) (plan_parent input) = None then []
     else fst (plan_children input (plan_parent input)
       (js_set (map (\<lambda>n. cn_id n) (getCompiledChildCandidates (pi_compiledTopologySnapshot input) (plan_parent input))))
       (calculateWorkOrderDelegationDepth (pi_parentWorkOrder input) + 1)
       (normalizedMaxDelegationDepth (pi_maxDelegationDepth input)) 0 (plan_requested input)))"
  unfolding planChildDelegation_def plan_requested_def candidate_ids Let_def plan_parent_def [symmetric]
  by (simp split: prod.splits)

lemma plan_admits_iff: "plan_admits input x = Inr node \<longleftrightarrow>
     nodeIndex (pi_compiledTopologySnapshot input) x = Some node
     \<and> direct_child (pi_compiledTopologySnapshot input) (plan_parent input) x
     \<and> int (calculateWorkOrderDelegationDepth (pi_parentWorkOrder input)) + 1
          \<le> normalizedMaxDelegationDepth (pi_maxDelegationDepth input)"
  by (auto simp: plan_admits_def admit_child_def direct_child_def split: option.splits if_splits)

lemma planned_sound:
  assumes "c \<in> set (dp_childWorkOrders (planChildDelegation input))"
  shows "\<exists>k x node. nodeIndex (pi_compiledTopologySnapshot input) (plan_parent input) \<noteq> None
     \<and> x \<in> set (plan_requested input) \<and> plan_admits input x = Inr node
     \<and> c = planned_child input (plan_parent input) (calculateWorkOrderDelegationDepth (pi_parentWorkOrder input) + 1) k x node"
  using assms unfolding planned_children
  by (auto simp: plan_admits_def split: if_splits dest!: plan_children_sound)

lemma planned_iff: "(\<exists>c\<in>set (dp_childWorkOrders (planChildDelegation input)). pw_childNodeId c = x) \<longleftrightarrow>
     nodeIndex (pi_compiledTopologySnapshot input) (plan_parent input) \<noteq> None
     \<and> x \<in> set (plan_requested input) \<and> (\<exists>node. plan_admits input x = Inr node)"
proof
  assume "\<exists>c\<in>set (dp_childWorkOrders (planChildDelegation input)). pw_childNodeId c = x"
  then show "nodeIndex (pi_compiledTopologySnapshot input) (plan_parent input) \<noteq> None
     \<and> x \<in> set (plan_requested input) \<and> (\<exists>node. plan_admits input x = Inr node)"
    using planned_sound by fastforce
next
  assume "nodeIndex (pi_compiledTopologySnapshot input) (plan_parent input) \<noteq> None
     \<and> x \<in> set (plan_requested input) \<and> (\<exists>node. plan_admits input x = Inr node)"
  then show "\<exists>c\<in>set (dp_childWorkOrders (planChildDelegation input)). pw_childNodeId c = x"
    unfolding planned_children plan_admits_def using plan_children_complete by fastforce
qed

section \<open>Chains of delegations\<close>

text \<open>
  \<open>runNodeRuntime\<close> plans the children of the node it runs from the work order of that node, and the
  runtime of a child does the same with the child's work order. A step of the chain takes the planned
  child at some position; everything that the caller may choose is the event.
\<close>

definition chain_input ::
  "CompiledTopologySnapshot \<Rightarrow> number option \<Rightarrow> WorkOrder \<Rightarrow> PlanChildDelegationInput \<Rightarrow> PlanChildDelegationInput" where
  "chain_input s m w input = input\<lparr>pi_compiledTopologySnapshot := s, pi_parentWorkOrder := w,
     pi_parentNodeId := Some (tg_id (wo_to w)), pi_maxDelegationDepth := m\<rparr>"

definition delegation_step ::
  "CompiledTopologySnapshot \<Rightarrow> number option \<Rightarrow> WorkOrder \<Rightarrow> PlanChildDelegationInput \<times> nat \<Rightarrow> WorkOrder option" where
  "delegation_step s m w choice =
     (let planned = dp_childWorkOrders (planChildDelegation (chain_input s m w (fst choice)))
      in if snd choice < length planned then Some (pw_workOrder (planned ! snd choice)) else None)"

lemma chain_input_simps [simp]:
  "pi_compiledTopologySnapshot (chain_input s m w input) = s" "pi_parentWorkOrder (chain_input s m w input) = w"
  "plan_parent (chain_input s m w input) = tg_id (wo_to w)" "pi_maxDelegationDepth (chain_input s m w input) = m"
  by (simp_all add: chain_input_def plan_parent_def)

lemma buildWorkOrder_simps [simp]:
  "wo_topologyRunId (buildWorkOrder i) = wo_topologyRunId i" "wo_parentWorkOrderId (buildWorkOrder i) = wo_parentWorkOrderId i"
  "wo_to (buildWorkOrder i) = wo_to i" "wo_scope (buildWorkOrder i) = wo_scope i"
  "wo_expectedOutputSchema (buildWorkOrder i) = wo_expectedOutputSchema i"
  "wo_successCriteria (buildWorkOrder i) = wo_successCriteria i" "wo_permissionScope (buildWorkOrder i) = wo_permissionScope i"
  "wo_authorityScope (buildWorkOrder i) = wo_authorityScope i"
  "wo_failureReportRequired (buildWorkOrder i) = wo_failureReportRequired i"
  "wo_delegationPath (buildWorkOrder i) = wo_delegationPath i"
  by (simp_all add: buildWorkOrder_def BuildWorkOrderInput.defs WorkOrder.defs)

lemma delegation_stepE:
  assumes "delegation_step s m w choice = Some w'"
  obtains k x node where "nodeIndex s x = Some node" "direct_child s (tg_id (wo_to w)) x"
    "int (calculateWorkOrderDelegationDepth w) + 1 \<le> normalizedMaxDelegationDepth m"
    "w' = pw_workOrder (planned_child (chain_input s m w (fst choice)) (tg_id (wo_to w))
       (calculateWorkOrderDelegationDepth w + 1) k x node)"
proof -
  let ?planned = "dp_childWorkOrders (planChildDelegation (chain_input s m w (fst choice)))"
  have "?planned ! snd choice \<in> set ?planned" "w' = pw_workOrder (?planned ! snd choice)"
    using assms by (auto simp: delegation_step_def Let_def split: if_splits)
  then show thesis
    using planned_sound [of "?planned ! snd choice"] that by (fastforce simp: plan_admits_iff)
qed

lemma child_work_order [simp]:
  "wo_topologyRunId (pw_workOrder (planned_child input p d k x node)) = wo_topologyRunId (pi_parentWorkOrder input)"
  "wo_to (pw_workOrder (planned_child input p d k x node)) = \<lparr>tg_type = tt_node, tg_id = cn_id node\<rparr>"
  "wo_scope (pw_workOrder (planned_child input p d k x node)) = wo_scope (pi_parentWorkOrder input)"
  "wo_expectedOutputSchema (pw_workOrder (planned_child input p d k x node)) = wo_expectedOutputSchema (pi_parentWorkOrder input)"
  "wo_successCriteria (pw_workOrder (planned_child input p d k x node)) = wo_successCriteria (pi_parentWorkOrder input)"
  "wo_permissionScope (pw_workOrder (planned_child input p d k x node)) =
     narrowPermissionScopeToChild (wo_permissionScope (pi_parentWorkOrder input)) node"
  "wo_authorityScope (pw_workOrder (planned_child input p d k x node)) = wo_authorityScope (pi_parentWorkOrder input)"
  "wo_failureReportRequired (pw_workOrder (planned_child input p d k x node)) = wo_failureReportRequired (pi_parentWorkOrder input)"
  "wo_delegationPath (pw_workOrder (planned_child input p d k x node)) =
     appendDelegationPath (wo_delegationPath (pi_parentWorkOrder input)) (cn_id node)"
  by (simp_all add: planned_child_def buildChildWorkOrder_def Let_def)

text \<open>What a delegated work order keeps of the one the chain started with.\<close>

definition stays_within :: "WorkOrder \<Rightarrow> WorkOrder \<Rightarrow> bool" where
  "stays_within origin w \<longleftrightarrow>
     subseq (ps_allowedToolIds (wo_permissionScope w)) (ps_allowedToolIds (wo_permissionScope origin))
     \<and> subseq (ps_allowedSystemIds (wo_permissionScope w)) (ps_allowedSystemIds (wo_permissionScope origin))
     \<and> ps_dataDomainIds (wo_permissionScope w) = ps_dataDomainIds (wo_permissionScope origin)
     \<and> ps_riskLevel (wo_permissionScope w) = ps_riskLevel (wo_permissionScope origin)
     \<and> wo_authorityScope w = wo_authorityScope origin \<and> wo_scope w = wo_scope origin
     \<and> wo_successCriteria w = wo_successCriteria origin \<and> wo_expectedOutputSchema w = wo_expectedOutputSchema origin
     \<and> wo_failureReportRequired w = wo_failureReportRequired origin \<and> wo_topologyRunId w = wo_topologyRunId origin
     \<and> prefix (wo_delegationPath origin) (wo_delegationPath w)"

lemma subseq_set: "subseq xs ys \<Longrightarrow> set xs \<subseteq> set ys"
  by (auto dest: list_emb_set)

lemma stays_within_refl [simp]: "stays_within w w"
  by (simp add: stays_within_def)

lemma stays_within_trans: "stays_within a b \<Longrightarrow> stays_within b c \<Longrightarrow> stays_within a c"
  unfolding stays_within_def by (auto intro: subseq_order.trans prefix_order.trans)

lemma step_stays_within:
  assumes "delegation_step s m w choice = Some w'"
  shows "stays_within w w'"
  using assms
  by (elim delegation_stepE)
    (simp add: stays_within_def narrowPermissionScopeToChild_def subseq_filter_left appendDelegationPath_def)

interpretation narrowing: invariant_machine "delegation_step s m" "stays_within origin" for s m origin
  by unfold_locales (blast intro: stays_within_trans step_stays_within)

text \<open>
  The index is by id, ids have the prefix \<open>node:\<close>, no node is its own child. The compiler makes such snapshots
  of checked topologies whose ids have the prefix; nothing in it asks for the prefix.
\<close>

definition snapshot_ok :: "CompiledTopologySnapshot \<Rightarrow> bool" where
  "snapshot_ok s \<longleftrightarrow> (\<forall>i n. nodeIndex s i = Some n \<longrightarrow> cn_id n = i \<and> is_node_id i)
     \<and> (\<forall>p. \<not> direct_child s p p)"

definition addressed :: "WorkOrder \<Rightarrow> bool" where
  "addressed w \<longleftrightarrow> wo_delegationPath w \<noteq> [] \<and> last (wo_delegationPath w) = tg_id (wo_to w) \<and> is_node_id (tg_id (wo_to w))"

definition level :: "WorkOrder \<Rightarrow> nat" where
  "level w = length (filter is_node_id (wo_delegationPath w))"

lemma lastIndexOf_snoc [simp]: "lastIndexOf (xs @ [x]) x = Some (length xs)"
  by (simp add: lastIndexOf_def)

lemma addressed_path:
  assumes "addressed w"
  shows "\<exists>before. filter is_node_id (wo_delegationPath w) = before @ [tg_id (wo_to w)]"
proof -
  have "wo_delegationPath w = butlast (wo_delegationPath w) @ [tg_id (wo_to w)]"
    using assms append_butlast_last_id [of "wo_delegationPath w"] by (simp add: addressed_def)
  then have "filter is_node_id (wo_delegationPath w) = filter is_node_id (butlast (wo_delegationPath w) @ [tg_id (wo_to w)])"
    by (rule arg_cong)
  also have "\<dots> = filter is_node_id (butlast (wo_delegationPath w)) @ [tg_id (wo_to w)]"
    using assms by (simp add: addressed_def)
  finally show ?thesis
    by blast
qed

lemma addressed_depth:
  assumes "addressed w"
  shows "calculateWorkOrderDelegationDepth w =
    level w - 1 - (if level w > 1 \<and> hd (filter is_node_id (wo_delegationPath w)) \<noteq> tg_id (wo_to w) then 1 else 0)"
proof -
  obtain before where "filter is_node_id (wo_delegationPath w) = before @ [tg_id (wo_to w)]"
    using addressed_path [OF assms] ..
  then show ?thesis
    by (simp add: calculateWorkOrderDelegationDepth_def level_def Let_def)
qed

lemma step_level:
  assumes "snapshot_ok s" "addressed w" "delegation_step s m w choice = Some w'"
  shows "addressed w' \<and> wo_delegationPath w' = wo_delegationPath w @ [tg_id (wo_to w')] \<and> level w' = Suc (level w)
     \<and> tg_id (wo_to w') \<noteq> tg_id (wo_to w) \<and> int (level w) \<le> normalizedMaxDelegationDepth m + 1"
  using assms(3)
proof (rule delegation_stepE)
  fix k x node
  assume node: "nodeIndex s x = Some node" and child: "direct_child s (tg_id (wo_to w)) x"
    and depth: "int (calculateWorkOrderDelegationDepth w) + 1 \<le> normalizedMaxDelegationDepth m"
    and w': "w' = pw_workOrder (planned_child (chain_input s m w (fst choice)) (tg_id (wo_to w))
       (calculateWorkOrderDelegationDepth w + 1) k x node)"
  have id: "cn_id node = x" "is_node_id x" "x \<noteq> tg_id (wo_to w)"
    using assms(1) node child by (auto simp: snapshot_ok_def)
  have "wo_delegationPath w' = wo_delegationPath w @ [x]"
    using assms(2) id by (simp add: w' appendDelegationPath_def addressed_def)
  moreover have "tg_id (wo_to w') = x"
    using id by (simp add: w')
  moreover have "int (level w) \<le> normalizedMaxDelegationDepth m + 1"
    using depth unfolding addressed_depth [OF assms(2)] by (simp split: if_splits)
  ultimately show ?thesis
    using id by (simp add: addressed_def level_def)
qed

lemma run_level:
  assumes "snapshot_ok s" "addressed origin" "run_steps (delegation_step s m) origin choices = Some w"
  shows "addressed w \<and> level w = level origin + length choices
     \<and> (choices \<noteq> [] \<longrightarrow> int (level w) \<le> normalizedMaxDelegationDepth m + 2)"
  using assms(3)
proof (induction choices arbitrary: w rule: rev_induct)
  case Nil
  then show ?case
    using assms(2) by simp
next
  case (snoc c cs)
  from snoc.prems obtain v where "run_steps (delegation_step s m) origin cs = Some v" "delegation_step s m v c = Some w"
    by (rule run_steps_snocE)
  then show ?case
    using snoc.IH [of v] step_level [OF assms(1)] by fastforce
qed

section \<open>Planned calls\<close>

lemma set_intersectOnce [simp]: "set (intersectOnce xs ys) = set xs \<inter> set ys"
  by (auto simp: intersectOnce_def)

lemma allowed_sets [simp]:
  "set (na_allowedToolIds (resolveAllowedNodeTools s n w)) = set (ps_allowedToolIds (wo_permissionScope w)) \<inter> set (node_tools s n)"
  "set (na_allowedSystemIds (resolveAllowedNodeTools s n w)) = set (ps_allowedSystemIds (wo_permissionScope w)) \<inter> set (node_systems s n)"
  by (simp_all add: resolveAllowedNodeTools_def Let_def)

text \<open>What a request for a tool has to satisfy.\<close>

definition tool_admitted :: "PlanNodeToolExecutionInput \<Rightarrow> string \<Rightarrow> CompiledTool \<Rightarrow> bool" where
  "tool_admitted input toolId tool \<longleftrightarrow>
     (let s = ti_compiledTopologySnapshot input; n = ti_nodeContractSnapshot input;
          scope = wo_permissionScope (ti_workOrder input)
      in toolIndex s toolId = Some tool
         \<and> toolId \<in> set (ps_allowedToolIds scope) \<and> toolId \<in> set (node_tools s n)
         \<and> (case ct_systemId tool of None \<Rightarrow> True
             | Some system \<Rightarrow> system \<in> set (ps_allowedSystemIds scope) \<and> system \<in> set (node_systems s n))
         \<and> (if isApprovalRequiredToolType (ct_toolType tool)
             then ti_approvalDecisionsByToolId input toolId = Some tool_approved else True))"

lemma approval_passed_iff: "approvalStatusForTool d r \<noteq> approval_denied \<and> approvalStatusForTool d r \<noteq> approval_missing
     \<longleftrightarrow> (if r then d = Some tool_approved else True)"
  by (auto simp: approvalStatusForTool_def split: option.splits ToolApproval.splits)

lemma plan_tool_request_iff:
  "(\<exists>call. plan_tool_request input (resolveAllowedNodeTools (ti_compiledTopologySnapshot input)
      (ti_nodeContractSnapshot input) (ti_workOrder input)) request = Inr call \<and> pt_tool call = tool)
   \<longleftrightarrow> tool_admitted input (tr_toolId request) tool"
  using approval_passed_iff [of "ti_approvalDecisionsByToolId input (tr_toolId request)" "isApprovalRequiredToolType (ct_toolType tool)"]
  by (auto simp: plan_tool_request_def tool_admitted_def Let_def split: option.splits if_splits)

lemma plan_tool_request_id:
  "plan_tool_request input allowed request = Inr call \<Longrightarrow> pt_toolId call = tr_toolId request"
  by (auto simp: plan_tool_request_def Let_def split: option.splits if_splits)

definition tool_requests :: "PlanNodeToolExecutionInput \<Rightarrow> string set" where
  "tool_requests input =
     (case ti_toolRequests input of Some requests \<Rightarrow> tr_toolId ` set requests
      | None \<Rightarrow> set (ps_allowedToolIds (wo_permissionScope (ti_workOrder input)))
          \<inter> set (node_tools (ti_compiledTopologySnapshot input) (ti_nodeContractSnapshot input)))"

lemma planned_tool_iff:
  "(\<exists>call\<in>set (te_toolCalls (planNodeToolExecution input)). pt_toolId call = toolId \<and> pt_tool call = tool)
     \<longleftrightarrow> toolId \<in> tool_requests input \<and> tool_admitted input toolId tool"
proof -
  let ?allowed = "resolveAllowedNodeTools (ti_compiledTopologySnapshot input) (ti_nodeContractSnapshot input) (ti_workOrder input)"
  let ?requested = "nullish (ti_toolRequests input)
      (map (\<lambda>t. \<lparr>tr_toolId = t, tr_input = None, tr_timeoutMs = None\<rparr>) (na_allowedToolIds ?allowed))"
  have ids: "tr_toolId ` set ?requested = tool_requests input"
    by (auto simp: tool_requests_def image_image split: option.splits)
  have "call \<in> set (te_toolCalls (planNodeToolExecution input)) \<longleftrightarrow>
      (\<exists>request\<in>set ?requested. plan_tool_request input ?allowed request = Inr call)" for call
    by (auto simp: planNodeToolExecution_def Let_def map_filter_def split: sum.splits) force+
  then show ?thesis
    unfolding ids [symmetric] using plan_tool_request_iff [of input _ tool] plan_tool_request_id [of input ?allowed]
    by (auto simp: image_iff) metis+
qed

section \<open>Properties\<close>

text \<open>C14. Down any chain of delegations, whatever children, objectives, inputs and ids are chosen, a work
  order never gains a tool or a system, keeps the data domains, the risk level, the authority rules and the
  need for approval, the success criteria and the output schema of the first one, belongs to the same run,
  and its path continues the path of the first one.\<close>

theorem delegation_never_widens:
  assumes "run_steps (delegation_step s m) origin choices = Some w"
  shows "set (ps_allowedToolIds (wo_permissionScope w)) \<subseteq> set (ps_allowedToolIds (wo_permissionScope origin))
    \<and> set (ps_allowedSystemIds (wo_permissionScope w)) \<subseteq> set (ps_allowedSystemIds (wo_permissionScope origin))
    \<and> ps_dataDomainIds (wo_permissionScope w) = ps_dataDomainIds (wo_permissionScope origin)
    \<and> ps_riskLevel (wo_permissionScope w) = ps_riskLevel (wo_permissionScope origin)
    \<and> wo_authorityScope w = wo_authorityScope origin
    \<and> wo_successCriteria w = wo_successCriteria origin \<and> wo_expectedOutputSchema w = wo_expectedOutputSchema origin
    \<and> wo_topologyRunId w = wo_topologyRunId origin \<and> prefix (wo_delegationPath origin) (wo_delegationPath w)"
  using narrowing.run_inv [OF stays_within_refl assms] unfolding stays_within_def by (auto dest: subseq_set)

text \<open>C34. A tool is planned for a call, at the end of any chain of delegations, only if the first work order
  and the scope of the node allow it, they allow the system behind it too, and a tool that writes, acts
  outside or is of unknown type was approved.\<close>

theorem planned_tools_stay_allowed:
  assumes "run_steps (delegation_step s m) origin choices = Some w"
    and "ti_compiledTopologySnapshot input = s" "ti_workOrder input = w"
    and "call \<in> set (te_toolCalls (planNodeToolExecution input))"
  shows "toolIndex s (pt_toolId call) = Some (pt_tool call)
    \<and> pt_toolId call \<in> set (ps_allowedToolIds (wo_permissionScope origin)) \<inter> set (node_tools s (ti_nodeContractSnapshot input))
    \<and> (case ct_systemId (pt_tool call) of None \<Rightarrow> True
        | Some system \<Rightarrow> system \<in> set (ps_allowedSystemIds (wo_permissionScope origin)) \<inter> set (node_systems s (ti_nodeContractSnapshot input)))
    \<and> (if isApprovalRequiredToolType (ct_toolType (pt_tool call))
        then ti_approvalDecisionsByToolId input (pt_toolId call) = Some tool_approved else True)"
proof -
  have "tool_admitted input (pt_toolId call) (pt_tool call)"
    using planned_tool_iff [of input "pt_toolId call" "pt_tool call"] assms(4) by blast
  moreover have "stays_within origin w"
    by (rule narrowing.run_inv [OF stays_within_refl assms(1)])
  then have "set (ps_allowedToolIds (wo_permissionScope w)) \<subseteq> set (ps_allowedToolIds (wo_permissionScope origin))"
    "set (ps_allowedSystemIds (wo_permissionScope w)) \<subseteq> set (ps_allowedSystemIds (wo_permissionScope origin))"
    unfolding stays_within_def by (auto dest: subseq_set)
  ultimately show ?thesis
    using assms(2,3) by (auto simp: tool_admitted_def Let_def split: option.splits)
qed

text \<open>In a snapshot whose ids have the prefix a chain of delegations ends: with the \<open>k\<close> nodes that the path of the first
  work order names, it has at most \<open>2 - k\<close> steps more than the limit.\<close>

theorem delegation_chain_bounded:
  assumes "snapshot_ok s" "addressed origin" "run_steps (delegation_step s m) origin choices = Some w" "choices \<noteq> []"
  shows "int (length (filter is_node_id (wo_delegationPath origin)) + length choices) \<le> normalizedMaxDelegationDepth m + 2"
  using run_level [OF assms(1-3)] assms(4) by (simp add: level_def)

lemma child_depth:
  assumes "snapshot_ok s" "is_node_id (tg_id (wo_to w))"
    and "c \<in> set (dp_childWorkOrders (planChildDelegation (chain_input s m w input)))"
  shows "pw_delegationDepth c = calculateWorkOrderDelegationDepth w + 1 \<and> is_node_id (tg_id (wo_to (pw_workOrder c)))
    \<and> tg_id (wo_to (pw_workOrder c)) \<noteq> tg_id (wo_to w)
    \<and> wo_delegationPath (pw_workOrder c) = appendDelegationPath (wo_delegationPath w) (tg_id (wo_to (pw_workOrder c)))"
proof -
  obtain k x node where c: "plan_admits (chain_input s m w input) x = Inr node"
    "c = planned_child (chain_input s m w input) (tg_id (wo_to w)) (calculateWorkOrderDelegationDepth w + 1) k x node"
    using planned_sound [OF assms(3)] by auto
  then show ?thesis
    using assms(1) by (auto simp: plan_admits_iff snapshot_ok_def) (simp add: planned_child_def Let_def)
qed

text \<open>C35. The first delegation of an entry node does not count. The harness starts a work order whose path
  holds the entry node only; its child is planned at depth 1, but the depth recomputed from the child's own
  work order is 0 again, as if the entry node were the one who asked. So the limit admits one level more
  below an entry node than it says.\<close>

theorem entry_level_not_counted:
  assumes "snapshot_ok s" "is_node_id (tg_id (wo_to w))" "wo_delegationPath w = [tg_id (wo_to w)]"
    and "c \<in> set (dp_childWorkOrders (planChildDelegation (chain_input s m w input)))"
  shows "pw_delegationDepth c = 1 \<and> calculateWorkOrderDelegationDepth (pw_workOrder c) = 0"
  using child_depth [OF assms(1,2,4)] assms(2,3)
  by (auto simp: calculateWorkOrderDelegationDepth_def lastIndexOf_def appendDelegationPath_def Let_def)

text \<open>If the path names the delegating node before the entry node, the recomputed depth is the planned one.\<close>

theorem named_origin_level_counted:
  assumes "snapshot_ok s" "is_node_id (tg_id (wo_to w))" "wo_delegationPath w = [from, tg_id (wo_to w)]"
    and "is_node_id from" "from \<noteq> tg_id (wo_to w)" "from \<noteq> tg_id (wo_to (pw_workOrder c))"
    and "c \<in> set (dp_childWorkOrders (planChildDelegation (chain_input s m w input)))"
  shows "pw_delegationDepth c = 1 \<and> calculateWorkOrderDelegationDepth (pw_workOrder c) = 1"
  using child_depth [OF assms(1,2,7)] assms(2-6)
  by (auto simp: calculateWorkOrderDelegationDepth_def lastIndexOf_def appendDelegationPath_def Let_def)

section \<open>A chain of three nodes\<close>

definition sample_node :: "string \<Rightarrow> string list \<Rightarrow> CompiledNode" where
  "sample_node i children = \<lparr>cn_id = i, cn_name = i, cn_parentNodeIds = [], cn_childNodeIds = children,
     cn_allowedToolIds = [''mail''], cn_allowedSystemIds = []\<rparr>"

definition sample_snapshot :: CompiledTopologySnapshot where
  "sample_snapshot = \<lparr>
     nodeIndex = map_of [(''node:a'', sample_node ''node:a'' [''node:b'']), (''node:b'', sample_node ''node:b'' [''node:c'']),
       (''node:c'', sample_node ''node:c'' [])],
     toolIndex = map_of [(''mail'', \<lparr>ct_id = ''mail'', ct_name = ''mail'', ct_toolType = write_tool, ct_systemId = None\<rparr>)],
     systemIndex = map_of [], treeEdges = map_of [(''node:a'', [''node:b'']), (''node:b'', [''node:c''])],
     delegationScopeMap = map_of [], toolScopeIndex = map_of []\<rparr>"

definition sample_order :: WorkOrder where
  "sample_order = buildWorkOrder
     \<lparr>wo_workOrderId = ''w'', wo_topologyRunId = ''r'', wo_parentWorkOrderId = None, wo_fromNodeId = ''node:a'',
      wo_to = \<lparr>tg_type = tt_node, tg_id = ''node:a''\<rparr>, wo_objective = ''o'', wo_scope = \<lparr>sc_included = [], sc_excluded = []\<rparr>,
      wo_input = JObject [], wo_expectedOutputSchema = JObject [], wo_successCriteria = [],
      wo_permissionScope = \<lparr>ps_allowedToolIds = [''mail'', ''shell''], ps_allowedSystemIds = [], ps_dataDomainIds = [], ps_riskLevel = None\<rparr>,
      wo_authorityScope = \<lparr>au_requiredAuthorityRuleIds = [], au_approvalRequired = False, au_approvedBy = None\<rparr>,
      wo_failureReportRequired = True, wo_delegationPath = [''node:a''], wo_createdAt = At_time 0\<rparr>"

definition sample_choice :: PlanChildDelegationInput where
  "sample_choice = \<lparr>pi_compiledTopologySnapshot = sample_snapshot, pi_parentWorkOrder = sample_order, pi_parentNodeId = None,
     pi_targetChildNodeIds = None, pi_maxDelegationDepth = None, pi_childObjectiveByNodeId = map_of [],
     pi_childInputByNodeId = map_of [], pi_childWorkOrderIdByNodeId = map_of [], pi_now = (\<lambda>n. 0)\<rparr>"

definition sample_limit :: "number option" where
  "sample_limit = Some (Num 1)"

definition sample_run :: "WorkOrder option" where
  "sample_run = run_steps (delegation_step sample_snapshot sample_limit) sample_order [(sample_choice, 0), (sample_choice, 0)]"

text \<open>With a limit of 1 the chain goes two levels down.\<close>

lemma sample_run_parts: "map_option (\<lambda>w. (wo_delegationPath w, ps_allowedToolIds (wo_permissionScope w))) sample_run =
    Some ([''node:a'', ''node:b'', ''node:c''], [''mail''])"
  by code_simp

lemma sample_end: "\<exists>w. run_steps (delegation_step sample_snapshot sample_limit) sample_order [(sample_choice, 0), (sample_choice, 0)] = Some w
    \<and> wo_delegationPath w = [''node:a'', ''node:b'', ''node:c''] \<and> ps_allowedToolIds (wo_permissionScope w) = [''mail'']"
  using sample_run_parts by (auto simp: sample_run_def)

lemma sample_snapshot_ok: "snapshot_ok sample_snapshot"
proof -
  have "nodeIndex sample_snapshot i = Some n \<Longrightarrow> cn_id n = i \<and> is_node_id i" for i n
    by (auto simp: sample_snapshot_def sample_node_def is_node_id_def split: if_splits)
  moreover have "\<not> direct_child sample_snapshot p p" for p
    by (auto simp: direct_child_def set_candidates sample_snapshot_def sample_node_def split: if_splits)
  ultimately show ?thesis
    by (simp add: snapshot_ok_def)
qed

lemma sample_addressed: "addressed sample_order" "is_node_id (tg_id (wo_to sample_order))"
  "wo_delegationPath sample_order = [tg_id (wo_to sample_order)]"
  by (code_simp, code_simp, code_simp)

lemma delegation_never_widens_witness:
  "\<exists>w. run_steps (delegation_step sample_snapshot sample_limit) sample_order [(sample_choice, 0), (sample_choice, 0)] = Some w
     \<and> wo_authorityScope w = wo_authorityScope sample_order"
  using sample_end delegation_never_widens [of sample_snapshot sample_limit sample_order "[(sample_choice, 0), (sample_choice, 0)]"]
  by blast

definition sample_contract :: NodeContract where
  "sample_contract = \<lparr>nc_id = ''node:c'', nc_name = ''c'', nc_children = [], nc_allowedToolIds = [''mail''], nc_allowedSystemIds = [],
     nc_failurePolicy = None, nc_recoveryPolicy = None\<rparr>"

definition sample_tools :: "WorkOrder \<Rightarrow> PlanNodeToolExecutionInput" where
  "sample_tools w = \<lparr>ti_compiledTopologySnapshot = sample_snapshot, ti_nodeContractSnapshot = sample_contract, ti_workOrder = w,
     ti_toolRequests = None, ti_defaultTimeoutMs = None, ti_dispatcherToolNameByToolId = map_of [],
     ti_approvalDecisionsByToolId = map_of [(''mail'', tool_approved)]\<rparr>"

lemma planned_tools_stay_allowed_witness:
  "\<exists>w. \<exists>call\<in>set (te_toolCalls (planNodeToolExecution (sample_tools w))). pt_toolId call = ''mail''
     \<and> ''mail'' \<in> set (ps_allowedToolIds (wo_permissionScope sample_order))"
proof -
  obtain w where w: "run_steps (delegation_step sample_snapshot sample_limit) sample_order [(sample_choice, 0), (sample_choice, 0)] = Some w"
    "ps_allowedToolIds (wo_permissionScope w) = [''mail'']"
    using sample_end by blast
  have "tool_admitted (sample_tools w) ''mail'' \<lparr>ct_id = ''mail'', ct_name = ''mail'', ct_toolType = write_tool, ct_systemId = None\<rparr>
      \<and> ''mail'' \<in> tool_requests (sample_tools w)"
    by (simp add: tool_admitted_def tool_requests_def sample_tools_def w(2) sample_snapshot_def sample_contract_def node_tools_def Let_def)
  then obtain call where call: "call \<in> set (te_toolCalls (planNodeToolExecution (sample_tools w)))" "pt_toolId call = ''mail''"
    using planned_tool_iff [of "sample_tools w" "''mail''"] by blast
  from planned_tools_stay_allowed [OF w(1) _ _ call(1)] call show ?thesis
    by (auto simp: sample_tools_def)
qed

lemma delegation_chain_bounded_witness: "int (1 + 2) \<le> normalizedMaxDelegationDepth sample_limit + 2"
proof -
  obtain w where "run_steps (delegation_step sample_snapshot sample_limit) sample_order [(sample_choice, 0), (sample_choice, 0)] = Some w"
    using sample_end by blast
  moreover have "length (filter is_node_id (wo_delegationPath sample_order)) = 1"
    by code_simp
  ultimately show ?thesis
    using delegation_chain_bounded [OF sample_snapshot_ok sample_addressed(1)] by fastforce
qed

lemma sample_planned: "map pw_childNodeId (dp_childWorkOrders (planChildDelegation
    (chain_input sample_snapshot sample_limit sample_order sample_choice))) = [''node:b'']"
  by code_simp

lemma entry_level_not_counted_witness:
  "\<exists>c\<in>set (dp_childWorkOrders (planChildDelegation (chain_input sample_snapshot sample_limit sample_order sample_choice))).
     pw_delegationDepth c = 1 \<and> calculateWorkOrderDelegationDepth (pw_workOrder c) = 0"
proof -
  obtain c where "c \<in> set (dp_childWorkOrders (planChildDelegation
      (chain_input sample_snapshot sample_limit sample_order sample_choice)))"
    using sample_planned by (metis list.set_intros(1) map_eq_Cons_conv)
  then show ?thesis
    using entry_level_not_counted [OF sample_snapshot_ok sample_addressed(2,3)] by blast
qed

end
