(* ===== verification/Topology_Compiler.thy ===== *)
theory Topology_Compiler
  imports Node_Delegation
begin

text \<open>
  The delegation graph of an enterprise topology: the checks that \<open>topology/validator.ts\<close> makes of it before
  a topology is compiled (no cycle, no chain longer than the limit) and the parts of the snapshot that
  \<open>topology/compiler.ts\<close> builds from it for the planner: the index of the nodes, the tree, the scope of every
  node and the tools and systems it may use. Of a topology only what these functions read is kept. Records of
  the sources that are looked up by id are association lists in the order of their keys.
\<close>

section \<open>Topologies\<close>

datatype EnterpriseEntityType =
    et_topology | et_topology_version | et_node | et_team | et_org_unit | et_position | et_person | et_membership
  | et_authority_rule | et_responsibility_matrix_entry | et_enterprise_system | et_enterprise_tool
  | et_process_definition | et_relation

datatype EnterpriseRelationType =
    reports_to | belongs_to | delegates_to | approves | owns | collaborates_with | escalates_to | informs
  | uses_system | uses_tool | has_access_to | depends_on | consults | accountable_for

record EnterpriseEntityRef =
  er_entityType :: EnterpriseEntityType
  er_id :: string

record EnterpriseRelation =
  rn_id :: string
  rn_relationType :: EnterpriseRelationType
  rn_from :: EnterpriseEntityRef
  rn_to :: EnterpriseEntityRef

record EnterpriseTopology =
  tp_nodes :: "NodeContract list"
  tp_tools :: "CompiledTool list"
  tp_systems :: "CompiledSystem list"
  tp_relations :: "EnterpriseRelation list"

definition node_ids :: "EnterpriseTopology \<Rightarrow> string list" where
  "node_ids t = js_set (map nc_id (tp_nodes t))"

definition of_key :: "(string \<times> 'a list) list \<Rightarrow> string \<Rightarrow> 'a list" where
  "of_key m k = nullish (map_of m k) []"

definition between_nodes :: "EnterpriseRelation \<Rightarrow> bool" where
  "between_nodes r \<longleftrightarrow> rn_relationType r = delegates_to \<and> er_entityType (rn_from r) = et_node \<and> er_entityType (rn_to r) = et_node"

section \<open>Validation of the delegation graph\<close>

text \<open>The place of an edge in the topology: child \<open>j\<close> of node \<open>i\<close>, or relation \<open>i\<close>.\<close>

datatype EdgePath = Child_at nat nat | Relation_at nat

record DelegationEdge =
  de_from :: string
  de_to :: string
  de_path :: EdgePath
  de_relationId :: "string option"

definition add_edge :: "(string \<times> DelegationEdge list) list \<Rightarrow> DelegationEdge \<Rightarrow> (string \<times> DelegationEdge list) list" where
  "add_edge adjacency e = AList.update (de_from e) (of_key adjacency (de_from e) @ [e]) adjacency"

definition child_edges :: "EnterpriseTopology \<Rightarrow> DelegationEdge list" where
  "child_edges t = concat (map (\<lambda>(i, node). map (\<lambda>(j, c).
     \<lparr>de_from = nc_id node, de_to = c, de_path = Child_at i j, de_relationId = None\<rparr>)
       (enumerate 0 (nc_children node))) (enumerate 0 (tp_nodes t)))"

definition relation_edges :: "EnterpriseTopology \<Rightarrow> DelegationEdge list" where
  "relation_edges t = map (\<lambda>(i, r). \<lparr>de_from = er_id (rn_from r), de_to = er_id (rn_to r), de_path = Relation_at i,
     de_relationId = Some (rn_id r)\<rparr>) (filter (\<lambda>(i, r). between_nodes r) (enumerate 0 (tp_relations t)))"

definition buildDelegationAdjacency :: "EnterpriseTopology \<Rightarrow> (string \<times> DelegationEdge list) list" where
  "buildDelegationAdjacency t = foldl add_edge [] (child_edges t @ relation_edges t)"

datatype GraphIssueCode = delegation_cycle | depth_exceeded

record GraphIssue =
  gi_code :: GraphIssueCode
  gi_edge :: DelegationEdge
  gi_key :: string

definition join_with :: "string \<Rightarrow> string list \<Rightarrow> string" where
  "join_with separator xs = (case xs of [] \<Rightarrow> [] | x # rest \<Rightarrow> x @ concat (map (\<lambda>y. separator @ y) rest))"

definition cycle_key :: "string list \<Rightarrow> string \<Rightarrow> string" where
  "cycle_key path target = join_with ''>'' (dropWhile (\<lambda>x. x \<noteq> target) path @ [target])"

definition report_once :: "GraphIssue \<Rightarrow> GraphIssue list \<Rightarrow> GraphIssue list" where
  "report_once issue issues = (if gi_key issue \<in> gi_key ` set issues then issues else issues @ [issue])"

lemma longer_path: "x \<in> set xs \<Longrightarrow> x \<notin> set path \<Longrightarrow> card (set xs - insert x (set path)) < card (set xs - set path)"
  by (intro psubset_card_mono) auto

text \<open>
  The loop of \<open>visit\<close> over the edges of the last node of \<open>path\<close>, whose nodes are those being visited. A node
  whose edges are done is added to the front of the visited ones.
\<close>

function visit_cycles :: "(string \<times> DelegationEdge list) list \<Rightarrow> string list \<Rightarrow> string list \<Rightarrow> DelegationEdge list
    \<Rightarrow> string list \<times> GraphIssue list \<Rightarrow> string list \<times> GraphIssue list" where
  "visit_cycles adjacency nodeIds path [] st = st"
| "visit_cycles adjacency nodeIds path (e # es) st =
     (if de_to e \<notin> set nodeIds then visit_cycles adjacency nodeIds path es st
      else if de_to e \<in> set path then
        visit_cycles adjacency nodeIds path es (fst st, report_once
          \<lparr>gi_code = delegation_cycle, gi_edge = e, gi_key = cycle_key path (de_to e)\<rparr> (snd st))
      else if de_to e \<in> set (fst st) then visit_cycles adjacency nodeIds path es st
      else (let (visited, issues) = visit_cycles adjacency nodeIds (path @ [de_to e]) (of_key adjacency (de_to e)) st
            in visit_cycles adjacency nodeIds path es (de_to e # visited, issues)))"
  by pat_completeness auto
termination
  by (relation "measures [\<lambda>(adjacency, nodeIds, path, es, st). card (set nodeIds - set path),
      \<lambda>(adjacency, nodeIds, path, es, st). length es]") (simp_all add: longer_path del: card_Diff_insert)

definition detectDelegationCycles :: "(string \<times> DelegationEdge list) list \<Rightarrow> string list \<Rightarrow> GraphIssue list" where
  "detectDelegationCycles adjacency nodeIds =
     snd (foldl (\<lambda>st x. if x \<in> set (fst st) then st
        else (let (visited, issues) = visit_cycles adjacency nodeIds [x] (of_key adjacency x) st in (x # visited, issues)))
       ([], []) nodeIds)"

fun edge_path_text :: "EdgePath \<Rightarrow> string" where
  "edge_path_text (Child_at i j) = ''$.nodes['' @ show_nat i @ ''].children['' @ show_nat j @ '']''"
| "edge_path_text (Relation_at i) = ''$.relations['' @ show_nat i @ '']''"

definition depth_key :: "DelegationEdge \<Rightarrow> nat \<Rightarrow> string" where
  "depth_key e depth = edge_path_text (de_path e) @ '':'' @ show_nat depth"

text \<open>The loop of \<open>visit\<close> over the edges of the last node of \<open>path\<close>.\<close>

function visit_depths :: "(string \<times> DelegationEdge list) list \<Rightarrow> string list \<Rightarrow> number \<Rightarrow> string list \<Rightarrow> DelegationEdge list
    \<Rightarrow> GraphIssue list \<Rightarrow> GraphIssue list" where
  "visit_depths adjacency nodeIds limit path [] issues = issues"
| "visit_depths adjacency nodeIds limit path (e # es) issues =
     (if de_to e \<notin> set nodeIds \<or> de_to e \<in> set path then visit_depths adjacency nodeIds limit path es issues
      else visit_depths adjacency nodeIds limit path es
        (visit_depths adjacency nodeIds limit (path @ [de_to e]) (of_key adjacency (de_to e))
          (if num_lt limit (Num (of_nat (length path)))
           then report_once \<lparr>gi_code = depth_exceeded, gi_edge = e, gi_key = depth_key e (length path)\<rparr> issues
           else issues)))"
  by pat_completeness auto
termination
  by (relation "measures [\<lambda>(adjacency, nodeIds, limit, path, es, issues). card (set nodeIds - set path),
      \<lambda>(adjacency, nodeIds, limit, path, es, issues). length es]") (simp_all add: longer_path del: card_Diff_insert)

definition detectDelegationDepthOverflow :: "(string \<times> DelegationEdge list) list \<Rightarrow> string list \<Rightarrow> number \<Rightarrow> GraphIssue list" where
  "detectDelegationDepthOverflow adjacency nodeIds limit =
     foldl (\<lambda>issues x. visit_depths adjacency nodeIds limit [x] (of_key adjacency x) issues) [] nodeIds"

text \<open>
  The issues of the graph alone. The rest of \<open>validateDelegationGraph\<close> looks up the targets of the edges among
  all entities, as the validation of references does for the same ids before.
\<close>

definition delegation_graph_issues :: "EnterpriseTopology \<Rightarrow> number \<Rightarrow> GraphIssue list" where
  "delegation_graph_issues t maxDelegationDepth =
     (let adjacency = buildDelegationAdjacency t in
      detectDelegationCycles adjacency (node_ids t)
      @ detectDelegationDepthOverflow adjacency (node_ids t) (num_max (Num 0) maxDelegationDepth))"

section \<open>The compiler\<close>

definition addUnique :: "'a list \<Rightarrow> 'a list \<Rightarrow> 'a list" where
  "addUnique values nextValues = foldl set_add values nextValues"

record DelegationGraph =
  dg_edges :: "(string \<times> string list) list"
  dg_parents :: "(string \<times> string list) list"

definition addDelegationEdge :: "DelegationGraph \<Rightarrow> string \<times> string \<Rightarrow> DelegationGraph" where
  "addDelegationEdge g pair =
     (let (parent, child) = pair in
      \<lparr>dg_edges = AList.update parent (addUnique (of_key (dg_edges g) parent) [child]) (dg_edges g),
       dg_parents = AList.update child (addUnique (of_key (dg_parents g) child) [parent]) (dg_parents g)\<rparr>)"

definition relation_pairs :: "EnterpriseTopology \<Rightarrow> (string \<times> string) list" where
  "relation_pairs t = map (\<lambda>r. (er_id (rn_from r), er_id (rn_to r))) (filter between_nodes (tp_relations t))"

definition children_pairs :: "EnterpriseTopology \<Rightarrow> (string \<times> string) list" where
  "children_pairs t = concat (map (\<lambda>node. map (\<lambda>c. (nc_id node, c)) (nc_children node)) (tp_nodes t))"

definition buildDelegationGraph :: "EnterpriseTopology \<Rightarrow> DelegationGraph" where
  "buildDelegationGraph t =
     (let none = map (\<lambda>x. (x, [])) (node_ids t)
      in foldl addDelegationEdge \<lparr>dg_edges = none, dg_parents = none\<rparr>
           (if relation_pairs t = [] then children_pairs t else relation_pairs t))"

record CompiledDelegationTree =
  dt_rootNodeIds :: "string list"
  dt_rootChildNodeIds :: "string list"
  dt_entryNodeId :: "string option"
  dt_exitNodeIds :: "string list"
  dt_edges :: "(string \<times> string list) list"
  dt_parents :: "(string \<times> string list) list"
  dt_incomingEdgeCountByNodeId :: "string \<rightharpoonup> nat"

definition buildCompiledDelegationTree :: "EnterpriseTopology \<Rightarrow> DelegationGraph \<Rightarrow> CompiledDelegationTree" where
  "buildCompiledDelegationTree t graph =
     (let nodeIds = map nc_id (tp_nodes t);
          childIds = js_set (concat (map snd (dg_edges graph)));
          rootNodeIds = filter (\<lambda>x. x \<notin> set childIds) nodeIds
      in \<lparr>dt_rootNodeIds = rootNodeIds, dt_rootChildNodeIds = rootNodeIds, dt_entryNodeId = None,
          dt_exitNodeIds = filter (\<lambda>x. of_key (dg_edges graph) x = []) nodeIds,
          dt_edges = dg_edges graph, dt_parents = dg_parents graph,
          dt_incomingEdgeCountByNodeId = map_of (map (\<lambda>x. (x, length (of_key (dg_parents graph) x))) nodeIds)\<rparr>)"

text \<open>The loop over the queue; \<open>descendants\<close> are the visited nodes in order.\<close>

function collect_loop :: "(string \<times> string list) list \<Rightarrow> string list \<Rightarrow> nat \<Rightarrow> (string \<times> nat) list \<Rightarrow> string list \<times> nat" where
  "collect_loop edges descendants maxDepth [] = (descendants, maxDepth)"
| "collect_loop edges descendants maxDepth ((x, depth) # queue) =
     (if x \<in> set descendants then collect_loop edges descendants maxDepth queue
      else collect_loop edges (descendants @ [x]) (max maxDepth depth)
        (queue @ map (\<lambda>c. (c, depth + 1)) (of_key edges x)))"
  by pat_completeness auto

lemma of_key_subset: "set (of_key m k) \<subseteq> \<Union> (set ` snd ` set m)"
proof (cases "map_of m k")
  case (Some xs)
  then have "(k, xs) \<in> set m" by (rule map_of_SomeD)
  with Some show ?thesis by (force simp: of_key_def)
qed (simp add: of_key_def)

termination collect_loop
proof (relation "inv_image (finite_psubset <*lex*> less_than) (\<lambda>(edges, descendants, maxDepth, queue).
    (\<Union> (set ` snd ` set edges) \<union> fst ` set queue - set descendants, length queue))", goal_cases)
  case 1
  show ?case by (intro wf_inv_image wf_lex_prod wf_finite_psubset wf_less_than)
next
  case (2 edges descendants maxDepth x depth queue)
  then have "\<Union> (set ` snd ` set edges) \<union> fst ` set ((x, depth) # queue) - set descendants
      = \<Union> (set ` snd ` set edges) \<union> fst ` set queue - set descendants"
    by auto
  then show ?case by simp
next
  case (3 edges descendants maxDepth x depth queue)
  let ?U = "\<Union> (set ` snd ` set edges)"
  have "?U \<union> fst ` set (queue @ map (\<lambda>c. (c, depth + 1)) (of_key edges x)) = ?U \<union> fst ` set queue"
    using of_key_subset [of edges x] by (auto simp: image_image)
  then have "?U \<union> fst ` set (queue @ map (\<lambda>c. (c, depth + 1)) (of_key edges x)) - set (descendants @ [x])
      \<subset> ?U \<union> fst ` set ((x, depth) # queue) - set descendants"
    using 3 by auto
  then show ?case by (simp add: finite_psubset_def)
qed

definition collectDescendants :: "string \<Rightarrow> (string \<times> string list) list \<Rightarrow> string list \<times> nat" where
  "collectDescendants nodeId edges = collect_loop edges [] 0 (map (\<lambda>c. (c, 1)) (of_key edges nodeId))"

text \<open>\<open>Object.fromEntries\<close> keeps the last entry of an id.\<close>

definition from_entries :: "('a \<Rightarrow> string) \<Rightarrow> ('a \<Rightarrow> 'b) \<Rightarrow> 'a list \<Rightarrow> (string \<rightharpoonup> 'b)" where
  "from_entries key value xs = map_of (rev (map (\<lambda>x. (key x, value x)) xs))"

definition buildDelegationScopeMap :: "EnterpriseTopology \<Rightarrow> CompiledDelegationTree \<Rightarrow> (string \<rightharpoonup> CompiledDelegationScope)" where
  "buildDelegationScopeMap t tree = from_entries nc_id (\<lambda>node.
     let (descendants, depth) = collectDescendants (nc_id node) (dt_edges tree)
     in \<lparr>ds_nodeId = nc_id node, ds_directChildNodeIds = of_key (dt_edges tree) (nc_id node),
         ds_descendantNodeIds = descendants, ds_maxDepth = depth\<rparr>) (tp_nodes t)"

definition buildNodeIndex :: "EnterpriseTopology \<Rightarrow> CompiledDelegationTree \<Rightarrow> (string \<rightharpoonup> CompiledNode)" where
  "buildNodeIndex t tree = from_entries nc_id (\<lambda>node.
     \<lparr>cn_id = nc_id node, cn_name = nc_name node, cn_parentNodeIds = of_key (dt_parents tree) (nc_id node),
      cn_childNodeIds = of_key (dt_edges tree) (nc_id node), cn_allowedToolIds = nc_allowedToolIds node,
      cn_allowedSystemIds = nc_allowedSystemIds node\<rparr>) (tp_nodes t)"

text \<open>
  Of the builders of \<open>buildToolScopeIndex\<close> a relation changes only the one of the node it starts from, so the
  builder of a node is what the relations that start from it add, in their order.
\<close>

record ToolScopeBuilder =
  tb_declaredToolIds :: "string list"
  tb_declaredSystemIds :: "string list"
  tb_backingSystemIds :: "string list"
  tb_toolRelationIds :: "string list"
  tb_systemRelationIds :: "string list"

definition add_relation :: "EnterpriseTopology \<Rightarrow> ToolScopeBuilder \<Rightarrow> EnterpriseRelation \<Rightarrow> ToolScopeBuilder" where
  "add_relation t b r =
     (let to = er_id (rn_to r); kind = er_entityType (rn_to r); relation = rn_relationType r;
          backing = (case from_entries ct_id (\<lambda>x. x) (tp_tools t) to of None \<Rightarrow> None | Some tool \<Rightarrow> ct_systemId tool)
      in if kind = et_enterprise_tool \<and> (relation = uses_tool \<or> relation = has_access_to) then
           b\<lparr>tb_declaredToolIds := set_add (tb_declaredToolIds b) to, tb_toolRelationIds := set_add (tb_toolRelationIds b) (rn_id r),
             tb_backingSystemIds := (if relation = uses_tool \<and> backing \<noteq> None then set_add (tb_backingSystemIds b) (the backing)
               else tb_backingSystemIds b)\<rparr>
         else if kind = et_enterprise_system \<and> (relation = uses_system \<or> relation = has_access_to) then
           b\<lparr>tb_declaredSystemIds := set_add (tb_declaredSystemIds b) to,
             tb_systemRelationIds := set_add (tb_systemRelationIds b) (rn_id r)\<rparr>
         else b)"

definition scope_builder :: "EnterpriseTopology \<Rightarrow> string \<Rightarrow> ToolScopeBuilder" where
  "scope_builder t nodeId = foldl (add_relation t)
     \<lparr>tb_declaredToolIds = [], tb_declaredSystemIds = [], tb_backingSystemIds = [], tb_toolRelationIds = [], tb_systemRelationIds = []\<rparr>
     (filter (\<lambda>r. er_entityType (rn_from r) = et_node \<and> er_id (rn_from r) = nodeId) (tp_relations t))"

definition domains_of :: "EnterpriseTopology \<Rightarrow> string list \<Rightarrow> string list" where
  "domains_of t systemIds =
     foldl (\<lambda>domains systemId. case from_entries cs_id (\<lambda>x. x) (tp_systems t) systemId of
         None \<Rightarrow> domains | Some system \<Rightarrow> addUnique domains (cs_dataDomainIds system)) [] systemIds"

definition node_tool_scope :: "EnterpriseTopology \<Rightarrow> NodeContract \<Rightarrow> CompiledToolScope" where
  "node_tool_scope t node =
     (let b = scope_builder t (nc_id node);
          allDeclared = addUnique (tb_declaredSystemIds b) (tb_backingSystemIds b);
          effectiveSystems = filter (\<lambda>x. x \<in> set allDeclared) (nc_allowedSystemIds node)
      in \<lparr>ts_nodeId = nc_id node, ts_allowedToolIds = nc_allowedToolIds node, ts_declaredToolIds = tb_declaredToolIds b,
          ts_effectiveToolIds = filter (\<lambda>x. x \<in> set (tb_declaredToolIds b)) (nc_allowedToolIds node),
          ts_allowedSystemIds = nc_allowedSystemIds node, ts_declaredSystemIds = tb_declaredSystemIds b,
          ts_backingSystemIds = tb_backingSystemIds b, ts_effectiveSystemIds = effectiveSystems,
          ts_declaredDataDomainIds = domains_of t allDeclared, ts_effectiveDataDomainIds = domains_of t effectiveSystems,
          ts_toolRelationIds = tb_toolRelationIds b, ts_systemRelationIds = tb_systemRelationIds b\<rparr>)"

definition buildToolScopeIndex :: "EnterpriseTopology \<Rightarrow> (string \<rightharpoonup> CompiledToolScope)" where
  "buildToolScopeIndex t = from_entries nc_id (node_tool_scope t) (tp_nodes t)"

text \<open>The parts of the snapshot that planning reads, compiled when the validation found nothing to block it.\<close>

definition compiled_snapshot :: "EnterpriseTopology \<Rightarrow> CompiledTopologySnapshot" where
  "compiled_snapshot t =
     (let tree = buildCompiledDelegationTree t (buildDelegationGraph t)
      in \<lparr>nodeIndex = buildNodeIndex t tree, toolIndex = from_entries ct_id (\<lambda>x. x) (tp_tools t),
          systemIndex = from_entries cs_id (\<lambda>x. x) (tp_systems t), treeEdges = map_of (dt_edges tree),
          delegationScopeMap = buildDelegationScopeMap t tree, toolScopeIndex = buildToolScopeIndex t\<rparr>)"

section \<open>The edges of the graph\<close>

lemma of_key_update [simp]: "of_key (AList.update k v m) k' = (if k' = k then v else of_key m k')"
  by (simp add: of_key_def update_conv')

lemma of_key_Nil [simp]: "of_key [] k = []"
  by (simp add: of_key_def)

lemma of_key_unused [simp]: "of_key (map (\<lambda>x. (x, [])) xs) k = []"
  by (induction xs) (auto simp: of_key_def)

lemma set_addUnique [simp]: "set (addUnique xs ys) = set xs \<union> set ys"
  by (simp add: addUnique_def set_foldl_set_add)

lemma distinct_addUnique [simp]: "distinct xs \<Longrightarrow> distinct (addUnique xs ys)"
  by (simp add: addUnique_def distinct_foldl_set_add)

lemma folded_edges: "of_key (foldl add_edge m es) k = of_key m k @ filter (\<lambda>e. de_from e = k) es"
  by (induction es arbitrary: m) (auto simp: add_edge_def)

lemma adjacency_of: "of_key (buildDelegationAdjacency t) k = filter (\<lambda>e. de_from e = k) (child_edges t @ relation_edges t)"
  by (simp add: buildDelegationAdjacency_def folded_edges)

lemma folded_graph:
  "set (of_key (dg_edges (foldl addDelegationEdge g ps)) k) = set (of_key (dg_edges g) k) \<union> {c. (k, c) \<in> set ps}"
  "set (of_key (dg_parents (foldl addDelegationEdge g ps)) k) = set (of_key (dg_parents g) k) \<union> {p. (p, k) \<in> set ps}"
  by (induction ps arbitrary: g) (auto simp: addDelegationEdge_def split: prod.splits)

lemma folded_distinct: "(\<And>k. distinct (of_key (dg_edges g) k)) \<Longrightarrow> distinct (of_key (dg_edges (foldl addDelegationEdge g ps)) k)"
  by (induction ps arbitrary: g) (auto simp: addDelegationEdge_def split: prod.splits)

definition delegation_pairs :: "EnterpriseTopology \<Rightarrow> (string \<times> string) list" where
  "delegation_pairs t = (if relation_pairs t = [] then children_pairs t else relation_pairs t)"

lemma compiled_edges:
  "set (of_key (dg_edges (buildDelegationGraph t)) k) = {c. (k, c) \<in> set (delegation_pairs t)}"
  "set (of_key (dg_parents (buildDelegationGraph t)) k) = {p. (p, k) \<in> set (delegation_pairs t)}"
  by (auto simp: buildDelegationGraph_def Let_def folded_graph delegation_pairs_def)

lemma compiled_distinct: "distinct (of_key (dg_edges (buildDelegationGraph t)) k)"
  unfolding buildDelegationGraph_def Let_def by (rule folded_distinct) simp

lemma image_enumerate: "(\<lambda>(i, x). f x) ` set (enumerate n xs) = f ` set xs"
  by (induction xs arbitrary: n) auto

lemma filter_enumerate: "snd ` set (filter (\<lambda>(i, x). P x) (enumerate n xs)) = set (filter P xs)"
  by (induction xs arbitrary: n) auto

lemma edge_pairs: "(\<lambda>e. (de_from e, de_to e)) ` set (child_edges t @ relation_edges t) = set (children_pairs t) \<union> set (relation_pairs t)"
proof -
  have "(\<lambda>e. (de_from e, de_to e)) ` set (child_edges t) = set (children_pairs t)"
  proof -
    have "(\<lambda>e. (de_from e, de_to e)) ` set (child_edges t) =
        (\<Union>(i, node)\<in>set (enumerate 0 (tp_nodes t)). (\<lambda>(j, c). (nc_id node, c)) ` set (enumerate 0 (nc_children node)))"
      by (force simp: child_edges_def)
    also have "\<dots> = \<Union> ((\<lambda>(i, node). Pair (nc_id node) ` set (nc_children node)) ` set (enumerate 0 (tp_nodes t)))"
      by (simp add: image_enumerate)
    also have "\<dots> = set (children_pairs t)"
      unfolding image_enumerate by (auto simp: children_pairs_def)
    finally show ?thesis .
  qed
  moreover have "(\<lambda>e. (de_from e, de_to e)) ` set (relation_edges t) = set (relation_pairs t)"
  proof -
    have "(\<lambda>e. (de_from e, de_to e)) ` set (relation_edges t) = (\<lambda>r. (er_id (rn_from r), er_id (rn_to r))) `
        snd ` set (filter (\<lambda>(i, r). between_nodes r) (enumerate 0 (tp_relations t)))"
      by (simp add: relation_edges_def image_image case_prod_unfold del: set_filter)
    then show ?thesis
      by (simp add: filter_enumerate relation_pairs_def del: set_filter)
  qed
  ultimately show ?thesis
    by (simp add: image_Un)
qed

text \<open>The delegation graph that the validation looks at.\<close>

definition graph_of :: "(string \<times> DelegationEdge list) list \<Rightarrow> string list \<Rightarrow> (string \<times> string) set" where
  "graph_of adjacency nodeIds = {(x, de_to e) | x e. x \<in> set nodeIds \<and> e \<in> set (of_key adjacency x) \<and> de_to e \<in> set nodeIds}"

definition delegation_graph :: "EnterpriseTopology \<Rightarrow> (string \<times> string) set" where
  "delegation_graph t = (set (children_pairs t) \<union> set (relation_pairs t)) \<inter> nc_id ` set (tp_nodes t) \<times> nc_id ` set (tp_nodes t)"

lemma set_node_ids [simp]: "set (node_ids t) = nc_id ` set (tp_nodes t)"
  by (simp add: node_ids_def)

lemma validated_graph: "graph_of (buildDelegationAdjacency t) (node_ids t) = delegation_graph t"
proof -
  have "(x, y) \<in> graph_of (buildDelegationAdjacency t) (node_ids t) \<longleftrightarrow>
      x \<in> set (node_ids t) \<and> y \<in> set (node_ids t) \<and> (x, y) \<in> (\<lambda>e. (de_from e, de_to e)) ` set (child_edges t @ relation_edges t)" for x y
    unfolding graph_of_def adjacency_of image_def set_filter by fastforce
  then show ?thesis
    unfolding edge_pairs by (auto simp: delegation_graph_def)
qed

section \<open>Cycles are found\<close>

lemma report_once_nonempty [simp]: "report_once issue issues \<noteq> []"
  by (auto simp: report_once_def)

lemma report_once_mono: "set issues \<subseteq> set (report_once issue issues)"
  by (auto simp: report_once_def)

lemma visit_cycles_step: "visit_cycles adj N path (e # es) st =
     (if de_to e \<notin> set N then visit_cycles adj N path es st
      else if de_to e \<in> set path then
        visit_cycles adj N path es (fst st, report_once
          \<lparr>gi_code = delegation_cycle, gi_edge = e, gi_key = cycle_key path (de_to e)\<rparr> (snd st))
      else if de_to e \<in> set (fst st) then visit_cycles adj N path es st
      else visit_cycles adj N path es
        (de_to e # fst (visit_cycles adj N (path @ [de_to e]) (of_key adj (de_to e)) st),
         snd (visit_cycles adj N (path @ [de_to e]) (of_key adj (de_to e)) st)))"
  by (simp split: prod.splits)

lemma visit_unknown: "de_to e \<notin> set N \<Longrightarrow> visit_cycles adj N path (e # es) st = visit_cycles adj N path es st"
  and visit_finished: "de_to e \<notin> set path \<Longrightarrow> de_to e \<in> set (fst st) \<Longrightarrow> visit_cycles adj N path (e # es) st = visit_cycles adj N path es st"
  and visit_cycle: "de_to e \<in> set N \<Longrightarrow> de_to e \<in> set path \<Longrightarrow> visit_cycles adj N path (e # es) st =
    visit_cycles adj N path es (fst st, report_once
      \<lparr>gi_code = delegation_cycle, gi_edge = e, gi_key = cycle_key path (de_to e)\<rparr> (snd st))"
  and visit_new: "de_to e \<in> set N \<Longrightarrow> de_to e \<notin> set path \<Longrightarrow> de_to e \<notin> set (fst st) \<Longrightarrow> visit_cycles adj N path (e # es) st =
    visit_cycles adj N path es
      (de_to e # fst (visit_cycles adj N (path @ [de_to e]) (of_key adj (de_to e)) st),
       snd (visit_cycles adj N (path @ [de_to e]) (of_key adj (de_to e)) st))"
  unfolding visit_cycles_step by simp_all

text \<open>Induction along the search, with one case for each kind of edge.\<close>

lemma visit_cycles_rule [case_names Nil unknown cycle finished new]:
  fixes P :: "string list \<Rightarrow> DelegationEdge list \<Rightarrow> string list \<times> GraphIssue list \<Rightarrow> bool"
  assumes "\<And>path st. P path [] st"
    and "\<And>path e es st. de_to e \<notin> set N \<Longrightarrow> P path es st \<Longrightarrow> P path (e # es) st"
    and "\<And>path e es st. de_to e \<in> set N \<Longrightarrow> de_to e \<in> set path \<Longrightarrow> P path es (fst st, report_once
        \<lparr>gi_code = delegation_cycle, gi_edge = e, gi_key = cycle_key path (de_to e)\<rparr> (snd st)) \<Longrightarrow> P path (e # es) st"
    and "\<And>path e es st. de_to e \<in> set N \<Longrightarrow> de_to e \<notin> set path \<Longrightarrow> de_to e \<in> set (fst st) \<Longrightarrow> P path es st \<Longrightarrow> P path (e # es) st"
    and "\<And>path e es st. de_to e \<in> set N \<Longrightarrow> de_to e \<notin> set path \<Longrightarrow> de_to e \<notin> set (fst st)
      \<Longrightarrow> P (path @ [de_to e]) (of_key adj (de_to e)) st
      \<Longrightarrow> P path es (de_to e # fst (visit_cycles adj N (path @ [de_to e]) (of_key adj (de_to e)) st),
            snd (visit_cycles adj N (path @ [de_to e]) (of_key adj (de_to e)) st)) \<Longrightarrow> P path (e # es) st"
  shows "P path es st"
  using assms
proof (induction adj N path es st rule: visit_cycles.induct)
  case (2 adj N path e es st)
  note rules = "2.prems"
  consider "de_to e \<notin> set N" | "de_to e \<in> set N" "de_to e \<in> set path"
    | "de_to e \<in> set N" "de_to e \<notin> set path" "de_to e \<in> set (fst st)"
    | "de_to e \<in> set N" "de_to e \<notin> set path" "de_to e \<notin> set (fst st)"
    by blast
  then show ?case
  proof cases
    case 1
    show ?thesis
      by (rule rules(2) [OF 1]) (rule "2.IH"(1) [OF 1 rules])
  next
    case 2
    show ?thesis
      by (rule rules(3) [OF 2]) (rule "2.IH"(2) [OF _ 2(2) rules], use 2 in simp)
  next
    case 3
    show ?thesis
      by (rule rules(4) [OF 3]) (rule "2.IH"(3) [OF _ 3(2,3) rules], use 3 in simp)
  next
    case 4
    show ?thesis
    proof (rule rules(5) [OF 4])
      show "P (path @ [de_to e]) (of_key adj (de_to e)) st"
        by (rule "2.IH"(4) [OF _ 4(2,3) rules]) (use 4 in simp)
      show "P path es (de_to e # fst (visit_cycles adj N (path @ [de_to e]) (of_key adj (de_to e)) st),
            snd (visit_cycles adj N (path @ [de_to e]) (of_key adj (de_to e)) st))"
        by (rule "2.IH"(5) [OF _ 4(2,3) refl _ rules]) (use 4 in simp_all)
    qed
  qed
qed

lemma visit_cycles_mono: "snd (visit_cycles adj N path es st) = [] \<Longrightarrow> snd st = []"
  by (induction path es st rule: visit_cycles_rule [where N = N and adj = adj])
    (simp_all add: visit_cycles_step del: visit_cycles.simps(2))

text \<open>An issue is only reported for a cycle.\<close>

lemma visit_cycles_sound:
  assumes "snd (visit_cycles adj N path es st) \<noteq> snd st"
    and "path \<noteq> []" "set path \<subseteq> set N" "set es \<subseteq> set (of_key adj (last path))"
    and "\<forall>y\<in>set path. (y, last path) \<in> (graph_of adj N)\<^sup>*"
  shows "\<exists>x. (x, x) \<in> (graph_of adj N)\<^sup>+"
  using assms
proof (induction path es st rule: visit_cycles_rule [where N = N and adj = adj])
  case (cycle path e es st)
  have "last path \<in> set N" "e \<in> set (of_key adj (last path))"
    using cycle.prems(2-4) by auto
  then have "(last path, de_to e) \<in> graph_of adj N"
    using cycle(1) by (auto simp: graph_of_def)
  moreover have "(de_to e, last path) \<in> (graph_of adj N)\<^sup>*"
    using cycle.prems(5) cycle(2) by blast
  ultimately show ?case
    by (blast intro: rtrancl_into_trancl1)
next
  case (new path e es st)
  let ?inner = "visit_cycles adj N (path @ [de_to e]) (of_key adj (de_to e)) st"
  have "last path \<in> set N" "e \<in> set (of_key adj (last path))"
    using new.prems(2-4) by auto
  then have edge: "(last path, de_to e) \<in> graph_of adj N"
    using new(1) by (auto simp: graph_of_def)
  show ?case
  proof (cases "snd ?inner = snd st")
    case True
    then have "snd (visit_cycles adj N path es (de_to e # fst ?inner, snd ?inner)) \<noteq> snd (de_to e # fst ?inner, snd ?inner)"
      using new.prems(1) new(1-3) by (metis snd_conv visit_new)
    then show ?thesis
      using new.IH(2) new.prems(2-5) by simp
  next
    case False
    have "\<forall>y\<in>set (path @ [de_to e]). (y, last (path @ [de_to e])) \<in> (graph_of adj N)\<^sup>*"
      using new.prems(5) edge by (auto intro: rtrancl_into_rtrancl)
    then show ?thesis
      using new.IH(1) new(1) new.prems(2,3) False by simp
  qed
next
  case (unknown path e es st)
  have "set es \<subseteq> set (of_key adj (last path))"
    using unknown.prems(4) by simp
  from unknown.IH [OF _ unknown.prems(2,3) this unknown.prems(5)] unknown.prems(1) show ?case
    unfolding visit_unknown [OF unknown(1)] by blast
next
  case (finished path e es st)
  have "set es \<subseteq> set (of_key adj (last path))"
    using finished.prems(4) by simp
  from finished.IH [OF _ finished.prems(2,3) this finished.prems(5)] finished.prems(1) show ?case
    unfolding visit_finished [OF finished(2,3)] by blast
qed simp

text \<open>
  A visited list, newest first, in which every node comes after all its successors, has no cycle; without an
  issue the search keeps its visited list like that.
\<close>

primrec finished :: "(string \<times> string) set \<Rightarrow> string list \<Rightarrow> bool" where
  "finished G [] = True"
| "finished G (x # older) \<longleftrightarrow> G `` {x} \<subseteq> set older \<and> finished G older"

lemma finished_closed: "(u, v) \<in> G\<^sup>+ \<Longrightarrow> finished G xs \<Longrightarrow> u \<in> set xs \<Longrightarrow> v \<in> set xs"
proof (induction rule: trancl_induct)
  case (base y)
  then show ?case by (induction xs) auto
next
  case (step y z)
  then have "y \<in> set xs" "finished G xs" by auto
  with step(2) show ?case by (induction xs) auto
qed

lemma finished_acyclic: "finished G xs \<Longrightarrow> x \<in> set xs \<Longrightarrow> (x, x) \<notin> G\<^sup>+"
proof (induction xs)
  case (Cons y older)
  show ?case
  proof (cases "x \<in> set older")
    case False
    then have "x = y" "G `` {x} \<subseteq> set older" "finished G older"
      using Cons.prems by auto
    then show ?thesis
      using False finished_closed [of _ x G older] by (metis Image_singleton_iff subsetD tranclD rtranclD)
  qed (use Cons in auto)
qed simp

lemma visit_cycles_complete:
  assumes "snd (visit_cycles adj N path es st) = []"
    and "path \<noteq> []" "set path \<subseteq> set N" "set path \<inter> set (fst st) = {}" "finished (graph_of adj N) (fst st)"
  shows "finished (graph_of adj N) (fst (visit_cycles adj N path es st))
    \<and> set (fst st) \<subseteq> set (fst (visit_cycles adj N path es st))
    \<and> set path \<inter> set (fst (visit_cycles adj N path es st)) = {}
    \<and> (\<forall>e\<in>set es. de_to e \<in> set N \<longrightarrow> de_to e \<in> set (fst (visit_cycles adj N path es st)))"
  using assms
proof (induction path es st rule: visit_cycles_rule [where N = N and adj = adj])
  case (cycle path e es st)
  then show ?case
    unfolding visit_cycle [OF cycle(1,2)] by (metis report_once_nonempty snd_conv visit_cycles_mono)
next
  case (new path e es st)
  let ?inner = "visit_cycles adj N (path @ [de_to e]) (of_key adj (de_to e)) st"
  have step: "visit_cycles adj N path (e # es) st = visit_cycles adj N path es (de_to e # fst ?inner, snd ?inner)"
    using new(1-3) by (simp add: visit_cycles_step del: visit_cycles.simps(2))
  then have "snd ?inner = []"
    using new.prems(1) by (auto dest: visit_cycles_mono)
  then have inner: "finished (graph_of adj N) (fst ?inner) \<and> set (fst st) \<subseteq> set (fst ?inner)
      \<and> set (path @ [de_to e]) \<inter> set (fst ?inner) = {}
      \<and> (\<forall>e'\<in>set (of_key adj (de_to e)). de_to e' \<in> set N \<longrightarrow> de_to e' \<in> set (fst ?inner))"
    using new(1-4) new.prems(2-5) by auto
  then have "graph_of adj N `` {de_to e} \<subseteq> set (fst ?inner)"
    by (auto simp: graph_of_def)
  then have "finished (graph_of adj N) (de_to e # fst ?inner)" "set path \<inter> set (de_to e # fst ?inner) = {}"
    using inner new(2) by auto
  then show ?case
    using new.IH(2) new.prems(1-3) inner unfolding step by auto
next
  case (unknown path e es st)
  then show ?case
    unfolding visit_unknown [OF unknown(1)] by auto
next
  case (finished path e es st)
  then have "finished (graph_of adj N) (fst (visit_cycles adj N path es st))
    \<and> set (fst st) \<subseteq> set (fst (visit_cycles adj N path es st))
    \<and> set path \<inter> set (fst (visit_cycles adj N path es st)) = {}
    \<and> (\<forall>e\<in>set es. de_to e \<in> set N \<longrightarrow> de_to e \<in> set (fst (visit_cycles adj N path es st)))"
    unfolding visit_finished [OF finished(2,3)] by blast
  then show ?case
    unfolding visit_finished [OF finished(2,3)] using finished(3) by auto
qed simp

definition start_search :: "(string \<times> DelegationEdge list) list \<Rightarrow> string list \<Rightarrow> string list \<times> GraphIssue list \<Rightarrow> string
    \<Rightarrow> string list \<times> GraphIssue list" where
  "start_search adj N st x =
     (if x \<in> set (fst st) then st
      else (x # fst (visit_cycles adj N [x] (of_key adj x) st), snd (visit_cycles adj N [x] (of_key adj x) st)))"

lemma detect_searches: "detectDelegationCycles adj N = snd (foldl (start_search adj N) ([], []) N)"
proof -
  have "start_search adj N = (\<lambda>st x. if x \<in> set (fst st) then st
        else (let (visited, issues) = visit_cycles adj N [x] (of_key adj x) st in (x # visited, issues)))"
    by (intro ext) (simp add: start_search_def split: prod.splits)
  then show ?thesis
    by (simp add: detectDelegationCycles_def)
qed

lemma searches_mono: "snd (foldl (start_search adj N) st xs) = [] \<Longrightarrow> snd st = []"
proof (induction xs arbitrary: st)
  case (Cons x xs)
  then have "snd (start_search adj N st x) = []"
    unfolding foldl.simps by blast
  then show ?case
    by (auto simp: start_search_def dest: visit_cycles_mono split: if_splits)
qed simp

lemma searches_sound:
  assumes "snd (foldl (start_search adj N) st xs) \<noteq> snd st" "set xs \<subseteq> set N"
  shows "\<exists>x. (x, x) \<in> (graph_of adj N)\<^sup>+"
  using assms
proof (induction xs arbitrary: st)
  case (Cons x xs)
  show ?case
  proof (cases "snd (start_search adj N st x) = snd st")
    case True
    then show ?thesis
      using Cons.IH [of "start_search adj N st x"] Cons.prems by simp
  next
    case False
    then show ?thesis
      using visit_cycles_sound [of adj N "[x]" "of_key adj x" st] Cons.prems(2)
      by (auto simp: start_search_def split: if_splits)
  qed
qed simp

lemma searches_complete:
  assumes "snd (foldl (start_search adj N) st xs) = []" "set xs \<subseteq> set N" "finished (graph_of adj N) (fst st)"
  shows "finished (graph_of adj N) (fst (foldl (start_search adj N) st xs))
    \<and> set (fst st) \<union> set xs \<subseteq> set (fst (foldl (start_search adj N) st xs))"
  using assms
proof (induction xs arbitrary: st)
  case (Cons x xs)
  have none: "snd (start_search adj N st x) = []"
    using Cons.prems(1) by (auto dest: searches_mono)
  have "finished (graph_of adj N) (fst (start_search adj N st x)) \<and> insert x (set (fst st)) \<subseteq> set (fst (start_search adj N st x))"
  proof (cases "x \<in> set (fst st)")
    case False
    then show ?thesis
      using none visit_cycles_complete [of adj N "[x]" "of_key adj x" st] Cons.prems(2,3)
      by (auto simp: start_search_def graph_of_def)
  qed (use Cons.prems(3) in \<open>simp add: start_search_def\<close>)
  then show ?case
    using Cons.IH [of "start_search adj N st x"] Cons.prems(1,2) by auto
qed simp

lemma no_cycle_iff: "detectDelegationCycles adj N = [] \<longleftrightarrow> acyclic (graph_of adj N)"
proof
  assume "detectDelegationCycles adj N = []"
  then have fin: "finished (graph_of adj N) (fst (foldl (start_search adj N) ([], []) N))"
    and all: "set N \<subseteq> set (fst (foldl (start_search adj N) ([], []) N))"
    unfolding detect_searches using searches_complete [of adj N "([], [])" N] by auto
  have "(x, x) \<notin> (graph_of adj N)\<^sup>+" for x
  proof
    assume cyc: "(x, x) \<in> (graph_of adj N)\<^sup>+"
    then have "x \<in> set N"
      by (auto dest!: tranclD simp: graph_of_def)
    then show False
      using cyc all finished_acyclic [OF fin] by blast
  qed
  then show "acyclic (graph_of adj N)"
    by (simp add: acyclic_def)
next
  assume "acyclic (graph_of adj N)"
  then show "detectDelegationCycles adj N = []"
    unfolding detect_searches using searches_sound [of adj N "([], [])" N] by (auto simp: acyclic_def)
qed

section \<open>Long chains are found\<close>

text \<open>A chain of delegations that visits no node twice.\<close>

definition simple_chain :: "(string \<times> string) set \<Rightarrow> string list \<Rightarrow> bool" where
  "simple_chain G p \<longleftrightarrow> p \<noteq> [] \<and> distinct p \<and> successively (\<lambda>u v. (u, v) \<in> G) p"

definition within_limit :: "number \<Rightarrow> string list \<Rightarrow> bool" where
  "within_limit limit p \<longleftrightarrow> \<not> num_lt limit (Num (of_nat (length p - 1)))"

lemma visit_depths_iff:
  assumes "simple_chain (graph_of adj N) path" "set path \<subseteq> set N" "set es \<subseteq> set (of_key adj (last path))"
  shows "visit_depths adj N limit path es issues = [] \<longleftrightarrow> issues = []
    \<and> (\<forall>q. q \<noteq> [] \<longrightarrow> hd q \<in> de_to ` set es \<longrightarrow> simple_chain (graph_of adj N) (path @ q) \<longrightarrow> within_limit limit (path @ q))"
  using assms
proof (induction adj N limit path es issues rule: visit_depths.induct)
  case (2 adj N limit path e es issues)
  let ?G = "graph_of adj N"
  let ?long = "\<lambda>es path. \<forall>q. q \<noteq> [] \<longrightarrow> hd q \<in> de_to ` set es \<longrightarrow> simple_chain ?G (path @ q) \<longrightarrow> within_limit limit (path @ q)"
  have split: "?long (e # es) path \<longleftrightarrow> ?long [e] path \<and> ?long es path"
    by auto
  show ?case
  proof (cases "de_to e \<notin> set N \<or> de_to e \<in> set path")
    case True
    have "?long [e] path"
    proof (intro allI impI)
      fix q assume q: "q \<noteq> []" "hd q \<in> de_to ` set [e]" "simple_chain ?G (path @ q)"
      then obtain rest where "q = de_to e # rest"
        by (cases q) auto
      with q(3) have "(last path, de_to e) \<in> ?G" "de_to e \<notin> set path"
        using 2(4) by (auto simp: simple_chain_def successively_append_iff)
      with True show "within_limit limit (path @ q)"
        by (auto simp: graph_of_def)
    qed
    then show ?thesis
      using 2(1) [OF True] 2(4-6) True split by auto
  next
    case False
    let ?issues = "if num_lt limit (Num (of_nat (length path)))
      then report_once \<lparr>gi_code = depth_exceeded, gi_edge = e, gi_key = depth_key e (length path)\<rparr> issues else issues"
    have "last path \<in> set N" "e \<in> set (of_key adj (last path))"
      using 2(4-6) by (auto simp: simple_chain_def)
    then have edge: "(last path, de_to e) \<in> ?G"
      using False unfolding graph_of_def by blast
    then have chain: "simple_chain ?G (path @ [de_to e])"
      using 2(4) False by (auto simp: simple_chain_def successively_append_iff)
    have "?long [e] path \<longleftrightarrow> within_limit limit (path @ [de_to e]) \<and> ?long (of_key adj (de_to e)) (path @ [de_to e])"
    proof
      assume long: "?long [e] path"
      have "within_limit limit (path @ [de_to e])"
        using long [rule_format, of "[de_to e]"] chain by simp
      moreover have "?long (of_key adj (de_to e)) (path @ [de_to e])"
      proof (intro allI impI)
        fix q assume "simple_chain ?G ((path @ [de_to e]) @ q)"
        then show "within_limit limit ((path @ [de_to e]) @ q)"
          using long [rule_format, of "de_to e # q"] by simp
      qed
      ultimately show "within_limit limit (path @ [de_to e]) \<and> ?long (of_key adj (de_to e)) (path @ [de_to e])" ..
    next
      assume long: "within_limit limit (path @ [de_to e]) \<and> ?long (of_key adj (de_to e)) (path @ [de_to e])"
      show "?long [e] path"
      proof (intro allI impI)
        fix q assume q: "q \<noteq> []" "hd q \<in> de_to ` set [e]" "simple_chain ?G (path @ q)"
        then obtain rest where rest: "q = de_to e # rest"
          by (cases q) auto
        show "within_limit limit (path @ q)"
        proof (cases "rest = []")
          case True
          then show ?thesis using long rest by simp
        next
          case nonempty: False
          then have "(de_to e, hd rest) \<in> ?G"
            using q(3) rest by (auto simp: simple_chain_def successively_append_iff successively_Cons)
          then have "hd rest \<in> de_to ` set (of_key adj (de_to e))"
            by (auto simp: graph_of_def)
          then show ?thesis
            using long nonempty q(3) rest by simp
        qed
      qed
    qed
    moreover have "within_limit limit (path @ [de_to e]) \<and> issues = [] \<longleftrightarrow> ?issues = []"
      by (simp add: within_limit_def)
    ultimately show ?thesis
      using 2(2) [OF False] 2(3) [OF False] 2(4-6) chain False split by auto
  qed
qed simp

lemma no_overflow_iff: "detectDelegationDepthOverflow adj N limit = [] \<longleftrightarrow>
    (\<forall>p. simple_chain (graph_of adj N) p \<longrightarrow> length p > 1 \<longrightarrow> within_limit limit p)"
proof -
  have start: "visit_depths adj N limit [x] (of_key adj x) issues = [] \<longleftrightarrow> issues = []
      \<and> (\<forall>p. simple_chain (graph_of adj N) p \<longrightarrow> length p > 1 \<longrightarrow> hd p = x \<longrightarrow> within_limit limit p)" if "x \<in> set N" for x issues
  proof -
    have hd: "hd q \<in> de_to ` set (of_key adj x)" if "simple_chain (graph_of adj N) (x # q)" "q \<noteq> []" for q
      using that by (cases q) (auto simp: simple_chain_def graph_of_def)
    have "(\<forall>q. q \<noteq> [] \<longrightarrow> hd q \<in> de_to ` set (of_key adj x) \<longrightarrow> simple_chain (graph_of adj N) ([x] @ q) \<longrightarrow> within_limit limit ([x] @ q))
      \<longleftrightarrow> (\<forall>p. simple_chain (graph_of adj N) p \<longrightarrow> length p > 1 \<longrightarrow> hd p = x \<longrightarrow> within_limit limit p)"
    proof (intro iffI allI impI)
      fix p assume *: "\<forall>q. q \<noteq> [] \<longrightarrow> hd q \<in> de_to ` set (of_key adj x) \<longrightarrow> simple_chain (graph_of adj N) ([x] @ q) \<longrightarrow> within_limit limit ([x] @ q)"
        and p: "simple_chain (graph_of adj N) p" "length p > 1" "hd p = x"
      then obtain q where "p = x # q" "q \<noteq> []"
        by (cases p) auto
      then show "within_limit limit p"
        using * p(1) hd by auto
    qed (use hd in force)
    then show ?thesis
      using visit_depths_iff [of adj N "[x]" "of_key adj x" limit issues] that by (simp add: simple_chain_def)
  qed
  have "foldl (\<lambda>issues x. visit_depths adj N limit [x] (of_key adj x) issues) issues xs = [] \<longleftrightarrow> issues = []
      \<and> (\<forall>p. simple_chain (graph_of adj N) p \<longrightarrow> length p > 1 \<longrightarrow> hd p \<in> set xs \<longrightarrow> within_limit limit p)"
    if "set xs \<subseteq> set N" for xs issues
    using that by (induction xs arbitrary: issues) (auto simp: start)
  moreover have "hd p \<in> set N" if "simple_chain (graph_of adj N) p" "length p > 1" for p
    using that by (cases p; cases "tl p") (auto simp: simple_chain_def graph_of_def)
  ultimately show ?thesis
    by (auto simp: detectDelegationDepthOverflow_def)
qed

section \<open>Descendants\<close>

definition edge_rel :: "(string \<times> string list) list \<Rightarrow> (string \<times> string) set" where
  "edge_rel edges = {(x, y). y \<in> set (of_key edges x)}"

lemma collect_sound: "y \<in> set (fst (collect_loop edges ds m queue)) \<Longrightarrow>
    y \<in> set ds \<or> (\<exists>x\<in>fst ` set queue. (x, y) \<in> (edge_rel edges)\<^sup>*)"
proof (induction edges ds m queue rule: collect_loop.induct)
  case (2 edges ds m x d queue)
  show ?case
  proof (cases "x \<in> set ds")
    case True
    then show ?thesis
      using 2 by auto
  next
    case False
    have "(x, c) \<in> edge_rel edges" if "c \<in> set (of_key edges x)" for c
      using that by (simp add: edge_rel_def)
    then have "y \<in> set (ds @ [x]) \<or> (\<exists>c\<in>set (of_key edges x). (c, y) \<in> (edge_rel edges)\<^sup>* \<and> (x, c) \<in> edge_rel edges)
        \<or> (\<exists>c\<in>fst ` set queue. (c, y) \<in> (edge_rel edges)\<^sup>*)"
      using 2(2) [OF False] 2(3) False by (auto simp: image_image)
    then show ?thesis
      by (auto intro: converse_rtrancl_into_rtrancl)
  qed
qed simp

lemma collect_closed:
  assumes "\<forall>v\<in>set ds. edge_rel edges `` {v} \<subseteq> set ds \<union> fst ` set queue"
  shows "set ds \<union> fst ` set queue \<subseteq> set (fst (collect_loop edges ds m queue))
    \<and> (\<forall>v\<in>set (fst (collect_loop edges ds m queue)). edge_rel edges `` {v} \<subseteq> set (fst (collect_loop edges ds m queue)))"
  using assms
proof (induction edges ds m queue rule: collect_loop.induct)
  case (2 edges ds m x d queue)
  show ?case
  proof (cases "x \<in> set ds")
    case True
    then have "\<forall>v\<in>set ds. edge_rel edges `` {v} \<subseteq> set ds \<union> fst ` set queue"
      using 2(3) by fastforce
    from 2(1) [OF True this] True show ?thesis
      by auto
  next
    case False
    have "\<forall>v\<in>set (ds @ [x]). edge_rel edges `` {v} \<subseteq> set (ds @ [x]) \<union> fst ` set (queue @ map (\<lambda>c. (c, d + 1)) (of_key edges x))"
      using 2(3) by (auto simp: edge_rel_def image_image image_Un)
    from 2(2) [OF False this] False show ?thesis
      by (auto simp: image_image)
  qed
qed simp

lemma collect_distinct: "distinct ds \<Longrightarrow> distinct (fst (collect_loop edges ds m queue))"
  by (induction edges ds m queue rule: collect_loop.induct) auto

lemma collected: "set (fst (collectDescendants x edges)) = {y. (x, y) \<in> (edge_rel edges)\<^sup>+}"
  "distinct (fst (collectDescendants x edges))"
proof -
  let ?D = "set (fst (collectDescendants x edges))"
  have "y \<in> ?D \<Longrightarrow> (x, y) \<in> (edge_rel edges)\<^sup>+" for y
  proof -
    assume "y \<in> ?D"
    then obtain c where "c \<in> set (of_key edges x)" "(c, y) \<in> (edge_rel edges)\<^sup>*"
      using collect_sound [of y edges "[]" 0 "map (\<lambda>c. (c, 1)) (of_key edges x)"]
      by (auto simp: collectDescendants_def image_image)
    then show ?thesis
      by (intro rtrancl_into_trancl2 [of x c]) (auto simp: edge_rel_def)
  qed
  moreover have closed: "edge_rel edges `` {x} \<subseteq> ?D" "\<forall>v\<in>?D. edge_rel edges `` {v} \<subseteq> ?D"
    using collect_closed [of "[]" edges "map (\<lambda>c. (c, 1)) (of_key edges x)" 0]
    by (auto simp: collectDescendants_def image_image edge_rel_def)
  have "(x, y) \<in> (edge_rel edges)\<^sup>+ \<Longrightarrow> y \<in> ?D" for y
    by (induction rule: trancl_induct) (use closed in blast)+
  ultimately show "?D = {y. (x, y) \<in> (edge_rel edges)\<^sup>+}"
    by blast
  show "distinct (fst (collectDescendants x edges))"
    by (simp add: collectDescendants_def collect_distinct)
qed

lemma compiled_edge_rel: "edge_rel (dg_edges (buildDelegationGraph t)) = set (delegation_pairs t)"
  by (simp add: edge_rel_def compiled_edges)

section \<open>The compiled snapshot\<close>

lemma from_entries_Some: "from_entries key val xs k = Some v \<Longrightarrow> \<exists>x\<in>set xs. key x = k \<and> v = val x"
  by (auto simp: from_entries_def dest!: map_of_SomeD)

lemma from_entries_None: "from_entries key val xs k = None \<longleftrightarrow> k \<notin> key ` set xs"
  by (auto simp: from_entries_def map_of_eq_None_iff image_image)

lemma from_entries_unique: "distinct (map key xs) \<Longrightarrow> x \<in> set xs \<Longrightarrow> from_entries key val xs (key x) = Some (val x)"
  using from_entries_None [of key val xs "key x"] from_entries_Some [of key val xs "key x"]
  by (cases "from_entries key val xs (key x)") (auto simp: distinct_map inj_on_def)

lemma compiled_node: "nodeIndex (compiled_snapshot t) i = Some n \<Longrightarrow> cn_id n = i \<and> i \<in> nc_id ` set (tp_nodes t)"
  by (auto simp: compiled_snapshot_def Let_def buildNodeIndex_def dest!: from_entries_Some)

lemma compiled_candidates: "direct_child (compiled_snapshot t) p x \<Longrightarrow>
    (p, x) \<in> set (delegation_pairs t) \<and> x \<in> nc_id ` set (tp_nodes t)"
proof -
  assume "direct_child (compiled_snapshot t) p x"
  then obtain y n where n: "nodeIndex (compiled_snapshot t) y = Some n" "x = cn_id n"
    "y \<in> set (nullish (map_of (dg_edges (buildDelegationGraph t)) p) [])"
    by (auto simp: direct_child_def getCompiledChildCandidates_def map_filter_def compiled_snapshot_def Let_def
        buildCompiledDelegationTree_def)
  then have "y \<in> set (of_key (dg_edges (buildDelegationGraph t)) p)"
    by (simp add: of_key_def)
  then show ?thesis
    using compiled_node [OF n(1)] n(2) by (simp add: compiled_edges)
qed

lemma pairs_in_graph: "(p, x) \<in> set (delegation_pairs t) \<Longrightarrow> p \<in> nc_id ` set (tp_nodes t) \<Longrightarrow> x \<in> nc_id ` set (tp_nodes t)
    \<Longrightarrow> (p, x) \<in> delegation_graph t"
  by (auto simp: delegation_graph_def delegation_pairs_def split: if_splits)

lemma compiled_step:
  assumes "delegation_step (compiled_snapshot t) m w choice = Some w'"
  shows "(tg_id (wo_to w), tg_id (wo_to w')) \<in> delegation_graph t"
proof -
  let ?s = "compiled_snapshot t"
  let ?planned = "dp_childWorkOrders (planChildDelegation (chain_input ?s m w (fst choice)))"
  have c: "?planned ! snd choice \<in> set ?planned" "w' = pw_workOrder (?planned ! snd choice)"
    using assms by (auto simp: delegation_step_def Let_def split: if_splits)
  obtain k x node where child: "nodeIndex ?s (tg_id (wo_to w)) \<noteq> None" "nodeIndex ?s x = Some node"
    "direct_child ?s (tg_id (wo_to w)) x" "tg_id (wo_to w') = cn_id node"
    using planned_sound [OF c(1)] c(2) by (auto simp: plan_admits_iff)
  obtain parent where "nodeIndex ?s (tg_id (wo_to w)) = Some parent"
    using child(1) by blast
  then have "tg_id (wo_to w) \<in> nc_id ` set (tp_nodes t)" "cn_id node = x"
    using compiled_node child(2) by blast+
  then show ?thesis
    using compiled_candidates [OF child(3)] child(4) pairs_in_graph by simp
qed

lemma chain_walks:
  assumes "run_steps (delegation_step (compiled_snapshot t) m) origin choices = Some w"
  shows "\<exists>p. length p = Suc (length choices) \<and> hd p = tg_id (wo_to origin) \<and> last p = tg_id (wo_to w)
    \<and> successively (\<lambda>u v. (u, v) \<in> delegation_graph t) p"
  using assms
proof (induction choices arbitrary: w rule: rev_induct)
  case Nil
  then show ?case
    by (intro exI [of _ "[tg_id (wo_to origin)]"]) simp
next
  case (snoc c cs)
  from snoc.prems obtain v where v: "run_steps (delegation_step (compiled_snapshot t) m) origin cs = Some v"
    "delegation_step (compiled_snapshot t) m v c = Some w"
    by (rule run_steps_snocE)
  then obtain p where "length p = Suc (length cs)" "hd p = tg_id (wo_to origin)" "last p = tg_id (wo_to v)"
    "successively (\<lambda>u v. (u, v) \<in> delegation_graph t) p"
    using snoc.IH by blast
  then show ?case
    using compiled_step [OF v(2)]
    by (intro exI [of _ "p @ [tg_id (wo_to w)]"]) (auto simp: successively_append_iff hd_append)
qed

lemma walk_reaches: "successively (\<lambda>u v. (u, v) \<in> G) (x # p) \<Longrightarrow> y \<in> set p \<Longrightarrow> (x, y) \<in> G\<^sup>+"
  by (induction p arbitrary: x) (auto intro: trancl_into_trancl2)

lemma acyclic_walk: "acyclic G \<Longrightarrow> successively (\<lambda>u v. (u, v) \<in> G) p \<Longrightarrow> distinct p"
proof (induction p)
  case (Cons x p)
  then have "x \<notin> set p"
    using walk_reaches [of G x p x] by (auto simp: acyclic_def)
  then show ?case
    using Cons by (auto simp: successively_Cons)
qed simp

lemma walk_nodes: "successively (\<lambda>u v. (u, v) \<in> delegation_graph t) p \<Longrightarrow> length p > 1 \<Longrightarrow> set p \<subseteq> nc_id ` set (tp_nodes t)"
proof (induction p)
  case (Cons x p)
  then show ?case
    by (cases p; cases "tl p") (auto simp: delegation_graph_def)
qed simp

section \<open>Tools of a compiled node\<close>

lemma added_relations:
  "tb_declaredToolIds (foldl (add_relation t) b rs) = foldl set_add (tb_declaredToolIds b)
     (map (\<lambda>r. er_id (rn_to r)) (filter (\<lambda>r. er_entityType (rn_to r) = et_enterprise_tool
        \<and> (rn_relationType r = uses_tool \<or> rn_relationType r = has_access_to)) rs))"
  by (induction rs arbitrary: b) (auto simp: add_relation_def Let_def)

definition declares_tool :: "EnterpriseTopology \<Rightarrow> string \<Rightarrow> string \<Rightarrow> bool" where
  "declares_tool t nodeId toolId \<longleftrightarrow> (\<exists>r\<in>set (tp_relations t). rn_from r = \<lparr>er_entityType = et_node, er_id = nodeId\<rparr>
     \<and> rn_to r = \<lparr>er_entityType = et_enterprise_tool, er_id = toolId\<rparr>
     \<and> (rn_relationType r = uses_tool \<or> rn_relationType r = has_access_to))"

lemma declared_tools: "toolId \<in> set (tb_declaredToolIds (scope_builder t nodeId)) \<longleftrightarrow> declares_tool t nodeId toolId"
  unfolding scope_builder_def added_relations set_foldl_set_add declares_tool_def
  by (auto simp: image_iff intro!: EnterpriseEntityRef.equality)

lemma compiled_tools:
  assumes "node \<in> set (tp_nodes t)" "distinct (map nc_id (tp_nodes t))"
  shows "toolId \<in> set (node_tools (compiled_snapshot t) node) \<longleftrightarrow>
    toolId \<in> set (nc_allowedToolIds node) \<and> declares_tool t (nc_id node) toolId"
proof -
  have "toolScopeIndex (compiled_snapshot t) (nc_id node) = Some (node_tool_scope t node)"
    using from_entries_unique [OF assms(2,1)] by (simp add: compiled_snapshot_def Let_def buildToolScopeIndex_def)
  then show ?thesis
    by (auto simp: node_tools_def node_tool_scope_def Let_def declared_tools)
qed

section \<open>Properties\<close>

lemma checked_iff: "delegation_graph_issues t limit = [] \<longleftrightarrow> acyclic (delegation_graph t)
    \<and> (\<forall>p. simple_chain (delegation_graph t) p \<longrightarrow> length p > 1 \<longrightarrow> within_limit (num_max (Num 0) limit) p)"
  by (auto simp: delegation_graph_issues_def Let_def no_cycle_iff no_overflow_iff validated_graph simp del: set_node_ids)

text \<open>Every chain in the snapshot of a checked topology is as short as the validation asked.\<close>

lemma checked_chain:
  assumes "delegation_graph_issues t limit = []" "successively (\<lambda>u v. (u, v) \<in> delegation_graph t) p" "length p > 1"
  shows "distinct p \<and> length p \<le> length (node_ids t) \<and> within_limit (num_max (Num 0) limit) p"
proof -
  have p: "distinct p" "p \<noteq> []"
    using assms acyclic_walk by (auto simp: checked_iff)
  have "length p = card (set p)"
    using p(1) by (simp add: distinct_card)
  also have "\<dots> \<le> card (set (node_ids t))"
    using walk_nodes [OF assms(2,3)] by (intro card_mono) simp_all
  also have "\<dots> = length (node_ids t)"
    by (simp add: node_ids_def length_js_set distinct_card del: set_node_ids)
  finally show ?thesis
    using assms p by (simp add: checked_iff simple_chain_def)
qed

lemma compiled_snapshot_ok:
  assumes "delegation_graph_issues t limit = []" "\<forall>node\<in>set (tp_nodes t). is_node_id (nc_id node)"
  shows "snapshot_ok (compiled_snapshot t)"
proof -
  have "nodeIndex (compiled_snapshot t) i = Some n \<Longrightarrow> cn_id n = i \<and> is_node_id i" for i n
    using compiled_node [of t i n] assms(2) by auto
  moreover have "\<not> direct_child (compiled_snapshot t) p p" for p
  proof
    assume "direct_child (compiled_snapshot t) p p"
    then have "(p, p) \<in> delegation_graph t"
      using compiled_candidates [of t p p] pairs_in_graph by blast
    then show False
      using assms(1) by (auto simp: checked_iff acyclic_def)
  qed
  ultimately show ?thesis
    by (simp add: snapshot_ok_def)
qed

text \<open>C13. The validation finds nothing wrong with the delegations of a topology exactly if they form no cycle
  and no chain of them that visits no node twice is longer than the limit. The search for cycles visits every
  node once and the one for long chains follows every path, and both end.\<close>

theorem delegation_check_exact:
  "delegation_graph_issues t limit = [] \<longleftrightarrow> acyclic (delegation_graph t)
     \<and> (\<forall>p. simple_chain (delegation_graph t) p \<longrightarrow> length p > 1 \<longrightarrow> within_limit (num_max (Num 0) limit) p)"
  by (rule checked_iff)

text \<open>C12. In the compiled snapshot of a topology that passed these checks every chain of delegations ends:
  whatever the planner is asked, it goes through different nodes only, and its length keeps to the limit of the
  validation. This does not need the limit of the planner, nor ids of any form.\<close>

theorem compiled_delegation_ends:
  assumes "delegation_graph_issues t limit = []"
    and "run_steps (delegation_step (compiled_snapshot t) m) origin choices = Some w" "choices \<noteq> []"
  shows "length choices < length (node_ids t) \<and> \<not> num_lt (num_max (Num 0) limit) (Num (of_nat (length choices)))
    \<and> tg_id (wo_to w) \<noteq> tg_id (wo_to origin)"
proof -
  obtain p where p: "length p = Suc (length choices)" "hd p = tg_id (wo_to origin)" "last p = tg_id (wo_to w)"
    "successively (\<lambda>u v. (u, v) \<in> delegation_graph t) p"
    using chain_walks [OF assms(2)] by blast
  have chain: "distinct p \<and> length p \<le> length (node_ids t) \<and> within_limit (num_max (Num 0) limit) p"
    by (rule checked_chain [OF assms(1) p(4)]) (use p(1) assms(3) in simp)
  moreover have "hd p \<noteq> last p"
    using chain p(1) assms(3) by (cases p) (auto simp: last_in_set)
  ultimately show ?thesis
    using p(1-3) by (simp add: within_limit_def)
qed

text \<open>The scope of a node lists its children and, each once, all nodes below it in the graph that is
  delegated along: the relations if there is one, and the lists of children of the nodes otherwise.\<close>

theorem compiled_scope_exact:
  assumes "delegationScopeMap (compiled_snapshot t) x = Some scope"
  shows "set (ds_directChildNodeIds scope) = {y. (x, y) \<in> set (delegation_pairs t)}
    \<and> set (ds_descendantNodeIds scope) = {y. (x, y) \<in> (set (delegation_pairs t))\<^sup>+}
    \<and> distinct (ds_directChildNodeIds scope) \<and> distinct (ds_descendantNodeIds scope)"
proof -
  obtain node where "node \<in> set (tp_nodes t)" "nc_id node = x"
    "ds_directChildNodeIds scope = of_key (dg_edges (buildDelegationGraph t)) x"
    "ds_descendantNodeIds scope = fst (collectDescendants x (dg_edges (buildDelegationGraph t)))"
    using assms by (auto simp: compiled_snapshot_def Let_def buildDelegationScopeMap_def buildCompiledDelegationTree_def
        case_prod_unfold dest!: from_entries_Some)
  then show ?thesis
    using compiled_edges(1) [of t x] compiled_distinct [of t x] collected [of x "dg_edges (buildDelegationGraph t)"]
    by (simp add: compiled_edge_rel)
qed

text \<open>C40. A tool is planned for a node of a compiled topology only if the node allows it and a relation of the
  topology says that the node uses it or has access to it.\<close>

theorem planned_tool_declared:
  assumes "ti_compiledTopologySnapshot input = compiled_snapshot t" "ti_nodeContractSnapshot input \<in> set (tp_nodes t)"
    and "distinct (map nc_id (tp_nodes t))" "call \<in> set (te_toolCalls (planNodeToolExecution input))"
  shows "pt_toolId call \<in> set (nc_allowedToolIds (ti_nodeContractSnapshot input))
    \<and> declares_tool t (nc_id (ti_nodeContractSnapshot input)) (pt_toolId call)"
proof -
  have "tool_admitted input (pt_toolId call) (pt_tool call)"
    using planned_tool_iff [of input "pt_toolId call" "pt_tool call"] assms(4) by blast
  then show ?thesis
    using compiled_tools [OF assms(2,3)] assms(1) by (simp add: tool_admitted_def Let_def)
qed

section \<open>A topology of three nodes\<close>

definition sample_contract_of :: "string \<Rightarrow> string list \<Rightarrow> NodeContract" where
  "sample_contract_of i children = \<lparr>nc_id = i, nc_name = i, nc_children = children, nc_allowedToolIds = [''mail''],
     nc_allowedSystemIds = [], nc_failurePolicy = None, nc_recoveryPolicy = None\<rparr>"

definition sample_topology :: EnterpriseTopology where
  "sample_topology = \<lparr>tp_nodes = [sample_contract_of ''a'' [''b''], sample_contract_of ''b'' [''c''], sample_contract_of ''c'' []],
     tp_tools = [\<lparr>ct_id = ''mail'', ct_name = ''mail'', ct_toolType = read_only_tool, ct_systemId = None\<rparr>], tp_systems = [],
     tp_relations = [\<lparr>rn_id = ''r'', rn_relationType = uses_tool, rn_from = \<lparr>er_entityType = et_node, er_id = ''a''\<rparr>,
       rn_to = \<lparr>er_entityType = et_enterprise_tool, er_id = ''mail''\<rparr>\<rparr>]\<rparr>"

definition sample_entry :: WorkOrder where
  "sample_entry = sample_order\<lparr>wo_to := \<lparr>tg_type = tt_node, tg_id = ''a''\<rparr>, wo_delegationPath := [''a'']\<rparr>"

lemma sample_checked: "delegation_graph_issues sample_topology (Num 5) = []"
  by code_simp

lemma sample_chain: "map_option (\<lambda>w. tg_id (wo_to w)) (run_steps (delegation_step (compiled_snapshot sample_topology) None)
    sample_entry [(sample_choice, 0), (sample_choice, 0)]) = Some ''c''"
  by code_simp

lemma delegation_check_exact_witness: "acyclic (delegation_graph sample_topology)"
  using delegation_check_exact [of sample_topology "Num 5"] sample_checked by blast

lemma compiled_delegation_ends_witness: "\<exists>w :: WorkOrder. tg_id (wo_to w) = ''c'' \<and> tg_id (wo_to w) \<noteq> ''a'' \<and> 2 < length (node_ids sample_topology)"
proof -
  obtain w where w: "run_steps (delegation_step (compiled_snapshot sample_topology) None) sample_entry
      [(sample_choice, 0), (sample_choice, 0)] = Some w" "tg_id (wo_to w) = ''c''"
    using sample_chain by auto
  show ?thesis
    using compiled_delegation_ends [OF sample_checked w(1)] w(2) by (intro exI [of _ w]) (simp add: sample_entry_def numeral_2_eq_2)
qed

lemma compiled_scope_exact_witness: "\<exists>scope. delegationScopeMap (compiled_snapshot sample_topology) ''a'' = Some scope
    \<and> set (ds_descendantNodeIds scope) = {y. (''a'', y) \<in> (set (delegation_pairs sample_topology))\<^sup>+}"
proof -
  have "delegationScopeMap (compiled_snapshot sample_topology) ''a'' \<noteq> None"
    by code_simp
  then obtain scope where scope: "delegationScopeMap (compiled_snapshot sample_topology) ''a'' = Some scope"
    by blast
  show ?thesis
    using compiled_scope_exact [OF scope] scope by blast
qed

definition sample_calls :: PlanNodeToolExecutionInput where
  "sample_calls = \<lparr>ti_compiledTopologySnapshot = compiled_snapshot sample_topology,
     ti_nodeContractSnapshot = sample_contract_of ''a'' [''b''], ti_workOrder = sample_entry, ti_toolRequests = None,
     ti_defaultTimeoutMs = None, ti_dispatcherToolNameByToolId = map_of [], ti_approvalDecisionsByToolId = map_of []\<rparr>"

lemma sample_planned_call: "map pt_toolId (te_toolCalls (planNodeToolExecution sample_calls)) = [''mail'']"
  by code_simp

lemma planned_tool_declared_witness: "declares_tool sample_topology ''a'' ''mail''"
proof -
  obtain call where call: "call \<in> set (te_toolCalls (planNodeToolExecution sample_calls))" "pt_toolId call = ''mail''"
    using sample_planned_call by (cases "te_toolCalls (planNodeToolExecution sample_calls)") auto
  have "ti_nodeContractSnapshot sample_calls \<in> set (tp_nodes sample_topology)"
    "ti_compiledTopologySnapshot sample_calls = compiled_snapshot sample_topology"
    "nc_id (ti_nodeContractSnapshot sample_calls) = ''a''" "distinct (map nc_id (tp_nodes sample_topology))"
    by (simp_all add: sample_calls_def sample_topology_def sample_contract_of_def)
  then show ?thesis
    using planned_tool_declared [of sample_calls sample_topology call] call by simp
qed

end
