(* ===== verification/Node_Results.thy ===== *)
theory Node_Results
  imports Node_Delegation
begin

text \<open>
  How the results of a node are put together: \<open>topology-runtime/aggregation.ts\<close> merges the outputs of the
  node itself, its children and its tools, \<open>topology-runtime/validation.ts\<close> checks the merged outputs against
  the work order, and the first part of \<open>topology-runtime/node-runtime.ts\<close> judges what the node did itself.
  The results of children and tools are data; of a dispatch only what is read here is kept. Messages are
  constants and are left out.
\<close>

section \<open>Results\<close>

datatype NodeResultStatus =
    nr_completed | nr_partial_success | nr_failed_candidate | nr_permission_limited | nr_needs_revision | nr_failed

datatype OutputStatus = out_satisfied | out_partial | out_missing

record NodeResultOutput =
  no_outputId :: string
  no_status :: OutputStatus
  no_value :: "json option"

record NodeResultReport =
  nr_resultReportId :: string
  nr_topologyRunId :: string
  nr_nodeRunId :: string
  nr_workOrderId :: string
  nr_nodeId :: string
  nr_status :: NodeResultStatus
  nr_outputs :: "NodeResultOutput list"
  nr_unmetSuccessCriteriaIds :: "string list"
  nr_risksOrGaps :: "string list"
  nr_partialResult :: "json option"
  nr_failureReportId :: "string option"
  nr_createdAt :: EnterpriseTimestamp

definition isTopologyChildFailureStatus :: "NodeResultStatus \<Rightarrow> bool" where
  "isTopologyChildFailureStatus status \<longleftrightarrow>
     status = nr_failed \<or> status = nr_failed_candidate \<or> status = nr_permission_limited"

datatype NodeToolExecutionStatus = te_succeeded | te_denied | te_timeout | te_execution_error | te_skipped

record NormalizedNodeToolResult =
  tx_toolId :: string
  tx_status :: NodeToolExecutionStatus
  tx_reasonCode :: string
  tx_output :: "json option"
  tx_error :: "string option"
  tx_retryPossible :: bool
  tx_fallbackPossible :: bool
  tx_failureCandidate :: bool

section \<open>Aggregation\<close>

datatype AggregationStrategy =
    merge_and_validate | parent_decides | require_all_child_results | best_effort_with_warnings | quorum_strategy

datatype AggregatedResultSourceKind = source_self | source_child | source_tool

datatype IssueSeverity = sev_info | sev_warning | sev_needs_revision | sev_blocked

datatype IssueCode =
    duplicate_output_removed | output_conflict_detected | child_result_missing | source_failure_candidate | quorum_not_met
  | required_output_missing | output_schema_value_missing | output_schema_type_mismatch
  | output_schema_required_field_missing | success_criterion_unmet | optional_success_criterion_unmet

record AggregatedResultSource =
  as_sourceKind :: AggregatedResultSourceKind
  as_sourceId :: string
  as_status :: NodeResultStatus
  as_outputCount :: nat
  as_failureCandidate :: bool
  as_risksOrGaps :: "string list"

record AggregatedResultItem =
  ai_sourceKind :: AggregatedResultSourceKind
  ai_sourceId :: string
  ai_output :: NodeResultOutput
  ai_fingerprint :: string

record AggregationIssue =
  is_code :: IssueCode
  is_severity :: IssueSeverity
  is_outputId :: "string option"
  is_criterionId :: "string option"
  is_sourceIds :: "string list option"

definition issue_at :: "IssueCode \<Rightarrow> IssueSeverity \<Rightarrow> string option \<Rightarrow> string option \<Rightarrow> string list option \<Rightarrow> AggregationIssue" where
  "issue_at code severity outputId criterionId sources =
     \<lparr>is_code = code, is_severity = severity, is_outputId = outputId, is_criterionId = criterionId, is_sourceIds = sources\<rparr>"

record AggregationResult =
  ag_strategy :: AggregationStrategy
  ag_workOrderId :: string
  ag_outputs :: "NodeResultOutput list"
  ag_items :: "AggregatedResultItem list"
  ag_sources :: "AggregatedResultSource list"
  ag_issues :: "AggregationIssue list"
  ag_conflicts :: "AggregationIssue list"
  ag_duplicates :: "AggregationIssue list"
  ag_missingChildNodeIds :: "string list"

text \<open>The reports are those handed in, followed by those of the child dispatch.\<close>

record AggregateNodeRuntimeResultsInput =
  an_workOrder :: WorkOrder
  an_strategy :: "AggregationStrategy option"
  an_selfOutputs :: "NodeResultOutput list option"
  an_selfStatus :: "NodeResultStatus option"
  an_selfRisksOrGaps :: "string list option"
  an_childReports :: "NodeResultReport list"
  an_toolResults :: "NormalizedNodeToolResult list"
  an_expectedChildNodeIds :: "string list option"
  an_requireAllChildResults :: "bool option"
  an_requiredSatisfiedSourceCount :: "number option"

fun output_status_text :: "OutputStatus \<Rightarrow> string" where
  "output_status_text out_satisfied = ''satisfied''"
| "output_status_text out_partial = ''partial''"
| "output_status_text out_missing = ''missing''"

text \<open>
  \<open>stableStringify\<close>: the JSON text of the value with its properties sorted. An object made by
  \<open>Object.fromEntries\<close> lists the properties whose names are array indices first, in their numeric order.
\<close>

definition array_index :: "string \<Rightarrow> bool" where
  "array_index k \<longleftrightarrow> list_all is_digit k \<and> k = show_nat (digits_value k) \<and> digits_value k < 2 ^ 32 - 1"

definition fromEntries :: "(string \<times> json) list \<Rightarrow> json" where
  "fromEntries kvs = JObject (sort_key (\<lambda>(k, v). digits_value k) (filter (\<lambda>(k, v). array_index k) kvs)
     @ filter (\<lambda>(k, v). \<not> array_index k) kvs)"

fun sortJsonValue :: "host \<Rightarrow> json \<Rightarrow> json" where
  "sortJsonValue H (JArray xs) = JArray (map (sortJsonValue H) xs)"
| "sortJsonValue H (JObject kvs) = fromEntries (sort_by (entry_cmp H)
     (map (\<lambda>(k, v). (k, sortJsonValue H v)) (filter (\<lambda>(k, v). v \<noteq> JUndefined) kvs)))"
| "sortJsonValue H (JDate t) = JObject []"
| "sortJsonValue H v = v"

definition output_fingerprint :: "host \<Rightarrow> NodeResultOutput \<Rightarrow> string" where
  "output_fingerprint H output = undefined_as '''' (stringify (sortJsonValue H (JObject
     [(''outputId'', JString (no_outputId output)), (''status'', JString (output_status_text (no_status output))),
      (''value'', nullish (no_value output) JNull)])))"

definition buildItem :: "host \<Rightarrow> AggregatedResultSourceKind \<Rightarrow> string \<Rightarrow> NodeResultOutput \<Rightarrow> AggregatedResultItem" where
  "buildItem H kind sourceId output = \<lparr>ai_sourceKind = kind, ai_sourceId = sourceId, ai_output = output,
     ai_fingerprint = output_fingerprint H output\<rparr>"

fun sourcePriority :: "AggregatedResultSourceKind \<Rightarrow> int" where
  "sourcePriority source_self = 0"
| "sourcePriority source_child = 1"
| "sourcePriority source_tool = 2"

definition selectOutputForMerge :: "AggregatedResultItem list \<Rightarrow> AggregatedResultItem option" where
  "selectOutputForMerge items =
     (case sort_by (\<lambda>l r. sourcePriority (ai_sourceKind l) - sourcePriority (ai_sourceKind r)) items of
        [] \<Rightarrow> None | first # _ \<Rightarrow> Some first)"

text \<open>The loop over the items of one output id: the repetitions and the items that remain.\<close>

fun split_duplicates ::
  "string \<Rightarrow> string list \<Rightarrow> AggregatedResultItem list \<Rightarrow> AggregationIssue list \<times> AggregatedResultItem list" where
  "split_duplicates outputId seen [] = ([], [])"
| "split_duplicates outputId seen (item # rest) =
     (if ai_fingerprint item \<in> set seen then
        (let (duplicates, kept) = split_duplicates outputId seen rest
         in (issue_at duplicate_output_removed sev_info (Some outputId) None (Some [ai_sourceId item]) # duplicates, kept))
      else
        (let (duplicates, kept) = split_duplicates outputId (ai_fingerprint item # seen) rest in (duplicates, item # kept)))"

definition items_of :: "string \<Rightarrow> AggregatedResultItem list \<Rightarrow> AggregatedResultItem list" where
  "items_of outputId items = filter (\<lambda>i. no_outputId (ai_output i) = outputId) items"

definition output_ids :: "AggregatedResultItem list \<Rightarrow> string list" where
  "output_ids items = js_set (map (\<lambda>i. no_outputId (ai_output i)) items)"

definition unique_items :: "AggregatedResultItem list \<Rightarrow> string \<Rightarrow> AggregatedResultItem list" where
  "unique_items items outputId = snd (split_duplicates outputId [] (items_of outputId items))"

definition mergeOutputs ::
  "AggregatedResultItem list \<Rightarrow> AggregationStrategy \<Rightarrow> NodeResultOutput list \<times> AggregationIssue list \<times> AggregationIssue list" where
  "mergeOutputs items strategy =
     (List.map_filter (\<lambda>x. map_option ai_output (selectOutputForMerge (unique_items items x))) (output_ids items),
      concat (map (\<lambda>x. fst (split_duplicates x [] (items_of x items))) (output_ids items)),
      List.map_filter (\<lambda>x. if length (unique_items items x) > 1
          then Some (issue_at output_conflict_detected
            (if strategy = parent_decides then sev_warning else sev_needs_revision) (Some x) None
            (Some (map ai_sourceId (unique_items items x))))
          else None) (output_ids items))"

definition tool_output :: "NormalizedNodeToolResult \<Rightarrow> NodeResultOutput" where
  "tool_output result = \<lparr>no_outputId = ''tool:'' @ tx_toolId result,
     no_status = (if tx_status result = te_succeeded then out_satisfied else out_missing), no_value = tx_output result\<rparr>"

definition result_sources :: "AggregateNodeRuntimeResultsInput \<Rightarrow> AggregatedResultSource list" where
  "result_sources input =
     (case an_selfOutputs input of None \<Rightarrow> [] | Some outputs \<Rightarrow>
        [\<lparr>as_sourceKind = source_self, as_sourceId = tg_id (wo_to (an_workOrder input)),
          as_status = nullish (an_selfStatus input) nr_completed, as_outputCount = length outputs,
          as_failureCandidate = isTopologyChildFailureStatus (nullish (an_selfStatus input) nr_completed),
          as_risksOrGaps = nullish (an_selfRisksOrGaps input) []\<rparr>])
     @ map (\<lambda>report. \<lparr>as_sourceKind = source_child, as_sourceId = nr_nodeId report, as_status = nr_status report,
          as_outputCount = length (nr_outputs report), as_failureCandidate = isTopologyChildFailureStatus (nr_status report),
          as_risksOrGaps = nr_risksOrGaps report\<rparr>) (an_childReports input)
     @ map (\<lambda>result. \<lparr>as_sourceKind = source_tool, as_sourceId = tx_toolId result,
          as_status = (if tx_failureCandidate result then nr_failed_candidate else nr_completed), as_outputCount = 1,
          as_failureCandidate = tx_failureCandidate result,
          as_risksOrGaps = (case tx_error result of None \<Rightarrow> [] | Some e \<Rightarrow> [e])
            @ (if tx_failureCandidate result then [tx_reasonCode result] else [])\<rparr>) (an_toolResults input)"

definition result_items :: "host \<Rightarrow> AggregateNodeRuntimeResultsInput \<Rightarrow> AggregatedResultItem list" where
  "result_items H input =
     (case an_selfOutputs input of None \<Rightarrow> [] | Some outputs \<Rightarrow>
        map (buildItem H source_self (tg_id (wo_to (an_workOrder input)))) outputs)
     @ concat (map (\<lambda>report. map (buildItem H source_child (nr_nodeId report)) (nr_outputs report)) (an_childReports input))
     @ map (\<lambda>result. buildItem H source_tool (tx_toolId result) (tool_output result)) (an_toolResults input)"

definition missing_children :: "AggregateNodeRuntimeResultsInput \<Rightarrow> string list" where
  "missing_children input =
     not_in (map as_sourceId (filter (\<lambda>s. as_sourceKind s = source_child) (result_sources input)))
       (nullish (an_expectedChildNodeIds input) [])"

definition quorum_issues :: "AggregationStrategy \<Rightarrow> host \<Rightarrow> AggregateNodeRuntimeResultsInput \<Rightarrow> AggregationIssue list" where
  "quorum_issues strategy H input =
     (case an_requiredSatisfiedSourceCount input of
        Some needed \<Rightarrow>
          if strategy = quorum_strategy
             \<and> num_lt (Num (of_nat (length (js_set (map ai_sourceId
                 (filter (\<lambda>i. no_status (ai_output i) = out_satisfied) (result_items H input))))))) needed
          then [issue_at quorum_not_met sev_blocked None None (Some (map as_sourceId (result_sources input)))] else []
      | None \<Rightarrow> [])"

definition aggregateNodeRuntimeResults :: "host \<Rightarrow> AggregateNodeRuntimeResultsInput \<Rightarrow> AggregationResult" where
  "aggregateNodeRuntimeResults H input =
     (let strategy = nullish (an_strategy input) merge_and_validate;
          items = result_items H input;
          sources = result_sources input;
          missing = missing_children input;
          (outputs, duplicates, conflicts) = mergeOutputs items strategy
      in \<lparr>ag_strategy = strategy, ag_workOrderId = wo_workOrderId (an_workOrder input), ag_outputs = outputs,
          ag_items = items, ag_sources = sources,
          ag_issues = map (\<lambda>s. issue_at source_failure_candidate sev_warning None None (Some [as_sourceId s]))
              (filter as_failureCandidate sources)
            @ (if missing \<noteq> [] \<and> (an_requireAllChildResults input = Some True \<or> strategy = require_all_child_results)
               then [issue_at child_result_missing sev_blocked None None (Some missing)] else [])
            @ quorum_issues strategy H input @ duplicates @ conflicts,
          ag_conflicts = conflicts, ag_duplicates = duplicates, ag_missingChildNodeIds = missing\<rparr>)"

section \<open>Validation\<close>

datatype AggregatedNodeValidationStatus = vs_valid | vs_needs_revision | vs_partial_success | vs_failed_candidate

record AggregatedNodeValidationResult =
  va_status :: AggregatedNodeValidationStatus
  va_nodeResultStatus :: NodeResultStatus
  va_valid :: bool
  va_outputs :: "NodeResultOutput list"
  va_unmetSuccessCriteriaIds :: "string list"
  va_issues :: "AggregationIssue list"

fun validationStatusToNodeResultStatus :: "AggregatedNodeValidationStatus \<Rightarrow> NodeResultStatus" where
  "validationStatusToNodeResultStatus vs_valid = nr_completed"
| "validationStatusToNodeResultStatus vs_partial_success = nr_partial_success"
| "validationStatusToNodeResultStatus vs_needs_revision = nr_needs_revision"
| "validationStatusToNodeResultStatus vs_failed_candidate = nr_failed_candidate"

definition decideValidationStatus :: "AggregationIssue list \<Rightarrow> bool \<Rightarrow> AggregatedNodeValidationStatus" where
  "decideValidationStatus issues allowPartialSuccess =
     (if list_ex (\<lambda>i. is_code i = success_criterion_unmet) issues then vs_failed_candidate
      else if list_ex (\<lambda>i. is_severity i = sev_blocked) issues
      then (if allowPartialSuccess then vs_partial_success else vs_failed_candidate)
      else if list_ex (\<lambda>i. is_severity i = sev_needs_revision) issues then vs_needs_revision
      else if list_ex (\<lambda>i. is_severity i = sev_warning) issues
      then (if allowPartialSuccess then vs_partial_success else vs_valid)
      else vs_valid)"

text \<open>A property of an object; \<open>undefined\<close> for anything else.\<close>

fun field :: "json \<Rightarrow> string \<Rightarrow> json" where
  "field (JObject kvs) k = (case map_of kvs k of None \<Rightarrow> JUndefined | Some v \<Rightarrow> v)"
| "field v k = JUndefined"

fun isJsonRecord :: "json \<Rightarrow> bool" where
  "isJsonRecord (JObject kvs) = True"
| "isJsonRecord (JDate t) = True"
| "isJsonRecord v = False"

text \<open>
  \<open>typeof value === "number"\<close> with \<open>Number.isFinite\<close> and \<open>Number.isInteger\<close>: every \<open>JNumber\<close> is finite, and it is an
  integer when its shortest decimal has no fraction.
\<close>

fun isFiniteNumber :: "json \<Rightarrow> bool" where
  "isFiniteNumber (JNumber negative s e) = True"
| "isFiniteNumber v = False"

fun isIntegerNumber :: "json \<Rightarrow> bool" where
  "isIntegerNumber (JNumber negative s e) = (0 \<le> snd (strip_zeros s e))"
| "isIntegerNumber v = False"

definition enterpriseValueMatchesSchemaType :: "json \<Rightarrow> string \<Rightarrow> bool" where
  "enterpriseValueMatchesSchemaType value expectedType =
     (if expectedType = ''object'' then isJsonRecord value
      else if expectedType = ''array'' then (case value of JArray xs \<Rightarrow> True | _ \<Rightarrow> False)
      else if expectedType = ''string'' then (case value of JString s \<Rightarrow> True | _ \<Rightarrow> False)
      else if expectedType = ''number'' then isFiniteNumber value
      else if expectedType = ''integer'' then isIntegerNumber value
      else if expectedType = ''boolean'' then (case value of JBool b \<Rightarrow> True | _ \<Rightarrow> False)
      else if expectedType = ''null'' then value = JNull
      else True)"

definition schema_type :: "json \<Rightarrow> string option" where
  "schema_type schema =
     (case field schema ''type'' of
        JString t \<Rightarrow> Some t
      | _ \<Rightarrow> (case field schema ''kind'' of JString k \<Rightarrow> Some k | _ \<Rightarrow> None))"

definition required_fields :: "json \<Rightarrow> string list" where
  "required_fields schema =
     (case field schema ''required'' of
        JArray items \<Rightarrow> List.map_filter (\<lambda>item. case item of JString s \<Rightarrow> (if blank s then None else Some s) | _ \<Rightarrow> None) items
      | _ \<Rightarrow> [])"

definition validateOutputSchemaValue :: "WorkOrder \<Rightarrow> NodeResultOutput \<Rightarrow> AggregationIssue list" where
  "validateOutputSchemaValue workOrder output =
     (let schema = wo_expectedOutputSchema workOrder; outputId = Some (no_outputId output) in
      case no_value output of
        None \<Rightarrow> [issue_at output_schema_value_missing sev_blocked outputId None None]
      | Some value \<Rightarrow>
          (case schema_type schema of
             Some t \<Rightarrow> if enterpriseValueMatchesSchemaType value t then []
               else [issue_at output_schema_type_mismatch sev_blocked outputId None None]
           | None \<Rightarrow> [])
          @ (if required_fields schema = [] then []
             else if \<not> isJsonRecord value then [issue_at output_schema_type_mismatch sev_blocked outputId None None]
             else map (\<lambda>key. issue_at output_schema_required_field_missing sev_blocked outputId None None)
               (filter (\<lambda>key. field value key = JUndefined) (required_fields schema))))"

definition expectedSchemaOutputId :: "WorkOrder \<Rightarrow> string" where
  "expectedSchemaOutputId workOrder = wo_workOrderId workOrder @ '':expected-output-schema''"

text \<open>A \<open>Map\<close> built from a list keeps the last entry of a key.\<close>

definition output_by_id :: "NodeResultOutput list \<Rightarrow> string \<Rightarrow> NodeResultOutput option" where
  "output_by_id outputs x = map_of (rev (map (\<lambda>o'. (no_outputId o', o')) outputs)) x"

definition criterion_met :: "NodeResultOutput list \<Rightarrow> string \<Rightarrow> bool" where
  "criterion_met outputs x = (case output_by_id outputs x of None \<Rightarrow> False | Some output \<Rightarrow> no_status output = out_satisfied)"

definition schema_issues :: "WorkOrder \<Rightarrow> NodeResultOutput list \<Rightarrow> AggregationIssue list" where
  "schema_issues workOrder outputs =
     (case output_by_id outputs (expectedSchemaOutputId workOrder) of
        None \<Rightarrow> [issue_at required_output_missing sev_blocked (Some (expectedSchemaOutputId workOrder)) None None]
      | Some output \<Rightarrow>
          if no_status output = out_missing
          then [issue_at required_output_missing sev_blocked (Some (expectedSchemaOutputId workOrder)) None None]
          else validateOutputSchemaValue workOrder output)"

definition criterion_issue :: "NodeResultOutput list \<Rightarrow> WorkOrderSuccessCriterion \<Rightarrow> AggregationIssue option" where
  "criterion_issue outputs criterion =
     (let x = cr_criterionId criterion in
      if criterion_met outputs x then None
      else if cr_required criterion then Some (issue_at success_criterion_unmet sev_blocked (Some x) (Some x) None)
      else Some (issue_at optional_success_criterion_unmet sev_warning (Some x) (Some x) None))"

definition carried_issues :: "AggregationResult \<Rightarrow> AggregationIssue list" where
  "carried_issues aggregation =
     map (\<lambda>i. issue_at (is_code i) (if is_severity i = sev_info then sev_warning else is_severity i) (is_outputId i) None (is_sourceIds i))
       (filter (\<lambda>i. is_code i \<noteq> duplicate_output_removed) (ag_issues aggregation))"

definition validateAggregatedNodeResult ::
  "WorkOrder \<Rightarrow> AggregationResult \<Rightarrow> bool option \<Rightarrow> AggregatedNodeValidationResult" where
  "validateAggregatedNodeResult workOrder aggregation allowPartialSuccess =
     (let outputs = ag_outputs aggregation;
          issues = carried_issues aggregation @ schema_issues workOrder outputs
            @ List.map_filter (criterion_issue outputs) (wo_successCriteria workOrder);
          status = decideValidationStatus issues (allowPartialSuccess = Some True)
      in \<lparr>va_status = status, va_nodeResultStatus = validationStatusToNodeResultStatus status, va_valid = (status = vs_valid),
          va_outputs = outputs,
          va_unmetSuccessCriteriaIds = map cr_criterionId
            (filter (\<lambda>c. \<not> criterion_met outputs (cr_criterionId c) \<and> cr_required c) (wo_successCriteria workOrder)),
          va_issues = issues\<rparr>)"

section \<open>What the node did itself\<close>

record ExpectedOutput =
  eo_outputId :: string
  eo_required :: bool

record NodeRuntimeSelfExecutionResult =
  se_status :: "NodeResultStatus option"
  se_outputs :: "NodeResultOutput list option"
  se_risksOrGaps :: "string list option"
  se_partialResult :: "json option"
  se_reasonCode :: "string option"

text \<open>Of an expected output the id and whether it is required are read here.\<close>

definition expectedSchemaOutput :: "WorkOrder \<Rightarrow> ExpectedOutput" where
  "expectedSchemaOutput workOrder = \<lparr>eo_outputId = wo_workOrderId workOrder @ '':expected-output-schema'', eo_required = True\<rparr>"

definition criterion_output :: "WorkOrderSuccessCriterion \<Rightarrow> ExpectedOutput" where
  "criterion_output criterion = \<lparr>eo_outputId = cr_criterionId criterion, eo_required = cr_required criterion\<rparr>"

definition buildExpectedOutputsForWorkOrder :: "WorkOrder \<Rightarrow> ExpectedOutput list" where
  "buildExpectedOutputsForWorkOrder workOrder =
     expectedSchemaOutput workOrder # map criterion_output (wo_successCriteria workOrder)"

definition missing_output :: "string \<Rightarrow> NodeResultOutput" where
  "missing_output x = \<lparr>no_outputId = x, no_status = out_missing, no_value = None\<rparr>"

definition normalizeSelfExecutionResult :: "NodeRuntimeSelfExecutionResult \<Rightarrow> ExpectedOutput list \<Rightarrow> NodeResultOutput list" where
  "normalizeSelfExecutionResult selfExecution expectedOutputs =
     (let outputs = nullish (se_outputs selfExecution) []
      in outputs @ map missing_output
           (filter (\<lambda>x. output_by_id outputs x = None) (map eo_outputId expectedOutputs)))"

definition unmet_outputs :: "ExpectedOutput list \<Rightarrow> NodeResultOutput list \<Rightarrow> string list" where
  "unmet_outputs expectedOutputs outputs =
     map eo_outputId (filter (\<lambda>e. eo_required e \<and> \<not> criterion_met outputs (eo_outputId e)) expectedOutputs)"

definition decideSelfExecutionReport ::
  "ExpectedOutput list \<Rightarrow> NodeRuntimeSelfExecutionResult \<Rightarrow> NodeResultOutput list \<Rightarrow> NodeResultStatus \<times> string \<times> string list" where
  "decideSelfExecutionReport expectedOutputs selfExecution outputs =
     (let requested = nullish (se_status selfExecution) nr_completed;
          unmet = unmet_outputs expectedOutputs outputs;
          risks = map (\<lambda>x. ''unmet_required_output:'' @ x) unmet;
          reason = (\<lambda>otherwise. nullish (se_reasonCode selfExecution) otherwise)
      in if requested = nr_failed then
           (nr_failed_candidate, reason ''self_execution_failed_candidate'', ''failed_status_normalized_to_failed_candidate'' # risks)
         else if requested = nr_completed \<and> unmet \<noteq> [] then (nr_failed_candidate, ''required_outputs_unmet'', risks)
         else if requested = nr_needs_revision then
           (nr_failed_candidate, reason ''needs_revision_normalized_to_failed_candidate'', risks)
         else if requested = nr_permission_limited then (nr_permission_limited, reason ''self_execution_permission_limited'', risks)
         else if requested = nr_failed_candidate then (nr_failed_candidate, reason ''self_execution_failed_candidate'', risks)
         else if requested = nr_partial_success then (nr_partial_success, reason ''self_execution_partial_success'', risks)
         else (nr_completed, reason ''self_execution_completed'', []))"

text \<open>
  The last part of a run with aggregation: what the node did itself is completed with the outputs it misses,
  merged with the results of its children and tools and checked against the work order. \<open>input\<close> brings the
  results of the others and the settings of the aggregation; its own outputs and status are replaced here.
\<close>

definition own_results :: "NodeRuntimeSelfExecutionResult \<Rightarrow> AggregateNodeRuntimeResultsInput \<Rightarrow> AggregateNodeRuntimeResultsInput" where
  "own_results selfExecution input =
     (let expected = buildExpectedOutputsForWorkOrder (an_workOrder input);
          outputs = normalizeSelfExecutionResult selfExecution expected;
          (status, reason, risks) = decideSelfExecutionReport expected selfExecution outputs
      in input\<lparr>an_selfOutputs := Some outputs, an_selfStatus := Some status,
           an_selfRisksOrGaps := Some (risks @ nullish (se_risksOrGaps selfExecution) [])\<rparr>)"

definition aggregated_result ::
  "host \<Rightarrow> NodeRuntimeSelfExecutionResult \<Rightarrow> AggregateNodeRuntimeResultsInput \<Rightarrow> bool option \<Rightarrow> AggregatedNodeValidationResult" where
  "aggregated_result H selfExecution input allowPartialSuccess =
     validateAggregatedNodeResult (an_workOrder input) (aggregateNodeRuntimeResults H (own_results selfExecution input))
       allowPartialSuccess"

section \<open>The merged outputs\<close>

text \<open>The items come in the order of their priority, so the one with the highest is the first.\<close>

definition by_priority :: "AggregatedResultItem list \<Rightarrow> bool" where
  "by_priority items \<longleftrightarrow> sorted_wrt (\<lambda>l r. sourcePriority (ai_sourceKind l) \<le> sourcePriority (ai_sourceKind r)) items"

lemma sort_by_sorted:
  assumes "sorted_wrt (\<lambda>l r. cmp l r \<le> 0) xs"
  shows "sort_by cmp xs = xs"
proof -
  have "insort_by cmp x ys = x # ys" if "\<forall>y\<in>set ys. cmp x y \<le> 0" for x ys
    using that by (cases ys) auto
  then show ?thesis
    using assms unfolding sort_by_def by (induction xs) auto
qed

lemma by_priority_block: "(\<And>i. i \<in> set items \<Longrightarrow> ai_sourceKind i = k) \<Longrightarrow> by_priority items"
  unfolding by_priority_def by (induction items) auto

lemma by_priority_append: "by_priority xs \<Longrightarrow> by_priority ys
    \<Longrightarrow> (\<And>i j. i \<in> set xs \<Longrightarrow> j \<in> set ys \<Longrightarrow> sourcePriority (ai_sourceKind i) \<le> sourcePriority (ai_sourceKind j))
    \<Longrightarrow> by_priority (xs @ ys)"
  by (simp add: by_priority_def sorted_wrt_append)

lemma sourcePriority_bounds [simp]: "0 \<le> sourcePriority k" "sourcePriority k \<le> 2"
  by (cases k; simp)+

lemma buildItem_kind [simp]: "ai_sourceKind (buildItem H k x output) = k"
  by (simp add: buildItem_def)

lemma result_items_by_priority: "by_priority (result_items H input)"
proof -
  have "by_priority (case an_selfOutputs input of None \<Rightarrow> [] | Some outputs \<Rightarrow>
      map (buildItem H source_self (tg_id (wo_to (an_workOrder input)))) outputs)"
    by (rule by_priority_block [where k = source_self]) (auto split: option.splits)
  moreover have "by_priority (concat (map (\<lambda>report. map (buildItem H source_child (nr_nodeId report)) (nr_outputs report))
      (an_childReports input)))"
    by (rule by_priority_block [where k = source_child]) auto
  moreover have "by_priority (map (\<lambda>result. buildItem H source_tool (tx_toolId result) (tool_output result)) (an_toolResults input))"
    by (rule by_priority_block [where k = source_tool]) auto
  ultimately show ?thesis
    unfolding result_items_def by (intro by_priority_append) (auto split: option.splits)
qed

lemma kept_subseq: "subseq (snd (split_duplicates x seen items)) items"
  by (induction x seen items rule: split_duplicates.induct) (auto split: prod.splits)

lemma kept_head: "items \<noteq> [] \<Longrightarrow> \<exists>rest. snd (split_duplicates x [] items) = hd items # rest"
  by (cases items) (auto split: prod.splits)

lemma sorted_wrt_subseq: "subseq xs ys \<Longrightarrow> sorted_wrt R ys \<Longrightarrow> sorted_wrt R xs"
proof (induction rule: list_emb.induct)
  case (list_emb_Cons2 x y xs ys)
  then show ?case
    using list_emb_set by fastforce
qed auto

lemma selected_first:
  assumes "by_priority items" "items_of x items \<noteq> []"
  shows "selectOutputForMerge (unique_items items x) = Some (hd (items_of x items))"
proof -
  have "subseq (unique_items items x) items"
    using kept_subseq subseq_order.trans subseq_filter_left unfolding unique_items_def items_of_def by blast
  then have "sorted_wrt (\<lambda>l r. sourcePriority (ai_sourceKind l) - sourcePriority (ai_sourceKind r) \<le> 0) (unique_items items x)"
    using assms(1) sorted_wrt_subseq unfolding by_priority_def by fastforce
  then have "sort_by (\<lambda>l r. sourcePriority (ai_sourceKind l) - sourcePriority (ai_sourceKind r)) (unique_items items x) = unique_items items x"
    by (rule sort_by_sorted)
  moreover obtain rest where "unique_items items x = hd (items_of x items) # rest"
    using kept_head [OF assms(2)] unfolding unique_items_def by blast
  ultimately show ?thesis
    by (simp add: selectOutputForMerge_def)
qed

lemma items_of_nonempty: "items_of x items \<noteq> [] \<longleftrightarrow> x \<in> set (output_ids items)"
  by (auto simp: items_of_def output_ids_def filter_empty_conv)

lemma map_filter_Some_eq: "(\<And>x. x \<in> set xs \<Longrightarrow> f x = Some (g x)) \<Longrightarrow> List.map_filter f xs = map g xs"
  by (induction xs) (auto simp: map_filter_simps)

text \<open>The first output with an id, in the order of the sources.\<close>

definition first_output :: "NodeResultOutput list \<Rightarrow> string \<Rightarrow> NodeResultOutput" where
  "first_output outputs x = hd (filter (\<lambda>o'. no_outputId o' = x) outputs)"

lemma first_output_id: "x \<in> no_outputId ` set outputs \<Longrightarrow> no_outputId (first_output outputs x) = x
    \<and> first_output outputs x \<in> set outputs"
  unfolding first_output_def using hd_in_set [of "filter (\<lambda>o'. no_outputId o' = x) outputs"]
  by (fastforce simp: filter_empty_conv)

lemma hd_items_of: "items_of x items \<noteq> [] \<Longrightarrow> ai_output (hd (items_of x items)) = first_output (map ai_output items) x"
  by (simp add: first_output_def items_of_def filter_map comp_def hd_map)

lemma merged_outputs:
  assumes "by_priority items"
  shows "fst (mergeOutputs items strategy) = map (first_output (map ai_output items)) (output_ids items)"
  unfolding mergeOutputs_def fst_conv
  by (rule map_filter_Some_eq) (simp add: selected_first [OF assms] items_of_nonempty hd_items_of)

lemma aggregate_fields:
  "ag_outputs (aggregateNodeRuntimeResults H input) = fst (mergeOutputs (result_items H input) (nullish (an_strategy input) merge_and_validate))"
  "ag_items (aggregateNodeRuntimeResults H input) = result_items H input"
  "ag_conflicts (aggregateNodeRuntimeResults H input) =
     snd (snd (mergeOutputs (result_items H input) (nullish (an_strategy input) merge_and_validate)))"
  "set (ag_conflicts (aggregateNodeRuntimeResults H input)) \<subseteq> set (ag_issues (aggregateNodeRuntimeResults H input))"
  by (auto simp: aggregateNodeRuntimeResults_def Let_def split: prod.splits)

definition all_outputs :: "AggregateNodeRuntimeResultsInput \<Rightarrow> NodeResultOutput list" where
  "all_outputs input = nullish (an_selfOutputs input) [] @ concat (map nr_outputs (an_childReports input))
     @ map tool_output (an_toolResults input)"

lemma items_outputs: "map ai_output (result_items H input) = all_outputs input"
proof -
  have "map ai_output (concat (map (\<lambda>report. map (buildItem H source_child (nr_nodeId report)) (nr_outputs report)) reports)) =
      concat (map nr_outputs reports)" for reports
    by (induction reports) (auto simp: buildItem_def comp_def)
  then show ?thesis
    by (auto simp: result_items_def all_outputs_def buildItem_def comp_def split: option.splits)
qed

lemma aggregated_outputs: "ag_outputs (aggregateNodeRuntimeResults H input) =
    map (first_output (all_outputs input)) (js_set (map no_outputId (all_outputs input)))"
proof -
  have "output_ids (result_items H input) = js_set (map no_outputId (all_outputs input))"
    unfolding output_ids_def items_outputs [of H, symmetric] by (simp add: comp_def)
  then show ?thesis
    by (simp add: aggregate_fields(1) merged_outputs [OF result_items_by_priority] items_outputs)
qed

lemma output_by_id_distinct:
  assumes "\<And>x. x \<in> set xs \<Longrightarrow> no_outputId (f x) = x"
  shows "output_by_id (map f xs) x = (if x \<in> set xs then Some (f x) else None)"
proof -
  have "rev (map (\<lambda>o'. (no_outputId o', o')) (map f xs)) = map (\<lambda>x. (x, f x)) (rev xs)"
    using assms by (simp add: rev_map)
  then show ?thesis
    unfolding output_by_id_def by (simp add: map_of_map_restrict restrict_map_def)
qed

lemma aggregated_output: "output_by_id (ag_outputs (aggregateNodeRuntimeResults H input)) x =
    (if x \<in> no_outputId ` set (all_outputs input) then Some (first_output (all_outputs input) x) else None)"
  unfolding aggregated_outputs by (subst output_by_id_distinct) (auto simp: first_output_id)

lemma criterion_met_iff: "criterion_met (ag_outputs (aggregateNodeRuntimeResults H input)) x \<longleftrightarrow>
    x \<in> no_outputId ` set (all_outputs input) \<and> no_status (first_output (all_outputs input) x) = out_satisfied"
  by (simp add: criterion_met_def aggregated_output)

section \<open>A valid result\<close>

lemma decided_valid:
  assumes "decideValidationStatus issues False = vs_valid" "i \<in> set issues"
  shows "is_code i \<noteq> success_criterion_unmet \<and> is_severity i \<noteq> sev_blocked \<and> is_severity i \<noteq> sev_needs_revision"
  using assms by (auto simp: decideValidationStatus_def list_ex_iff split: if_splits)

lemma partial_never_widens: "decideValidationStatus issues b = vs_valid \<Longrightarrow> decideValidationStatus issues False = vs_valid"
  by (auto simp: decideValidationStatus_def split: if_splits)

lemma valid_issue:
  assumes "va_status (validateAggregatedNodeResult w ag allow) = vs_valid"
    and "i \<in> set (carried_issues ag) \<union> set (schema_issues w (ag_outputs ag))
      \<union> set (List.map_filter (criterion_issue (ag_outputs ag)) (wo_successCriteria w))"
  shows "is_code i \<noteq> success_criterion_unmet \<and> is_severity i \<noteq> sev_blocked \<and> is_severity i \<noteq> sev_needs_revision"
  using assms by (intro decided_valid [OF partial_never_widens])
    (auto simp: validateAggregatedNodeResult_def Let_def)

lemma set_map_filter: "set (List.map_filter f xs) = {y. \<exists>x\<in>set xs. f x = Some y}"
  by (induction xs) (auto simp: map_filter_simps split: option.splits)

lemma unmet_criterion_blocks:
  assumes "c \<in> set (wo_successCriteria w)" "cr_required c" "\<not> criterion_met outputs (cr_criterionId c)"
  shows "\<exists>i\<in>set (List.map_filter (criterion_issue outputs) (wo_successCriteria w)). is_code i = success_criterion_unmet"
proof -
  have "criterion_issue outputs c =
      Some (issue_at success_criterion_unmet sev_blocked (Some (cr_criterionId c)) (Some (cr_criterionId c)) None)"
    using assms(2,3) by (simp add: criterion_issue_def Let_def)
  then show ?thesis
    unfolding set_map_filter using assms(1) by (intro bexI [of _ "issue_at success_criterion_unmet sev_blocked
      (Some (cr_criterionId c)) (Some (cr_criterionId c)) None"]) (auto simp: issue_at_def)
qed

lemma valid_criterion:
  assumes "va_status (validateAggregatedNodeResult w ag allow) = vs_valid" "c \<in> set (wo_successCriteria w)" "cr_required c"
  shows "criterion_met (ag_outputs ag) (cr_criterionId c)"
  using unmet_criterion_blocks [OF assms(2,3)] valid_issue [OF assms(1)] by blast

lemma schema_issue_blocked: "i \<in> set (schema_issues w outputs) \<Longrightarrow> is_severity i = sev_blocked"
  by (auto simp: schema_issues_def validateOutputSchemaValue_def issue_at_def Let_def split: option.splits if_splits)

lemma valid_schema:
  assumes "va_status (validateAggregatedNodeResult w ag allow) = vs_valid"
  shows "schema_issues w (ag_outputs ag) = []"
proof (rule ccontr)
  assume "schema_issues w (ag_outputs ag) \<noteq> []"
  then obtain i where "i \<in> set (schema_issues w (ag_outputs ag))"
    by (meson ex_in_conv set_empty)
  then show False
    using valid_issue [OF assms] schema_issue_blocked by blast
qed

definition fits_schema :: "WorkOrder \<Rightarrow> json \<Rightarrow> bool" where
  "fits_schema w v \<longleftrightarrow>
     (case schema_type (wo_expectedOutputSchema w) of None \<Rightarrow> True | Some t \<Rightarrow> enterpriseValueMatchesSchemaType v t)
     \<and> (\<forall>key\<in>set (required_fields (wo_expectedOutputSchema w)). isJsonRecord v \<and> field v key \<noteq> JUndefined)"

lemma no_schema_issue:
  assumes "schema_issues w outputs = []"
  shows "\<exists>output v. output_by_id outputs (expectedSchemaOutputId w) = Some output \<and> no_status output \<noteq> out_missing
    \<and> no_value output = Some v \<and> fits_schema w v"
  using assms by (auto simp: schema_issues_def validateOutputSchemaValue_def fits_schema_def Let_def filter_empty_conv
      split: option.splits if_splits)

lemma conflict_item: "i \<in> set (ag_conflicts (aggregateNodeRuntimeResults H input)) \<Longrightarrow>
    is_code i = output_conflict_detected \<and>
    is_severity i = (if nullish (an_strategy input) merge_and_validate = parent_decides then sev_warning else sev_needs_revision)"
  by (auto simp: aggregate_fields(3) mergeOutputs_def set_map_filter issue_at_def split: if_splits)

lemma valid_without_conflict:
  assumes "va_status (validateAggregatedNodeResult w (aggregateNodeRuntimeResults H input) allow) = vs_valid"
    and "nullish (an_strategy input) merge_and_validate \<noteq> parent_decides"
  shows "ag_conflicts (aggregateNodeRuntimeResults H input) = []"
proof (rule ccontr)
  assume "ag_conflicts (aggregateNodeRuntimeResults H input) \<noteq> []"
  then obtain i where i: "i \<in> set (ag_conflicts (aggregateNodeRuntimeResults H input))"
    by (meson ex_in_conv set_empty)
  then have "i \<in> set (ag_issues (aggregateNodeRuntimeResults H input))"
    using aggregate_fields(4) by blast
  then have "issue_at (is_code i) (is_severity i) (is_outputId i) None (is_sourceIds i)
      \<in> set (carried_issues (aggregateNodeRuntimeResults H input))"
    using conflict_item [OF i] assms(2) unfolding carried_issues_def set_map set_filter
    by (intro image_eqI [where x = i]) auto
  then have "is_severity (issue_at (is_code i) (is_severity i) (is_outputId i) None (is_sourceIds i)) \<noteq> sev_needs_revision"
    using valid_issue [OF assms(1)] by blast
  then show False
    using conflict_item [OF i] assms(2) by (simp add: issue_at_def)
qed

lemma no_conflict_unique:
  assumes "ag_conflicts (aggregateNodeRuntimeResults H input) = []" "x \<in> set (output_ids (result_items H input))"
  shows "length (unique_items (result_items H input) x) \<le> 1"
proof (rule ccontr)
  assume "\<not> length (unique_items (result_items H input) x) \<le> 1"
  then show False
    using assms by (auto simp: aggregate_fields(3) mergeOutputs_def map_filter_def filter_empty_conv)
qed

lemma kept_fingerprints: "i \<in> set items \<Longrightarrow>
    ai_fingerprint i \<in> set seen \<or> ai_fingerprint i \<in> ai_fingerprint ` set (snd (split_duplicates x seen items))"
  by (induction x seen items rule: split_duplicates.induct) (auto split: prod.splits if_splits)

lemma unique_fingerprint:
  assumes "length (unique_items items x) \<le> 1" "i \<in> set (items_of x items)" "j \<in> set (items_of x items)"
  shows "ai_fingerprint i = ai_fingerprint j"
proof -
  have "\<forall>k\<in>set (items_of x items). ai_fingerprint k \<in> ai_fingerprint ` set (unique_items items x)"
    using kept_fingerprints [of _ "items_of x items" "[]" x] by (simp add: unique_items_def)
  then have "ai_fingerprint i \<in> ai_fingerprint ` set (unique_items items x)" "ai_fingerprint j \<in> ai_fingerprint ` set (unique_items items x)"
    using assms(2,3) by blast+
  then show ?thesis
    using assms(1) by (cases "unique_items items x") auto
qed

lemma same_fingerprint:
  assumes "ag_conflicts (aggregateNodeRuntimeResults H input) = []"
    and "o1 \<in> set (all_outputs input)" "o2 \<in> set (all_outputs input)" "no_outputId o1 = no_outputId o2"
  shows "output_fingerprint H o1 = output_fingerprint H o2"
proof -
  have item: "\<exists>i\<in>set (items_of (no_outputId o1) (result_items H input)). ai_output i = o' \<and> ai_fingerprint i = output_fingerprint H o'"
    if "o' \<in> set (all_outputs input)" "no_outputId o' = no_outputId o1" for o'
  proof -
    have "\<forall>i\<in>set (result_items H input). ai_fingerprint i = output_fingerprint H (ai_output i)"
      by (auto simp: result_items_def buildItem_def split: option.splits)
    moreover have "o' \<in> ai_output ` set (result_items H input)"
      using that(1) unfolding items_outputs [of H, symmetric] by simp
    ultimately show ?thesis
      using that(2) by (auto simp: items_of_def)
  qed
  then have "no_outputId o1 \<in> set (output_ids (result_items H input))"
    using assms(2) items_of_nonempty by (metis empty_iff empty_set)
  then show ?thesis
    using unique_fingerprint [OF no_conflict_unique [OF assms(1)]] item [OF assms(2)] item [OF assms(3)] assms(4) by metis
qed

section \<open>Properties\<close>

lemma find_first: "List.find (\<lambda>o'. no_outputId o' = x) outputs =
    (if x \<in> no_outputId ` set outputs then Some (first_output outputs x) else None)"
  by (induction outputs) (auto simp: first_output_def)

text \<open>C36. Merging the results of a node amounts to taking, for each output, the first one with its id in the order
  the node itself, its children, its tools: removing repetitions by fingerprint and sorting what remains by the
  priority of its source never changes the choice, whatever the outputs say.
\<close>

theorem merge_is_first_output:
  "output_by_id (ag_outputs (aggregateNodeRuntimeResults H input)) x = List.find (\<lambda>o'. no_outputId o' = x) (all_outputs input)"
  by (simp add: aggregated_output find_first)

text \<open>C15. A result is validated as complete only when every required criterion is met by the output that counts for
  it, the output of the work order's schema is there with a value of the declared type and all required fields,
  and, unless the parent decides on conflicts, no two sources gave different outputs under the same id.
\<close>

theorem valid_result_is_complete:
  assumes "va_status (validateAggregatedNodeResult w (aggregateNodeRuntimeResults H input) allow) = vs_valid"
  shows "(\<forall>c\<in>set (wo_successCriteria w). cr_required c \<longrightarrow>
      (\<exists>output. List.find (\<lambda>o'. no_outputId o' = cr_criterionId c) (all_outputs input) = Some output \<and> no_status output = out_satisfied))
    \<and> (\<exists>output v. List.find (\<lambda>o'. no_outputId o' = expectedSchemaOutputId w) (all_outputs input) = Some output
      \<and> no_status output \<noteq> out_missing \<and> no_value output = Some v \<and> fits_schema w v)
    \<and> (nullish (an_strategy input) merge_and_validate \<noteq> parent_decides \<longrightarrow>
      (\<forall>o1\<in>set (all_outputs input). \<forall>o2\<in>set (all_outputs input). no_outputId o1 = no_outputId o2 \<longrightarrow>
        output_fingerprint H o1 = output_fingerprint H o2))"
proof (intro conjI)
  show "(\<forall>c\<in>set (wo_successCriteria w). cr_required c \<longrightarrow>
      (\<exists>output. List.find (\<lambda>o'. no_outputId o' = cr_criterionId c) (all_outputs input) = Some output \<and> no_status output = out_satisfied))"
    using valid_criterion [OF assms] by (auto simp: criterion_met_iff find_first)
  show "(\<exists>output v. List.find (\<lambda>o'. no_outputId o' = expectedSchemaOutputId w) (all_outputs input) = Some output
      \<and> no_status output \<noteq> out_missing \<and> no_value output = Some v \<and> fits_schema w v)"
    using no_schema_issue [OF valid_schema [OF assms]] by (simp add: aggregated_output find_first)
  show "(nullish (an_strategy input) merge_and_validate \<noteq> parent_decides \<longrightarrow>
      (\<forall>o1\<in>set (all_outputs input). \<forall>o2\<in>set (all_outputs input). no_outputId o1 = no_outputId o2 \<longrightarrow>
        output_fingerprint H o1 = output_fingerprint H o2))"
    using same_fingerprint [OF valid_without_conflict [OF assms]] by blast
qed

lemma own_results_fields:
  "an_selfOutputs (own_results se input) =
     Some (normalizeSelfExecutionResult se (buildExpectedOutputsForWorkOrder (an_workOrder input)))"
  "an_workOrder (own_results se input) = an_workOrder input"
  "an_childReports (own_results se input) = an_childReports input"
  "an_toolResults (own_results se input) = an_toolResults input"
  by (simp_all add: own_results_def Let_def split: prod.splits)

lemma expected_criterion: "c \<in> set (wo_successCriteria w) \<Longrightarrow> cr_criterionId c \<in> set (map eo_outputId (buildExpectedOutputsForWorkOrder w))"
  by (auto simp: buildExpectedOutputsForWorkOrder_def criterion_output_def)

lemma find_missing: "x \<in> set xs \<Longrightarrow> List.find (\<lambda>o'. no_outputId o' = x) (map missing_output xs) = Some (missing_output x)"
  by (induction xs) (auto simp: missing_output_def)

lemma output_by_id_None: "output_by_id outputs x = None \<longleftrightarrow> List.find (\<lambda>o'. no_outputId o' = x) outputs = None"
  by (auto simp: output_by_id_def map_of_eq_None_iff find_None_iff image_image)

lemma own_output_counts:
  assumes "x \<in> set (map eo_outputId expected)"
  shows "List.find (\<lambda>o'. no_outputId o' = x) (normalizeSelfExecutionResult se expected) =
    Some (case List.find (\<lambda>o'. no_outputId o' = x) (nullish (se_outputs se) []) of None \<Rightarrow> missing_output x | Some output \<Rightarrow> output)"
proof (cases "List.find (\<lambda>o'. no_outputId o' = x) (nullish (se_outputs se) [])")
  case None
  then have "x \<in> set (filter (\<lambda>x. output_by_id (nullish (se_outputs se) []) x = None) (map eo_outputId expected))"
    using assms by (simp add: output_by_id_None)
  then show ?thesis
    by (simp add: normalizeSelfExecutionResult_def Let_def find_append None find_missing)
qed (simp add: normalizeSelfExecutionResult_def Let_def find_append)

lemma own_criterion:
  assumes "x \<in> set (map eo_outputId (buildExpectedOutputsForWorkOrder (an_workOrder input)))"
  shows "criterion_met (ag_outputs (aggregateNodeRuntimeResults H (own_results se input))) x \<longleftrightarrow>
    (\<exists>output. List.find (\<lambda>o'. no_outputId o' = x) (nullish (se_outputs se) []) = Some output \<and> no_status output = out_satisfied)"
proof -
  have "List.find (\<lambda>o'. no_outputId o' = x) (all_outputs (own_results se input)) =
      Some (case List.find (\<lambda>o'. no_outputId o' = x) (nullish (se_outputs se) []) of None \<Rightarrow> missing_output x | Some output \<Rightarrow> output)"
    using own_output_counts [OF assms] by (simp add: all_outputs_def own_results_fields find_append)
  then have "output_by_id (ag_outputs (aggregateNodeRuntimeResults H (own_results se input))) x =
      Some (case List.find (\<lambda>o'. no_outputId o' = x) (nullish (se_outputs se) []) of None \<Rightarrow> missing_output x | Some output \<Rightarrow> output)"
    by (simp add: aggregated_output find_first)
  then show ?thesis
    by (auto simp: criterion_met_def missing_output_def split: option.splits)
qed

text \<open>C37. In a run with aggregation the required criteria that stay unmet are exactly those the node's own first
  output does not satisfy: what its children and tools returned has no part in it, since the node's outputs are
  first completed with \<open>missing\<close> ones, and those win over the satisfied outputs of a child.
\<close>

theorem children_never_meet_a_criterion:
  "va_unmetSuccessCriteriaIds (aggregated_result H se input allow) =
     map cr_criterionId (filter (\<lambda>c. cr_required c \<and> \<not> (\<exists>output.
       List.find (\<lambda>o'. no_outputId o' = cr_criterionId c) (nullish (se_outputs se) []) = Some output \<and> no_status output = out_satisfied))
       (wo_successCriteria (an_workOrder input)))"
proof -
  have "filter (\<lambda>c. \<not> criterion_met (ag_outputs (aggregateNodeRuntimeResults H (own_results se input))) (cr_criterionId c) \<and> cr_required c)
      (wo_successCriteria (an_workOrder input)) =
    filter (\<lambda>c. cr_required c \<and> \<not> (\<exists>output. List.find (\<lambda>o'. no_outputId o' = cr_criterionId c) (nullish (se_outputs se) []) = Some output
      \<and> no_status output = out_satisfied)) (wo_successCriteria (an_workOrder input))"
    by (rule filter_cong [OF refl]) (use own_criterion [OF expected_criterion] in blast)
  then show ?thesis
    by (simp add: aggregated_result_def validateAggregatedNodeResult_def Let_def)
qed

section \<open>A result with one criterion\<close>

definition checked_order :: WorkOrder where
  "checked_order = sample_order\<lparr>wo_successCriteria := [\<lparr>cr_criterionId = ''answered'', cr_description = ''d'', cr_required = True,
     cr_validationKind = vk_manual, cr_metadata = None\<rparr>], wo_expectedOutputSchema := JObject [(''type'', JString ''string'')]\<rparr>"

definition answered :: NodeResultOutput where
  "answered = \<lparr>no_outputId = ''answered'', no_status = out_satisfied, no_value = None\<rparr>"

definition schema_answer :: NodeResultOutput where
  "schema_answer = \<lparr>no_outputId = ''w:expected-output-schema'', no_status = out_satisfied, no_value = Some (JString ''yes'')\<rparr>"

definition checked_input :: AggregateNodeRuntimeResultsInput where
  "checked_input = \<lparr>an_workOrder = checked_order, an_strategy = None, an_selfOutputs = Some [schema_answer, answered],
     an_selfStatus = None, an_selfRisksOrGaps = None, an_childReports = [], an_toolResults = [], an_expectedChildNodeIds = None,
     an_requireAllChildResults = None, an_requiredSatisfiedSourceCount = None\<rparr>"

lemma valid_result_is_complete_witness:
  "\<exists>output. List.find (\<lambda>o'. no_outputId o' = ''answered'') (all_outputs checked_input) = Some output \<and> no_status output = out_satisfied"
proof -
  have valid: "va_status (validateAggregatedNodeResult checked_order (aggregateNodeRuntimeResults plain_host checked_input) None) = vs_valid"
    by code_simp
  show ?thesis
    using valid_result_is_complete [OF valid] by (simp add: checked_order_def)
qed

end
