(* ===== verification/Stop_Report.thy ===== *)
theory Stop_Report
  imports Structured_Work
begin

text \<open>
  \<open>contracts/stop-report-decision.ts\<close>: whether a goal goes on, waits, changes its strategy or stops with a
  report. The first decision is about goals that may be achieved, the second about goals whose solution
  paths are exhausted. The file repeats \<open>required\<close> and \<open>unique\<close> of the lifecycle, here \<open>requiredText\<close> and
  \<open>requireUniqueText\<close>. A thrown error is the left summand.
\<close>

section \<open>Limits of attempts\<close>

datatype AttemptLimitPolicy =
    Bounded number number string
  | Unbounded string
  | StrategyGuarded string

primrec policy_version :: "AttemptLimitPolicy \<Rightarrow> string" where
  "policy_version (Bounded maxTurns maxRetries v) = v"
| "policy_version (Unbounded v) = v"
| "policy_version (StrategyGuarded v) = v"

definition nonNegative :: "number \<Rightarrow> string \<Rightarrow> string + number" where
  "nonNegative value field =
     (if \<not> is_safe_integer value \<or> num_lt value (Num 0) then Inl (field @ '' must be a non-negative integer.'') else Inr value)"

definition normalizeStartupAttemptLimitPolicy :: "number \<Rightarrow> number option \<Rightarrow> string \<Rightarrow> string + AttemptLimitPolicy" where
  "normalizeStartupAttemptLimitPolicy turns retries version =
     rbind (requiredText version ''Attempt policy version'') (\<lambda>policyVersion.
     rbind (nonNegative turns ''Maximum turns'') (\<lambda>maxTurns.
     rbind (nonNegative (nullish retries turns) ''Maximum retries'') (\<lambda>maxRetries.
     if maxTurns = Num 0 then Inr (Unbounded policyVersion) else Inr (Bounded maxTurns maxRetries policyVersion))))"

section \<open>Goals that may be achieved\<close>

record GoalCompletionReceipt =
  gc_goalId :: string
  gc_expectedCriterionIds :: "string list"
  gc_satisfiedCriterionIds :: "string list"
  gc_evidenceRefsByCriterion :: "string \<rightharpoonup> string list"
  gc_unresolvedItemIds :: "string list"

datatype StopReason = goal_achieved | turn_limit_reached | retry_limit_reached
datatype ReassessReason = turn_observation_threshold_reached | retry_observation_threshold_reached

record StopReportInput =
  sr_goalId :: string
  sr_reasonCode :: StopReason
  sr_evidenceRefs :: "string list"
  sr_unresolvedItemIds :: "string list"
  sr_currentTurn :: number
  sr_currentRetry :: number
  sr_policyVersion :: string

datatype StopReportDecision =
    Continue number
  | ReassessStrategy ReassessReason number number number string
  | EvidenceIncomplete "string list"
  | StopAndReport StopReportInput

definition num_succ :: "number \<Rightarrow> number" where
  "num_succ n = (case n of Num q \<Rightarrow> Num (q + 1) | _ \<Rightarrow> n)"

definition check_bounds :: "AttemptLimitPolicy \<Rightarrow> string + unit" where
  "check_bounds policy =
     (case policy of
        Bounded maxTurns maxRetries v \<Rightarrow>
          if \<not> is_safe_integer maxTurns \<or> num_le maxTurns (Num 0) then Inl ''maxTurns must be a positive integer.''
          else if \<not> is_safe_integer maxRetries \<or> num_lt maxRetries (Num 0) then Inl ''maxRetries must be a non-negative integer.''
          else Inr ()
      | _ \<Rightarrow> Inr ())"

definition evidence_of :: "GoalCompletionReceipt \<Rightarrow> string \<Rightarrow> string list" where
  "evidence_of completion criterionId = nullish (gc_evidenceRefsByCriterion completion criterionId) []"

text \<open>The predicate of the filter: the evidence of a criterion is only looked at if it is satisfied.\<close>

definition criterion_missing :: "GoalCompletionReceipt \<Rightarrow> string list \<Rightarrow> string \<Rightarrow> string + bool" where
  "criterion_missing completion satisfied criterionId =
     (if criterionId \<notin> set satisfied then Inr True
      else rbind (requireUniqueText (evidence_of completion criterionId) (''Evidence for '' @ criterionId)) (\<lambda>refs. Inr (refs = [])))"

fun missing_criteria :: "GoalCompletionReceipt \<Rightarrow> string list \<Rightarrow> string list \<Rightarrow> string + string list" where
  "missing_criteria completion satisfied [] = Inr []"
| "missing_criteria completion satisfied (c # cs) =
     rbind (criterion_missing completion satisfied c) (\<lambda>missing.
     rbind (missing_criteria completion satisfied cs) (\<lambda>rest. Inr (if missing then c # rest else rest)))"

definition limit_decision :: "AttemptLimitPolicy \<Rightarrow> number \<Rightarrow> number \<Rightarrow> string \<Rightarrow> StopReportDecision" where
  "limit_decision policy currentTurn currentRetry policyVersion =
     (case policy of
        Bounded maxTurns maxRetries v \<Rightarrow>
          if num_le maxTurns currentTurn
          then ReassessStrategy turn_observation_threshold_reached currentTurn currentRetry (num_succ currentTurn) policyVersion
          else if num_le maxRetries currentRetry
          then ReassessStrategy retry_observation_threshold_reached currentTurn currentRetry (num_succ currentTurn) policyVersion
          else Continue (num_succ currentTurn)
      | _ \<Rightarrow> Continue (num_succ currentTurn))"

definition evaluateStopReportDecision ::
  "GoalCompletionReceipt \<Rightarrow> number \<Rightarrow> number \<Rightarrow> AttemptLimitPolicy \<Rightarrow> string + StopReportDecision" where
  "evaluateStopReportDecision completion turn retries policy =
     rbind (requiredText (gc_goalId completion) ''Goal ID'') (\<lambda>goalId.
     rbind (requireUniqueText (gc_expectedCriterionIds completion) ''Expected criterion ID'') (\<lambda>expected.
     rbind (requireUniqueText (gc_satisfiedCriterionIds completion) ''Satisfied criterion ID'') (\<lambda>satisfied.
     rbind (requireUniqueText (gc_unresolvedItemIds completion) ''Unresolved item ID'') (\<lambda>unresolved.
     rbind (nonNegative turn ''Current turn'') (\<lambda>currentTurn.
     rbind (nonNegative retries ''Current retry'') (\<lambda>currentRetry.
     rbind (requiredText (policy_version policy) ''Attempt policy version'') (\<lambda>policyVersion.
     rbind (check_bounds policy) (\<lambda>_.
     rbind (missing_criteria completion satisfied expected) (\<lambda>missing.
     if expected \<noteq> [] \<and> gc_satisfiedCriterionIds completion \<noteq> [] \<and> missing \<noteq> [] then Inr (EvidenceIncomplete missing)
     else if expected \<noteq> [] \<and> missing = [] \<and> unresolved = [] then
       rbind (requireUniqueText (concat (map (evidence_of completion) expected)) ''Completion evidence ref'') (\<lambda>refs.
       Inr (StopAndReport \<lparr>sr_goalId = goalId, sr_reasonCode = goal_achieved, sr_evidenceRefs = refs, sr_unresolvedItemIds = [],
         sr_currentTurn = currentTurn, sr_currentRetry = currentRetry, sr_policyVersion = policyVersion\<rparr>))
     else Inr (limit_decision policy currentTurn currentRetry policyVersion))))))))))"

section \<open>Goals whose paths are exhausted\<close>

datatype DenialSource = denied_by_user | denied_by_policy | denied_by_operating_system

record PermissionDenialReceipt =
  dn_permissionKind :: string
  dn_targetRef :: string
  dn_decisionSource :: DenialSource
  dn_evidenceRefs :: "string list"
  dn_safeAlternativePathIds :: "string list"

record ConcreteImpossibilityReceipt =
  ci_reasonCode :: string
  ci_verifiedFacts :: "string list"
  ci_evidenceRefs :: "string list"
  ci_recoverable :: bool
  ci_requiredChanges :: "string list"

record ExhaustedSolutionPathReceipt =
  ex_receiptId :: string
  ex_complete :: bool
  ex_canFinalizeFailure :: bool
  ex_missingPaths :: "string list"
  ex_evidenceRefs :: "string list"
  ex_partialResultRefs :: "string list"
  ex_workaroundGuidance :: "string list"

datatype BlockedReason = permission_denied | solution_paths_exhausted | concrete_impossibility

record BlockedStopReportInput =
  bs_goalId :: string
  bs_reasonCode :: BlockedReason
  bs_diagnosisReceiptId :: string
  bs_evidenceRefs :: "string list"
  bs_unresolvedItemIds :: "string list"
  bs_partialResultRefs :: "string list"
  bs_nextActions :: "string list"

datatype BlockedStopReportDecision =
    PathsRemaining "string list"
  | RecoverableCondition "string list"
  | BlockedStop BlockedStopReportInput

definition evaluateBlockedStopReportDecision ::
  "string \<Rightarrow> ExhaustedSolutionPathReceipt \<Rightarrow> string list \<Rightarrow> PermissionDenialReceipt option \<Rightarrow> ConcreteImpossibilityReceipt option
     \<Rightarrow> string + BlockedStopReportDecision" where
  "evaluateBlockedStopReportDecision goal exhaustion unresolvedIds permissionDenial impossibility =
     rbind (requiredText goal ''Goal ID'') (\<lambda>goalId.
     rbind (requiredText (ex_receiptId exhaustion) ''Diagnosis receipt ID'') (\<lambda>receiptId.
     rbind (requireUniqueText (ex_missingPaths exhaustion) ''Missing solution path'') (\<lambda>missingPaths.
     rbind (requireUniqueText unresolvedIds ''Unresolved item ID'') (\<lambda>unresolved.
     if \<not> ex_complete exhaustion \<or> \<not> ex_canFinalizeFailure exhaustion \<or> missingPaths \<noteq> [] then Inr (PathsRemaining missingPaths)
     else if unresolved = [] then Inl ''Blocked stop requires unresolved items.''
     else
     rbind (requireUniqueText (ex_evidenceRefs exhaustion) ''Solution-path evidence'') (\<lambda>evidence.
     if evidence = [] then Inl ''Exhausted solution paths require evidence.''
     else
     rbind (requireUniqueText (ex_partialResultRefs exhaustion) ''Partial result reference'') (\<lambda>partials.
     rbind (requireUniqueText (ex_workaroundGuidance exhaustion) ''Workaround guidance'') (\<lambda>guidance.
     let report = (\<lambda>reason refs actions. Inr (BlockedStop \<lparr>bs_goalId = goalId, bs_reasonCode = reason,
           bs_diagnosisReceiptId = receiptId, bs_evidenceRefs = refs, bs_unresolvedItemIds = unresolved,
           bs_partialResultRefs = partials, bs_nextActions = actions\<rparr>))
     in case permissionDenial of
       Some denial \<Rightarrow>
         rbind (requiredText (dn_permissionKind denial) ''Permission kind'') (\<lambda>_.
         rbind (requiredText (dn_targetRef denial) ''Permission target reference'') (\<lambda>_.
         rbind (requireUniqueText (dn_evidenceRefs denial) ''Permission denial evidence'') (\<lambda>permissionEvidence.
         if permissionEvidence = [] then Inl ''Permission denial requires evidence.''
         else
         rbind (requireUniqueText (dn_safeAlternativePathIds denial) ''Safe alternative path ID'') (\<lambda>alternatives.
         if alternatives \<noteq> [] then Inr (PathsRemaining alternatives)
         else
         rbind (requireUniqueText (evidence @ permissionEvidence) ''Terminal evidence ref'') (\<lambda>refs.
         report permission_denied refs guidance)))))
     | None \<Rightarrow>
         (case impossibility of
            Some i \<Rightarrow>
              rbind (requiredText (ci_reasonCode i) ''Impossibility reason code'') (\<lambda>_.
              rbind (requireUniqueText (ci_verifiedFacts i) ''Verified impossibility fact'') (\<lambda>facts.
              rbind (requireUniqueText (ci_evidenceRefs i) ''Impossibility evidence'') (\<lambda>iEvidence.
              if facts = [] \<or> iEvidence = [] then Inl ''Concrete impossibility requires verified facts and evidence.''
              else
              rbind (requireUniqueText (ci_requiredChanges i) ''Required change'') (\<lambda>changes.
              if ci_recoverable i then
                (if changes = [] then Inl ''Recoverable impossibility requires at least one required change.''
                 else Inr (RecoverableCondition changes))
              else
              rbind (requireUniqueText (evidence @ iEvidence) ''Terminal evidence ref'') (\<lambda>refs.
              rbind (requireUniqueText (guidance @ changes) ''Terminal next action'') (\<lambda>actions.
              report concrete_impossibility refs actions))))))
          | None \<Rightarrow> report solution_paths_exhausted evidence guidance))))))))"

text \<open>\<open>executeContinuingAction\<close>: the action runs only if the decision is to go on.\<close>

datatype AnyDecision = GoalDecision StopReportDecision | BlockedDecision BlockedStopReportDecision

fun continues :: "AnyDecision \<Rightarrow> bool" where
  "continues (GoalDecision (Continue n)) = True"
| "continues (BlockedDecision (PathsRemaining p)) = True"
| "continues d = False"

datatype 't ContinuingResult = Executed 't | NotExecuted AnyDecision

definition executeContinuingAction :: "AnyDecision \<Rightarrow> (unit \<Rightarrow> 's \<Rightarrow> 't \<times> 's) \<Rightarrow> 's \<Rightarrow> 't ContinuingResult \<times> 's" where
  "executeContinuingAction decision execute world =
     (if \<not> continues decision then (NotExecuted decision, world)
      else (case execute () world of (result, world') \<Rightarrow> (Executed result, world')))"

section \<open>When a goal stops\<close>

lemma requireUniqueText_Inr_iff: "requireUniqueText vs field = Inr ns \<longleftrightarrow>
     (\<forall>v\<in>set vs. \<not> blank v) \<and> ns = map js_trim vs \<and> distinct ns"
proof -
  have "mapM (\<lambda>v. requiredText v field) vs = Inr ms \<longleftrightarrow> (\<forall>v\<in>set vs. \<not> blank v) \<and> ms = map js_trim vs" for ms
    by (induction vs arbitrary: ms) (auto simp: rbind_Inr_iff requiredText_def requireText_Inr_iff)
  then show ?thesis
    by (auto simp: requireUniqueText_def rbind_Inr_iff js_set_size_eq)
qed

lemma criterion_missing_Inr_iff: "criterion_missing completion satisfied c = Inr m \<longleftrightarrow>
     (if c \<in> set satisfied
      then (\<forall>v\<in>set (evidence_of completion c). \<not> blank v) \<and> distinct (map js_trim (evidence_of completion c))
        \<and> m = (evidence_of completion c = [])
      else m)"
  by (auto simp: criterion_missing_def rbind_Inr_iff requireUniqueText_Inr_iff)

lemma missing_criteria_Nil_iff: "missing_criteria completion satisfied cs = Inr [] \<longleftrightarrow>
     (\<forall>c\<in>set cs. c \<in> set satisfied \<and> evidence_of completion c \<noteq> []
        \<and> (\<forall>v\<in>set (evidence_of completion c). \<not> blank v) \<and> distinct (map js_trim (evidence_of completion c)))"
  by (induction cs) (auto simp: rbind_Inr_iff criterion_missing_Inr_iff)

lemma limit_decision_no_stop [simp]: "limit_decision policy t r v \<noteq> StopAndReport i"
  by (auto simp: limit_decision_def split: AttemptLimitPolicy.splits)

text \<open>Texts that survive \<open>unique\<close>.\<close>

definition unique_texts :: "string list \<Rightarrow> bool" where
  "unique_texts vs \<longleftrightarrow> (\<forall>v\<in>set vs. \<not> blank v) \<and> distinct (map js_trim vs)"

lemma unique_texts_Nil [simp]: "unique_texts []"
  by (simp add: unique_texts_def)

lemma requireUniqueText_texts: "requireUniqueText vs field = Inr ns \<longleftrightarrow> unique_texts vs \<and> ns = map js_trim vs"
  by (auto simp: requireUniqueText_Inr_iff unique_texts_def)

lemma required_Inr [simp]: "requiredText v field = Inr t \<longleftrightarrow> \<not> blank v \<and> t = js_trim v"
  by (simp add: requiredText_def requireText_Inr_iff)

lemma nonNegative_Inr_iff: "nonNegative n field = Inr m \<longleftrightarrow> is_safe_integer n \<and> \<not> num_lt n (Num 0) \<and> m = n"
  by (auto simp: nonNegative_def)

text \<open>The counters and the policy are well formed.\<close>

definition counters_ok :: "number \<Rightarrow> number \<Rightarrow> AttemptLimitPolicy \<Rightarrow> bool" where
  "counters_ok turn retries policy \<longleftrightarrow>
     is_safe_integer turn \<and> \<not> num_lt turn (Num 0) \<and> is_safe_integer retries \<and> \<not> num_lt retries (Num 0)
     \<and> \<not> blank (policy_version policy) \<and> check_bounds policy = Inr ()"

definition receipt_ok :: "GoalCompletionReceipt \<Rightarrow> bool" where
  "receipt_ok completion \<longleftrightarrow> \<not> blank (gc_goalId completion) \<and> unique_texts (gc_expectedCriterionIds completion)
     \<and> unique_texts (gc_satisfiedCriterionIds completion) \<and> unique_texts (gc_unresolvedItemIds completion)"

lemma unique_texts_concat: "unique_texts (concat xss) \<Longrightarrow> xs \<in> set xss \<Longrightarrow> unique_texts xs"
  by (induction xss) (auto simp: unique_texts_def)

text \<open>What the decision does once everything it is given is well formed.\<close>

definition all_evidenced :: "GoalCompletionReceipt \<Rightarrow> bool" where
  "all_evidenced completion \<longleftrightarrow>
     (\<forall>c\<in>set (gc_expectedCriterionIds completion). js_trim c \<in> js_trim ` set (gc_satisfiedCriterionIds completion)
        \<and> evidence_of completion (js_trim c) \<noteq> [])"

lemma missing_none_iff:
  "missing_criteria completion (map js_trim (gc_satisfiedCriterionIds completion)) (map js_trim (gc_expectedCriterionIds completion)) = Inr []
     \<longleftrightarrow> all_evidenced completion
       \<and> (\<forall>c\<in>set (gc_expectedCriterionIds completion). unique_texts (evidence_of completion (js_trim c)))"
  by (auto simp: missing_criteria_Nil_iff all_evidenced_def unique_texts_def)

lemma stop_iff: "evaluateStopReportDecision completion turn retries policy = Inr (StopAndReport i) \<longleftrightarrow>
     receipt_ok completion \<and> counters_ok turn retries policy
     \<and> gc_expectedCriterionIds completion \<noteq> [] \<and> gc_unresolvedItemIds completion = [] \<and> all_evidenced completion
     \<and> unique_texts (concat (map (\<lambda>c. evidence_of completion (js_trim c)) (gc_expectedCriterionIds completion)))
     \<and> i = \<lparr>sr_goalId = js_trim (gc_goalId completion), sr_reasonCode = goal_achieved,
         sr_evidenceRefs = map js_trim (concat (map (\<lambda>c. evidence_of completion (js_trim c)) (gc_expectedCriterionIds completion))),
         sr_unresolvedItemIds = [], sr_currentTurn = turn, sr_currentRetry = retries,
         sr_policyVersion = js_trim (policy_version policy)\<rparr>"
  (is "?stop \<longleftrightarrow> ?right")
proof
  assume ?stop
  then show ?right
    by (auto simp: evaluateStopReportDecision_def rbind_Inr_iff requireUniqueText_texts nonNegative_Inr_iff missing_none_iff
        receipt_ok_def counters_ok_def comp_def split: if_splits)
next
  assume right: ?right
  then have "\<forall>c\<in>set (gc_expectedCriterionIds completion). unique_texts (evidence_of completion (js_trim c))"
    using unique_texts_concat by fastforce
  then have "missing_criteria completion (map js_trim (gc_satisfiedCriterionIds completion))
      (map js_trim (gc_expectedCriterionIds completion)) = Inr []"
    using right by (simp add: missing_none_iff)
  then show ?stop
    using right by (simp add: evaluateStopReportDecision_def rbind_Inr_iff requireUniqueText_texts nonNegative_Inr_iff
        receipt_ok_def counters_ok_def comp_def)
qed

section \<open>Properties\<close>

text \<open>C38. A goal stops with a report exactly if it is achieved: the receipt, the counters and the policy are
  well formed, something is expected, nothing is unresolved, and every expected criterion is satisfied and
  has evidence of its own. How many turns or retries were used never stops a goal; a limit that is reached
  only asks for another strategy.\<close>

theorem goal_stops_iff_achieved:
  "(\<exists>report. evaluateStopReportDecision completion turn retries policy = Inr (StopAndReport report)) \<longleftrightarrow>
     receipt_ok completion \<and> counters_ok turn retries policy
     \<and> gc_expectedCriterionIds completion \<noteq> [] \<and> gc_unresolvedItemIds completion = [] \<and> all_evidenced completion
     \<and> unique_texts (concat (map (\<lambda>c. evidence_of completion (js_trim c)) (gc_expectedCriterionIds completion)))"
  unfolding stop_iff by blast

text \<open>C39. A goal whose paths are exhausted is reported as blocked only if the receipt is complete and allows
  it, no path is missing, something is unresolved, and there is evidence. The reason is a denied permission whenever
  a denial is given, which needs evidence of the denial and no safe alternative; an impossibility given with it is
  then not looked at, so even a recoverable one does not hold the stop back. Without a denial an impossibility needs
  verified facts with evidence and must not be recoverable. The report names the unresolved items, keeps the partial
  results and rests on the evidence of the exhaustion and of the reason.\<close>

theorem blocked_stop_needs_evidence:
  assumes "evaluateBlockedStopReportDecision goal exhaustion unresolved denial impossibility = Inr (BlockedStop report)"
  shows "ex_complete exhaustion \<and> ex_canFinalizeFailure exhaustion \<and> ex_missingPaths exhaustion = []
    \<and> unresolved \<noteq> [] \<and> ex_evidenceRefs exhaustion \<noteq> [] \<and> \<not> blank (ex_receiptId exhaustion)
    \<and> bs_unresolvedItemIds report = map js_trim unresolved
    \<and> bs_partialResultRefs report = map js_trim (ex_partialResultRefs exhaustion)
    \<and> (case denial of
         Some d \<Rightarrow> bs_reasonCode report = permission_denied \<and> dn_evidenceRefs d \<noteq> [] \<and> dn_safeAlternativePathIds d = []
           \<and> bs_evidenceRefs report = map js_trim (ex_evidenceRefs exhaustion @ dn_evidenceRefs d)
           \<and> (\<forall>other. evaluateBlockedStopReportDecision goal exhaustion unresolved denial other = Inr (BlockedStop report))
       | None \<Rightarrow> (case impossibility of
           Some i \<Rightarrow> bs_reasonCode report = concrete_impossibility \<and> \<not> ci_recoverable i
             \<and> ci_verifiedFacts i \<noteq> [] \<and> ci_evidenceRefs i \<noteq> []
             \<and> bs_evidenceRefs report = map js_trim (ex_evidenceRefs exhaustion @ ci_evidenceRefs i)
         | None \<Rightarrow> bs_reasonCode report = solution_paths_exhausted
             \<and> bs_evidenceRefs report = map js_trim (ex_evidenceRefs exhaustion)))"
proof (cases denial)
  case None
  then show ?thesis using assms
    by (auto simp: evaluateBlockedStopReportDecision_def rbind_Inr_iff requireUniqueText_texts Let_def
        split: if_splits option.splits)
next
  case (Some d)
  have "evaluateBlockedStopReportDecision goal exhaustion unresolved (Some d) other
      = evaluateBlockedStopReportDecision goal exhaustion unresolved (Some d) impossibility" for other
    by (simp only: evaluateBlockedStopReportDecision_def option.case Let_def)
  with Some show ?thesis using assms
    by (auto simp: evaluateBlockedStopReportDecision_def rbind_Inr_iff requireUniqueText_texts Let_def
        split: if_splits option.splits)
qed

text \<open>An action is executed only if the decision is to go on, and then once.\<close>

lemma stopped_goal_runs_nothing:
  "\<not> continues decision \<Longrightarrow> executeContinuingAction decision execute world = (NotExecuted decision, world)"
  by (simp add: executeContinuingAction_def)

definition exhausted_receipt :: ExhaustedSolutionPathReceipt where
  "exhausted_receipt = \<lparr>ex_receiptId = ''r'', ex_complete = True, ex_canFinalizeFailure = True, ex_missingPaths = [],
     ex_evidenceRefs = [''e''], ex_partialResultRefs = [], ex_workaroundGuidance = []\<rparr>"

lemma blocked_stop_needs_evidence_witness:
  "\<exists>report. evaluateBlockedStopReportDecision ''g'' exhausted_receipt [''u''] None None = Inr (BlockedStop report)
     \<and> bs_reasonCode report = solution_paths_exhausted \<and> bs_unresolvedItemIds report = [''u'']"
proof -
  have "evaluateBlockedStopReportDecision ''g'' exhausted_receipt [''u''] None None = Inr (BlockedStop
      \<lparr>bs_goalId = ''g'', bs_reasonCode = solution_paths_exhausted, bs_diagnosisReceiptId = ''r'', bs_evidenceRefs = [''e''],
       bs_unresolvedItemIds = [''u''], bs_partialResultRefs = [], bs_nextActions = []\<rparr>)"
    by code_simp
  from blocked_stop_needs_evidence [OF this] show ?thesis
    unfolding \<open>_ = Inr _\<close> by simp
qed

end
