(* ===== verification/Spec2Isabelle.thy ===== *)
theory Spec2Isabelle
  imports Structured_Work Solution_Paths Gateway_Startup Recursive_Improvement Capability_Mutation Agent_Hierarchy
    Side_Effect_Executor Nested_Delegation Queue_Backpressure Cron Approval_Registry Recovery_Strategy
    Topology_Compiler Node_Results Stop_Report
begin

text \<open>
  Verification of the core of Sponzey Knowbee, the TypeScript package \<open>packages/core\<close>. All paths
  below are relative to \<open>src/packages/core/src/\<close>.

  \<^bold>\<open>The program.\<close> Knowbee is a gateway process in which a main agent diagnoses a request with a
  language model, plans its solution, delegates steps to sub-agents and tools, and reports only
  what it has verified. The language model and the outside world are not trusted: the program
  surrounds them with deterministic contracts. Those contracts are what is modelled:

  \<^item> What the model says is bound by receipts. A diagnosis receipt binds a diagnosis to the payload
    it judged; a solution-plan receipt binds a plan to its diagnosis; a routing machine admits the
    next action only from the right state. A work is planned and its lifecycle projected from them.
  \<^item> A failure is reported only after every solution path has been reviewed.
  \<^item> Changes of the program itself (its own sources, its capabilities, its start) are state machines
    with evidence at every transition.
  \<^item> Agents form a tree kept in the database; delegation follows its edges, within limits of depth and
    number, and leaves a receipt that names the snapshot it was authorised on.
  \<^item> An effect on the outside world is an operation with a stored history; it is authorised,
    reserved, performed, observed, and compensated or handed to a human.
  \<^item> What needs the consent of a user is asked once and used once; what failed is tried another way, no way
    twice; and work stops when its goal is achieved with evidence or when it is blocked with evidence.
  \<^item> A topology of nodes is validated and compiled into a snapshot. Work orders are delegated along its
    edges with ever narrower permissions, and the results of nodes are merged and checked.
  \<^item> Work waits in bounded queues, and schedules say when it starts.

  \<^bold>\<open>Theories.\<close>

  \<^item> \<open>Prelude\<close>: what the sources use of JavaScript (trimming, numbers with their infinities, sets and
    maps in insertion order, stable sorting by a comparator, thrown errors as sums).
  \<^item> \<open>Js_Values\<close>: untyped values, as \<open>JSON.parse\<close> returns them and contracts check them.
  \<^item> \<open>Machines\<close>: the contracts of state machines as locales: final states, liveness, milestones passed
    in order, ranks, invariants, also under conditions on the events. Every machine below interprets those it satisfies.
  \<^item> \<open>Canonical_Json\<close>: \<open>canonicalize\<close> and the digests of \<open>contracts/diagnosis-action-routing.ts\<close> and
    \<open>contracts/llm-solution-plan-receipt.ts\<close>, with \<open>JSON.stringify\<close> and the decimal text of numbers, for
    payloads of any type. The normal form of a value says exactly what its text does and does not tell; equal
    digests mean equal normal forms unless the hash collides.
  \<^item> \<open>Diagnosis_Routing\<close>: \<open>contracts/diagnosis-action-routing.ts\<close> with the diagnosis records of
    \<open>contracts/work-record.ts\<close>: issue and check of receipts, the consistency of a diagnosis with the
    action it recommends, the routing machine.
  \<^item> \<open>Structured_Work\<close>: \<open>contracts/llm-solution-plan-receipt.ts\<close> and
    \<open>contracts/structured-work-lifecycle.ts\<close>: admission of a plan and projection of its lifecycle, which
    is shown to be a run of the routing machine.
  \<^item> \<open>Solution_Paths\<close>: \<open>contracts/solution-path-exhaustion.ts\<close>: when a failure or a partial result may be
    reported, and that no partial result is lost.
  \<^item> \<open>Gateway_Startup\<close>: \<open>contracts/gateway-startup-state.ts\<close>, the start of the process and its observation.
  \<^item> \<open>Recursive_Improvement\<close>: \<open>contracts/recursive-improvement-state-machine.ts\<close>: the gates a change of
    the program's own sources passes, and the evidence each end requires.
  \<^item> \<open>Capability_Mutation\<close>: \<open>capabilities/capability-mutation-state-machine.ts\<close>: the machine, its
    execution through ports that may fail or throw, receipts and logs.
  \<^item> \<open>Agent_Tree\<close>: the graph algorithms of \<open>orchestration/hierarchy.ts\<close>, with their termination and their
    equivalence with reachability, depth and paths of enabled agents.
  \<^item> \<open>Relationship_Store\<close>: the relationship contract and agent names of
    \<open>contracts/sub-agent-orchestration.ts\<close> and the table \<open>agent_relationships\<close> (\<open>db/index.ts\<close>,
    \<open>db/migrations.ts\<close>). The locale \<open>edge_store\<close> is what the service relies on; the table interprets it.
  \<^item> \<open>Agent_Hierarchy\<close>: the service of \<open>orchestration/hierarchy.ts\<close>: validation, creation and disabling of
    relationships, queries, projection, layout file. The table stays a forest below the root.
  \<^item> \<open>Delegation_Forest\<close>: \<open>orchestration/delegation-forest.ts\<close>: the validation of a snapshot of agents and
    relationships, whose search for cycles is exact, and the authorisation of one delegation.
  \<^item> \<open>Nested_Delegation\<close>: \<open>orchestration/nested-delegation.ts\<close> with
    \<open>orchestration/delegation-eligibility.ts\<close> and \<open>orchestration/agent-lifecycle.ts\<close>: budgets, depth of
    sub-sessions, and the plan of a nested delegation, every task of which is authorised.
  \<^item> \<open>Side_Effect_Operation\<close>: \<open>contracts/side-effect-operation.ts\<close> and \<open>runs/side-effect-verification.ts\<close>:
    the state machine of an operation, its identity, receipts, authorisation and verdicts.
  \<^item> \<open>Side_Effect_Store\<close>: \<open>runs/side-effect-operation-use-case.ts\<close> over the repository interface, stated as
    the locale \<open>operation_repository\<close>, and \<open>db/side-effect-operation-repository.ts\<close>, which interprets it.
    Stored histories are readable, true and append-only, provided the reserved identities were built by
    \<open>buildSideEffectOperationIdentity\<close>, as every caller does; the use case itself does not check it.
  \<^item> \<open>Side_Effect_Executor\<close>: \<open>runs/side-effect-operation-executor.ts\<close> as a process between its awaits, and
    any number of such processes on one database: an effect is performed at most once.
  \<^item> \<open>Queue_Backpressure\<close>: \<open>runs/queue-backpressure.ts\<close> as a process with shared queue objects, calls of
    \<open>runJob\<close> in progress and promises: none is lost, bounds hold, waiting jobs start in order.
  \<^item> \<open>Js_Date\<close>: the calendar and the \<open>Date\<close> methods of JavaScript, on days and milliseconds.
  \<^item> \<open>Cron\<close>: \<open>scheduler/cron.ts\<close>: the parser and both searches for the next run, the skipping one
    compared with the first matching minute.
  \<^item> \<open>Approval_Registry\<close>: \<open>runs/approval-registry.ts\<close>: the table of approvals with all its operations. Every
    row follows the life of an approval; a grant rests on a decision and is consumed once.
  \<^item> \<open>Recovery_Strategy\<close>: \<open>runs/execution-policy.ts\<close>, \<open>runs/terminal-failure-guard.ts\<close>,
    \<open>runs/recovery-strategy-ledger.ts\<close> and \<open>runs/recovery-controller.ts\<close>: as long as the ledger is passed on, no
    strategy is chosen twice in a scope and each is tried; only terminal reasons end the work.
  \<^item> \<open>Stop_Report\<close>: \<open>contracts/stop-report-decision.ts\<close>: when a goal counts as achieved and when blocked
    work may stop.
  \<^item> \<open>Work_Order\<close>: \<open>contracts/enterprise-topology.ts\<close> with \<open>topology-runtime/work-order.ts\<close>,
    \<open>topology-runtime/permission-checker.ts\<close> and \<open>topology-runtime/authority-checker.ts\<close>: work orders, their
    effective permissions, their capability policy and the authority preflight.
  \<^item> \<open>Node_Delegation\<close>: \<open>topology-runtime/delegation-planner.ts\<close> and \<open>topology-runtime/tool-planner.ts\<close>. Chains
    of planned delegations are runs of a machine whose invariant is that nothing is gained on the way.
  \<^item> \<open>Topology_Compiler\<close>: the checks of the delegation graph in \<open>topology/validator.ts\<close> and the parts of
    \<open>topology/compiler.ts\<close> that planning reads. The checks are exact, and in a snapshot that passed them every
    chain of delegations ends. \<open>compileTopology\<close> returns a snapshot only if no issue blocks it, and both kinds of
    issues of the graph do.
  \<^item> \<open>Node_Results\<close>: \<open>topology-runtime/aggregation.ts\<close>, \<open>topology-runtime/validation.ts\<close> and what
    \<open>topology-runtime/node-runtime.ts\<close> makes of a node's own outputs: the merge takes the first output in the
    order of the sources, and a valid result meets every required criterion.

  \<^bold>\<open>Correspondence.\<close> A TypeScript interface is a record with the fields in the source's order and a
  prefix per record, a union of literals a datatype (with a function giving the literal where the
  program prints it), a thrown error the left summand of a sum, a discriminated result a sum or a
  datatype with one constructor per alternative. Definitions keep the names of the sources; a
  function that the sources write as one long body is split where the proofs need it, and the parts
  are named after what they do. Database tables are lists of rows with the constraints checked by
  the statements; JSON columns are the parsed value. Functions of the host (SHA-256,
  \<open>localeCompare\<close>), callbacks, clocks and configuration are arguments, about which nothing is assumed
  unless a statement says so.

  \<^bold>\<open>Loops.\<close> Every loop is a total function: the tree walks terminate because a set of visited agents
  grows within a finite table (\<open>Agent_Tree\<close>, \<open>Delegation_Forest\<close>, \<open>Nested_Delegation\<close>), the cron
  searches because they move towards their limit, the searches of a topology because their paths or their visited
  nodes grow (\<open>Topology_Compiler\<close>), the loop of a queue because it takes waiting jobs
  away; the only loop that may not end, a cron range up to infinity, has the result \<open>None\<close>. The rest is recursion on a list. No fuel is used. An
  execution with callbacks takes a bounded number of answers, which is proved
  (\<open>Capability_Mutation\<close>, \<open>Side_Effect_Executor\<close>).

  \<^bold>\<open>Not modelled.\<close> Strings are sequences of code units up to 255; numbers in the contracts are exact,
  which differs from doubles only beyond \<open>2^53\<close>, and a number in a payload is the shortest decimal that reads back
  as the double. Payloads the serialisation throws on (a \<open>bigint\<close>, a cyclic object) are not values of the model.
  Keys of maps do not meet properties inherited from \<open>Object.prototype\<close>. A creation of a relationship that
  violates a UNIQUE constraint has no successor state in \<open>Agent_Hierarchy\<close>; a rejected value of a job is its text. The executions of side effects share one process, as
  in the program; two processes on the same database file are not covered. Deletion of rows by
  cascade, the registry of agents, and the receipt factory of \<open>tools/side-effect-runtime.ts\<close> are outside
  the model. Language-model providers, channels, tools, memory search, the HTTP interface, the user
  interfaces and the release scripts are input and output or depend on services that cannot be read
  here. In \<open>Cron\<close> the local zone is a fixed offset, the formatter of a named zone is an argument, and
  the texts for users are left out; in \<open>Queue_Backpressure\<close> the recorded events are a list and the user
  messages are left out; in \<open>Nested_Delegation\<close> the planner that proposes the tasks is an argument. Of a topology
  its entities other than nodes, tools, systems and relations are left out, with the rules of the validator on
  them; the runners that carry out plans (\<open>topology/graph-execution-runner.ts\<close>, \<open>topology-runtime/harness.ts\<close>, the
  asynchronous part of \<open>runNodeRuntime\<close>) and the timer loop of the scheduler wait for tools, models and timers at
  every step and are not modelled, only the decisions they ask for.
\<close>

end
